(* ===== verification/Sanji_Prelude.thy ===== *)
theory Sanji_Prelude
  imports Main "HOL-Library.Word"
begin

text \<open>
  The prelude of the development: the C strings and bounded copies of \<open>string.h\<close> as the
  sources use them, the allocation oracle, the return codes of \<open>error.h\<close> and \<open>http.h\<close>,
  and the first-match loops over a linked list (\<open>list_for_each_entry\<close> with a guard and an
  early exit) that \<open>component.c\<close>, \<open>resource.c\<close> and \<open>session.c\<close> share.

  A linked list hanging off a \<open>list_head\<close> is a HOL list of its nodes in list order; a
  pointer that may be null is an \<open>option\<close>.
\<close>

named_theorems lock_simps \<open>how locking operations act on the lock view of a table\<close>
named_theorems frame_simps \<open>what an operation leaves unchanged\<close>

section \<open>Return codes\<close>

abbreviation (input) SANJI_INTERNAL_ERROR :: int where "SANJI_INTERNAL_ERROR \<equiv> -2"
abbreviation (input) SANJI_DATA_ERROR :: int where "SANJI_DATA_ERROR \<equiv> -1"
abbreviation (input) SANJI_SUCCESS :: int where "SANJI_SUCCESS \<equiv> 0"
abbreviation (input) SANJI_LOCKED :: int where "SANJI_LOCKED \<equiv> 1"
abbreviation (input) SANJI_NOT_FOUND :: int where "SANJI_NOT_FOUND \<equiv> 2"

section \<open>C strings\<close>

abbreviation NUL :: char where "NUL \<equiv> CHR 0x00"

text \<open>The C string stored in a byte buffer: the bytes before the terminator.\<close>

definition cstr :: "char list \<Rightarrow> string" where
  "cstr buf = takeWhile (\<lambda>c. c \<noteq> NUL) buf"

text \<open>
  \<open>strncpy\<close> into a buffer of \<open>n\<close> bytes whose last byte is then set to the terminator:
  the C string held afterwards. This is the idiom of every name field.
\<close>

definition bounded_copy :: "nat \<Rightarrow> string \<Rightarrow> string" where
  "bounded_copy n s = take (n - 1) s"

text \<open>The character classes of \<open>ctype.h\<close> in the C locale.\<close>

definition toupper :: "char \<Rightarrow> char" where
  "toupper c = (let n = of_char c :: nat in if 97 \<le> n \<and> n \<le> 122 then char_of (n - 32) else c)"

definition tolower :: "char \<Rightarrow> char" where
  "tolower c = (let n = of_char c :: nat in if 65 \<le> n \<and> n \<le> 90 then char_of (n + 32) else c)"

definition isspace :: "char \<Rightarrow> bool" where
  "isspace c \<longleftrightarrow> c \<in> set [CHR '' '', CHR 0x09, CHR 0x0A, CHR 0x0B, CHR 0x0C, CHR 0x0D]"

text \<open>The conversion \<open>%d\<close> (and \<open>%ld\<close>) of \<open>printf\<close>.\<close>

fun decimal :: "nat \<Rightarrow> string" where
  "decimal n =
     (if n < 10 then [char_of (48 + n)] else decimal (n div 10) @ [char_of (48 + n mod 10)])"

declare decimal.simps [simp del]

definition sprintf_d :: "int \<Rightarrow> string" where
  "sprintf_d i = (if i < 0 then CHR ''-'' # decimal (nat (- i)) else decimal (nat i))"

text \<open>The bounded comparison \<open>!strncmp(a, b, n)\<close> of two C strings.\<close>

definition strncmp_eq :: "nat \<Rightarrow> string \<Rightarrow> string \<Rightarrow> bool" where
  "strncmp_eq n a b \<longleftrightarrow> take n a = take n b"

text \<open>\<open>p = strrchr(s, c); if (p) *p = 0;\<close>: cut the string at the last occurrence.\<close>

definition truncate_last :: "char \<Rightarrow> string \<Rightarrow> string" where
  "truncate_last c s =
     (if c \<in> set s then rev (tl (dropWhile (\<lambda>x. x \<noteq> c) (rev s))) else s)"

lemma length_bounded_copy [simp]: "length (bounded_copy n s) = min (length s) (n - 1)"
  by (simp add: bounded_copy_def min.commute)

lemma bounded_copy_fits [simp]: "length s < n \<Longrightarrow> bounded_copy n s = s"
  by (simp add: bounded_copy_def)

lemma bounded_copy_Nil [simp]: "bounded_copy n [] = []"
  by (simp add: bounded_copy_def)

lemma set_bounded_copy: "set (bounded_copy n s) \<subseteq> set s"
  by (simp add: bounded_copy_def set_take_subset)

lemma NUL_bounded_copy [intro]: "NUL \<notin> set s \<Longrightarrow> NUL \<notin> set (bounded_copy n s)"
  using set_bounded_copy by fastforce

lemma cstr_no_NUL [simp]: "NUL \<notin> set (cstr b)"
  by (auto simp: cstr_def dest: set_takeWhileD)

lemma cstr_append_NUL [simp]: "NUL \<notin> set s \<Longrightarrow> cstr (s @ NUL # r) = s"
  by (induction s) (auto simp: cstr_def)

lemma cstr_append_terminated: "NUL \<in> set a \<Longrightarrow> cstr (a @ b) = cstr a"
  by (induction a) (auto simp: cstr_def)

lemma cstr_replicate [simp]: "cstr (replicate n NUL) = []"
  by (cases n) (auto simp: cstr_def)

lemma length_cstr_terminated: "NUL \<in> set a \<Longrightarrow> length (cstr a) < length a"
  by (induction a) (auto simp: cstr_def)

lemma strncmp_eq_refl [simp]: "strncmp_eq n s s"
  by (simp add: strncmp_eq_def)

lemma strncmp_eq_short: "length a < n \<Longrightarrow> length b < n \<Longrightarrow> strncmp_eq n a b \<longleftrightarrow> a = b"
  by (simp add: strncmp_eq_def)

lemma strncmp_eq_le: "length a \<le> n \<Longrightarrow> length b \<le> n \<Longrightarrow> strncmp_eq n a b \<longleftrightarrow> a = b"
  by (simp add: strncmp_eq_def)

lemma truncate_last_absent [simp]: "c \<notin> set s \<Longrightarrow> truncate_last c s = s"
  by (simp add: truncate_last_def)

lemma truncate_last_split: "c \<notin> set t \<Longrightarrow> truncate_last c (s @ c # t) = s"
proof -
  assume "c \<notin> set t"
  then have "dropWhile (\<lambda>x. x \<noteq> c) (rev t @ c # rev s) = c # rev s"
    by (subst dropWhile_append2) auto
  then show ?thesis by (simp add: truncate_last_def)
qed

section \<open>The allocation oracle\<close>

text \<open>
  Each \<open>malloc\<close>, \<open>calloc\<close> or \<open>realloc\<close> whose failure the code tests asks the oracle: a list
  of the answers of the allocations to come (\<open>True\<close> is success), where an exhausted list
  answers success. So the empty list is a machine with enough memory.
\<close>

type_synonym heap = "bool list"

definition malloc :: "heap \<Rightarrow> bool \<times> heap" where
  "malloc m = (case m of [] \<Rightarrow> (True, []) | b # bs \<Rightarrow> (b, bs))"

lemma malloc_Nil [simp]: "malloc [] = (True, [])"
  by (simp add: malloc_def)

lemma malloc_Cons [simp]: "malloc (b # bs) = (b, bs)"
  by (simp add: malloc_def)

section \<open>First-match loops over a list of nodes\<close>

text \<open>
  \<open>list_for_each_entry\<close> with a guard and a \<open>return\<close> reads the first node that satisfies the
  guard: \<^const>\<open>find\<close>. Where the body writes the node or unlinks it (\<open>list_del\<close>), the
  list after the loop is:
\<close>

fun update_first :: "('a \<Rightarrow> bool) \<Rightarrow> ('a \<Rightarrow> 'a) \<Rightarrow> 'a list \<Rightarrow> 'a list" where
  "update_first P f [] = []"
| "update_first P f (x # xs) = (if P x then f x # xs else x # update_first P f xs)"

fun delete_first :: "('a \<Rightarrow> bool) \<Rightarrow> 'a list \<Rightarrow> 'a list" where
  "delete_first P [] = []"
| "delete_first P (x # xs) = (if P x then xs else x # delete_first P xs)"

lemma update_first_None: "find P xs = None \<Longrightarrow> update_first P f xs = xs"
  by (induction xs) (auto split: if_splits)

lemma delete_first_None: "find P xs = None \<Longrightarrow> delete_first P xs = xs"
  by (induction xs) (auto split: if_splits)

lemma length_update_first [simp]: "length (update_first P f xs) = length xs"
  by (induction xs) auto

lemma map_update_first:
  "(\<And>x. P x \<Longrightarrow> g (f x) = g x) \<Longrightarrow> map g (update_first P f xs) = map g xs"
  by (induction xs) auto

lemma set_update_first_subset: "set (update_first P f xs) \<subseteq> set xs \<union> f ` {x \<in> set xs. P x}"
  by (induction xs) auto

lemma set_delete_first_subset: "set (delete_first P xs) \<subseteq> set xs"
  by (induction xs) auto

lemma find_Some_mem: "find P xs = Some x \<Longrightarrow> x \<in> set xs \<and> P x"
  by (induction xs) (auto split: if_splits)

lemma find_None_iff_all: "find P xs = None \<longleftrightarrow> (\<forall>x \<in> set xs. \<not> P x)"
  by (induction xs) auto

lemma update_first_cong:
  "find P xs = Some x \<Longrightarrow> f x = g x \<Longrightarrow> update_first P f xs = update_first P g xs"
  by (induction xs) (auto split: if_splits)

lemma update_first_self: "find P xs = Some x \<Longrightarrow> update_first P (\<lambda>_. x) xs = xs"
  by (induction xs) (auto split: if_splits)

lemma list_all_update_first:
  "list_all Q xs \<Longrightarrow> (\<And>x. x \<in> set xs \<Longrightarrow> P x \<Longrightarrow> Q x \<Longrightarrow> Q (f x)) \<Longrightarrow>
   list_all Q (update_first P f xs)"
  by (induction xs) auto

lemma list_all_delete_first: "list_all Q xs \<Longrightarrow> list_all Q (delete_first P xs)"
  by (induction xs) auto

text \<open>Nodes found by their key: the loops act on the key's view of the list alone.\<close>

lemma find_key_update_first:
  assumes "\<And>x. key (f x) = key x"
  shows "find (\<lambda>x. key x = k') (update_first (\<lambda>x. key x = k) f xs) =
    (if k' = k then map_option f (find (\<lambda>x. key x = k) xs)
     else find (\<lambda>x. key x = k') xs)"
  using assms by (induction xs) auto

lemma find_key_delete_first_other:
  "k' \<noteq> k \<Longrightarrow>
   find (\<lambda>x. key x = k') (delete_first (\<lambda>x. key x = k) xs) = find (\<lambda>x. key x = k') xs"
  by (induction xs) auto

lemma find_key_delete_first_same:
  "distinct (map key xs) \<Longrightarrow> find (\<lambda>x. key x = k) (delete_first (\<lambda>x. key x = k) xs) = None"
  by (induction xs) (auto simp: find_None_iff_all, metis image_eqI)

lemma distinct_key_delete_first:
  "distinct (map key xs) \<Longrightarrow> distinct (map key (delete_first P xs))"
  by (induction xs) (auto dest: set_delete_first_subset[THEN subsetD])

lemma find_key_mem:
  "distinct (map key xs) \<Longrightarrow> x \<in> set xs \<Longrightarrow> find (\<lambda>y. key y = key x) xs = Some x"
  by (induction xs) auto

lemma find_append: "find P (xs @ ys) = (case find P xs of None \<Rightarrow> find P ys | Some x \<Rightarrow> Some x)"
  by (induction xs) auto


lemma delete_first_filter:
  "distinct (map key xs) \<Longrightarrow> delete_first (\<lambda>x. key x = i) xs = filter (\<lambda>x. key x \<noteq> i) xs"
proof (induction xs)
  case Nil
  then show ?case by simp
next
  case (Cons x xs)
  then have "filter (\<lambda>y. key y \<noteq> key x) xs = xs" by (intro filter_True) (force simp: image_iff)
  then show ?case using Cons by auto
qed

end
