(* ===== verification/Slots.thy ===== *)
theory Slots
  imports Sanji_Prelude
begin

text \<open>
  Flat arrays of fixed-width name slots. \<open>component.hook\<close> and
  \<open>resource.subscribed_component\<close> are one \<open>char *\<close> each, holding \<open>n\<close> consecutive slots of
  \<open>COMPONENT_NAME_LEN\<close> bytes, addressed as \<open>buf + i * COMPONENT_NAME_LEN\<close> and edited with
  \<open>realloc\<close>, \<open>memset\<close> and \<open>memcpy\<close>. This theory models these operations on bytes and
  shows that they implement append and removal on the list of the slots' C strings.
\<close>

section \<open>Byte operations\<close>

definition memcpy :: "char list \<Rightarrow> nat \<Rightarrow> char list \<Rightarrow> nat \<Rightarrow> nat \<Rightarrow> char list" where
  "memcpy dst d src s n = take d dst @ take n (drop s src) @ drop (d + n) dst"

definition memset :: "char list \<Rightarrow> nat \<Rightarrow> char \<Rightarrow> nat \<Rightarrow> char list" where
  "memset dst d c n = take d dst @ replicate n c @ drop (d + n) dst"

text \<open>\<open>realloc\<close> keeps the common prefix; the fresh bytes are written before they are read.\<close>

definition realloc_buf :: "char list \<Rightarrow> nat \<Rightarrow> char list" where
  "realloc_buf buf n = take n buf @ replicate (n - length buf) NUL"

text \<open>The \<open>w\<close> bytes at the address of a C string (those behind its terminator are never read).\<close>

definition slot :: "nat \<Rightarrow> string \<Rightarrow> char list" where
  "slot w s = take w (s @ replicate w NUL)"

text \<open>The C string that starts at offset \<open>i * w\<close>, and all of them.\<close>

definition slot_at :: "nat \<Rightarrow> char list \<Rightarrow> nat \<Rightarrow> string" where
  "slot_at w buf i = cstr (drop (i * w) buf)"

definition slots :: "nat \<Rightarrow> nat \<Rightarrow> char list \<Rightarrow> string list" where
  "slots w n buf = map (slot_at w buf) [0..<n]"

text \<open>
  A buffer holds \<open>n\<close> slots when it has room for them and each is terminated: then every read
  of a slot below \<open>n\<close> stays inside the slot. (The buffer may be longer: a failed allocation
  in the removal path leaves the count one below the size.)
\<close>

definition slots_ok :: "nat \<Rightarrow> nat \<Rightarrow> char list \<Rightarrow> bool" where
  "slots_ok w n buf \<longleftrightarrow>
     n * w \<le> length buf \<and> (\<forall>i < n. NUL \<in> set (take w (drop (i * w) buf)))"

text \<open>The search loop: the least index whose slot compares equal within \<open>w\<close> bytes.\<close>

definition slot_index :: "nat \<Rightarrow> nat \<Rightarrow> char list \<Rightarrow> string \<Rightarrow> nat option" where
  "slot_index w n buf s = find (\<lambda>i. strncmp_eq w (slot_at w buf i) s) [0..<n]"

text \<open>\<open>n\<close> is the old count: grow by one slot, clear it, copy \<open>w\<close> bytes, terminate it.\<close>

definition slots_append :: "nat \<Rightarrow> nat \<Rightarrow> char list \<Rightarrow> string \<Rightarrow> char list" where
  "slots_append w n buf s =
     (let b1 = realloc_buf buf (Suc n * w);
          b2 = memset b1 (n * w) NUL w;
          b3 = memcpy b2 (n * w) (slot w s) 0 w
      in b3[Suc n * w - 1 := NUL])"

text \<open>\<open>n\<close> is the new count: copy everything but slot \<open>k\<close> into a fresh cleared buffer.\<close>

definition slots_remove :: "nat \<Rightarrow> nat \<Rightarrow> char list \<Rightarrow> nat \<Rightarrow> char list" where
  "slots_remove w n buf k =
     (let tmp = replicate (n * w) NUL
      in if k = 0 then memcpy tmp 0 buf w (n * w)
         else if k = n + 1 then memcpy tmp 0 buf 0 (n * w)
         else memcpy (memcpy tmp 0 buf 0 (k * w)) (k * w) buf ((k + 1) * w) ((n - k) * w))"

section \<open>The list view\<close>

definition remove_nth :: "nat \<Rightarrow> 'a list \<Rightarrow> 'a list" where
  "remove_nth k xs = take k xs @ drop (Suc k) xs"

lemma remove_nth_0 [simp]: "remove_nth 0 (x # xs) = xs"
  by (simp add: remove_nth_def)

lemma remove_nth_Suc [simp]: "remove_nth (Suc k) (x # xs) = x # remove_nth k xs"
  by (simp add: remove_nth_def)

lemma set_remove_nth: "set (remove_nth k xs) \<subseteq> set xs"
  by (auto simp: remove_nth_def dest: in_set_takeD in_set_dropD)

lemma length_slots [simp]: "length (slots w n buf) = n"
  by (simp add: slots_def)

lemma slots_0 [simp]: "slots w 0 buf = []"
  by (simp add: slots_def)

lemma nth_slots: "i < n \<Longrightarrow> slots w n buf ! i = slot_at w buf i"
  by (simp add: slots_def)

lemma slots_ok_0 [simp]: "slots_ok w 0 []"
  by (simp add: slots_ok_def)

lemma slot_at_cong:
  assumes "take w (drop (i * w) a) = take w (drop (j * w) b)"
    and "NUL \<in> set (take w (drop (i * w) a))"
  shows "slot_at w a i = slot_at w b j"
proof -
  have "slot_at w a i = cstr (take w (drop (i * w) a))"
    unfolding slot_at_def
    by (metis append_take_drop_id assms(2) cstr_append_terminated)
  moreover have "slot_at w b j = cstr (take w (drop (j * w) b))"
    unfolding slot_at_def
    by (metis append_take_drop_id assms(1,2) cstr_append_terminated)
  ultimately show ?thesis using assms(1) by simp
qed

lemma slot_at_length:
  assumes "slots_ok w n buf" "i < n"
  shows "length (slot_at w buf i) < w"
proof -
  have t: "NUL \<in> set (take w (drop (i * w) buf))"
    using assms by (simp add: slots_ok_def)
  have "slot_at w buf i = cstr (take w (drop (i * w) buf))"
    unfolding slot_at_def by (metis append_take_drop_id t cstr_append_terminated)
  moreover have "length (cstr (take w (drop (i * w) buf))) < length (take w (drop (i * w) buf))"
    using t by (rule length_cstr_terminated)
  ultimately show ?thesis by simp
qed

lemma slots_bounded: "slots_ok w n buf \<Longrightarrow> s \<in> set (slots w n buf) \<Longrightarrow> length s < w \<and> NUL \<notin> set s"
  by (auto simp: slots_def slot_at_length) (simp add: slot_at_def)

text \<open>A buffer whose slot windows are those of another, reindexed.\<close>

lemma slots_windows:
  assumes ok: "slots_ok w m a" and len: "n * w \<le> length b"
    and win: "\<And>i. i < n \<Longrightarrow> f i < m \<and> take w (drop (i * w) b) = take w (drop (f i * w) a)"
  shows "slots_ok w n b \<and> slots w n b = map (\<lambda>i. slots w m a ! f i) [0..<n]"
proof
  have t: "NUL \<in> set (take w (drop (i * w) b))" if "i < n" for i
    using ok win[OF that] by (simp add: slots_ok_def)
  then show "slots_ok w n b" using len by (simp add: slots_ok_def)
  show "slots w n b = map (\<lambda>i. slots w m a ! f i) [0..<n]"
    unfolding slots_def
    using t win by (auto intro!: slot_at_cong simp: nth_slots[unfolded slots_def])
qed

text \<open>Bytes behind the last slot do not matter.\<close>

lemma take_window:
  assumes "i < n"
  shows "take w (drop (i * w) (take (n * w) buf)) = take w (drop (i * w) (buf :: 'a list))"
proof -
  have "i * w + w \<le> n * w" using assms by (metis mult_Suc mult_le_mono1 Suc_leI add.commute)
  then show ?thesis by (simp add: drop_take min_def)
qed

lemma slots_take:
  assumes "slots_ok w n buf"
  shows "slots_ok w n (take (n * w) buf) \<and> slots w n (take (n * w) buf) = slots w n buf"
proof -
  have "n * w \<le> length (take (n * w) buf)" using assms by (simp add: slots_ok_def)
  from slots_windows[OF assms this, of "\<lambda>i. i"] have
    "slots_ok w n (take (n * w) buf) \<and>
     slots w n (take (n * w) buf) = map (\<lambda>i. slots w n buf ! i) [0..<n]"
    by (simp add: take_window)
  moreover have "map (\<lambda>i. slots w n buf ! i) [0..<n] = slots w n buf"
    by (intro nth_equalityI) simp_all
  ultimately show ?thesis by simp
qed

lemma slots_ok_fewer: "slots_ok w n buf \<Longrightarrow> m \<le> n \<Longrightarrow> slots_ok w m buf"
  by (auto simp: slots_ok_def intro: order_trans[OF mult_le_mono1])

lemma slots_fewer: "m \<le> n \<Longrightarrow> slots w m buf = take m (slots w n buf)"
  by (simp add: slots_def take_map)

section \<open>The byte operations implement the list operations\<close>

lemma length_slot [simp]: "length (slot w s) = w"
  by (simp add: slot_def)

lemma slot_terminated: "0 < w \<Longrightarrow> NUL \<in> set ((slot w s)[w - 1 := NUL])"
  by (simp add: set_update_memI)

lemma cstr_slot:
  assumes "0 < w" "NUL \<notin> set s"
  shows "cstr ((slot w s)[w - 1 := NUL] @ r) = take (w - 1) s"
proof (cases "length s < w - 1")
  case True
  then have s: "slot w s = s @ NUL # replicate (w - length s - 1) NUL"
    by (cases "w - length s") (auto simp: slot_def)
  have "slot w s ! (w - 1) = NUL"
    using True by (simp add: slot_def nth_append)
  then have "(slot w s)[w - 1 := NUL] = slot w s"
    by (metis list_update_id)
  then show ?thesis using True assms by (simp add: s)
next
  case False
  then have "slot w s = take (w - 1) s @ [(s @ replicate w NUL) ! (w - 1)]"
    using assms(1) take_Suc_conv_app_nth[of "w - 1" "s @ replicate w NUL"]
    by (simp add: slot_def)
  then have "(slot w s)[w - 1 := NUL] = take (w - 1) s @ [NUL]"
    using False assms(1) by (simp add: list_update_append)
  moreover have "NUL \<notin> set (take (w - 1) s)"
    using assms(2) by (meson in_set_takeD)
  ultimately show ?thesis by simp
qed

lemma slots_append_bytes:
  assumes "n * w \<le> length buf" "0 < w"
  shows "slots_append w n buf s = take (n * w) buf @ (slot w s)[w - 1 := NUL]"
proof -
  let ?a = "take (n * w) buf" and ?b = "realloc_buf buf (Suc n * w)"
  have l: "length ?a = n * w" "length ?b = Suc n * w"
    using assms by (simp_all add: realloc_buf_def)
  have b: "take (n * w) ?b = ?a" using assms(1) by (simp add: realloc_buf_def)
  have "memset ?b (n * w) NUL w = ?a @ replicate w NUL"
    using l b by (simp add: memset_def add.commute)
  then have "memcpy (memset ?b (n * w) NUL w) (n * w) (slot w s) 0 w = ?a @ slot w s"
    using l by (simp add: memcpy_def)
  moreover have "Suc n * w - 1 - length ?a = w - 1" "\<not> Suc n * w - 1 < length ?a"
    using l assms by auto
  then have "(?a @ slot w s)[Suc n * w - 1 := NUL] = ?a @ (slot w s)[w - 1 := NUL]"
    by (simp only: list_update_append if_False)
  ultimately show ?thesis by (simp only: slots_append_def Let_def)
qed

lemma slots_concat:
  assumes ok: "slots_ok w n buf" and len: "length buf = n * w"
    and w: "0 < w" and l: "length b = w" and t: "NUL \<in> set b"
  shows "slots_ok w (Suc n) (buf @ b) \<and> slots w (Suc n) (buf @ b) = slots w n buf @ [cstr b]"
proof
  have win: "take w (drop (i * w) (buf @ b)) = take w (drop (i * w) buf)" if "i < n" for i
  proof -
    have "i * w + w \<le> n * w" using that by (metis mult_Suc mult_le_mono1 Suc_leI add.commute)
    then show ?thesis using len by simp
  qed
  have last: "drop (n * w) (buf @ b) = b" using len by simp
  show ok': "slots_ok w (Suc n) (buf @ b)"
    using ok len l t win last by (auto simp: slots_ok_def less_Suc_eq)
  have "slot_at w (buf @ b) i = slot_at w buf i" if "i < n" for i
    using win[OF that] ok' that by (intro slot_at_cong) (auto simp: slots_ok_def)
  moreover have "slot_at w (buf @ b) n = cstr b"
    by (simp only: slot_at_def last)
  ultimately show "slots w (Suc n) (buf @ b) = slots w n buf @ [cstr b]"
    by (simp add: slots_def)
qed

lemma slots_append_correct:
  assumes "slots_ok w n buf" "0 < w" "NUL \<notin> set s"
  shows "slots_ok w (Suc n) (slots_append w n buf s) \<and>
    slots w (Suc n) (slots_append w n buf s) = slots w n buf @ [bounded_copy w s]"
proof -
  have "cstr ((slot w s)[w - 1 := NUL]) = take (w - 1) s"
    using cstr_slot[OF assms(2,3), of "[]"] by simp
  moreover have "slots_append w n buf s = take (n * w) buf @ (slot w s)[w - 1 := NUL]"
    using assms by (simp add: slots_append_bytes slots_ok_def)
  moreover have "slots_ok w n (take (n * w) buf)" "length (take (n * w) buf) = n * w"
    "slots w n (take (n * w) buf) = slots w n buf"
    using slots_take[OF assms(1)] assms(1) by (simp_all add: slots_ok_def)
  ultimately show ?thesis
    using slots_concat[OF _ _ assms(2) _ slot_terminated[OF assms(2)], of n "take (n * w) buf" s]
    by (simp add: bounded_copy_def)
qed

lemma slots_remove_bytes:
  assumes "length buf = Suc n * w" "k \<le> n"
  shows "slots_remove w n buf k = take (k * w) buf @ drop (Suc k * w) buf"
proof (cases "k = 0")
  case True
  then show ?thesis using assms by (simp add: slots_remove_def memcpy_def)
next
  case False
  have kn: "k * w \<le> n * w" using assms(2) by simp
  have nk: "(n - k) * w = n * w - k * w" by (simp add: diff_mult_distrib)
  show ?thesis
  proof (cases "w = 0")
    case True
    then show ?thesis using assms by (simp add: slots_remove_def memcpy_def)
  next
    case w: False
    have lt: "\<not> w + n * w \<le> k * w" using kn w by linarith
    show ?thesis
      using False assms kn nk lt
      by (simp add: slots_remove_def memcpy_def Let_def algebra_simps min_def)
  qed
qed

lemma slots_remove_exact:
  assumes ok: "slots_ok w (Suc n) buf" and l: "length buf = Suc n * w" and k: "k \<le> n"
  shows "slots_ok w n (slots_remove w n buf k) \<and>
    slots w n (slots_remove w n buf k) = remove_nth k (slots w (Suc n) buf)"
proof -
  let ?b = "slots_remove w n buf k" and ?f = "\<lambda>i. if i < k then i else Suc i"
  have b: "?b = take (k * w) buf @ drop (Suc k * w) buf"
    using l k by (rule slots_remove_bytes)
  have kn: "k * w \<le> n * w" using k by simp
  have "min (w + n * w) (k * w) + (n * w - k * w) = n * w" using kn by linarith
  then have lb: "length ?b = n * w" using l by (simp add: b)
  have win: "take w (drop (i * w) ?b) = take w (drop (?f i * w) buf)" if "i < n" for i
  proof (cases "i < k")
    case True
    then have "i * w + w \<le> k * w" by (metis mult_Suc mult_le_mono1 Suc_leI add.commute)
    then show ?thesis using True l kn by (simp add: b min_def drop_take)
  next
    case False
    then have "k * w \<le> i * w" by simp
    moreover have "w = 0 \<or> \<not> w + n * w \<le> k * w" using kn by linarith
    ultimately show ?thesis using False l kn by (auto simp: b min_def algebra_simps)
  qed
  have *: "map (\<lambda>i. slots w (Suc n) buf ! ?f i) [0..<n] = remove_nth k (slots w (Suc n) buf)"
    using k by (intro nth_equalityI) (auto simp: remove_nth_def nth_append min_def)
  have "slots_ok w n ?b \<and> slots w n ?b = map (\<lambda>i. slots w (Suc n) buf ! ?f i) [0..<n]"
    using lb k by (intro slots_windows[OF ok]) (simp_all add: win)
  then show ?thesis by (simp only: *)
qed

lemma memcpy_take:
  "s + n \<le> m \<Longrightarrow> memcpy dst d (take m src) s n = memcpy dst d src s n"
  by (simp add: memcpy_def drop_take min_def)

lemma slots_remove_take:
  assumes "k \<le> n"
  shows "slots_remove w n (take (Suc n * w) buf) k = slots_remove w n buf k"
proof -
  have "k * w + (n - k) * w = n * w"
    using assms by (metis add_mult_distrib le_add_diff_inverse)
  then have "(k + 1) * w + (n - k) * w \<le> Suc n * w" "k * w \<le> Suc n * w"
    "w + n * w \<le> Suc n * w"
    by (auto simp: algebra_simps)
  then show ?thesis
    by (simp add: slots_remove_def Let_def memcpy_take del: mult_Suc)
qed

lemma slots_remove_correct:
  assumes ok: "slots_ok w (Suc n) buf" and k: "k \<le> n"
  shows "slots_ok w n (slots_remove w n buf k) \<and>
    slots w n (slots_remove w n buf k) = remove_nth k (slots w (Suc n) buf)"
proof -
  have "length (take (Suc n * w) buf) = Suc n * w" using ok by (simp add: slots_ok_def)
  from slots_remove_exact[OF conjunct1[OF slots_take[OF ok]] this k]
  show ?thesis using slots_take[OF ok] by (simp only: slots_remove_take[OF k])
qed

text \<open>The search loop finds the first slot equal to the name.\<close>

lemma slot_index_Some:
  assumes "slots_ok w n buf" "length s < w" "slot_index w n buf s = Some k"
  shows "k < n \<and> slots w n buf ! k = s \<and> (\<forall>i < k. slots w n buf ! i \<noteq> s)"
  using assms slot_at_length[OF assms(1)]
  by (fastforce simp: slot_index_def find_Some_iff nth_slots strncmp_eq_short)

lemma slot_index_None:
  assumes "slots_ok w n buf" "length s < w"
  shows "slot_index w n buf s = None \<longleftrightarrow> s \<notin> set (slots w n buf)"
  using assms slot_at_length[OF assms(1)]
  by (auto simp: slot_index_def find_None_iff_all slots_def strncmp_eq_short)

lemma remove_nth_first:
  "k < length xs \<Longrightarrow> xs ! k = x \<Longrightarrow> \<forall>i < k. xs ! i \<noteq> x \<Longrightarrow> remove_nth k xs = remove1 x xs"
proof (induction xs arbitrary: k)
  case Nil
  then show ?case by simp
next
  case (Cons y ys)
  show ?case
  proof (cases k)
    case 0
    then show ?thesis using Cons.prems by simp
  next
    case (Suc j)
    have "y \<noteq> x" using Cons.prems(3) Suc by (metis nth_Cons_0 zero_less_Suc)
    moreover have "\<forall>i < j. ys ! i \<noteq> x" using Cons.prems(3) Suc by (metis Suc_mono nth_Cons_Suc)
    ultimately show ?thesis using Cons Suc by simp
  qed
qed

text \<open>Search and cascade together remove the first occurrence.\<close>

lemma slots_remove_found:
  assumes "slots_ok w (Suc n) buf" "length s < w" "slot_index w (Suc n) buf s = Some k"
  shows "slots_ok w n (slots_remove w n buf k) \<and>
    slots w n (slots_remove w n buf k) = remove1 s (slots w (Suc n) buf)"
proof -
  from slot_index_Some[OF assms] have k: "k \<le> n" and
    r: "remove_nth k (slots w (Suc n) buf) = remove1 s (slots w (Suc n) buf)"
    by (auto intro: remove_nth_first)
  then show ?thesis using slots_remove_correct[OF assms(1) k] by simp
qed

text \<open>Arrays of slots filled one after the other, as the parsers of \<open>register_procedure\<close> do.\<close>

definition pack_slots :: "nat \<Rightarrow> string list \<Rightarrow> char list" where
  "pack_slots w ss = concat (map (\<lambda>s. (slot w s)[w - 1 := NUL]) ss)"

lemma length_pack_slots: "length (pack_slots w ss) = length ss * w"
  by (induction ss) (auto simp: pack_slots_def)

lemma pack_slots_snoc: "pack_slots w (ss @ [s]) = pack_slots w ss @ (slot w s)[w - 1 := NUL]"
  by (simp add: pack_slots_def)

lemma pack_slots_correct:
  assumes "0 < w" "\<forall>s \<in> set ss. NUL \<notin> set s"
  shows "slots_ok w (length ss) (pack_slots w ss) \<and>
    slots w (length ss) (pack_slots w ss) = map (bounded_copy w) ss"
  using assms(2)
proof (induction ss rule: rev_induct)
  case Nil
  then show ?case by (simp add: slots_ok_def)
next
  case (snoc s ss)
  have "cstr ((slot w s)[w - 1 := NUL]) = take (w - 1) s"
    using cstr_slot[OF assms(1), of s "[]"] snoc.prems by simp
  then show ?case
    using snoc slots_concat[OF _ _ assms(1) _ slot_terminated[OF assms(1)], of "length ss" _ s]
    by (simp add: length_pack_slots pack_slots_snoc bounded_copy_def)
qed

text \<open>Setting the last byte of a well-formed array to the terminator changes no slot.\<close>

lemma cstr_terminate_last: "NUL \<in> set b \<Longrightarrow> cstr (b[length b - 1 := NUL]) = cstr b"
proof (induction b)
  case Nil
  then show ?case by simp
next
  case (Cons x xs)
  then show ?case by (cases xs) (auto simp: cstr_def)
qed

lemma slots_terminate:
  assumes ok: "slots_ok w n h" and w: "0 < w"
  shows "slots_ok w n ((take (n * w) h)[n * w - 1 := NUL]) \<and>
    slots w n ((take (n * w) h)[n * w - 1 := NUL]) = slots w n h"
proof (cases n)
  case 0
  then show ?thesis by (simp add: slots_ok_def)
next
  case (Suc k)
  let ?a = "take (k * w) h" and ?l = "take w (drop (k * w) h)"
  have a: "slots_ok w k ?a" "slots w k ?a = slots w k h" "length ?a = k * w"
    using slots_take[OF slots_ok_fewer[OF ok, of k]] ok Suc by (auto simp: slots_ok_def)
  have l: "length ?l = w" "NUL \<in> set ?l" using ok Suc by (auto simp: slots_ok_def)
  have h: "take (n * w) h = ?a @ ?l"
    by (simp only: Suc mult_Suc add.commute[of w] take_add)
  have "n * w - 1 - length ?a = w - 1" "\<not> n * w - 1 < length ?a"
    using Suc w a(3) by auto
  then have b: "(take (n * w) h)[n * w - 1 := NUL] = ?a @ ?l[w - 1 := NUL]"
    by (simp only: h list_update_append if_False)
  have t: "NUL \<in> set (?l[w - 1 := NUL])" using l w by (simp add: set_update_memI)
  have c: "cstr (?l[w - 1 := NUL]) = slot_at w h k"
    using cstr_terminate_last[OF l(2)] l cstr_append_terminated[OF l(2), of "drop w (drop (k * w) h)"]
    by (simp only: slot_at_def append_take_drop_id)
  have "slots_ok w (Suc k) (?a @ ?l[w - 1 := NUL]) \<and>
    slots w (Suc k) (?a @ ?l[w - 1 := NUL]) = slots w k ?a @ [cstr (?l[w - 1 := NUL])]"
    using slots_concat[OF a(1,3) w _ t] l by simp
  then show ?thesis unfolding b by (simp only: Suc a c) (simp add: slots_def)
qed

lemma memcpy_all: "length h \<ge> n \<Longrightarrow> memcpy (replicate n NUL) 0 h 0 n = take n h"
  by (simp add: memcpy_def)

end
