(* ===== verification/Lock_Table.thy ===== *)
theory Lock_Table
  imports Sanji_Prelude
begin

text \<open>
  The interface between \<open>session.c\<close> and the two registries. A session locks and unlocks
  resources and components by name, one after the other, and returns at the first error.
  The locale \<open>lock_table\<close> states what one call promises in terms of the lock view
  \<open>held\<close> (\<open>None\<close>: no node of that name; \<open>Some b\<close>: there is one, locked iff \<open>b\<close>);
  the loops over a whole chain of names are studied here once, and hold for every registry
  that interprets the locale.
\<close>

text \<open>
  The loop \<open>for (i = 0; i < count; i++) { ret = op(list, name_i); if (ret) return ret; }\<close>
  of \<open>session_node_lock_by_step\<close> and \<open>session_node_unlock_by_step\<close>.
\<close>

fun run_names :: "('s \<Rightarrow> 'n \<Rightarrow> int \<times> 's) \<Rightarrow> 's \<Rightarrow> 'n list \<Rightarrow> int \<times> 's" where
  "run_names act s [] = (0, s)"
| "run_names act s (n # ns) =
     (let (ret, s') = act s n in if ret \<noteq> 0 then (ret, s') else run_names act s' ns)"

lemma run_names_append:
  "run_names act s (xs @ ys) =
     (let (ret, s') = run_names act s xs in if ret \<noteq> 0 then (ret, s') else run_names act s' ys)"
  by (induction xs arbitrary: s) (auto simp: Let_def split: prod.split)

locale lock_table =
  fixes lock :: "'s \<Rightarrow> 'n \<Rightarrow> int \<times> 's"
    and unlock :: "'s \<Rightarrow> 'n \<Rightarrow> int \<times> 's"
    and held :: "'s \<Rightarrow> 'n \<Rightarrow> bool option"
  assumes lock_free: "held s n = Some False \<Longrightarrow>
      fst (lock s n) = 0 \<and> held (snd (lock s n)) = (held s)(n \<mapsto> True)"
    and lock_refused: "held s n \<noteq> Some False \<Longrightarrow> fst (lock s n) \<noteq> 0 \<and> snd (lock s n) = s"
    and unlock_found: "held s n = Some b \<Longrightarrow>
      fst (unlock s n) = 0 \<and> held (snd (unlock s n)) = (held s)(n \<mapsto> False)"
    and unlock_missing: "held s n = None \<Longrightarrow> fst (unlock s n) \<noteq> 0 \<and> snd (unlock s n) = s"
begin

lemma lock_ok_iff: "fst (lock s n) = 0 \<longleftrightarrow> held s n = Some False"
  using lock_free lock_refused by blast

lemma unlock_ok_iff: "fst (unlock s n) = 0 \<longleftrightarrow> n \<in> dom (held s)"
  using unlock_found unlock_missing by (metis domD domIff)

text \<open>A chain is locked iff its names are distinct, registered and free.\<close>

lemma lock_all_iff:
  "fst (run_names lock s ns) = 0 \<longleftrightarrow> distinct ns \<and> (\<forall>n \<in> set ns. held s n = Some False)"
proof (induction ns arbitrary: s)
  case Nil
  then show ?case by simp
next
  case (Cons n ns)
  show ?case
  proof (cases "held s n = Some False")
    case True
    then have "fst (lock s n) = 0" and h: "held (snd (lock s n)) = (held s)(n \<mapsto> True)"
      using lock_free by blast+
    then show ?thesis
      using True by (auto simp: Cons.IH Let_def case_prod_beta)
  next
    case False
    then show ?thesis using lock_refused by (auto simp: Let_def case_prod_beta)
  qed
qed

lemma lock_all_held:
  "fst (run_names lock s ns) = 0 \<Longrightarrow>
   held (snd (run_names lock s ns)) = (\<lambda>n. if n \<in> set ns then Some True else held s n)"
proof (induction ns arbitrary: s)
  case Nil
  then show ?case by simp
next
  case (Cons n ns)
  from Cons.prems have ok: "fst (lock s n) = 0"
    by (auto simp: Let_def case_prod_beta split: if_splits)
  with Cons show ?case
    using lock_free[of s n]
    by (auto simp: Let_def case_prod_beta lock_ok_iff fun_eq_iff)
qed

text \<open>Whatever the outcome, nothing is released and no node appears or disappears.\<close>

lemma lock_all_mono:
  "held (snd (run_names lock s ns)) n = held s n \<or>
   (n \<in> set ns \<and> held s n = Some False \<and> held (snd (run_names lock s ns)) n = Some True)"
proof (induction ns arbitrary: s)
  case Nil
  then show ?case by simp
next
  case (Cons m ns)
  show ?case
  proof (cases "held s m = Some False")
    case True
    then have "fst (lock s m) = 0" and h: "held (snd (lock s m)) = (held s)(m \<mapsto> True)"
      using lock_free by blast+
    then show ?thesis
      using True Cons[of "snd (lock s m)"] by (auto simp: Let_def case_prod_beta split: if_splits)
  next
    case False
    then show ?thesis using lock_refused by (auto simp: Let_def case_prod_beta)
  qed
qed

lemma lock_all_dom: "dom (held (snd (run_names lock s ns))) = dom (held s)"
  using lock_all_mono by (auto simp: dom_def) (metis option.distinct(1))+

text \<open>Unlocking a chain of registered names always succeeds and releases all of them.\<close>

lemma unlock_all:
  "set ns \<subseteq> dom (held s) \<Longrightarrow>
   fst (run_names unlock s ns) = 0 \<and>
   held (snd (run_names unlock s ns)) = (\<lambda>n. if n \<in> set ns then Some False else held s n)"
proof (induction ns arbitrary: s)
  case Nil
  then show ?case by simp
next
  case (Cons n ns)
  then obtain b where "held s n = Some b" by auto
  then have u: "fst (unlock s n) = 0" "held (snd (unlock s n)) = (held s)(n \<mapsto> False)"
    using unlock_found by blast+
  have "set ns \<subseteq> dom (held (snd (unlock s n)))"
    using Cons.prems by (auto simp: u)
  from Cons.IH[OF this] show ?case
    using u by (auto simp: Let_def case_prod_beta fun_eq_iff)
qed

lemma unlock_all_iff: "fst (run_names unlock s ns) = 0 \<longleftrightarrow> set ns \<subseteq> dom (held s)"
proof
  show "fst (run_names unlock s ns) = 0" if "set ns \<subseteq> dom (held s)"
    using unlock_all[OF that] by simp
  show "set ns \<subseteq> dom (held s)" if "fst (run_names unlock s ns) = 0"
    using that
  proof (induction ns arbitrary: s)
    case Nil
    then show ?case by simp
  next
    case (Cons n ns)
    then have ok: "fst (unlock s n) = 0"
      by (auto simp: Let_def case_prod_beta split: if_splits)
    then obtain b where b: "held s n = Some b" by (auto simp: unlock_ok_iff)
    have "set ns \<subseteq> dom (held (snd (unlock s n)))"
      using Cons ok by (auto simp: Let_def case_prod_beta)
    then show ?case using unlock_found[OF b] b by auto
  qed
qed

lemma unlock_all_mono:
  "held (snd (run_names unlock s ns)) n = held s n \<or>
   (n \<in> set ns \<and> n \<in> dom (held s) \<and> held (snd (run_names unlock s ns)) n = Some False)"
proof (induction ns arbitrary: s)
  case Nil
  then show ?case by simp
next
  case (Cons m ns)
  show ?case
  proof (cases "held s m")
    case None
    then show ?thesis using unlock_missing by (auto simp: Let_def case_prod_beta)
  next
    case (Some b)
    then show ?thesis
      using Cons[of "snd (unlock s m)"] unlock_found[OF Some]
      by (auto simp: Let_def case_prod_beta split: if_splits)
  qed
qed

text \<open>Locking a chain and unlocking it again restores every lock.\<close>

lemma lock_unlock_all:
  assumes "fst (run_names lock s ns) = 0"
  shows "fst (run_names unlock (snd (run_names lock s ns)) ns) = 0 \<and>
    held (snd (run_names unlock (snd (run_names lock s ns)) ns)) = held s"
proof -
  have free: "\<forall>n \<in> set ns. held s n = Some False" using assms by (simp add: lock_all_iff)
  have "set ns \<subseteq> dom (held (snd (run_names lock s ns)))" using free by (auto simp: lock_all_dom)
  from unlock_all[OF this] show ?thesis
    using free lock_all_held[OF assms] by (auto simp: fun_eq_iff)
qed

end

text \<open>A registry whose locking operations leave everything but the locks alone.\<close>

locale framed_lock_table = lock_table +
  fixes shape :: "'s \<Rightarrow> 'f"
  assumes shape_lock: "shape (snd (lock s n)) = shape s"
    and shape_unlock: "shape (snd (unlock s n)) = shape s"
begin

lemma shape_lock_all: "shape (snd (run_names lock s ns)) = shape s"
  by (induction ns arbitrary: s) (auto simp: Let_def case_prod_beta shape_lock)

lemma shape_unlock_all: "shape (snd (run_names unlock s ns)) = shape s"
  by (induction ns arbitrary: s) (auto simp: Let_def case_prod_beta shape_unlock)

end

end
