(* ===== verification/Components.thy ===== *)
theory Components
  imports Slots Lock_Table
begin

text \<open>
  The component registry of \<open>src/component.c\<close>: the list of registered components (models
  and views), each with its tunnel, its role, its time to live, its lock and the names of
  the components it hooks. \<open>head\<close> is \<open>None\<close> for a null list head. The unsigned
  \<open>hook_count\<close> is a natural number: it counts slots of an array in memory.
\<close>

abbreviation (input) COMPONENT_NAME_LEN :: nat where "COMPONENT_NAME_LEN \<equiv> 32"
abbreviation (input) COMPONENT_DESCRIPTION_LEN :: nat where "COMPONENT_DESCRIPTION_LEN \<equiv> 256"
abbreviation (input) COMPONENT_TUNNEL_LEN :: nat where "COMPONENT_TUNNEL_LEN \<equiv> 64"
abbreviation (input) COMPONENT_ROLE_LEN :: nat where "COMPONENT_ROLE_LEN \<equiv> 16"

section \<open>State\<close>

record component =
  c_name :: string
  c_description :: string
  c_tunnel :: string
  c_role :: string
  c_hook :: "char list option"
  c_hook_count :: nat
  c_ttl :: "32 word"
  c_lock :: "32 word"

type_synonym components = "component list option"

text \<open>The bytes behind a pointer that may be null, and the null-tolerant \<open>strncpy\<close> of a field.\<close>

definition bytes_of :: "char list option \<Rightarrow> char list" where
  "bytes_of p = (case p of None \<Rightarrow> [] | Some b \<Rightarrow> b)"

definition field_copy :: "nat \<Rightarrow> string option \<Rightarrow> string" where
  "field_copy n p = (case p of None \<Rightarrow> [] | Some s \<Rightarrow> bounded_copy n s)"

text \<open>Writing back a node reached by the loop guard \<open>P\<close>.\<close>

definition store_node :: "('a \<Rightarrow> bool) \<Rightarrow> 'a option \<Rightarrow> 'a list \<Rightarrow> 'a list" where
  "store_node P p xs = (case p of None \<Rightarrow> xs | Some x \<Rightarrow> update_first P (\<lambda>_. x) xs)"

section \<open>Operations\<close>

definition component_init :: "heap \<Rightarrow> heap \<times> components" where
  "component_init m = (let (ok, m') = malloc m in (m', if ok then Some [] else None))"

text \<open>
  The array has \<open>hook_count\<close> slots. With an array and a count of 0 the code writes the byte before
  the array, which the model leaves out: the handlers pass a null pointer or at least one slot
  (\<open>register_hook_slots\<close> in \<open>Register\<close>).
\<close>

definition component_add_node ::
    "heap \<Rightarrow> components \<Rightarrow> string option \<Rightarrow> string option \<Rightarrow> string option \<Rightarrow> string option \<Rightarrow>
     char list option \<Rightarrow> nat \<Rightarrow> 32 word \<Rightarrow> 32 word \<Rightarrow> int \<times> heap \<times> components" where
  "component_add_node m head name description tunnel role hook hook_count ttl lock =
     (case head of
        None \<Rightarrow> (1, m, None)
      | Some cs \<Rightarrow>
          (let (ok, m1) = malloc m in
           if \<not> ok then (1, m1, head) else
           let node = \<lparr> c_name = field_copy COMPONENT_NAME_LEN name,
                        c_description = field_copy COMPONENT_DESCRIPTION_LEN description,
                        c_tunnel = field_copy COMPONENT_TUNNEL_LEN tunnel,
                        c_role = field_copy COMPONENT_ROLE_LEN role,
                        c_hook = None, c_hook_count = hook_count,
                        c_ttl = ttl, c_lock = lock \<rparr>
           in case hook of
                None \<Rightarrow> (0, m1, Some (cs @ [node]))
              | Some h \<Rightarrow>
                  (let (ok2, m2) = malloc m1 in
                   if \<not> ok2 then (1, m2, head)
                   else let n = hook_count * COMPONENT_NAME_LEN;
                            b = (memcpy (replicate n NUL) 0 h 0 n)[n - 1 := NUL]
                        in (0, m2, Some (cs @ [node\<lparr>c_hook := Some b\<rparr>])))))"

definition component_delete_first_name :: "components \<Rightarrow> string option \<Rightarrow> int \<times> components" where
  "component_delete_first_name head name =
     (case (head, name) of
        (Some cs, Some n) \<Rightarrow>
          (case find (\<lambda>c. c_name c = n) cs of
             None \<Rightarrow> (SANJI_SUCCESS, head)
           | Some c \<Rightarrow>
               if c_lock c = 0
               then (SANJI_SUCCESS, Some (delete_first (\<lambda>c. c_name c = n) cs))
               else (SANJI_LOCKED, head))
      | _ \<Rightarrow> (1, head))"

definition component_is_registered :: "components \<Rightarrow> string option \<Rightarrow> int" where
  "component_is_registered head name =
     (case (head, name) of
        (Some cs, Some n) \<Rightarrow> (case find (\<lambda>c. c_name c = n) cs of None \<Rightarrow> 0 | Some _ \<Rightarrow> 1)
      | _ \<Rightarrow> SANJI_DATA_ERROR)"

text \<open>No null test in the code: a null head faults, which is \<open>None\<close>.\<close>

definition component_is_locked :: "components \<Rightarrow> string \<Rightarrow> int option" where
  "component_is_locked head name =
     map_option (\<lambda>cs. case find (\<lambda>c. c_name c = name) cs of
       None \<Rightarrow> 0 | Some c \<Rightarrow> sint (c_lock c)) head"

definition component_node_is_locked :: "component \<Rightarrow> int" where
  "component_node_is_locked c = sint (c_lock c)"

definition component_lookup_node_by_name :: "components \<Rightarrow> string \<Rightarrow> component option" where
  "component_lookup_node_by_name head name =
     (case head of None \<Rightarrow> None | Some cs \<Rightarrow> find (\<lambda>c. c_name c = name) cs)"

definition component_node_is_given_role :: "component option \<Rightarrow> string option \<Rightarrow> int" where
  "component_node_is_given_role node role =
     (case (node, role) of
        (Some c, Some r) \<Rightarrow> (if c_role c = r then 1 else 0)
      | _ \<Rightarrow> 0)"

definition component_is_given_role :: "components \<Rightarrow> string \<Rightarrow> string option \<Rightarrow> int" where
  "component_is_given_role head name role =
     (case component_lookup_node_by_name head name of
        None \<Rightarrow> 0 | Some c \<Rightarrow> component_node_is_given_role (Some c) role)"

definition component_is_unique_tunnel :: "components \<Rightarrow> string option \<Rightarrow> int" where
  "component_is_unique_tunnel head tunnel =
     (case (head, tunnel) of
        (Some cs, Some t) \<Rightarrow> (case find (\<lambda>c. c_tunnel c = t) cs of None \<Rightarrow> 1 | Some _ \<Rightarrow> 0)
      | _ \<Rightarrow> 0)"

text \<open>
  Growing the hook array of one unlocked node: on a failed \<open>realloc\<close> the node keeps the lock
  and the incremented count that were written before.
\<close>

definition component_node_append_hook ::
    "heap \<Rightarrow> component \<Rightarrow> string \<Rightarrow> int \<times> heap \<times> component" where
  "component_node_append_hook m c hook =
     (let c1 = c\<lparr>c_lock := 1, c_hook_count := Suc (c_hook_count c)\<rparr>;
          (ok, m1) = malloc m
      in if \<not> ok then (SANJI_DATA_ERROR, m1, c1)
         else (SANJI_SUCCESS, m1,
           c1\<lparr>c_hook := Some (slots_append COMPONENT_NAME_LEN (c_hook_count c)
                             (bytes_of (c_hook c)) hook),
              c_lock := 0\<rparr>))"

definition component_append_hook_by_name ::
    "heap \<Rightarrow> components \<Rightarrow> string option \<Rightarrow> string option \<Rightarrow> int \<times> heap \<times> components" where
  "component_append_hook_by_name m head name hook =
     (case (head, name, hook) of
        (Some cs, Some n, Some h) \<Rightarrow>
          (let is_registered = component_is_registered head name in
           if is_registered = 0 \<or> is_registered = -1 then (SANJI_DATA_ERROR, m, head) else
           case find (\<lambda>c. c_name c = n) cs of
             None \<Rightarrow> (SANJI_SUCCESS, m, head)
           | Some c \<Rightarrow>
               if c_lock c = 0
               then let (ret, m1, c1) = component_node_append_hook m c h
                    in (ret, m1, Some (update_first (\<lambda>c. c_name c = n) (\<lambda>_. c1) cs))
               else (SANJI_LOCKED, m, head))
      | _ \<Rightarrow> (SANJI_DATA_ERROR, m, head))"

text \<open>
  Removing one hook of an unlocked node with at least two of them. The branch for the last
  slot compares with the count after it was decremented.
\<close>

definition component_node_remove_hook ::
    "heap \<Rightarrow> component \<Rightarrow> string \<Rightarrow> int \<times> heap \<times> component" where
  "component_node_remove_hook m c hook =
     (case slot_index COMPONENT_NAME_LEN (c_hook_count c) (bytes_of (c_hook c)) hook of
        None \<Rightarrow> (SANJI_SUCCESS, m, c\<lparr>c_lock := 0\<rparr>)
      | Some k \<Rightarrow>
          (let n = c_hook_count c - 1;
               (ok, m1) = malloc m
           in if \<not> ok then (SANJI_DATA_ERROR, m1, c\<lparr>c_hook_count := n, c_lock := 0\<rparr>)
              else (SANJI_SUCCESS, m1,
                c\<lparr>c_hook_count := n,
                  c_hook := Some (slots_remove COMPONENT_NAME_LEN n (bytes_of (c_hook c)) k),
                  c_lock := 0\<rparr>)))"

definition component_remove_hook_by_name ::
    "heap \<Rightarrow> components \<Rightarrow> string option \<Rightarrow> string option \<Rightarrow> int \<times> heap \<times> components" where
  "component_remove_hook_by_name m head name hook =
     (case (head, name, hook) of
        (Some cs, Some n, Some h) \<Rightarrow>
          (let is_registered = component_is_registered head name in
           if is_registered = -1 then (SANJI_DATA_ERROR, m, head)
           else if is_registered = 0 then (SANJI_SUCCESS, m, head) else
           case find (\<lambda>c. c_name c = n) cs of
             None \<Rightarrow> (SANJI_SUCCESS, m, head)
           | Some c \<Rightarrow>
               if c_lock c = 0
               then if c_hook_count c = 0 \<or> c_hook_count c = 1
                    then (SANJI_SUCCESS, m, Some (delete_first (\<lambda>c. c_name c = n) cs))
                    else let (ret, m1, c1) = component_node_remove_hook m (c\<lparr>c_lock := 1\<rparr>) h
                         in (ret, m1, Some (update_first (\<lambda>c. c_name c = n) (\<lambda>_. c1) cs))
               else (SANJI_LOCKED, m, head))
      | _ \<Rightarrow> (SANJI_DATA_ERROR, m, head))"

definition component_node_get_hook :: "component \<Rightarrow> char list option" where
  "component_node_get_hook c = c_hook c"

definition component_node_get_hook_count :: "component \<Rightarrow> int" where
  "component_node_get_hook_count c = int (c_hook_count c)"

text \<open>
  The names of all components that hook \<open>hook\<close>, in list order. The flat array the code
  returns is the list of its slots (null for the empty list); the output parameter
  \<open>names_count\<close> is its length, 0 after a failed \<open>realloc\<close>.
\<close>

fun names_by_hook_loop ::
    "heap \<Rightarrow> string \<Rightarrow> string list \<Rightarrow> component list \<Rightarrow> heap \<times> string list" where
  "names_by_hook_loop m hook names [] = (m, names)"
| "names_by_hook_loop m hook names (c # cs) =
     (case slot_index COMPONENT_NAME_LEN (c_hook_count c) (bytes_of (c_hook c)) hook of
        None \<Rightarrow> names_by_hook_loop m hook names cs
      | Some _ \<Rightarrow>
          (let (ok, m1) = malloc m in
           if \<not> ok then (m1, [])
           else names_by_hook_loop m1 hook (names @ [c_name c]) cs))"

definition component_get_names_by_hook ::
    "heap \<Rightarrow> components \<Rightarrow> string option \<Rightarrow> heap \<times> string list" where
  "component_get_names_by_hook m head hook =
     (case (head, hook) of
        (Some cs, Some h) \<Rightarrow> names_by_hook_loop m h [] cs
      | _ \<Rightarrow> (m, []))"

definition component_node_lock :: "component option \<Rightarrow> int \<times> component option" where
  "component_node_lock node =
     (case node of
        None \<Rightarrow> (SANJI_DATA_ERROR, None)
      | Some c \<Rightarrow> if c_lock c \<noteq> 0 then (SANJI_LOCKED, node) else (0, Some (c\<lparr>c_lock := 1\<rparr>)))"

definition component_node_unlock :: "component option \<Rightarrow> int \<times> component option" where
  "component_node_unlock node =
     (case node of
        None \<Rightarrow> (SANJI_DATA_ERROR, None)
      | Some c \<Rightarrow> (0, Some (c\<lparr>c_lock := 0\<rparr>)))"

definition component_lock_by_name :: "components \<Rightarrow> string option \<Rightarrow> int \<times> components" where
  "component_lock_by_name head name =
     (case (head, name) of
        (Some cs, Some n) \<Rightarrow>
          (case find (\<lambda>c. c_name c = n) cs of
             None \<Rightarrow> (SANJI_NOT_FOUND, head)
           | Some c \<Rightarrow> let (ret, c1) = component_node_lock (Some c)
                       in (ret, Some (store_node (\<lambda>c. c_name c = n) c1 cs)))
      | _ \<Rightarrow> (SANJI_DATA_ERROR, head))"

definition component_unlock_by_name :: "components \<Rightarrow> string option \<Rightarrow> int \<times> components" where
  "component_unlock_by_name head name =
     (case (head, name) of
        (Some cs, Some n) \<Rightarrow>
          (case find (\<lambda>c. c_name c = n) cs of
             None \<Rightarrow> (SANJI_NOT_FOUND, head)
           | Some c \<Rightarrow> let (ret, c1) = component_node_unlock (Some c)
                       in (ret, Some (store_node (\<lambda>c. c_name c = n) c1 cs)))
      | _ \<Rightarrow> (SANJI_DATA_ERROR, head))"

definition component_get_tunnel_by_name :: "components \<Rightarrow> string option \<Rightarrow> string option" where
  "component_get_tunnel_by_name head name =
     (case (head, name) of
        (Some cs, Some n) \<Rightarrow> map_option c_tunnel (find (\<lambda>c. c_name c = n) cs)
      | _ \<Rightarrow> None)"

section \<open>Well-formedness and the hook view\<close>

definition c_hooks :: "component \<Rightarrow> string list" where
  "c_hooks c = slots COMPONENT_NAME_LEN (c_hook_count c) (bytes_of (c_hook c))"

definition component_ok :: "component \<Rightarrow> bool" where
  "component_ok c \<longleftrightarrow>
     length (c_name c) < COMPONENT_NAME_LEN \<and> length (c_tunnel c) < COMPONENT_TUNNEL_LEN \<and>
     length (c_role c) < COMPONENT_ROLE_LEN \<and>
     length (c_description c) < COMPONENT_DESCRIPTION_LEN \<and>
     NUL \<notin> set (c_name c) \<and>
     slots_ok COMPONENT_NAME_LEN (c_hook_count c) (bytes_of (c_hook c))"

text \<open>The registry invariant: every node is well formed and names are unique.\<close>

definition components_ok :: "components \<Rightarrow> bool" where
  "components_ok head =
     (case head of None \<Rightarrow> True
      | Some cs \<Rightarrow> list_all component_ok cs \<and> distinct (map c_name cs))"

lemma component_ok_lock [simp]: "component_ok (c\<lparr>c_lock := l\<rparr>) = component_ok c"
  by (simp add: component_ok_def)

lemma c_hooks_lock [simp]: "c_hooks (c\<lparr>c_lock := l\<rparr>) = c_hooks c"
  by (simp add: c_hooks_def)

lemma length_field_copy: "0 < n \<Longrightarrow> length (field_copy n p) < n"
  by (auto simp: field_copy_def split: option.split)

lemma NUL_field_copy: "(\<And>s. p = Some s \<Longrightarrow> NUL \<notin> set s) \<Longrightarrow> NUL \<notin> set (field_copy n p)"
  by (auto simp: field_copy_def split: option.split dest: set_bounded_copy[THEN subsetD])

lemma component_is_registered_Some [simp]:
  "component_is_registered (Some cs) (Some n) = (if n \<in> c_name ` set cs then 1 else 0)"
  by (auto simp: component_is_registered_def find_None_iff_all image_iff split: option.splits
      dest!: find_Some_mem)

lemma component_lookup_Some [simp]:
  "component_lookup_node_by_name (Some cs) n = find (\<lambda>c. c_name c = n) cs"
  by (simp add: component_lookup_node_by_name_def)

section \<open>Hooks: the byte operations refine list operations\<close>

lemma component_node_append_hook_ok:
  assumes "component_ok c" "NUL \<notin> set hook" "component_node_append_hook m c hook = (0, m', c')"
  shows "component_ok c' \<and> c_hooks c' = c_hooks c @ [bounded_copy COMPONENT_NAME_LEN hook] \<and>
    c' = c\<lparr>c_hook_count := c_hook_count c', c_hook := c_hook c', c_lock := 0\<rparr>"
proof -
  have "slots_ok 32 (c_hook_count c) (bytes_of (c_hook c))"
    using assms(1) by (simp add: component_ok_def)
  from slots_append_correct[OF this _ assms(2)] show ?thesis
    using assms(1,3)
    by (auto simp: component_node_append_hook_def component_ok_def c_hooks_def bytes_of_def Let_def
        split: prod.splits if_splits)
qed

lemma component_node_remove_hook_ok:
  assumes "component_ok c" "length hook < COMPONENT_NAME_LEN" "c_hook_count c \<noteq> 0"
    and "component_node_remove_hook m c hook = (0, m', c')"
  shows "component_ok c' \<and> c_hooks c' = remove1 hook (c_hooks c) \<and>
    c' = c\<lparr>c_hook_count := c_hook_count c', c_hook := c_hook c', c_lock := 0\<rparr>"
proof -
  obtain n where n: "c_hook_count c = Suc n" using assms(3) by (cases "c_hook_count c") auto
  have ok: "slots_ok 32 (Suc n) (bytes_of (c_hook c))"
    using assms(1) n by (simp add: component_ok_def)
  show ?thesis
  proof (cases "slot_index 32 (Suc n) (bytes_of (c_hook c)) hook")
    case None
    then have "hook \<notin> set (c_hooks c)"
      using slot_index_None[OF ok assms(2)] n by (simp add: c_hooks_def)
    then show ?thesis
      using None assms(1,4) n by (auto simp: component_node_remove_hook_def remove1_idem)
  next
    case (Some k)
    from slots_remove_found[OF ok assms(2) this] show ?thesis
      using Some assms(1,4) n
      by (auto simp: component_node_remove_hook_def component_ok_def c_hooks_def bytes_of_def Let_def
          split: prod.splits if_splits)
  qed
qed

text \<open>Even a failed allocation in the removal path leaves a well-formed node.\<close>

lemma component_node_remove_hook_always_ok:
  assumes "component_ok c" "length hook < COMPONENT_NAME_LEN" "c_hook_count c \<noteq> 0"
  shows "component_ok (snd (snd (component_node_remove_hook m c hook)))"
proof -
  have "slots_ok 32 (c_hook_count c - 1) (bytes_of (c_hook c))"
    by (rule slots_ok_fewer[of _ "c_hook_count c"]) (use assms(1) in \<open>auto simp: component_ok_def\<close>)
  then have fewer: "component_ok (c\<lparr>c_hook_count := c_hook_count c - 1, c_lock := 0\<rparr>)"
    using assms(1) by (simp add: component_ok_def)
  obtain ret m' c' where r: "component_node_remove_hook m c hook = (ret, m', c')"
    by (metis prod_cases3)
  show ?thesis
  proof (cases "ret = 0")
    case True
    then show ?thesis using component_node_remove_hook_ok[OF assms] r by simp
  next
    case False
    then have "c' = c\<lparr>c_hook_count := c_hook_count c - 1, c_lock := 0\<rparr>"
      using r by (auto simp: component_node_remove_hook_def Let_def
          split: prod.splits if_splits option.splits)
    then show ?thesis using fewer r by simp
  qed
qed

text \<open>Searching a hook is membership in the hook view.\<close>

lemma slot_index_hooks:
  "component_ok c \<Longrightarrow> length h < COMPONENT_NAME_LEN \<Longrightarrow>
   slot_index COMPONENT_NAME_LEN (c_hook_count c) (bytes_of (c_hook c)) h = None \<longleftrightarrow>
   h \<notin> set (c_hooks c)"
  by (simp add: component_ok_def c_hooks_def slot_index_None)

lemma names_by_hook_loop_eq:
  assumes "list_all component_ok cs" "length h < COMPONENT_NAME_LEN"
  shows "snd (names_by_hook_loop m h acc cs) = [] \<or>
    snd (names_by_hook_loop m h acc cs) =
      acc @ map c_name (filter (\<lambda>c. h \<in> set (c_hooks c)) cs)"
  using assms(1)
proof (induction cs arbitrary: m acc)
  case Nil
  then show ?case by simp
next
  case (Cons c cs)
  have IH: "snd (names_by_hook_loop m h (acc @ [c_name c]) cs) = [] \<or>
    snd (names_by_hook_loop m h (acc @ [c_name c]) cs) =
      acc @ c_name c # map c_name (filter (\<lambda>c. h \<in> set (c_hooks c)) cs)" for m acc
    using Cons.IH[of m "acc @ [c_name c]"] Cons.prems by simp
  show ?case
  proof (cases "h \<in> set (c_hooks c)")
    case True
    then obtain k where
      "slot_index COMPONENT_NAME_LEN (c_hook_count c) (bytes_of (c_hook c)) h = Some k"
      using slot_index_hooks[of c h] assms(2) Cons.prems by auto
    with True show ?thesis using IH by (simp add: Let_def split: prod.split)
  next
    case False
    then show ?thesis using slot_index_hooks[of c h] assms(2) Cons by simp
  qed
qed

lemma names_by_hook_loop_enough:
  assumes "list_all component_ok cs" "length h < COMPONENT_NAME_LEN"
  shows "names_by_hook_loop [] h acc cs =
    ([], acc @ map c_name (filter (\<lambda>c. h \<in> set (c_hooks c)) cs))"
  using assms(1)
proof (induction cs arbitrary: acc)
  case Nil
  then show ?case by simp
next
  case (Cons c cs)
  then show ?case
    using slot_index_hooks[of c h] assms(2) by (auto split: option.splits)
qed

lemma component_get_names_by_hook_enough:
  assumes "components_ok (Some cs)" "length h < COMPONENT_NAME_LEN"
  shows "component_get_names_by_hook [] (Some cs) (Some h) =
    ([], map c_name (filter (\<lambda>c. h \<in> set (c_hooks c)) cs))"
  using assms by (simp add: component_get_names_by_hook_def components_ok_def names_by_hook_loop_enough)

section \<open>The invariant is kept by every operation\<close>

lemma component_init_ok: "components_ok (snd (component_init m))"
  by (auto simp: component_init_def components_ok_def split: prod.splits)

lemma component_add_node_inv:
  assumes "components_ok head" "component_is_registered head (Some (field_copy 32 name)) = 0"
    and "\<And>s. name = Some s \<Longrightarrow> NUL \<notin> set s"
    and "slots_ok COMPONENT_NAME_LEN n (bytes_of hook)"
  shows "components_ok (snd (snd (component_add_node m head name d t r hook n ttl lock)))"
proof (cases head)
  case None
  then show ?thesis by (simp add: component_add_node_def components_ok_def)
next
  case (Some cs)
  have h: "\<And>h. hook = Some h \<Longrightarrow> n * 32 \<le> length h" and n0: "hook = None \<Longrightarrow> n = 0"
    using assms(4) by (auto simp: slots_ok_def bytes_of_def)
  show ?thesis
    using assms Some slots_terminate[OF assms(4)]
    by (auto simp: component_add_node_def components_ok_def component_ok_def Let_def bytes_of_def
        memcpy_all[OF h] length_field_copy NUL_field_copy
        split: prod.splits option.splits if_splits)
qed

lemma components_ok_update:
  assumes "components_ok (Some cs)" "c_name c' = n" "component_ok c'"
  shows "components_ok (Some (update_first (\<lambda>c. c_name c = n) (\<lambda>_. c') cs))"
proof -
  have "map c_name (update_first (\<lambda>c. c_name c = n) (\<lambda>_. c') cs) = map c_name cs"
    using assms(2) by (intro map_update_first) simp
  then show ?thesis
    using assms by (simp add: components_ok_def list_all_update_first)
qed

lemma component_find_ok:
  "components_ok (Some cs) \<Longrightarrow> find (\<lambda>c. c_name c = n) cs = Some c \<Longrightarrow> component_ok c \<and> c_name c = n"
  by (auto simp: components_ok_def list_all_iff dest!: find_Some_mem)

lemma component_delete_inv:
  "components_ok head \<Longrightarrow> components_ok (snd (component_delete_first_name head name))"
  by (auto simp: component_delete_first_name_def components_ok_def list_all_delete_first
      distinct_key_delete_first split: option.splits)

lemma component_lock_inv:
  "components_ok head \<Longrightarrow> components_ok (snd (component_lock_by_name head name))"
  by (auto simp: component_lock_by_name_def component_node_lock_def store_node_def
      dest: component_find_ok intro!: components_ok_update split: option.splits)

lemma component_unlock_inv:
  "components_ok head \<Longrightarrow> components_ok (snd (component_unlock_by_name head name))"
  by (auto simp: component_unlock_by_name_def component_node_unlock_def store_node_def
      dest: component_find_ok intro!: components_ok_update split: option.splits)

lemma component_remove_hook_inv:
  assumes "components_ok head" "\<And>h. hook = Some h \<Longrightarrow> length h < COMPONENT_NAME_LEN"
  shows "components_ok (snd (snd (component_remove_hook_by_name m head name hook)))"
proof -
  have step: "components_ok (Some (update_first (\<lambda>c. c_name c = n) (\<lambda>_. c') cs))"
    if "head = Some cs" "hook = Some h" "find (\<lambda>c. c_name c = n) cs = Some c" "0 < c_hook_count c"
      "component_node_remove_hook m (c\<lparr>c_lock := 1\<rparr>) h = (x, m', c')"
    for cs h n c x m' c'
  proof -
    have c: "component_ok c" "c_name c = n" using assms(1) that component_find_ok by blast+
    have "component_ok c'"
      using component_node_remove_hook_always_ok[of "c\<lparr>c_lock := 1\<rparr>" h m] c assms(2) that by auto
    moreover have "c_name c' = n"
      using c that(5)
      by (auto simp: component_node_remove_hook_def Let_def split: prod.splits option.splits if_splits)
    ultimately show ?thesis using assms(1) that by (intro components_ok_update) auto
  qed
  have del: "components_ok (Some (delete_first (\<lambda>c. c_name c = n) cs))" if "head = Some cs" for cs n
    using assms(1) that
    by (simp add: components_ok_def list_all_delete_first distinct_key_delete_first)
  show ?thesis
    using assms(1) step del
    by (auto simp: component_remove_hook_by_name_def Let_def split: option.splits prod.splits)
qed

lemma component_append_hook_inv:
  assumes "components_ok head" "\<And>h. hook = Some h \<Longrightarrow> NUL \<notin> set h"
    and "fst (component_append_hook_by_name m head name hook) = 0"
  shows "components_ok (snd (snd (component_append_hook_by_name m head name hook)))"
proof -
  have step: "components_ok (Some (update_first (\<lambda>c. c_name c = n) (\<lambda>_. c') cs))"
    if "head = Some cs" "hook = Some h" "find (\<lambda>c. c_name c = n) cs = Some c"
      "component_node_append_hook m c h = (0, m', c')" for cs h n c m' c'
  proof -
    have c: "component_ok c" "c_name c = n" using assms(1) that component_find_ok by blast+
    from component_node_append_hook_ok[OF c(1) assms(2)[OF that(2)] that(4)] c(2)
    have "component_ok c'" "c_name c' = n" by (auto dest!: arg_cong[where f = c_name])
    then show ?thesis using assms(1) that by (intro components_ok_update) auto
  qed
  show ?thesis
    using assms(1,3) step
    by (auto simp: component_append_hook_by_name_def Let_def split: option.splits prod.splits if_splits)
qed

section \<open>The registry as a lock table\<close>

definition component_held :: "components \<Rightarrow> string \<Rightarrow> bool option" where
  "component_held head n =
     (case head of None \<Rightarrow> None
      | Some cs \<Rightarrow> map_option (\<lambda>c. c_lock c \<noteq> 0) (find (\<lambda>c. c_name c = n) cs))"

definition component_shape :: "components \<Rightarrow> components" where
  "component_shape head = map_option (map (\<lambda>c. c\<lparr>c_lock := 0\<rparr>)) head"

lemma component_held_store:
  "find (\<lambda>c. c_name c = n) cs = Some c \<Longrightarrow>
   component_held (Some (update_first (\<lambda>c. c_name c = n) (\<lambda>_. c\<lparr>c_lock := l\<rparr>) cs)) =
     (component_held (Some cs))(n \<mapsto> l \<noteq> 0)"
proof -
  assume f: "find (\<lambda>c. c_name c = n) cs = Some c"
  have "update_first (\<lambda>c. c_name c = n) (\<lambda>_. c\<lparr>c_lock := l\<rparr>) cs =
      update_first (\<lambda>c. c_name c = n) (\<lambda>x. x\<lparr>c_lock := l\<rparr>) cs"
    using f by (rule update_first_cong) simp
  then show ?thesis
    using f by (auto simp: component_held_def fun_eq_iff find_key_update_first)
qed

lemma component_shape_store:
  "find (\<lambda>c. c_name c = n) cs = Some c \<Longrightarrow>
   component_shape (Some (update_first (\<lambda>c. c_name c = n) (\<lambda>_. c\<lparr>c_lock := l\<rparr>) cs)) =
     component_shape (Some cs)"
proof -
  assume f: "find (\<lambda>c. c_name c = n) cs = Some c"
  have "update_first (\<lambda>c. c_name c = n) (\<lambda>_. c\<lparr>c_lock := l\<rparr>) cs =
      update_first (\<lambda>c. c_name c = n) (\<lambda>x. x\<lparr>c_lock := l\<rparr>) cs"
    using f by (rule update_first_cong) simp
  then show ?thesis by (simp add: component_shape_def map_update_first)
qed

interpretation comp_locks: framed_lock_table
  "\<lambda>head n. component_lock_by_name head (Some n)"
  "\<lambda>head n. component_unlock_by_name head (Some n)"
  component_held component_shape
proof unfold_locales
  fix s :: components and n b
  show "fst (component_lock_by_name s (Some n)) = 0 \<and>
      component_held (snd (component_lock_by_name s (Some n))) = (component_held s)(n \<mapsto> True)"
    if "component_held s n = Some False"
    using that component_held_store[of n _ _ 1]
    by (auto simp: component_held_def[of s n] component_lock_by_name_def component_node_lock_def
        store_node_def split: option.splits)
  show "fst (component_lock_by_name s (Some n)) \<noteq> 0 \<and> snd (component_lock_by_name s (Some n)) = s"
    if "component_held s n \<noteq> Some False"
    using that
    by (auto simp: component_held_def component_lock_by_name_def component_node_lock_def
        store_node_def update_first_self split: option.splits)
  show "fst (component_unlock_by_name s (Some n)) = 0 \<and>
      component_held (snd (component_unlock_by_name s (Some n))) = (component_held s)(n \<mapsto> False)"
    if "component_held s n = Some b"
    using that component_held_store[of n _ _ 0]
    by (auto simp: component_held_def[of s n] component_unlock_by_name_def component_node_unlock_def
        store_node_def split: option.splits)
  show "fst (component_unlock_by_name s (Some n)) \<noteq> 0 \<and> snd (component_unlock_by_name s (Some n)) = s"
    if "component_held s n = None"
    using that
    by (auto simp: component_held_def component_unlock_by_name_def split: option.splits)
  show "component_shape (snd (component_lock_by_name s (Some n))) = component_shape s"
    by (auto simp: component_lock_by_name_def component_node_lock_def store_node_def
        component_shape_store update_first_self split: option.splits)
  show "component_shape (snd (component_unlock_by_name s (Some n))) = component_shape s"
    by (auto simp: component_unlock_by_name_def component_node_unlock_def store_node_def
        component_shape_store split: option.splits)
qed


section \<open>Properties\<close>

lemma components_ok_Cons_find:
  "find (\<lambda>c. c_name c = n) cs = Some c \<Longrightarrow> n \<in> c_name ` set cs"
  by (auto dest: find_Some_mem)

text \<open>
  Appending a hook to a registered, unlocked component refines list append: with memory
  available the call succeeds, and the byte array of fixed-width slots of the node then reads
  as the old hooks followed by the new name, cut to the slot width; the node is well formed,
  unlocked again, and no other node changes.
\<close>

lemma append_hook_refines_append:
  assumes "components_ok (Some cs)" "find (\<lambda>c. c_name c = n) cs = Some c" "c_lock c = 0"
    and "NUL \<notin> set h"
  shows "\<exists>c'. component_append_hook_by_name [] (Some cs) (Some n) (Some h) =
      (SANJI_SUCCESS, [], Some (update_first (\<lambda>c. c_name c = n) (\<lambda>_. c') cs)) \<and>
    component_ok c' \<and> c_hooks c' = c_hooks c @ [bounded_copy COMPONENT_NAME_LEN h] \<and> c_lock c' = 0"
proof -
  have ok: "component_ok c" using component_find_ok[OF assms(1,2)] by simp
  obtain m c' where r: "component_node_append_hook [] c h = (0, m, c')" "m = []"
    by (simp add: component_node_append_hook_def)
  from component_node_append_hook_ok[OF ok assms(4) r(1)] have
    "component_ok c'" "c_hooks c' = c_hooks c @ [bounded_copy 32 h]" "c_lock c' = 0"
    by (auto dest!: arg_cong[where f = c_lock])
  then show ?thesis
    using r assms(2,3) components_ok_Cons_find[OF assms(2)]
    by (auto simp: component_append_hook_by_name_def)
qed

definition sample_component :: component where
  "sample_component =
     \<lparr> c_name = ''b'', c_description = [], c_tunnel = ''1'', c_role = ''model'',
       c_hook = Some (pack_slots 32 [''a'', ''x'']), c_hook_count = 2, c_ttl = 3, c_lock = 0 \<rparr>"

lemma sample_component_ok: "components_ok (Some [sample_component])"
  "c_hooks sample_component = [''a'', ''x'']"
  by code_simp+

lemma append_hook_refines_append_witness:
  "\<exists>c'. component_append_hook_by_name [] (Some [sample_component]) (Some ''b'') (Some ''y'') =
      (SANJI_SUCCESS, [], Some [c']) \<and> c_hooks c' = [''a'', ''x'', ''y'']"
  using append_hook_refines_append[OF sample_component_ok(1), of "''b''" sample_component "''y''"]
  by (auto simp: sample_component_ok(2)) (auto simp: sample_component_def)

text \<open>
  C29. Removing a hook from a registered, unlocked component that has at least two refines
  removal of the first occurrence in the list of hooks, whatever the slot's position: the
  copies that close the gap lose no other hook.
\<close>

theorem remove_hook_refines_remove1:
  assumes "components_ok (Some cs)" "find (\<lambda>c. c_name c = n) cs = Some c" "c_lock c = 0"
    and "1 < c_hook_count c" "length h < COMPONENT_NAME_LEN"
  shows "\<exists>c'. component_remove_hook_by_name [] (Some cs) (Some n) (Some h) =
      (SANJI_SUCCESS, [], Some (update_first (\<lambda>c. c_name c = n) (\<lambda>_. c') cs)) \<and>
    component_ok c' \<and> c_hooks c' = remove1 h (c_hooks c) \<and> c_lock c' = 0"
proof -
  let ?c = "c\<lparr>c_lock := 1\<rparr>"
  have ok: "component_ok ?c" "c_hook_count ?c \<noteq> 0"
    using component_find_ok[OF assms(1,2)] assms(4) by simp_all
  obtain m c' where r: "component_node_remove_hook [] ?c h = (0, m, c')" "m = []"
    by (cases "slot_index 32 (c_hook_count c) (bytes_of (c_hook c)) h")
      (simp_all add: component_node_remove_hook_def Let_def)
  from component_node_remove_hook_ok[OF ok(1) assms(5) ok(2) r(1)] have
    "component_ok c'" "c_hooks c' = remove1 h (c_hooks c)" "c_lock c' = 0"
    by (auto dest!: arg_cong[where f = c_lock])
  then show ?thesis
    using r assms(2,3,4) components_ok_Cons_find[OF assms(2)]
    by (auto simp: component_remove_hook_by_name_def)
qed

theorem remove_hook_refines_remove1_witness:
  "\<exists>c'. component_remove_hook_by_name [] (Some [sample_component]) (Some ''b'') (Some ''a'') =
      (SANJI_SUCCESS, [], Some [c']) \<and> c_hooks c' = [''x'']"
  using remove_hook_refines_remove1[OF sample_component_ok(1), of "''b''" sample_component "''a''"]
  by (auto simp: sample_component_ok(2)) (auto simp: sample_component_def)

text \<open>
  Asking for the components that hook a name answers exactly the names of the registered
  components with that hook, in list order, when memory suffices; when an allocation fails
  the answer is the empty list, never a part of it.
\<close>

lemma names_by_hook_complete:
  assumes "components_ok (Some cs)" "length h < COMPONENT_NAME_LEN"
  shows "component_get_names_by_hook [] (Some cs) (Some h) =
      ([], map c_name (filter (\<lambda>c. h \<in> set (c_hooks c)) cs)) \<and>
    (snd (component_get_names_by_hook m (Some cs) (Some h)) = [] \<or>
     snd (component_get_names_by_hook m (Some cs) (Some h)) =
       map c_name (filter (\<lambda>c. h \<in> set (c_hooks c)) cs))"
  using component_get_names_by_hook_enough[OF assms] names_by_hook_loop_eq[of cs h m "[]"] assms
  by (simp add: component_get_names_by_hook_def components_ok_def)

lemma names_by_hook_complete_witness:
  "component_get_names_by_hook [] (Some [sample_component]) (Some ''x'') = ([], [''b''])"
  using names_by_hook_complete[OF sample_component_ok(1), of "''x''" "[]"]
  by (simp add: sample_component_ok(2)) (simp add: sample_component_def)

text \<open>
  The registry's history: its operations in any order on any input strings, a name being
  added only while it is unregistered, and memory sufficing where a hook array grows.
\<close>

inductive components_reachable :: "components \<Rightarrow> bool" where
  init: "components_reachable (snd (component_init m))"
| add: "components_reachable h \<Longrightarrow> component_is_registered h (Some (bounded_copy 32 n)) = 0 \<Longrightarrow>
    NUL \<notin> set n \<Longrightarrow> slots_ok COMPONENT_NAME_LEN k (bytes_of hk) \<Longrightarrow>
    components_reachable (snd (snd (component_add_node m h (Some n) d t r hk k ttl l)))"
| delete: "components_reachable h \<Longrightarrow> components_reachable (snd (component_delete_first_name h n))"
| append: "components_reachable h \<Longrightarrow> NUL \<notin> set hk \<Longrightarrow>
    fst (component_append_hook_by_name m h n (Some hk)) = 0 \<Longrightarrow>
    components_reachable (snd (snd (component_append_hook_by_name m h n (Some hk))))"
| remove: "components_reachable h \<Longrightarrow> length hk < COMPONENT_NAME_LEN \<Longrightarrow>
    components_reachable (snd (snd (component_remove_hook_by_name m h n (Some hk))))"
| lock: "components_reachable h \<Longrightarrow> components_reachable (snd (component_lock_by_name h n))"
| unlock: "components_reachable h \<Longrightarrow> components_reachable (snd (component_unlock_by_name h n))"

text \<open>
  The component registry stays well formed through every history of its operations:
  names are unique, every field is terminated inside its buffer, and every hook array has as
  many terminated slots as the count says (so no search reads outside it).
\<close>

lemma component_registry_invariant:
  assumes "components_reachable h"
  shows "components_ok h"
  using assms
proof induction
  case (init m)
  show ?case by (rule component_init_ok)
next
  case (add h n k hk m d t r ttl l)
  then show ?case
    by (intro component_add_node_inv) (auto simp: field_copy_def)
next
  case (append h hk m n)
  then show ?case by (intro component_append_hook_inv) auto
next
  case (remove h hk m n)
  then show ?case by (intro component_remove_hook_inv) auto
qed (simp_all add: component_delete_inv component_lock_inv component_unlock_inv)

lemma component_registry_invariant_witness:
  "components_ok (snd (component_lock_by_name (snd (snd (component_add_node [] (snd (component_init []))
     (Some ''a'') None None None None 0 5 0))) (Some ''a'')))"
  by (rule component_registry_invariant, intro components_reachable.lock components_reachable.add
      components_reachable.init)
    (simp_all add: component_init_def component_is_registered_def bytes_of_def)

end
