(* ===== verification/Resources.thy ===== *)
theory Resources
  imports Components
begin

text \<open>
  The resource registry of \<open>src/resource.c\<close>: the list of resource names, each with the
  flat array of the names of its subscribed components and its lock; the method codes; and
  the lookup of the resources whose name, read as a pattern, matches a topic.
\<close>

abbreviation (input) RESOURCE_NAME_LEN :: nat where "RESOURCE_NAME_LEN \<equiv> 1024"
abbreviation (input) RESOURCE_METHOD_LEN :: nat where "RESOURCE_METHOD_LEN \<equiv> 8"

abbreviation (input) RESOURCE_METHOD_UNKNOWN :: int where "RESOURCE_METHOD_UNKNOWN \<equiv> -1"
abbreviation (input) RESOURCE_METHOD_READ :: int where "RESOURCE_METHOD_READ \<equiv> 0"
abbreviation (input) RESOURCE_METHOD_UPDATE :: int where "RESOURCE_METHOD_UPDATE \<equiv> 1"
abbreviation (input) RESOURCE_METHOD_CREATE :: int where "RESOURCE_METHOD_CREATE \<equiv> 2"
abbreviation (input) RESOURCE_METHOD_DELETE :: int where "RESOURCE_METHOD_DELETE \<equiv> 3"

section \<open>State\<close>

record resource =
  r_name :: string
  r_subscribed_component :: "char list option"
  r_subscribed_count :: nat
  r_lock :: "32 word"

type_synonym resources = "resource list option"

section \<open>Methods\<close>

text \<open>The switch on the length and on the upper-cased word \<open>method_upper\<close>.\<close>

definition method_switch :: "string \<Rightarrow> int" where
  "method_switch u =
     (if length u = 3 then
        (if u ! 0 = CHR ''P''
         then if u ! 1 = CHR ''U'' \<and> u ! 2 = CHR ''T''
              then RESOURCE_METHOD_UPDATE else RESOURCE_METHOD_UNKNOWN
         else if u ! 0 = CHR ''G''
         then if u ! 1 = CHR ''E'' \<and> u ! 2 = CHR ''T''
              then RESOURCE_METHOD_READ else RESOURCE_METHOD_UNKNOWN
         else RESOURCE_METHOD_UNKNOWN)
      else if length u = 4 then
        (if u ! 0 = CHR ''P''
         then if u ! 1 = CHR ''O'' \<and> u ! 2 = CHR ''S'' \<and> u ! 3 = CHR ''T''
              then RESOURCE_METHOD_CREATE else RESOURCE_METHOD_UNKNOWN
         else RESOURCE_METHOD_UNKNOWN)
      else if length u = 6 then
        (if u ! 0 = CHR ''D''
         then if take 6 u = ''DELETE''
              then RESOURCE_METHOD_DELETE else RESOURCE_METHOD_UNKNOWN
         else RESOURCE_METHOD_UNKNOWN)
      else RESOURCE_METHOD_UNKNOWN)"

text \<open>
  The upper-cased copy goes into a buffer of \<open>RESOURCE_METHOD_LEN\<close> bytes without a bound:
  \<open>None\<close> is the write past its end.
\<close>

definition resource_lookup_method :: "string option \<Rightarrow> int option" where
  "resource_lookup_method method =
     (case method of
        None \<Rightarrow> Some RESOURCE_METHOD_UNKNOWN
      | Some s \<Rightarrow>
          if length s > RESOURCE_METHOD_LEN then None
          else Some (method_switch (map toupper s)))"

definition resource_reverse_method :: "heap \<Rightarrow> int \<Rightarrow> heap \<times> string option" where
  "resource_reverse_method m method =
     (let (ok, m1) = malloc m in
      if \<not> ok then (m1, None)
      else (m1,
        if method = RESOURCE_METHOD_CREATE then Some ''POST''
        else if method = RESOURCE_METHOD_READ then Some ''GET''
        else if method = RESOURCE_METHOD_UPDATE then Some ''PUT''
        else if method = RESOURCE_METHOD_DELETE then Some ''DELETE''
        else None))"

definition resource_is_write_like_method :: "int \<Rightarrow> bool" where
  "resource_is_write_like_method method \<longleftrightarrow> method \<noteq> RESOURCE_METHOD_READ"

section \<open>Operations\<close>

definition resource_init :: "heap \<Rightarrow> heap \<times> resources" where
  "resource_init m = (let (ok, m') = malloc m in (m', if ok then Some [] else None))"

text \<open>
  With an array and a count of 0 the code writes the byte before the array, which the model
  leaves out: its one caller in the program passes an array of one slot.
\<close>

definition resource_add_node ::
    "heap \<Rightarrow> resources \<Rightarrow> string option \<Rightarrow> char list option \<Rightarrow> nat \<Rightarrow> 32 word \<Rightarrow>
     int \<times> heap \<times> resources" where
  "resource_add_node m head name subscribed_component subscribed_count lock =
     (case head of
        None \<Rightarrow> (1, m, None)
      | Some rs \<Rightarrow>
          (let (ok, m1) = malloc m in
           if \<not> ok then (1, m1, head) else
           let node = \<lparr> r_name = field_copy RESOURCE_NAME_LEN name,
                        r_subscribed_component = None,
                        r_subscribed_count = subscribed_count, r_lock = lock \<rparr>
           in case subscribed_component of
                None \<Rightarrow> (0, m1, Some (rs @ [node]))
              | Some h \<Rightarrow>
                  (let (ok2, m2) = malloc m1 in
                   if \<not> ok2 then (1, m2, head)
                   else let n = subscribed_count * COMPONENT_NAME_LEN;
                            b = (memcpy (replicate n NUL) 0 h 0 n)[n - 1 := NUL]
                        in (0, m2, Some (rs @ [node\<lparr>r_subscribed_component := Some b\<rparr>])))))"

definition resource_delete_first_name :: "resources \<Rightarrow> string option \<Rightarrow> int \<times> resources" where
  "resource_delete_first_name head name =
     (case (head, name) of
        (Some rs, Some n) \<Rightarrow>
          (case find (\<lambda>r. r_name r = n) rs of
             None \<Rightarrow> (SANJI_SUCCESS, head)
           | Some r \<Rightarrow>
               if r_lock r = 0
               then (SANJI_SUCCESS, Some (delete_first (\<lambda>r. r_name r = n) rs))
               else (SANJI_LOCKED, head))
      | _ \<Rightarrow> (SANJI_DATA_ERROR, head))"

definition resource_is_registered :: "resources \<Rightarrow> string option \<Rightarrow> int" where
  "resource_is_registered head name =
     (case (head, name) of
        (Some rs, Some n) \<Rightarrow> (case find (\<lambda>r. r_name r = n) rs of None \<Rightarrow> 0 | Some _ \<Rightarrow> 1)
      | _ \<Rightarrow> SANJI_DATA_ERROR)"

definition resource_is_locked :: "resources \<Rightarrow> string \<Rightarrow> int option" where
  "resource_is_locked head name =
     map_option (\<lambda>rs. case find (\<lambda>r. r_name r = name) rs of
       None \<Rightarrow> 0 | Some r \<Rightarrow> sint (r_lock r)) head"

definition resource_node_is_locked :: "resource option \<Rightarrow> int" where
  "resource_node_is_locked node = (case node of None \<Rightarrow> 0 | Some r \<Rightarrow> sint (r_lock r))"

text \<open>The slot of a resource that holds a component name.\<close>

definition subscribed_index :: "resource \<Rightarrow> string \<Rightarrow> nat option" where
  "subscribed_index r name =
     slot_index COMPONENT_NAME_LEN (r_subscribed_count r) (bytes_of (r_subscribed_component r)) name"

fun any_locked_loop :: "string \<Rightarrow> int \<Rightarrow> resource list \<Rightarrow> int" where
  "any_locked_loop name is_locked [] = is_locked"
| "any_locked_loop name is_locked (r # rs) =
     (let is_locked = (if subscribed_index r name \<noteq> None then is_locked + sint (r_lock r)
                       else is_locked)
      in if is_locked \<noteq> 0 then is_locked else any_locked_loop name is_locked rs)"

definition resource_is_any_locked_by_component :: "resources \<Rightarrow> string \<Rightarrow> int option" where
  "resource_is_any_locked_by_component head name = map_option (any_locked_loop name 0) head"

definition resource_node_append_component ::
    "heap \<Rightarrow> resource \<Rightarrow> string \<Rightarrow> int \<times> heap \<times> resource" where
  "resource_node_append_component m r name =
     (let r1 = r\<lparr>r_lock := 1, r_subscribed_count := Suc (r_subscribed_count r)\<rparr>;
          (ok, m1) = malloc m
      in if \<not> ok then (SANJI_DATA_ERROR, m1, r1)
         else (SANJI_SUCCESS, m1,
           r1\<lparr>r_subscribed_component := Some (slots_append COMPONENT_NAME_LEN (r_subscribed_count r)
                             (bytes_of (r_subscribed_component r)) name),
              r_lock := 0\<rparr>))"

definition resource_append_component_by_name ::
    "heap \<Rightarrow> resources \<Rightarrow> string option \<Rightarrow> string option \<Rightarrow> int \<times> heap \<times> resources" where
  "resource_append_component_by_name m head name subscribed_component =
     (case (head, name, subscribed_component) of
        (Some rs, Some n, Some s) \<Rightarrow>
          (let is_registered = resource_is_registered head name in
           if is_registered = -1 then (SANJI_DATA_ERROR, m, head)
           else if is_registered = 0
           then resource_add_node m head name (Some (slot COMPONENT_NAME_LEN s)) 1 0 else
           case find (\<lambda>r. r_name r = n) rs of
             None \<Rightarrow> (SANJI_SUCCESS, m, head)
           | Some r \<Rightarrow>
               if r_lock r = 0
               then let (ret, m1, r1) = resource_node_append_component m r s
                    in (ret, m1, Some (update_first (\<lambda>r. r_name r = n) (\<lambda>_. r1) rs))
               else (SANJI_LOCKED, m, head))
      | _ \<Rightarrow> (SANJI_DATA_ERROR, m, head))"

text \<open>The cascade that closes the gap of slot \<open>k\<close>, for the decremented count \<open>n\<close>.\<close>

definition resource_node_cascade ::
    "heap \<Rightarrow> resource \<Rightarrow> nat \<Rightarrow> nat \<Rightarrow> int \<times> heap \<times> resource" where
  "resource_node_cascade m r n k =
     (let (ok, m1) = malloc m in
      if \<not> ok then (SANJI_DATA_ERROR, m1, r\<lparr>r_subscribed_count := n, r_lock := 0\<rparr>)
      else (SANJI_SUCCESS, m1,
        r\<lparr>r_subscribed_count := n,
          r_subscribed_component :=
            Some (slots_remove COMPONENT_NAME_LEN n (bytes_of (r_subscribed_component r)) k),
          r_lock := 0\<rparr>))"

definition resource_remove_component_by_name ::
    "heap \<Rightarrow> resources \<Rightarrow> string option \<Rightarrow> string option \<Rightarrow> int \<times> heap \<times> resources" where
  "resource_remove_component_by_name m head name subscribed_component =
     (case (head, name, subscribed_component) of
        (Some rs, Some n, Some s) \<Rightarrow>
          (let is_registered = resource_is_registered head name in
           if is_registered = -1 then (SANJI_DATA_ERROR, m, head)
           else if is_registered = 0 then (SANJI_SUCCESS, m, head) else
           case find (\<lambda>r. r_name r = n) rs of
             None \<Rightarrow> (SANJI_SUCCESS, m, head)
           | Some r \<Rightarrow>
               if r_lock r = 0
               then if r_subscribed_count r = 0 \<or> r_subscribed_count r = 1
                    then (SANJI_SUCCESS, m, Some (delete_first (\<lambda>r. r_name r = n) rs))
                    else case subscribed_index r s of
                        None \<Rightarrow> (SANJI_SUCCESS, m,
                          Some (update_first (\<lambda>r. r_name r = n) (\<lambda>_. r\<lparr>r_lock := 0\<rparr>) rs))
                      | Some k \<Rightarrow>
                          (let (ret, m1, r1) = resource_node_cascade m r (r_subscribed_count r - 1) k
                           in (ret, m1, Some (update_first (\<lambda>r. r_name r = n) (\<lambda>_. r1) rs)))
               else (SANJI_LOCKED, m, head))
      | _ \<Rightarrow> (SANJI_DATA_ERROR, m, head))"

text \<open>
  Removing a component from every resource. The code first collects the resources that hold
  the name, each with the slot index, and then works through them in list order; a resource
  does not depend on the others, so one pass does both. The count is decremented before the
  lock is tested, and an error returns with the later resources untouched.
\<close>

fun remove_all_loop :: "heap \<Rightarrow> string \<Rightarrow> resource list \<Rightarrow> int \<times> heap \<times> resource list" where
  "remove_all_loop m s [] = (SANJI_SUCCESS, m, [])"
| "remove_all_loop m s (r # rs) =
     (case subscribed_index r s of
        None \<Rightarrow> (let (ret, m1, rs1) = remove_all_loop m s rs in (ret, m1, r # rs1))
      | Some k \<Rightarrow>
          (let n = r_subscribed_count r - 1 in
           if r_lock r = 0
           then if n = 0 then remove_all_loop m s rs
                else (let (ret, m1, r1) = resource_node_cascade m r n k in
                      if ret \<noteq> 0 then (SANJI_DATA_ERROR, m1, r1 # rs)
                      else let (ret, m2, rs1) = remove_all_loop m1 s rs in (ret, m2, r1 # rs1))
           else (SANJI_LOCKED, m, r\<lparr>r_subscribed_count := n\<rparr> # rs)))"

definition resource_remove_all_component_by_name ::
    "heap \<Rightarrow> resources \<Rightarrow> string option \<Rightarrow> int \<times> heap \<times> resources" where
  "resource_remove_all_component_by_name m head subscribed_component =
     (case (head, subscribed_component) of
        (Some rs, Some s) \<Rightarrow>
          (let (ret, m1, rs1) = remove_all_loop m s rs in (ret, m1, Some rs1))
      | _ \<Rightarrow> (SANJI_DATA_ERROR, m, head))"

definition resource_lookup_node_by_name :: "resources \<Rightarrow> string \<Rightarrow> resource option" where
  "resource_lookup_node_by_name head name =
     (case head of None \<Rightarrow> None | Some rs \<Rightarrow> find (\<lambda>r. r_name r = name) rs)"

definition resource_get_subscribed_component :: "resource option \<Rightarrow> char list option" where
  "resource_get_subscribed_component node =
     (case node of None \<Rightarrow> None | Some r \<Rightarrow> r_subscribed_component r)"

definition resource_get_subscribed_count :: "resource option \<Rightarrow> nat" where
  "resource_get_subscribed_count node =
     (case node of None \<Rightarrow> 0 | Some r \<Rightarrow> r_subscribed_count r)"

definition resource_node_lock :: "resource option \<Rightarrow> int \<times> resource option" where
  "resource_node_lock node =
     (case node of
        None \<Rightarrow> (SANJI_DATA_ERROR, None)
      | Some r \<Rightarrow> if r_lock r \<noteq> 0 then (SANJI_LOCKED, node) else (0, Some (r\<lparr>r_lock := 1\<rparr>)))"

definition resource_node_unlock :: "resource option \<Rightarrow> int \<times> resource option" where
  "resource_node_unlock node =
     (case node of
        None \<Rightarrow> (SANJI_DATA_ERROR, None)
      | Some r \<Rightarrow> (0, Some (r\<lparr>r_lock := 0\<rparr>)))"

definition resource_lock_by_name :: "resources \<Rightarrow> string option \<Rightarrow> int \<times> resources" where
  "resource_lock_by_name head name =
     (case (head, name) of
        (Some rs, Some n) \<Rightarrow>
          (case find (\<lambda>r. r_name r = n) rs of
             None \<Rightarrow> (SANJI_NOT_FOUND, head)
           | Some r \<Rightarrow> let (ret, r1) = resource_node_lock (Some r)
                       in (ret, Some (store_node (\<lambda>r. r_name r = n) r1 rs)))
      | _ \<Rightarrow> (SANJI_DATA_ERROR, head))"

definition resource_unlock_by_name :: "resources \<Rightarrow> string option \<Rightarrow> int \<times> resources" where
  "resource_unlock_by_name head name =
     (case (head, name) of
        (Some rs, Some n) \<Rightarrow>
          (case find (\<lambda>r. r_name r = n) rs of
             None \<Rightarrow> (SANJI_NOT_FOUND, head)
           | Some r \<Rightarrow> let (ret, r1) = resource_node_unlock (Some r)
                       in (ret, Some (store_node (\<lambda>r. r_name r = n) r1 rs)))
      | _ \<Rightarrow> (SANJI_DATA_ERROR, head))"

fun names_by_component_loop ::
    "heap \<Rightarrow> string \<Rightarrow> string list \<Rightarrow> resource list \<Rightarrow> heap \<times> string list" where
  "names_by_component_loop m name names [] = (m, names)"
| "names_by_component_loop m name names (r # rs) =
     (case subscribed_index r name of
        None \<Rightarrow> names_by_component_loop m name names rs
      | Some _ \<Rightarrow>
          (let (ok, m1) = malloc m in
           if \<not> ok then (m1, [])
           else names_by_component_loop m1 name (names @ [r_name r]) rs))"

definition resource_get_names_by_component ::
    "heap \<Rightarrow> resources \<Rightarrow> string option \<Rightarrow> heap \<times> string list" where
  "resource_get_names_by_component m head component =
     (case (head, component) of
        (Some rs, Some c) \<Rightarrow> names_by_component_loop m c [] rs
      | _ \<Rightarrow> (m, []))"

section \<open>Method codes\<close>

text \<open>The optimised switch is the table lookup on the upper-cased word.\<close>

definition method_table :: "(string \<times> int) list" where
  "method_table = [(''GET'', RESOURCE_METHOD_READ), (''PUT'', RESOURCE_METHOD_UPDATE),
     (''POST'', RESOURCE_METHOD_CREATE), (''DELETE'', RESOURCE_METHOD_DELETE)]"

lemma word_of_3: "length u = 3 \<Longrightarrow> \<exists>a b c. u = [a, b, c]"
  by (auto simp: length_Suc_conv numeral_3_eq_3)

lemma word_of_4: "length u = 4 \<Longrightarrow> \<exists>a b c d. u = [a, b, c, d]"
  by (auto simp: length_Suc_conv eval_nat_numeral)

lemma method_switch_table:
  "method_switch u =
    (case map_of method_table u of None \<Rightarrow> RESOURCE_METHOD_UNKNOWN | Some k \<Rightarrow> k)"
proof -
  consider "length u = 3" | "length u = 4" | "length u = 6" | "length u \<notin> {3, 4, 6}" by auto
  then show ?thesis
  proof cases
    case 1
    then obtain a b c where "u = [a, b, c]" using word_of_3 by blast
    then show ?thesis by (simp add: method_switch_def method_table_def)
  next
    case 2
    then obtain a b c d where "u = [a, b, c, d]" using word_of_4 by blast
    then show ?thesis by (simp add: method_switch_def method_table_def)
  next
    case 3
    then show ?thesis by (auto simp: method_switch_def method_table_def)
  next
    case 4
    then show ?thesis by (auto simp: method_switch_def method_table_def)
  qed
qed

section \<open>Well-formedness and the subscriber view\<close>

definition r_subscribers :: "resource \<Rightarrow> string list" where
  "r_subscribers r =
     slots COMPONENT_NAME_LEN (r_subscribed_count r) (bytes_of (r_subscribed_component r))"

definition resource_ok :: "resource \<Rightarrow> bool" where
  "resource_ok r \<longleftrightarrow>
     length (r_name r) < RESOURCE_NAME_LEN \<and>
     slots_ok COMPONENT_NAME_LEN (r_subscribed_count r) (bytes_of (r_subscribed_component r))"

definition resources_ok :: "resources \<Rightarrow> bool" where
  "resources_ok head =
     (case head of None \<Rightarrow> True
      | Some rs \<Rightarrow> list_all resource_ok rs \<and> distinct (map r_name rs))"

lemma resource_ok_lock [simp]: "resource_ok (r\<lparr>r_lock := l\<rparr>) = resource_ok r"
  by (simp add: resource_ok_def)

lemma r_subscribers_lock [simp]: "r_subscribers (r\<lparr>r_lock := l\<rparr>) = r_subscribers r"
  by (simp add: r_subscribers_def)

lemma length_r_subscribers: "length (r_subscribers r) = r_subscribed_count r"
  by (simp add: r_subscribers_def)

lemma subscribed_index_lock [simp]: "subscribed_index (r\<lparr>r_lock := l\<rparr>) s = subscribed_index r s"
  by (simp add: subscribed_index_def)

lemma subscribed_index_None:
  "resource_ok r \<Longrightarrow> length s < COMPONENT_NAME_LEN \<Longrightarrow>
   subscribed_index r s = None \<longleftrightarrow> s \<notin> set (r_subscribers r)"
  by (simp add: resource_ok_def r_subscribers_def subscribed_index_def slot_index_None)

lemma resource_is_registered_Some [simp]:
  "resource_is_registered (Some rs) (Some n) = (if n \<in> r_name ` set rs then 1 else 0)"
  by (auto simp: resource_is_registered_def find_None_iff_all image_iff split: option.splits
      dest!: find_Some_mem)

lemma resource_find_ok:
  "resources_ok (Some rs) \<Longrightarrow> find (\<lambda>r. r_name r = n) rs = Some r \<Longrightarrow> resource_ok r \<and> r_name r = n"
  by (auto simp: resources_ok_def list_all_iff dest!: find_Some_mem)

lemma resources_ok_update:
  assumes "resources_ok (Some rs)" "r_name r' = n" "resource_ok r'"
  shows "resources_ok (Some (update_first (\<lambda>r. r_name r = n) (\<lambda>_. r') rs))"
proof -
  have "map r_name (update_first (\<lambda>r. r_name r = n) (\<lambda>_. r') rs) = map r_name rs"
    using assms(2) by (intro map_update_first) simp
  then show ?thesis
    using assms by (simp add: resources_ok_def list_all_update_first)
qed

section \<open>Subscribers: the byte operations refine list operations\<close>

lemma resource_node_append_ok:
  assumes "resource_ok r" "NUL \<notin> set s" "resource_node_append_component m r s = (0, m', r')"
  shows "resource_ok r' \<and> r_subscribers r' = r_subscribers r @ [bounded_copy COMPONENT_NAME_LEN s] \<and>
    r_name r' = r_name r \<and> r_lock r' = 0"
proof -
  have "slots_ok 32 (r_subscribed_count r) (bytes_of (r_subscribed_component r))"
    using assms(1) by (simp add: resource_ok_def)
  from slots_append_correct[OF this _ assms(2)] show ?thesis
    using assms(1,3)
    by (auto simp: resource_node_append_component_def resource_ok_def r_subscribers_def bytes_of_def
        Let_def split: prod.splits if_splits)
qed

lemma resource_node_cascade_ok:
  assumes ok: "resource_ok r" and l: "length s < COMPONENT_NAME_LEN"
    and k: "subscribed_index r s = Some k"
    and c: "resource_node_cascade m r (r_subscribed_count r - 1) k = (ret, m', r')"
  shows "resource_ok r' \<and> r_name r' = r_name r \<and> r_lock r' = 0 \<and>
    (ret = 0 \<longrightarrow> r_subscribers r' = remove1 s (r_subscribers r)) \<and>
    (ret \<noteq> 0 \<longrightarrow> r_subscribers r' = butlast (r_subscribers r))"
proof -
  have "k < r_subscribed_count r"
    using slot_index_Some[of 32 "r_subscribed_count r" _ s k] ok l k
    by (auto simp: resource_ok_def subscribed_index_def)
  then obtain n where n: "r_subscribed_count r = Suc n" by (cases "r_subscribed_count r") auto
  have so: "slots_ok 32 (Suc n) (bytes_of (r_subscribed_component r))"
    using ok n by (simp add: resource_ok_def)
  have ix: "slot_index 32 (Suc n) (bytes_of (r_subscribed_component r)) s = Some k"
    using k n by (simp add: subscribed_index_def)
  have "slots_ok 32 n (bytes_of (r_subscribed_component r))"
    using so by (rule slots_ok_fewer) simp
  moreover have "slots 32 n (bytes_of (r_subscribed_component r)) =
      butlast (slots 32 (Suc n) (bytes_of (r_subscribed_component r)))"
    using slots_fewer[of n "Suc n"] by (simp add: butlast_conv_take)
  ultimately show ?thesis
    using slots_remove_found[OF so l ix] c n ok
    by (auto simp: resource_node_cascade_def resource_ok_def r_subscribers_def bytes_of_def Let_def
        split: prod.splits if_splits)
qed

lemma names_by_component_loop_enough:
  assumes "list_all resource_ok rs" "length s < COMPONENT_NAME_LEN"
  shows "names_by_component_loop [] s acc rs =
    ([], acc @ map r_name (filter (\<lambda>r. s \<in> set (r_subscribers r)) rs))"
  using assms(1)
proof (induction rs arbitrary: acc)
  case Nil
  then show ?case by simp
next
  case (Cons r rs)
  then show ?case
    using subscribed_index_None[of r s] assms(2) by (auto split: option.splits)
qed

lemma names_by_component_loop_eq:
  assumes "list_all resource_ok rs" "length s < COMPONENT_NAME_LEN"
  shows "snd (names_by_component_loop m s acc rs) = [] \<or>
    snd (names_by_component_loop m s acc rs) =
      acc @ map r_name (filter (\<lambda>r. s \<in> set (r_subscribers r)) rs)"
  using assms(1)
proof (induction rs arbitrary: m acc)
  case Nil
  then show ?case by simp
next
  case (Cons r rs)
  have IH: "snd (names_by_component_loop m s (acc @ [r_name r]) rs) = [] \<or>
    snd (names_by_component_loop m s (acc @ [r_name r]) rs) =
      acc @ r_name r # map r_name (filter (\<lambda>r. s \<in> set (r_subscribers r)) rs)" for m acc
    using Cons.IH[of m "acc @ [r_name r]"] Cons.prems by simp
  show ?case
  proof (cases "s \<in> set (r_subscribers r)")
    case True
    then obtain k where "subscribed_index r s = Some k"
      using subscribed_index_None[of r s] assms(2) Cons.prems by auto
    with True show ?thesis using IH by (simp add: Let_def split: prod.split)
  next
    case False
    then show ?thesis using subscribed_index_None[of r s] assms(2) Cons by simp
  qed
qed

text \<open>A component locks no resource exactly when all its resources are free.\<close>

lemma any_locked_loop_zero:
  assumes "list_all resource_ok rs" "length s < COMPONENT_NAME_LEN"
  shows "any_locked_loop s 0 rs = 0 \<longleftrightarrow>
    (\<forall>r \<in> set rs. s \<in> set (r_subscribers r) \<longrightarrow> r_lock r = 0)"
  using assms(1)
proof (induction rs)
  case Nil
  then show ?case by simp
next
  case (Cons r rs)
  then show ?case
    using subscribed_index_None[of r s] assms(2) by (auto simp: Let_def signed_eq_0_iff)
qed

section \<open>The invariant is kept by every operation\<close>

lemma resource_init_ok: "resources_ok (snd (resource_init m))"
  by (auto simp: resource_init_def resources_ok_def split: prod.splits)

lemma resource_add_node_inv:
  assumes "resources_ok head" "resource_is_registered head (Some (field_copy 1024 name)) = 0"
    and "slots_ok COMPONENT_NAME_LEN n (bytes_of subs)"
  shows "resources_ok (snd (snd (resource_add_node m head name subs n lock)))"
proof (cases head)
  case None
  then show ?thesis by (simp add: resource_add_node_def resources_ok_def)
next
  case (Some rs)
  have h: "\<And>h. subs = Some h \<Longrightarrow> n * 32 \<le> length h" and n0: "subs = None \<Longrightarrow> n = 0"
    using assms(3) by (auto simp: slots_ok_def bytes_of_def)
  show ?thesis
    using assms Some slots_terminate[OF assms(3)]
    by (auto simp: resource_add_node_def resources_ok_def resource_ok_def Let_def bytes_of_def
        memcpy_all[OF h] length_field_copy
        split: prod.splits option.splits if_splits)
qed

lemma slot_slots_ok: "0 < w \<Longrightarrow> NUL \<notin> set s \<Longrightarrow> length s < w \<Longrightarrow> slots_ok w 1 (slot w s)"
  by (cases "w - length s") (auto simp: slots_ok_def slot_def)

lemma resource_delete_inv:
  "resources_ok head \<Longrightarrow> resources_ok (snd (resource_delete_first_name head name))"
  by (auto simp: resource_delete_first_name_def resources_ok_def list_all_delete_first
      distinct_key_delete_first split: option.splits)

lemma resource_lock_inv:
  "resources_ok head \<Longrightarrow> resources_ok (snd (resource_lock_by_name head name))"
  by (auto simp: resource_lock_by_name_def resource_node_lock_def store_node_def
      dest: resource_find_ok intro!: resources_ok_update split: option.splits)

lemma resource_unlock_inv:
  "resources_ok head \<Longrightarrow> resources_ok (snd (resource_unlock_by_name head name))"
  by (auto simp: resource_unlock_by_name_def resource_node_unlock_def store_node_def
      dest: resource_find_ok intro!: resources_ok_update split: option.splits)

text \<open>The appended slot of a fresh resource is terminated by the copy, not by its length.\<close>

lemma resource_append_inv:
  assumes "resources_ok head" "\<And>s. sub = Some s \<Longrightarrow> NUL \<notin> set s \<and> length s < COMPONENT_NAME_LEN"
    and "\<And>n. name = Some n \<Longrightarrow> length n < RESOURCE_NAME_LEN"
    and "fst (resource_append_component_by_name m head name sub) = 0"
  shows "resources_ok (snd (snd (resource_append_component_by_name m head name sub)))"
proof -
  have add: "resources_ok (snd (snd (resource_add_node m head name (Some (slot 32 s)) 1 0)))"
    if "head = Some rs" "sub = Some s" "name = Some n" "n \<notin> r_name ` set rs" for rs s n
    using that assms slot_slots_ok[of 32 s]
    by (intro resource_add_node_inv) (auto simp: field_copy_def bytes_of_def)
  have upd: "resources_ok (Some (update_first (\<lambda>r. r_name r = n) (\<lambda>_. r') rs))"
    if "head = Some rs" "sub = Some s" "find (\<lambda>r. r_name r = n) rs = Some r"
      "resource_node_append_component m r s = (0, m', r')" for rs s n r m' r'
  proof -
    have r: "resource_ok r" "r_name r = n" using assms(1) that resource_find_ok by blast+
    have "NUL \<notin> set s" using assms(2) that(2) by blast
    from resource_node_append_ok[OF r(1) this that(4)] r(2)
    have "resource_ok r'" "r_name r' = n" by auto
    then show ?thesis using assms(1) that by (intro resources_ok_update) auto
  qed
  show ?thesis
    using assms(1,4) add upd
    by (auto simp: resource_append_component_by_name_def Let_def
        split: option.splits prod.splits if_splits)
qed

lemma resource_remove_component_inv:
  assumes "resources_ok head" "\<And>s. sub = Some s \<Longrightarrow> length s < COMPONENT_NAME_LEN"
  shows "resources_ok (snd (snd (resource_remove_component_by_name m head name sub)))"
proof -
  have upd: "resources_ok (Some (update_first (\<lambda>r. r_name r = n) (\<lambda>_. r') rs))"
    if "head = Some rs" "sub = Some s" "find (\<lambda>r. r_name r = n) rs = Some r"
      "subscribed_index r s = Some k"
      "resource_node_cascade m r (r_subscribed_count r - Suc 0) k = (x, m', r')"
    for rs s n r k x m' r'
  proof -
    have r: "resource_ok r" "r_name r = n" using assms(1) that resource_find_ok by blast+
    have "resource_ok r' \<and> r_name r' = r_name r"
      using resource_node_cascade_ok[OF r(1) assms(2)[OF that(2)] that(4)] that(5) by auto
    then show ?thesis using assms(1) that r by (intro resources_ok_update) auto
  qed
  have del: "resources_ok (Some (delete_first (\<lambda>r. r_name r = n) rs))" if "head = Some rs" for rs n
    using assms(1) that
    by (simp add: resources_ok_def list_all_delete_first distinct_key_delete_first)
  have unl: "resources_ok (Some (update_first (\<lambda>r. r_name r = n) (\<lambda>_. r\<lparr>r_lock := 0\<rparr>) rs))"
    if "head = Some rs" "find (\<lambda>r. r_name r = n) rs = Some r" for rs n r
    using assms(1) that resource_find_ok[of rs n r] by (intro resources_ok_update) auto
  show ?thesis
    using assms(1) upd del unl
    by (auto simp: resource_remove_component_by_name_def Let_def split: option.splits prod.splits)
qed

lemma remove_all_loop_ok:
  assumes "list_all resource_ok rs" "length s < COMPONENT_NAME_LEN"
    and "remove_all_loop m s rs = (ret, m', rs')"
  shows "list_all resource_ok rs' \<and> set (map r_name rs') \<subseteq> set (map r_name rs) \<and>
    (distinct (map r_name rs) \<longrightarrow> distinct (map r_name rs'))"
  using assms(1,3)
proof (induction rs arbitrary: m ret m' rs')
  case Nil
  then show ?case by simp
next
  case (Cons r rs)
  have tail: "resource_ok r1 \<Longrightarrow> r_name r1 = r_name r \<Longrightarrow> remove_all_loop m1 s rs = (x, m2, rs1) \<Longrightarrow>
      list_all resource_ok (r1 # rs1) \<and> set (map r_name (r1 # rs1)) \<subseteq> set (map r_name (r # rs)) \<and>
      (distinct (map r_name (r # rs)) \<longrightarrow> distinct (map r_name (r1 # rs1)))" for r1 m1 x m2 rs1
    using Cons.IH[of m1 x m2 rs1] Cons.prems(1) by auto
  show ?case
  proof (cases "subscribed_index r s")
    case None
    obtain x m2 rs1 where e: "remove_all_loop m s rs = (x, m2, rs1)" by (metis prod_cases3)
    then have rs': "rs' = r # rs1" using Cons.prems None by simp
    show ?thesis unfolding rs' by (rule tail[OF _ refl e]) (use Cons.prems in simp)
  next
    case (Some k)
    have ok: "resource_ok r" using Cons.prems by simp
    have dec: "resource_ok (r\<lparr>r_subscribed_count := r_subscribed_count r - Suc 0\<rparr>)"
      using ok by (auto simp: resource_ok_def intro: slots_ok_fewer)
    have cas: "resource_ok r1 \<and> r_name r1 = r_name r"
      if "resource_node_cascade m r (r_subscribed_count r - Suc 0) k = (x, m1, r1)" for x m1 r1
      using resource_node_cascade_ok[OF ok assms(2) Some] that by simp
    obtain x m1 r1 where c: "resource_node_cascade m r (r_subscribed_count r - Suc 0) k = (x, m1, r1)"
      by (metis prod_cases3)
    obtain y m2 rs1 where e: "remove_all_loop m1 s rs = (y, m2, rs1)" by (metis prod_cases3)
    consider "r_lock r \<noteq> 0" "rs' = r\<lparr>r_subscribed_count := r_subscribed_count r - Suc 0\<rparr> # rs"
      | "remove_all_loop m s rs = (ret, m', rs')"
      | "rs' = r1 # rs"
      | "rs' = r1 # rs1"
      using Cons.prems(2) Some c e by (auto simp: Let_def split: if_splits)
    then show ?thesis
    proof cases
      case 1
      then show ?thesis using dec Cons.prems(1) by auto
    next
      case 2
      then show ?thesis using Cons.IH[OF _ 2] Cons.prems(1) by auto
    next
      case 3
      then show ?thesis using cas[OF c] Cons.prems(1) by auto
    next
      case 4
      show ?thesis unfolding 4 using cas[OF c] by (intro tail[OF _ _ e]) auto
    qed
  qed
qed

lemma resource_remove_all_inv:
  assumes "resources_ok head" "\<And>s. sub = Some s \<Longrightarrow> length s < COMPONENT_NAME_LEN"
  shows "resources_ok (snd (snd (resource_remove_all_component_by_name m head sub)))"
  using assms remove_all_loop_ok
  by (fastforce simp: resource_remove_all_component_by_name_def resources_ok_def
      split: option.splits prod.splits)

text \<open>With every resource of the component free and memory available, exactly one
  occurrence of the name disappears from each, and resources left without subscribers go.\<close>

definition r_view :: "resource \<Rightarrow> string \<times> string list \<times> 32 word" where
  "r_view r = (r_name r, r_subscribers r, r_lock r)"

definition remove_subscriber :: "string \<Rightarrow> (string \<times> string list \<times> 32 word) list \<Rightarrow>
    (string \<times> string list \<times> 32 word) list" where
  "remove_subscriber s vs =
     map (\<lambda>(n, subs, l). (n, remove1 s subs, l)) (filter (\<lambda>(n, subs, l). subs \<noteq> [s]) vs)"

lemma remove_all_loop_view:
  assumes "list_all resource_ok rs" "length s < COMPONENT_NAME_LEN"
    and "\<forall>r \<in> set rs. s \<in> set (r_subscribers r) \<longrightarrow> r_lock r = 0"
  shows "\<exists>rs'. remove_all_loop [] s rs = (0, [], rs') \<and>
    map r_view rs' = remove_subscriber s (map r_view rs)"
  using assms(1,3)
proof (induction rs)
  case Nil
  then show ?case by (simp add: remove_subscriber_def)
next
  case (Cons r rs)
  then obtain rs' where IH: "remove_all_loop [] s rs = (0, [], rs')"
    "map r_view rs' = remove_subscriber s (map r_view rs)" by auto
  have ok: "resource_ok r" using Cons.prems by simp
  show ?case
  proof (cases "subscribed_index r s")
    case None
    then have "s \<notin> set (r_subscribers r)" using ok assms(2) subscribed_index_None by blast
    then show ?thesis
      using None IH
      by (auto simp: r_view_def[of r] remove_subscriber_def remove1_idem)
  next
    case (Some k)
    then have s: "s \<in> set (r_subscribers r)" using ok assms(2) subscribed_index_None by fastforce
    then have lock: "r_lock r = 0" using Cons.prems by simp
    show ?thesis
    proof (cases "r_subscribed_count r - 1 = 0")
      case True
      then have "r_subscribers r = [s]"
        using s length_r_subscribers[of r]
        by (cases "r_subscribers r"; cases "tl (r_subscribers r)") auto
      then show ?thesis using True Some lock IH by (simp add: r_view_def[of r] remove_subscriber_def)
    next
      case False
      obtain m1 r1 where c: "resource_node_cascade [] r (r_subscribed_count r - 1) k = (0, m1, r1)"
          "m1 = []"
        by (simp add: resource_node_cascade_def)
      have "r_subscribers r \<noteq> [s]" using False length_r_subscribers[of r] by auto
      then show ?thesis
        using False Some lock IH c resource_node_cascade_ok[OF ok assms(2) Some c(1)]
        by (auto simp: r_view_def[of r] r_view_def[of r1] remove_subscriber_def)
    qed
  qed
qed

section \<open>The registry as a lock table\<close>

definition resource_held :: "resources \<Rightarrow> string \<Rightarrow> bool option" where
  "resource_held head n =
     (case head of None \<Rightarrow> None
      | Some rs \<Rightarrow> map_option (\<lambda>r. r_lock r \<noteq> 0) (find (\<lambda>r. r_name r = n) rs))"

definition resource_shape :: "resources \<Rightarrow> resources" where
  "resource_shape head = map_option (map (\<lambda>r. r\<lparr>r_lock := 0\<rparr>)) head"

lemma resource_store_eq:
  "find (\<lambda>r. r_name r = n) rs = Some r \<Longrightarrow>
   update_first (\<lambda>r. r_name r = n) (\<lambda>_. r\<lparr>r_lock := l\<rparr>) rs =
   update_first (\<lambda>r. r_name r = n) (\<lambda>x. x\<lparr>r_lock := l\<rparr>) rs"
  by (rule update_first_cong) simp_all

lemma resource_held_store:
  "find (\<lambda>r. r_name r = n) rs = Some r \<Longrightarrow>
   resource_held (Some (update_first (\<lambda>r. r_name r = n) (\<lambda>_. r\<lparr>r_lock := l\<rparr>) rs)) =
     (resource_held (Some rs))(n \<mapsto> l \<noteq> 0)"
  by (auto simp: resource_store_eq resource_held_def fun_eq_iff find_key_update_first)

lemma resource_shape_store:
  "find (\<lambda>r. r_name r = n) rs = Some r \<Longrightarrow>
   resource_shape (Some (update_first (\<lambda>r. r_name r = n) (\<lambda>_. r\<lparr>r_lock := l\<rparr>) rs)) =
     resource_shape (Some rs)"
  by (simp add: resource_store_eq resource_shape_def map_update_first)

interpretation res_locks: framed_lock_table
  "\<lambda>head n. resource_lock_by_name head (Some n)"
  "\<lambda>head n. resource_unlock_by_name head (Some n)"
  resource_held resource_shape
proof unfold_locales
  fix s :: resources and n b
  show "fst (resource_lock_by_name s (Some n)) = 0 \<and>
      resource_held (snd (resource_lock_by_name s (Some n))) = (resource_held s)(n \<mapsto> True)"
    if "resource_held s n = Some False"
    using that resource_held_store[of n _ _ 1]
    by (auto simp: resource_held_def[of s n] resource_lock_by_name_def resource_node_lock_def
        store_node_def split: option.splits)
  show "fst (resource_lock_by_name s (Some n)) \<noteq> 0 \<and> snd (resource_lock_by_name s (Some n)) = s"
    if "resource_held s n \<noteq> Some False"
    using that
    by (auto simp: resource_held_def resource_lock_by_name_def resource_node_lock_def
        store_node_def update_first_self split: option.splits)
  show "fst (resource_unlock_by_name s (Some n)) = 0 \<and>
      resource_held (snd (resource_unlock_by_name s (Some n))) = (resource_held s)(n \<mapsto> False)"
    if "resource_held s n = Some b"
    using that resource_held_store[of n _ _ 0]
    by (auto simp: resource_held_def[of s n] resource_unlock_by_name_def resource_node_unlock_def
        store_node_def split: option.splits)
  show "fst (resource_unlock_by_name s (Some n)) \<noteq> 0 \<and> snd (resource_unlock_by_name s (Some n)) = s"
    if "resource_held s n = None"
    using that
    by (auto simp: resource_held_def resource_unlock_by_name_def split: option.splits)
  show "resource_shape (snd (resource_lock_by_name s (Some n))) = resource_shape s"
    by (auto simp: resource_lock_by_name_def resource_node_lock_def store_node_def
        resource_shape_store update_first_self split: option.splits)
  show "resource_shape (snd (resource_unlock_by_name s (Some n))) = resource_shape s"
    by (auto simp: resource_unlock_by_name_def resource_node_unlock_def store_node_def
        resource_shape_store split: option.splits)
qed


section \<open>Properties\<close>

text \<open>
  C33. The optimised method lookup, a generated switch on length and letters, is the plain
  case-insensitive table lookup for every word that fits its buffer; longer words, and only
  those, overflow it.
\<close>

theorem lookup_method_is_table:
  "resource_lookup_method (Some s) =
    (if length s > RESOURCE_METHOD_LEN then None
     else Some (case map_of method_table (map toupper s) of
                  None \<Rightarrow> RESOURCE_METHOD_UNKNOWN | Some k \<Rightarrow> k))"
  by (simp add: resource_lookup_method_def method_switch_table)

text \<open>
  Printing a method code and looking the printed word up again gives the code back, for
  each of the four methods; an unknown code prints nothing.
\<close>

lemma method_roundtrip:
  "map (\<lambda>k. resource_lookup_method (snd (resource_reverse_method [] k)))
     [RESOURCE_METHOD_READ, RESOURCE_METHOD_UPDATE, RESOURCE_METHOD_CREATE, RESOURCE_METHOD_DELETE] =
   map Some [RESOURCE_METHOD_READ, RESOURCE_METHOD_UPDATE, RESOURCE_METHOD_CREATE, RESOURCE_METHOD_DELETE]
   \<and> (k \<in> {0..3} \<or> snd (resource_reverse_method m k) = None)"
proof -
  have "map (\<lambda>k. resource_lookup_method (snd (resource_reverse_method [] k))) [0, 1, 2, 3] =
    map Some [0, 1, 2, 3]" by code_simp
  moreover have "k \<in> {0..3} \<or> snd (resource_reverse_method m k) = None"
    by (auto simp: resource_reverse_method_def split: prod.split)
  ultimately show ?thesis by simp
qed

lemma resources_find_in: "find (\<lambda>r. r_name r = n) rs = Some r \<Longrightarrow> n \<in> r_name ` set rs"
  by (auto dest: find_Some_mem)

lemma append_view:
  assumes "distinct (map r_name rs)" "find (\<lambda>r. r_name r = n) rs = Some r" "r_lock r = 0"
    and "r_view r' = (n, r_subscribers r @ [s], 0)"
  shows "map r_view (update_first (\<lambda>r. r_name r = n) (\<lambda>_. r') rs) =
    map (\<lambda>(k, subs, l). (k, if k = n then subs @ [s] else subs, l)) (map r_view rs)"
  using assms(1,2)
proof (induction rs)
  case Nil
  then show ?case by simp
next
  case (Cons x xs)
  show ?case
  proof (cases "r_name x = n")
    case True
    then have "\<forall>y \<in> set xs. r_name y \<noteq> n"
      using Cons.prems(1) by (metis distinct.simps(2) image_eqI list.simps(9) set_map)
    then have "map (\<lambda>(k, subs, l). (k, if k = n then subs @ [s] else subs, l)) (map r_view xs) =
        map r_view xs"
      by (auto simp: r_view_def)
    then show ?thesis using True Cons.prems assms(3,4) by (simp add: r_view_def[of x] r_view_def[of r])
  next
    case False
    then show ?thesis using Cons by (simp add: r_view_def[of x])
  qed
qed

lemma resource_append_view:
  assumes "resources_ok (Some rs)" "NUL \<notin> set s" "length s < COMPONENT_NAME_LEN"
    and "length n < RESOURCE_NAME_LEN"
    and "\<And>r. find (\<lambda>r. r_name r = n) rs = Some r \<Longrightarrow> r_lock r = 0"
  shows "\<exists>rs'. resource_append_component_by_name [] (Some rs) (Some n) (Some s) =
      (SANJI_SUCCESS, [], Some rs') \<and> resources_ok (Some rs') \<and>
    map r_view rs' =
      (if n \<in> r_name ` set rs
       then map (\<lambda>(k, subs, l). (k, if k = n then subs @ [s] else subs, l)) (map r_view rs)
       else map r_view rs @ [(n, [s], 0)])"
proof (cases "find (\<lambda>r. r_name r = n) rs")
  case None
  then have new: "n \<notin> r_name ` set rs" by (auto simp: find_None_iff_all)
  let ?r = "\<lparr>r_name = n, r_subscribed_component = Some ((slot 32 s)[31 := NUL]),
             r_subscribed_count = 1, r_lock = 0\<rparr>"
  have e: "resource_append_component_by_name [] (Some rs) (Some n) (Some s) = (0, [], Some (rs @ [?r]))"
    using new assms(4)
    by (simp add: resource_append_component_by_name_def resource_add_node_def Let_def field_copy_def
        memcpy_all length_slot)
  have "slots 32 1 ((slot 32 s)[31 := NUL]) = [s] \<and> slots_ok 32 1 ((slot 32 s)[31 := NUL])"
    using pack_slots_correct[of 32 "[s]"] assms(2,3) by (simp add: pack_slots_def)
  then have "r_view ?r = (n, [s], 0)" "resource_ok ?r"
    using assms(4) by (simp_all add: r_view_def r_subscribers_def bytes_of_def resource_ok_def)
  then show ?thesis
    using e assms(1) new by (auto simp: resources_ok_def)
next
  case (Some r)
  have ok: "resource_ok r" "r_name r = n" using resource_find_ok[OF assms(1) Some] by simp_all
  obtain r' where r': "resource_node_append_component [] r s = (0, [], r')"
    by (simp add: resource_node_append_component_def)
  have v: "resource_ok r'" "r_name r' = n" "r_view r' = (n, r_subscribers r @ [s], 0)"
    using resource_node_append_ok[OF ok(1) assms(2) r'] ok(2) assms(3) by (simp_all add: r_view_def)
  have "map r_view (update_first (\<lambda>r. r_name r = n) (\<lambda>_. r') rs) =
      map (\<lambda>(k, subs, l). (k, if k = n then subs @ [s] else subs, l)) (map r_view rs)"
    using append_view[OF _ Some assms(5)[OF Some] v(3)] assms(1) by (simp add: resources_ok_def)
  then show ?thesis
    using r' Some assms(5)[OF Some] resources_find_in[OF Some] resources_ok_update[OF assms(1) v(2,1)]
    by (auto simp: resource_append_component_by_name_def)
qed

text \<open>
  C30. Subscribing a component to an unlocked resource, with memory available: an existing
  resource gets the name appended to its subscribers, and a missing one is created with that
  single subscriber. Other resources do not change.
\<close>

theorem append_component_refines:
  assumes "resources_ok (Some rs)" "NUL \<notin> set s" "length s < COMPONENT_NAME_LEN"
    and "length n < RESOURCE_NAME_LEN"
    and "\<And>r. find (\<lambda>r. r_name r = n) rs = Some r \<Longrightarrow> r_lock r = 0"
  shows "\<exists>rs'. resource_append_component_by_name [] (Some rs) (Some n) (Some s) =
      (SANJI_SUCCESS, [], Some rs') \<and> resources_ok (Some rs') \<and>
    map r_view rs' =
      (if n \<in> r_name ` set rs
       then map (\<lambda>(k, subs, l). (k, if k = n then subs @ [s] else subs, l)) (map r_view rs)
       else map r_view rs @ [(n, [s], 0)])"
  using resource_append_view[OF assms] .

definition sample_resources :: "resource list" where
  "sample_resources =
     [\<lparr> r_name = ''/a'', r_subscribed_component = Some (pack_slots 32 [''m'', ''n'']),
        r_subscribed_count = 2, r_lock = 0 \<rparr>,
      \<lparr> r_name = ''/b'', r_subscribed_component = Some (pack_slots 32 [''m'']),
        r_subscribed_count = 1, r_lock = 0 \<rparr>]"

lemma sample_resources_ok: "resources_ok (Some sample_resources)"
  "map r_view sample_resources = [(''/a'', [''m'', ''n''], 0), (''/b'', [''m''], 0)]"
  by code_simp+

lemma sample_resources_free: "find P sample_resources = Some r \<Longrightarrow> r_lock r = 0"
  by (drule find_Some_mem) (auto simp: sample_resources_def)

theorem append_component_refines_witness:
  "\<exists>rs'. resource_append_component_by_name [] (Some sample_resources) (Some ''/b'') (Some ''k'') =
      (SANJI_SUCCESS, [], Some rs') \<and>
    map r_view rs' = [(''/a'', [''m'', ''n''], 0), (''/b'', [''m'', ''k''], 0)]"
proof -
  have "''/b'' \<in> r_name ` set sample_resources" by (simp add: sample_resources_def)
  then show ?thesis
    using append_component_refines[OF sample_resources_ok(1), of "''k''" "''/b''"]
    by (auto simp: sample_resources_ok(2) sample_resources_free)
qed

lemma resource_remove_all_view:
  assumes "resources_ok (Some rs)" "length s < COMPONENT_NAME_LEN"
    and "resource_is_any_locked_by_component (Some rs) s = Some 0"
  shows "\<exists>rs'. resource_remove_all_component_by_name [] (Some rs) (Some s) =
      (SANJI_SUCCESS, [], Some rs') \<and> resources_ok (Some rs') \<and>
    map r_view rs' = remove_subscriber s (map r_view rs)"
proof -
  have ok: "list_all resource_ok rs" using assms(1) by (simp add: resources_ok_def)
  have "\<forall>r \<in> set rs. s \<in> set (r_subscribers r) \<longrightarrow> r_lock r = 0"
    using assms(3) any_locked_loop_zero[OF ok assms(2)]
    by (simp add: resource_is_any_locked_by_component_def)
  from remove_all_loop_view[OF ok assms(2) this] obtain rs' where
    rs': "remove_all_loop [] s rs = (0, [], rs')" "map r_view rs' = remove_subscriber s (map r_view rs)"
    by blast
  then show ?thesis
    using resource_remove_all_inv[OF assms(1), of "Some s" "[]"] assms(2)
    by (simp add: resource_remove_all_component_by_name_def)
qed

text \<open>
  Removing a component from all resources, with memory available and every resource that
  holds it unlocked: one occurrence of the name goes from each subscriber list, a resource
  whose only subscriber it was disappears, and nothing else changes.
\<close>

lemma remove_all_component_view:
  assumes "resources_ok (Some rs)" "length s < COMPONENT_NAME_LEN"
    and "resource_is_any_locked_by_component (Some rs) s = Some 0"
  shows "\<exists>rs'. resource_remove_all_component_by_name [] (Some rs) (Some s) =
      (SANJI_SUCCESS, [], Some rs') \<and> resources_ok (Some rs') \<and>
    map r_view rs' = remove_subscriber s (map r_view rs)"
  using resource_remove_all_view[OF assms] .

lemma remove_all_component_view_witness:
  "\<exists>rs'. resource_remove_all_component_by_name [] (Some sample_resources) (Some ''m'') =
      (SANJI_SUCCESS, [], Some rs') \<and> map r_view rs' = [(''/a'', [''n''], 0)]"
proof -
  have "resource_is_any_locked_by_component (Some sample_resources) ''m'' = Some 0" by code_simp
  from remove_all_component_view[OF sample_resources_ok(1) _ this] show ?thesis
    by (auto simp: sample_resources_ok(2) remove_subscriber_def)
qed

text \<open>
  Asking for the resources of a component answers exactly the names of the resources it is
  subscribed to, in list order, when memory suffices; when an allocation fails the answer is
  the empty list, never a part of it.
\<close>

lemma names_by_component_complete:
  assumes "resources_ok (Some rs)" "length s < COMPONENT_NAME_LEN"
  shows "resource_get_names_by_component [] (Some rs) (Some s) =
      ([], map r_name (filter (\<lambda>r. s \<in> set (r_subscribers r)) rs)) \<and>
    (snd (resource_get_names_by_component m (Some rs) (Some s)) = [] \<or>
     snd (resource_get_names_by_component m (Some rs) (Some s)) =
       map r_name (filter (\<lambda>r. s \<in> set (r_subscribers r)) rs))"
  using assms names_by_component_loop_enough[of rs s "[]"] names_by_component_loop_eq[of rs s m "[]"]
  by (simp add: resource_get_names_by_component_def resources_ok_def)

lemma names_by_component_complete_witness:
  "resource_get_names_by_component [] (Some sample_resources) (Some ''n'') = ([], [''/a''])"
proof -
  have "map r_name (filter (\<lambda>r. ''n'' \<in> set (r_subscribers r)) sample_resources) = [''/a'']"
    by code_simp
  then show ?thesis
    using names_by_component_complete[OF sample_resources_ok(1), of "''n''" "[]"] by simp
qed


text \<open>
  The registry's history: its operations in any order; component names fit their slot, and
  memory suffices where a subscriber array grows.
\<close>

inductive resources_reachable :: "resources \<Rightarrow> bool" where
  init: "resources_reachable (snd (resource_init m))"
| append: "resources_reachable h \<Longrightarrow> NUL \<notin> set s \<Longrightarrow> length s < COMPONENT_NAME_LEN \<Longrightarrow>
    length n < RESOURCE_NAME_LEN \<Longrightarrow>
    fst (resource_append_component_by_name m h (Some n) (Some s)) = 0 \<Longrightarrow>
    resources_reachable (snd (snd (resource_append_component_by_name m h (Some n) (Some s))))"
| remove: "resources_reachable h \<Longrightarrow> length s < COMPONENT_NAME_LEN \<Longrightarrow>
    resources_reachable (snd (snd (resource_remove_component_by_name m h n (Some s))))"
| remove_all: "resources_reachable h \<Longrightarrow> length s < COMPONENT_NAME_LEN \<Longrightarrow>
    resources_reachable (snd (snd (resource_remove_all_component_by_name m h (Some s))))"
| delete: "resources_reachable h \<Longrightarrow> resources_reachable (snd (resource_delete_first_name h n))"
| lock: "resources_reachable h \<Longrightarrow> resources_reachable (snd (resource_lock_by_name h n))"
| unlock: "resources_reachable h \<Longrightarrow> resources_reachable (snd (resource_unlock_by_name h n))"

text \<open>
  The resource registry stays well formed through every history of its operations, with
  failing allocations in every removal path: names are unique and terminated, and every
  subscriber array has as many terminated slots as its count says.
\<close>

lemma resource_registry_invariant:
  assumes "resources_reachable h"
  shows "resources_ok h"
  using assms
proof induction
  case (init m)
  show ?case by (rule resource_init_ok)
next
  case (append h s n m)
  then show ?case by (intro resource_append_inv) auto
next
  case (remove h s m n)
  then show ?case by (intro resource_remove_component_inv) auto
next
  case (remove_all h s m)
  then show ?case by (intro resource_remove_all_inv) auto
qed (simp_all add: resource_delete_inv resource_lock_inv resource_unlock_inv)

lemma resource_registry_invariant_witness:
  "resources_ok (snd (resource_lock_by_name (snd (snd (resource_append_component_by_name []
     (snd (resource_init [])) (Some ''/a'') (Some ''m'')))) (Some ''/a'')))"
  by (rule resource_registry_invariant, intro resources_reachable.lock resources_reachable.append
      resources_reachable.init)
    (simp_all add: resource_init_def resource_append_component_by_name_def resource_add_node_def Let_def)


text \<open>
  A subscription that runs out of memory leaves the resource locked with a count one too
  big: the error is reported, but the lock taken before the allocation is not released, so
  that the resource stays locked for every later operation, and its count has grown while its
  array of subscriber slots has not.
\<close>

lemma failed_append_leaves_lock:
  assumes "find (\<lambda>r. r_name r = n) rs = Some r" "r_lock r = 0"
  shows "\<exists>rs' r'. resource_append_component_by_name (False # m) (Some rs) (Some n) (Some s) =
      (SANJI_DATA_ERROR, m, Some rs') \<and>
    find (\<lambda>r. r_name r = n) rs' = Some r' \<and> r_lock r' = 1 \<and>
    r_subscribed_count r' = r_subscribed_count r + 1 \<and>
    r_subscribed_component r' = r_subscribed_component r \<and>
    resource_held (Some rs') n = Some True"
proof -
  let ?r = "r\<lparr>r_lock := 1, r_subscribed_count := Suc (r_subscribed_count r)\<rparr>"
  have r: "r \<in> set rs" "r_name r = n" using assms(1) find_Some_mem by fast+
  have find: "find (\<lambda>r. r_name r = n) (update_first (\<lambda>r. r_name r = n) (\<lambda>_. ?r) rs) = Some ?r"
    using assms(1) r(2) by (induction rs) auto
  have "resource_append_component_by_name (False # m) (Some rs) (Some n) (Some s) =
      (SANJI_DATA_ERROR, m, Some (update_first (\<lambda>r. r_name r = n) (\<lambda>_. ?r) rs))"
    using assms r
    by (auto simp: resource_append_component_by_name_def resource_is_registered_def
        resource_node_append_component_def malloc_def find_None_iff_all split: option.split)
  then show ?thesis
    using find by (auto simp: resource_held_def)
qed

lemma failed_append_leaves_lock_witness:
  "\<exists>rs'. resource_append_component_by_name [False] (Some sample_resources) (Some ''/b'') (Some ''k'') =
      (SANJI_DATA_ERROR, [], Some rs') \<and> resource_held (Some rs') ''/b'' = Some True"
proof -
  obtain r where r: "find (\<lambda>r. r_name r = ''/b'') sample_resources = Some r" "r_lock r = 0"
    by (simp add: sample_resources_def)
  show ?thesis using failed_append_leaves_lock[OF r, of "[]" "''k''"] by blast
qed

end
