(* ===== verification/Topics.thy ===== *)
theory Topics
  imports Resources
begin

text \<open>
  Matching a topic against the registered resources: the two-pointer scan of
  \<open>resource_lookup_wildcard_nodes_by_name\<close> (\<open>src/resource.c\<close>), and the match functions of
  \<open>src/sanji_controller.c\<close> built on it. The scan is shown equivalent to a declarative
  reading of the wildcards. The arrays of node pointers the code builds are lists of nodes:
  they are only read before any node changes.
\<close>

section \<open>The scan\<close>

text \<open>
  The two strings left when the loop \<open>while (*p && *q)\<close> stops: \<open>p\<close> walks the pattern (the
  resource name), \<open>q\<close> the topic.
\<close>

fun wildcard_scan :: "string \<Rightarrow> string \<Rightarrow> string \<times> string" where
  "wildcard_scan [] q = ([], q)"
| "wildcard_scan (p # ps) [] = (p # ps, [])"
| "wildcard_scan (p # ps) (q # qs) =
     (if p = CHR ''#'' then (p # ps, q # qs)
      else if p = CHR ''+'' then
        (if q = CHR ''/'' then (p # ps, q # qs)
         else wildcard_scan ps (dropWhile (\<lambda>c. c \<noteq> CHR ''/'') (q # qs)))
      else if p \<noteq> q then (p # ps, q # qs)
      else wildcard_scan ps qs)"

definition wildcard_match :: "string \<Rightarrow> string \<Rightarrow> bool" where
  "wildcard_match pattern topic =
     (case wildcard_scan pattern topic of
        (p, q) \<Rightarrow> (p \<noteq> [] \<and> hd p = CHR ''#'' \<and> q \<noteq> []) \<or> (p = [] \<and> q = []))"

text \<open>
  The copies of the names are C strings when these are shorter than the buffers of
  \<open>RESOURCE_NAME_LEN\<close> bytes. The code leaves the copy of a longer name without a terminator and reads
  on behind it, which the model leaves out: the callers pass the resource of a parsed context,
  which is cut to that buffer, and names of nodes are cut when they are stored.
\<close>

definition resource_lookup_wildcard_nodes_by_name :: "resources \<Rightarrow> string \<Rightarrow> resource list" where
  "resource_lookup_wildcard_nodes_by_name head name =
     (case head of
        None \<Rightarrow> []
      | Some rs \<Rightarrow>
          filter (\<lambda>r. wildcard_match (take RESOURCE_NAME_LEN (r_name r))
                        (truncate_last CHR ''?'' (take RESOURCE_NAME_LEN name))) rs)"

text \<open>
  \<open>match_alg\<close> is fixed to the exact match; the longest-prefix loop is never entered. The topic is
  shorter than the buffer, as above.
\<close>

definition sanji_match_resource :: "resources \<Rightarrow> string \<Rightarrow> resource option" where
  "sanji_match_resource head topic =
     resource_lookup_node_by_name head (truncate_last CHR ''?'' (take RESOURCE_NAME_LEN topic))"

text \<open>
  The list of matching resources: the wildcard matches, then the exact match unless its name
  is already there. \<open>None\<close> is a null array; the count is an output of its own, and after a
  failed \<open>realloc\<close> it is nonzero while the array is null.
\<close>

definition sanji_match_resource_list ::
    "heap \<Rightarrow> resources \<Rightarrow> string \<Rightarrow> heap \<times> resource list option \<times> nat" where
  "sanji_match_resource_list m head topic =
     (let exact = sanji_match_resource head topic;
          found = resource_lookup_wildcard_nodes_by_name head topic;
          n = length found
      in case exact of
           None \<Rightarrow> (m, if found = [] then None else Some found, n)
         | Some r \<Rightarrow>
             if list_ex (\<lambda>x. strncmp_eq RESOURCE_NAME_LEN (r_name r) (r_name x)) found
             then (m, Some found, n)
             else let (ok, m1) = malloc m
                  in if ok then (m1, Some (found @ [r]), n + 1) else (m1, None, n + 1))"

text \<open>
  The subscribers of all matched resources, array after array. The empty list is the null
  pointer: no subscriber at all, or a failed \<open>realloc\<close>.
\<close>

fun sanji_get_subscribed_component :: "heap \<Rightarrow> string list \<Rightarrow> resource list \<Rightarrow> heap \<times> string list" where
  "sanji_get_subscribed_component m acc [] = (m, acc)"
| "sanji_get_subscribed_component m acc (r # rs) =
     (if resource_get_subscribed_count (Some r) = 0
      then sanji_get_subscribed_component m acc rs
      else let (ok, m1) = malloc m
           in if \<not> ok then (m1, [])
              else sanji_get_subscribed_component m1 (acc @ r_subscribers r) rs)"

section \<open>What the wildcards mean\<close>

text \<open>
  \<open>#\<close> stands for any rest that is not empty; \<open>+\<close> for one or more characters up to the next
  slash or the end; every other character for itself.
\<close>

inductive topic_matches :: "string \<Rightarrow> string \<Rightarrow> bool" where
  empty: "topic_matches [] []"
| multi: "q \<noteq> [] \<Longrightarrow> topic_matches (CHR ''#'' # ps) q"
| single: "seg \<noteq> [] \<Longrightarrow> CHR ''/'' \<notin> set seg \<Longrightarrow> rest = [] \<or> hd rest = CHR ''/'' \<Longrightarrow>
     topic_matches ps rest \<Longrightarrow> topic_matches (CHR ''+'' # ps) (seg @ rest)"
| char: "c \<noteq> CHR ''#'' \<Longrightarrow> c \<noteq> CHR ''+'' \<Longrightarrow> topic_matches ps qs \<Longrightarrow>
     topic_matches (c # ps) (c # qs)"

inductive_simps topic_matches_Nil: "topic_matches [] q"
inductive_simps topic_matches_multi: "topic_matches (CHR ''#'' # ps) q"
inductive_cases topic_matches_singleE: "topic_matches (CHR ''+'' # ps) q"
inductive_cases topic_matches_charE: "topic_matches (c # ps) q"

lemma wildcard_match_Nil [simp]: "wildcard_match [] q \<longleftrightarrow> q = []"
  by (simp add: wildcard_match_def)

lemma wildcard_match_Nil2 [simp]: "wildcard_match p [] \<longleftrightarrow> p = []"
  by (cases p) (auto simp: wildcard_match_def)

lemma wildcard_match_hash [simp]: "wildcard_match (CHR ''#'' # ps) q \<longleftrightarrow> q \<noteq> []"
  by (cases q) (auto simp: wildcard_match_def)

lemma wildcard_match_plus [simp]:
  "wildcard_match (CHR ''+'' # ps) (q # qs) \<longleftrightarrow>
    q \<noteq> CHR ''/'' \<and> wildcard_match ps (dropWhile (\<lambda>c. c \<noteq> CHR ''/'') qs)"
  by (auto simp: wildcard_match_def)

lemma wildcard_match_char [simp]:
  "p \<noteq> CHR ''#'' \<Longrightarrow> p \<noteq> CHR ''+'' \<Longrightarrow>
   wildcard_match (p # ps) (q # qs) \<longleftrightarrow> p = q \<and> wildcard_match ps qs"
  by (auto simp: wildcard_match_def)

lemma dropWhile_seg:
  "seg \<noteq> [] \<Longrightarrow> CHR ''/'' \<notin> set seg \<Longrightarrow> rest = [] \<or> hd rest = CHR ''/'' \<Longrightarrow>
   dropWhile (\<lambda>c. c \<noteq> CHR ''/'') (seg @ rest) = rest"
  by (cases rest) (auto simp: dropWhile_append)

lemma topic_matches_imp: "topic_matches p q \<Longrightarrow> wildcard_match p q"
proof (induction rule: topic_matches.induct)
  case (single seg rest ps)
  then obtain s ss where seg: "seg = s # ss" by (cases seg) auto
  have "dropWhile (\<lambda>c. c \<noteq> CHR ''/'') (ss @ rest) = rest"
    using single(1,2,3) seg dropWhile_seg[of seg rest] by (cases "ss = []") auto
  moreover have "s \<noteq> CHR ''/''" using single(2) seg by auto
  ultimately show ?case using single seg by simp
qed auto

lemma wildcard_match_imp: "wildcard_match p q \<Longrightarrow> topic_matches p q"
proof (induction p arbitrary: q)
  case Nil
  then show ?case by (simp add: topic_matches.empty)
next
  case (Cons p ps)
  show ?case
  proof (cases q)
    case Nil
    then show ?thesis using Cons.prems by simp
  next
    case (Cons c cs)
    consider "p = CHR ''#''" | "p = CHR ''+''" | "p \<noteq> CHR ''#''" "p \<noteq> CHR ''+''" by blast
    then show ?thesis
    proof cases
      case 1
      then show ?thesis using Cons by (simp add: topic_matches.multi)
    next
      case 2
      let ?seg = "takeWhile (\<lambda>c. c \<noteq> CHR ''/'') q" and ?rest = "dropWhile (\<lambda>c. c \<noteq> CHR ''/'') q"
      have "c \<noteq> CHR ''/''" and m: "wildcard_match ps ?rest"
        using Cons.prems Cons 2 by auto
      then have "topic_matches (CHR ''+'' # ps) (?seg @ ?rest)"
        using Cons hd_dropWhile[of "\<lambda>c. c \<noteq> CHR ''/''" q]
        by (intro topic_matches.single Cons.IH) (auto dest: set_takeWhileD)
      then show ?thesis using 2 by simp
    next
      case 3
      then have "p = c" "wildcard_match ps cs" using Cons.prems Cons by auto
      then show ?thesis using Cons 3 Cons.IH by (simp add: topic_matches.char)
    qed
  qed
qed

lemma wildcard_match_iff: "wildcard_match p q \<longleftrightarrow> topic_matches p q"
  using topic_matches_imp wildcard_match_imp by blast

text \<open>A name without wildcards matches itself and nothing else.\<close>

lemma wildcard_match_literal:
  "CHR ''#'' \<notin> set p \<Longrightarrow> CHR ''+'' \<notin> set p \<Longrightarrow> wildcard_match p q \<longleftrightarrow> p = q"
proof (induction p arbitrary: q)
  case Nil
  then show ?case by auto
next
  case (Cons c cs)
  have IH: "wildcard_match cs ds \<longleftrightarrow> cs = ds" for ds using Cons by simp
  have "c \<noteq> CHR ''#''" "c \<noteq> CHR ''+''" using Cons.prems by auto
  then show ?case by (cases q) (simp_all add: IH)
qed

section \<open>The matched list\<close>

abbreviation topic_key :: "string \<Rightarrow> string" where
  "topic_key topic \<equiv> truncate_last CHR ''?'' (take 1024 topic)"

definition topic_hits :: "string \<Rightarrow> resource \<Rightarrow> bool" where
  "topic_hits topic r \<longleftrightarrow> wildcard_match (r_name r) (topic_key topic) \<or> r_name r = topic_key topic"

lemma lookup_wildcard_Some:
  "resources_ok (Some rs) \<Longrightarrow>
   resource_lookup_wildcard_nodes_by_name (Some rs) topic =
     filter (\<lambda>r. wildcard_match (r_name r) (topic_key topic)) rs"
proof -
  assume ok: "resources_ok (Some rs)"
  have "take 1024 (r_name r) = r_name r" if "r \<in> set rs" for r
    using ok that by (auto simp: resources_ok_def list_all_iff resource_ok_def)
  then have "filter (\<lambda>r. wildcard_match (take 1024 (r_name r)) (topic_key topic)) rs =
      filter (\<lambda>r. wildcard_match (r_name r) (topic_key topic)) rs"
    by (intro filter_cong) simp_all
  then show ?thesis by (simp only: resource_lookup_wildcard_nodes_by_name_def option.case)
qed

lemma resource_names_eq:
  "resources_ok (Some rs) \<Longrightarrow> r \<in> set rs \<Longrightarrow> x \<in> set rs \<Longrightarrow>
   strncmp_eq RESOURCE_NAME_LEN (r_name r) (r_name x) \<longleftrightarrow> r = x"
  by (auto simp: resources_ok_def list_all_iff resource_ok_def strncmp_eq_short distinct_map
      dest: inj_onD)

lemma matched_array:
  assumes "res = ([], if xs = [] then None else Some xs, length xs)" "distinct xs" "set xs = S"
  shows "\<exists>l n. res = ([], l, n) \<and> (l = None \<longleftrightarrow> S = {}) \<and> (l = None \<longrightarrow> n = 0) \<and>
    (\<forall>ys. l = Some ys \<longrightarrow> n = length ys \<and> distinct ys \<and> set ys = S)"
  using assms by (cases "xs = []") auto

text \<open>With enough memory the array holds every hit once; it is null iff there is none.\<close>

lemma match_list_enough:
  assumes ok: "resources_ok (Some rs)"
  shows "\<exists>l n. sanji_match_resource_list [] (Some rs) topic = ([], l, n) \<and>
    (l = None \<longleftrightarrow> {r \<in> set rs. topic_hits topic r} = {}) \<and> (l = None \<longrightarrow> n = 0) \<and>
    (\<forall>xs. l = Some xs \<longrightarrow> n = length xs \<and> distinct xs \<and> set xs = {r \<in> set rs. topic_hits topic r})"
proof -
  obtain w where w: "w = filter (\<lambda>r. wildcard_match (r_name r) (topic_key topic)) rs" by simp
  have d: "distinct w" using ok by (auto simp: w resources_ok_def distinct_map)
  have e: "sanji_match_resource (Some rs) topic = find (\<lambda>r. r_name r = topic_key topic) rs"
    by (simp add: sanji_match_resource_def resource_lookup_node_by_name_def)
  show ?thesis
  proof (cases "find (\<lambda>r. r_name r = topic_key topic) rs")
    case None
    then have "set w = {x \<in> set rs. topic_hits topic x}"
      by (auto simp: w topic_hits_def find_None_iff_all)
    moreover have "sanji_match_resource_list [] (Some rs) topic =
        ([], if w = [] then None else Some w, length w)"
      unfolding sanji_match_resource_list_def e None lookup_wildcard_Some[OF ok] Let_def option.case w
      by (rule refl)
    ultimately show ?thesis using d by (intro matched_array) auto
  next
    case (Some r)
    then have r: "r \<in> set rs" "r_name r = topic_key topic" using find_Some_mem by fast+
    have uniq: "x = r" if "x \<in> set rs" "r_name x = topic_key topic" for x
    proof -
      have "inj_on r_name (set rs)" using ok by (simp add: resources_ok_def distinct_map)
      then show ?thesis using that r by (auto simp: inj_on_def)
    qed
    have "x \<in> set rs" if "x \<in> set w" for x using that by (simp add: w)
    then have dup: "list_ex (\<lambda>x. strncmp_eq 1024 (r_name r) (r_name x)) w \<longleftrightarrow> r \<in> set w"
      using resource_names_eq[OF ok r(1)] by (auto simp: list_ex_iff)
    have hits: "set (if r \<in> set w then w else w @ [r]) = {x \<in> set rs. topic_hits topic x}"
    proof -
      have "x \<in> set w \<or> x = r \<longleftrightarrow> x \<in> set rs \<and> topic_hits topic x" for x
        unfolding topic_hits_def w set_filter mem_Collect_eq using r uniq by blast
      moreover have "set (if r \<in> set w then w else w @ [r]) = {x. x \<in> set w \<or> x = r}" by auto
      ultimately show ?thesis by simp
    qed
    have "sanji_match_resource_list [] (Some rs) topic =
        (if r \<in> set w then ([], Some w, length w) else ([], Some (w @ [r]), length w + 1))"
      unfolding sanji_match_resource_list_def e Some lookup_wildcard_Some[OF ok] Let_def option.case
        w[symmetric] dup malloc_Nil by (cases "r \<in> set w") (simp_all only: if_True if_False prod.case)
    then show ?thesis
      using d hits by (intro matched_array[of _ "if r \<in> set w then w else w @ [r]"]) auto
  qed
qed

lemma get_subscribed_enough:
  "sanji_get_subscribed_component [] acc rs = ([], acc @ concat (map r_subscribers rs))"
proof (induction rs arbitrary: acc)
  case Nil
  then show ?case by simp
next
  case (Cons r rs)
  have "r_subscribed_count r = 0 \<Longrightarrow> r_subscribers r = []"
    using length_r_subscribers[of r] by simp
  with Cons show ?case by (auto simp: resource_get_subscribed_count_def)
qed


section \<open>Properties\<close>

text \<open>
  C17. The two-pointer scan decides exactly the declarative meaning of the wildcards: the hash
  sign stands for any nonempty rest, the plus sign for one or more characters up to the next slash or
  the end, every other character for itself.
\<close>

theorem wildcard_scan_decides_matching:
  "wildcard_match pattern topic \<longleftrightarrow> topic_matches pattern topic"
  by (rule wildcard_match_iff)

text \<open>
  C18. Matching a topic finds every resource whose name matches it as a pattern or equals it
  (after cutting the query string), each exactly once, and nothing else: with memory
  available the array and its count agree, and the array is null exactly when there is none.
\<close>

theorem match_list_complete:
  assumes "resources_ok (Some rs)"
  shows "\<exists>l n. sanji_match_resource_list [] (Some rs) topic = ([], l, n) \<and>
    (l = None \<longleftrightarrow> filter (topic_hits topic) rs = []) \<and>
    (case l of None \<Rightarrow> n = 0
     | Some xs \<Rightarrow> n = length xs \<and> distinct xs \<and> set xs = set (filter (topic_hits topic) rs))"
proof -
  obtain l n where "sanji_match_resource_list [] (Some rs) topic = ([], l, n)"
    "l = None \<longleftrightarrow> {r \<in> set rs. topic_hits topic r} = {}" "l = None \<longrightarrow> n = 0"
    "\<forall>xs. l = Some xs \<longrightarrow> n = length xs \<and> distinct xs \<and> set xs = {r \<in> set rs. topic_hits topic r}"
    using match_list_enough[OF assms, of topic] by blast
  then show ?thesis by (auto simp: filter_empty_conv split: option.split)
qed

theorem match_list_complete_witness:
  "\<exists>xs. sanji_match_resource_list [] (Some sample_resources) ''/b?x=1'' = ([], Some xs, length xs) \<and>
    map r_name (filter (topic_hits ''/b?x=1'') sample_resources) = [''/b'']"
proof -
  have f: "map r_name (filter (topic_hits ''/b?x=1'') sample_resources) = [''/b'']" by code_simp
  then have "filter (topic_hits ''/b?x=1'') sample_resources \<noteq> []" by auto
  then show ?thesis
    using match_list_complete[OF sample_resources_ok(1), of "''/b?x=1''"] f
    by (auto split: option.splits)
qed

text \<open>
  The subscribers of a list of resources are collected without loss: with memory
  available the result is the concatenation of all their subscriber lists, in order.
\<close>

lemma subscribers_collected:
  "sanji_get_subscribed_component [] [] rs = ([], concat (map r_subscribers rs))"
  by (simp add: get_subscribed_enough)

end
