(* ===== verification/World.thy ===== *)
theory World
  imports Topics
begin

text \<open>
  The state of the running controller and its two libraries. \<open>jansson\<close> and \<open>mosquitto\<close> are
  not part of the sources: the JSON library is a record of functions that every definition
  using it takes as an argument, over an opaque heap \<open>'h\<close> of JSON values and opaque
  references \<open>'p\<close> (a \<open>json_t *\<close> is a \<open>'p option\<close>); a publication is an entry in the log of
  what was sent, since its return code is ignored.
\<close>

section \<open>The JSON library\<close>

record ('h, 'p) jansson =
  json_loads :: "'h \<Rightarrow> string \<Rightarrow> 'p option \<times> 'h"
  json_dumps :: "'h \<Rightarrow> 'p option \<Rightarrow> string option"
  json_new_object :: "'h \<Rightarrow> 'p option \<times> 'h"
  json_new_array :: "'h \<Rightarrow> 'p option \<times> 'h"
  json_integer :: "'h \<Rightarrow> int \<Rightarrow> 'p option \<times> 'h"
  json_string :: "'h \<Rightarrow> string \<Rightarrow> 'p option \<times> 'h"
  json_deep_copy :: "'h \<Rightarrow> 'p option \<Rightarrow> 'p option \<times> 'h"
  json_decref :: "'h \<Rightarrow> 'p option \<Rightarrow> 'h"
  json_is_object :: "'h \<Rightarrow> 'p \<Rightarrow> bool"
  json_is_array :: "'h \<Rightarrow> 'p \<Rightarrow> bool"
  json_is_string :: "'h \<Rightarrow> 'p \<Rightarrow> bool"
  json_is_number :: "'h \<Rightarrow> 'p \<Rightarrow> bool"
  json_string_value :: "'h \<Rightarrow> 'p \<Rightarrow> string"
  json_number_value :: "'h \<Rightarrow> 'p \<Rightarrow> int" \<comment> \<open>the double, truncated towards zero\<close>
  json_object_get :: "'h \<Rightarrow> 'p option \<Rightarrow> string \<Rightarrow> 'p option"
  json_object_set_new :: "'h \<Rightarrow> 'p option \<Rightarrow> string \<Rightarrow> 'p option \<Rightarrow> 'h"
  json_object_set :: "'h \<Rightarrow> 'p option \<Rightarrow> string \<Rightarrow> 'p option \<Rightarrow> 'h"
  json_object_del :: "'h \<Rightarrow> 'p option \<Rightarrow> string \<Rightarrow> 'h"
  json_object_update :: "'h \<Rightarrow> 'p option \<Rightarrow> 'p option \<Rightarrow> 'h"
  json_array_size :: "'h \<Rightarrow> 'p option \<Rightarrow> nat"
  json_array_get :: "'h \<Rightarrow> 'p option \<Rightarrow> nat \<Rightarrow> 'p option"
  json_array_append_new :: "'h \<Rightarrow> 'p option \<Rightarrow> 'p option \<Rightarrow> 'h"

text \<open>
  Assigning a double to an \<open>unsigned int\<close> or an \<open>int\<close>: undefined (\<open>None\<close>) unless the truncated
  value fits.
\<close>

definition double_to_uint :: "int \<Rightarrow> 32 word option" where
  "double_to_uint i = (if 0 \<le> i \<and> i < 2 ^ 32 then Some (word_of_int i) else None)"

definition double_to_int :: "int \<Rightarrow> 32 word option" where
  "double_to_int i = (if - (2 ^ 31) \<le> i \<and> i < 2 ^ 31 then Some (word_of_int i) else None)"

text \<open>\<open>json_object_set_new(obj, key, json_integer(i))\<close> and its string version.\<close>

definition set_integer :: "('h, 'p) jansson \<Rightarrow> 'p option \<Rightarrow> string \<Rightarrow> int \<Rightarrow> 'h \<Rightarrow> 'h" where
  "set_integer J obj key i h =
     (let (v, h1) = json_integer J h i in json_object_set_new J h1 obj key v)"

definition set_string :: "('h, 'p) jansson \<Rightarrow> 'p option \<Rightarrow> string \<Rightarrow> string \<Rightarrow> 'h \<Rightarrow> 'h" where
  "set_string J obj key s h =
     (let (v, h1) = json_string J h s in json_object_set_new J h1 obj key v)"

text \<open>A fresh one-element array of a string, set under \<open>sign\<close>.\<close>

definition set_sign :: "('h, 'p) jansson \<Rightarrow> 'p option \<Rightarrow> string \<Rightarrow> 'h \<Rightarrow> 'h" where
  "set_sign J obj s h =
     (let (a, h1) = json_new_array J h;
          (v, h2) = json_string J h1 s;
          h3 = json_array_append_new J h2 a v
      in json_object_set_new J h3 obj ''sign'' a)"

section \<open>Sessions\<close>

text \<open>
  One step of a session: the models asked together and their remaining times to live; the
  count of the C struct is the length of the list of models.
\<close>

record model_chain =
  mc_models :: "string list"
  mc_ttls :: "32 word list"

record 'p session =
  s_id :: "32 word"
  s_method :: int
  s_resource :: string
  s_tunnel :: string
  s_dependency_chain :: "string list"
  s_result_chain :: "'p option"
  s_model_chain :: "model_chain list"
  s_view_chain :: "string list"
  s_curr_step :: nat
  s_curr_wait :: "32 word"

section \<open>The controller\<close>

record userdata =
  ud_local_id_topic :: string
  ud_pub_qos :: int
  ud_retain_sent :: int

record publish =
  p_topic :: "string option"
  p_payload :: string
  p_qos :: int
  p_retain :: int

text \<open>
  The globals of \<open>sanji_controller.c\<close>, with the environment's answers to come: the
  allocations, and the values of \<open>generate_random\<close>.
\<close>

record ('h, 'p) world =
  w_heap :: heap
  w_json :: 'h
  w_rand :: "int list"
  w_resources :: resources
  w_components :: components
  w_sessions :: "'p session list option"
  w_ud :: userdata
  w_sent :: "publish list"

definition mosquitto_publish :: "string option \<Rightarrow> string \<Rightarrow> ('h, 'p) world \<Rightarrow> ('h, 'p) world" where
  "mosquitto_publish topic payload w =
     w\<lparr>w_sent := w_sent w @
        [\<lparr>p_topic = topic, p_payload = payload,
          p_qos = ud_pub_qos (w_ud w), p_retain = ud_retain_sent (w_ud w)\<rparr>]\<rparr>"

text \<open>Sending one payload to a list of tunnels.\<close>

fun publish_all :: "string option list \<Rightarrow> string \<Rightarrow> ('h, 'p) world \<Rightarrow> ('h, 'p) world" where
  "publish_all [] payload w = w"
| "publish_all (t # ts) payload w = publish_all ts payload (mosquitto_publish t payload w)"

lemma mosquitto_publish_frame [frame_simps]:
  "w_heap (mosquitto_publish t p w) = w_heap w" "w_json (mosquitto_publish t p w) = w_json w"
  "w_rand (mosquitto_publish t p w) = w_rand w"
  "w_resources (mosquitto_publish t p w) = w_resources w"
  "w_components (mosquitto_publish t p w) = w_components w"
  "w_sessions (mosquitto_publish t p w) = w_sessions w" "w_ud (mosquitto_publish t p w) = w_ud w"
  by (simp_all add: mosquitto_publish_def)

lemma publish_all_frame [frame_simps]:
  "w_heap (publish_all ts p w) = w_heap w" "w_json (publish_all ts p w) = w_json w"
  "w_rand (publish_all ts p w) = w_rand w" "w_resources (publish_all ts p w) = w_resources w"
  "w_components (publish_all ts p w) = w_components w"
  "w_sessions (publish_all ts p w) = w_sessions w" "w_ud (publish_all ts p w) = w_ud w"
  by (induction ts arbitrary: w) (simp_all add: frame_simps)

lemma publish_all_sent:
  "w_sent (publish_all ts p w) = w_sent w @
    map (\<lambda>t. \<lparr>p_topic = t, p_payload = p, p_qos = ud_pub_qos (w_ud w),
              p_retain = ud_retain_sent (w_ud w)\<rparr>) ts"
  by (induction ts arbitrary: w) (simp_all add: mosquitto_publish_def)

end
