(* ===== verification/Sessions.thy ===== *)
theory Sessions
  imports World
begin

text \<open>
  The session engine of \<open>src/session.c\<close>: a request that was accepted runs through the steps
  of its model chain. Each step publishes the request to the models of the step and waits
  for all their answers; an error answer, an expired time to live or the end of the chain
  stops the session, which answers the requester and releases the locks.

  A pointer to a session node is the node's contents, and writing through it stores them in
  the list node of the same identifier: identifiers are unique in the list (shown below to
  be an invariant). The outer \<open>option\<close> of a result is \<open>None\<close> where the code reads a step
  outside the model chain.
\<close>

section \<open>The list of sessions\<close>

definition session_init :: "heap \<Rightarrow> heap \<times> 'p session list option" where
  "session_init m = (let (ok, m') = malloc m in (m', if ok then Some [] else None))"

definition session_create_node ::
    "heap \<Rightarrow> 32 word \<Rightarrow> int \<Rightarrow> string option \<Rightarrow> string option \<Rightarrow> string list \<Rightarrow> 'p option \<Rightarrow>
     model_chain list \<Rightarrow> string list \<Rightarrow> heap \<times> 'p session option" where
  "session_create_node m sid method resource tunnel dependency_chain result_chain model_chain
     view_chain =
     (let (ok, m1) = malloc m in
      if \<not> ok then (m1, None)
      else (m1, Some \<lparr> s_id = sid, s_method = method,
                       s_resource = field_copy RESOURCE_NAME_LEN resource,
                       s_tunnel = field_copy COMPONENT_TUNNEL_LEN tunnel,
                       s_dependency_chain = dependency_chain,
                       s_result_chain = result_chain, s_model_chain = model_chain,
                       s_view_chain = view_chain, s_curr_step = 0, s_curr_wait = 0 \<rparr>))"

definition session_add :: "'p session list option \<Rightarrow> 'p session option \<Rightarrow>
    int \<times> 'p session list option" where
  "session_add head node =
     (case (head, node) of
        (Some ss, Some s) \<Rightarrow> (0, Some (ss @ [s]))
      | _ \<Rightarrow> (1, head))"

definition session_add_node ::
    "heap \<Rightarrow> 'p session list option \<Rightarrow> 32 word \<Rightarrow> int \<Rightarrow> string option \<Rightarrow> string option \<Rightarrow>
     string list \<Rightarrow> 'p option \<Rightarrow> model_chain list \<Rightarrow> string list \<Rightarrow>
     int \<times> heap \<times> 'p session list option" where
  "session_add_node m head sid method resource tunnel dependency_chain result_chain model_chain
     view_chain =
     (case head of
        None \<Rightarrow> (1, m, head)
      | Some ss \<Rightarrow>
          (let (m1, node) = session_create_node m sid method resource tunnel dependency_chain
                              result_chain model_chain view_chain
           in case node of
                None \<Rightarrow> (1, m1, head)
              | Some s \<Rightarrow> (let (ret, head1) = session_add head node in (ret, m1, head1))))"

definition session_lookup_node_by_id :: "'p session list option \<Rightarrow> 32 word \<Rightarrow> 'p session option" where
  "session_lookup_node_by_id head sid =
     (case head of None \<Rightarrow> None | Some ss \<Rightarrow> find (\<lambda>s. s_id s = sid) ss)"

text \<open>Deleting frees the result chain: the library drops a reference.\<close>

definition session_delete_first_resource ::
    "('h, 'p) jansson \<Rightarrow> 'h \<Rightarrow> 'p session list option \<Rightarrow> string option \<Rightarrow>
     int \<times> 'h \<times> 'p session list option" where
  "session_delete_first_resource J h head resource =
     (case (head, resource) of
        (Some ss, Some n) \<Rightarrow>
          (case find (\<lambda>s. s_resource s = n) ss of
             None \<Rightarrow> (0, h, head)
           | Some s \<Rightarrow>
               (1, (case s_result_chain s of None \<Rightarrow> h | Some p \<Rightarrow> json_decref J h (Some p)),
                Some (delete_first (\<lambda>s. s_resource s = n) ss)))
      | _ \<Rightarrow> (1, h, head))"

definition session_delete_first_id ::
    "('h, 'p) jansson \<Rightarrow> 'h \<Rightarrow> 'p session list option \<Rightarrow> 32 word \<Rightarrow>
     int \<times> 'h \<times> 'p session list option" where
  "session_delete_first_id J h head sid =
     (case head of
        None \<Rightarrow> (1, h, head)
      | Some ss \<Rightarrow>
          (case find (\<lambda>s. s_id s = sid) ss of
             None \<Rightarrow> (0, h, head)
           | Some s \<Rightarrow>
               (1, (case s_result_chain s of None \<Rightarrow> h | Some p \<Rightarrow> json_decref J h (Some p)),
                Some (delete_first (\<lambda>s. s_id s = sid) ss))))"

text \<open>Taking the whole list apart at the exit of the program.\<close>

definition session_free :: "('h, 'p) jansson \<Rightarrow> 'p session list option \<Rightarrow> 'h \<Rightarrow> 'h" where
  "session_free J head h =
     (case head of
        None \<Rightarrow> h
      | Some ss \<Rightarrow>
          fold (\<lambda>s h. case s_result_chain s of None \<Rightarrow> h | Some p \<Rightarrow> json_decref J h (Some p)) ss h)"

definition session_is_inflight :: "'p session list option \<Rightarrow> 32 word \<Rightarrow> int" where
  "session_is_inflight head sid =
     (case head of
        None \<Rightarrow> SANJI_DATA_ERROR
      | Some ss \<Rightarrow> (case find (\<lambda>s. s_id s = sid) ss of None \<Rightarrow> 0 | Some _ \<Rightarrow> 1))"

section \<open>Locking the chain of a session\<close>

text \<open>The nested loops over all steps and the models of each.\<close>

fun run_chains :: "('s \<Rightarrow> string \<Rightarrow> int \<times> 's) \<Rightarrow> 's \<Rightarrow> model_chain list \<Rightarrow> int \<times> 's" where
  "run_chains act s [] = (0, s)"
| "run_chains act s (mc # mcs) =
     (let (ret, s') = run_names act s (mc_models mc)
      in if ret \<noteq> 0 then (ret, s') else run_chains act s' mcs)"

definition session_node_unlock_by_step ::
    "'p session option \<Rightarrow> resources \<Rightarrow> components \<Rightarrow> nat \<Rightarrow> int \<times> resources \<times> components" where
  "session_node_unlock_by_step node resource_list component_list step =
     (case (node, resource_list, component_list) of
        (Some s, Some _, Some _) \<Rightarrow>
          if step = 0 then
            (let (ret, rl) = run_names (\<lambda>h n. resource_unlock_by_name h (Some n))
                               resource_list (s_dependency_chain s)
             in if ret \<noteq> 0 then (ret, rl, component_list)
                else let (ret2, cl) = run_chains (\<lambda>h n. component_unlock_by_name h (Some n))
                                        component_list (s_model_chain s)
                     in (ret2, rl, cl))
          else if step \<le> length (s_model_chain s) then
            (let (ret, cl) = run_names (\<lambda>h n. component_unlock_by_name h (Some n))
                               component_list (mc_models (s_model_chain s ! (step - 1)))
             in (ret, resource_list, cl))
          else (SANJI_SUCCESS, resource_list, component_list)
      | _ \<Rightarrow> (SANJI_DATA_ERROR, resource_list, component_list))"

definition session_node_lock_by_step ::
    "'p session option \<Rightarrow> resources \<Rightarrow> components \<Rightarrow> nat \<Rightarrow> int \<times> resources \<times> components" where
  "session_node_lock_by_step node resource_list component_list step =
     (case (node, resource_list, component_list) of
        (Some s, Some _, Some _) \<Rightarrow>
          if step = 0 then
            (let (ret, rl) = run_names (\<lambda>h n. resource_lock_by_name h (Some n))
                               resource_list (s_dependency_chain s)
             in if ret \<noteq> 0 then (ret, rl, component_list)
                else let (ret2, cl) = run_chains (\<lambda>h n. component_lock_by_name h (Some n))
                                        component_list (s_model_chain s)
                     in (ret2, rl, cl))
          else if step \<le> length (s_model_chain s) then
            (let (ret, cl) = run_names (\<lambda>h n. component_lock_by_name h (Some n))
                               component_list (mc_models (s_model_chain s ! (step - 1)))
             in (ret, resource_list, cl))
          else (SANJI_SUCCESS, resource_list, component_list)
      | _ \<Rightarrow> (SANJI_DATA_ERROR, resource_list, component_list))"

section \<open>Steps\<close>

text \<open>\<open>model_chain[curr_step - 1]\<close>.\<close>

definition current_chain :: "'p session \<Rightarrow> model_chain option" where
  "current_chain s =
     (if 0 < s_curr_step s \<and> s_curr_step s \<le> length (s_model_chain s)
      then Some (s_model_chain s ! (s_curr_step s - 1)) else None)"

definition session_node_update_wait :: "'p session \<Rightarrow> 'p session option" where
  "session_node_update_wait s =
     map_option (\<lambda>mc. s\<lparr>s_curr_wait := of_nat (length (mc_models mc))\<rparr>) (current_chain s)"

definition session_store :: "'p session \<Rightarrow> ('h, 'p) world \<Rightarrow> ('h, 'p) world" where
  "session_store s w =
     w\<lparr>w_sessions := map_option (update_first (\<lambda>x. s_id x = s_id s) (\<lambda>_. s)) (w_sessions w)\<rparr>"

text \<open>
  Merging the \<open>data\<close> of every collected result into the \<open>data\<close> of \<open>root\<close>: one iteration of
  the loop, and the loop over the indices below the array's size.
\<close>

definition merge_result :: "('h, 'p) jansson \<Rightarrow> 'p option \<Rightarrow> 'p option \<Rightarrow> nat \<Rightarrow> 'h \<Rightarrow> 'h" where
  "merge_result J chain root i h =
     (case json_array_get J h chain i of
        None \<Rightarrow> h
      | Some r \<Rightarrow>
          if json_is_object J h r
          then json_object_update J h (json_object_get J h root ''data'')
                 (json_object_get J h (Some r) ''data'')
          else h)"

definition merge_results :: "('h, 'p) jansson \<Rightarrow> 'p option \<Rightarrow> 'p option \<Rightarrow> 'h \<Rightarrow> 'h" where
  "merge_results J chain root h =
     (case chain of
        None \<Rightarrow> h
      | Some c \<Rightarrow>
          if json_is_array J h c
          then fold (merge_result J chain root) [0..<json_array_size J h chain] h
          else h)"

text \<open>The answer of a session whose time to live expired.\<close>

definition timeout_response ::
    "('h, 'p) jansson \<Rightarrow> 'p session \<Rightarrow> heap \<Rightarrow> 'h \<Rightarrow> heap \<times> 'p option \<times> 'h" where
  "timeout_response J s m h =
     (let (root, h1) = json_new_object J h;
          h2 = set_integer J root ''code'' 408 h1;
          h3 = set_integer J root ''id'' (uint (s_id s)) h2;
          h4 = set_string J root ''resource'' (s_resource s) h3;
          (m1, method) = resource_reverse_method m (s_method s);
          h5 = (case method of None \<Rightarrow> h4 | Some t \<Rightarrow> set_string J root ''method'' t h4);
          h6 = set_sign J root ''controller'' h5;
          (data, h7) = json_new_object J h6;
          h8 = set_string J data ''message'' ''session failed due to ttl expired .'' h7;
          h9 = json_object_set_new J h8 root ''data'' data
      in (m1, root, h9))"

definition stop_response ::
    "('h, 'p) jansson \<Rightarrow> 'p session \<Rightarrow> 'p option \<Rightarrow> ('h, 'p) world \<Rightarrow> 'p option \<times> ('h, 'p) world" where
  "stop_response J s root w =
     (if s_curr_step s > length (s_model_chain s) then
        (let (response, h1) = json_deep_copy J (w_json w) root
         in (response, w\<lparr>w_json := merge_results J (s_result_chain s) response h1\<rparr>))
      else if root = None then
        (let (m1, response, h1) = timeout_response J s (w_heap w) (w_json w)
         in (response, w\<lparr>w_heap := m1, w_json := h1\<rparr>))
      else
        (let (response, h1) = json_deep_copy J (w_json w) root
         in (response, w\<lparr>w_json := h1\<rparr>)))"

text \<open>Answering: only to the tunnel of the request if it gave one, else to all its views.\<close>

definition stop_publish :: "'p session \<Rightarrow> string \<Rightarrow> ('h, 'p) world \<Rightarrow> ('h, 'p) world" where
  "stop_publish s payload w =
     (if s_tunnel s \<noteq> [] then mosquitto_publish (Some (s_tunnel s)) payload w
      else publish_all
             (map (\<lambda>v. component_get_tunnel_by_name (w_components w) (Some v)) (s_view_chain s))
             payload w)"

text \<open>Releasing the locks of a write-like session and unlinking it.\<close>

definition stop_release :: "('h, 'p) jansson \<Rightarrow> 'p session \<Rightarrow> ('h, 'p) world \<Rightarrow> ('h, 'p) world" where
  "stop_release J s w =
     (let (rl, cl) =
            (if resource_is_write_like_method (s_method s)
             then snd (session_node_unlock_by_step (Some s) (w_resources w) (w_components w) 0)
             else (w_resources w, w_components w));
          (_, h1, ss) = session_delete_first_id J (w_json w) (w_sessions w) (s_id s)
      in w\<lparr>w_resources := rl, w_components := cl, w_json := h1, w_sessions := ss\<rparr>)"

definition session_step_stop ::
    "('h, 'p) jansson \<Rightarrow> 'p session \<Rightarrow> 'p option \<Rightarrow> ('h, 'p) world \<Rightarrow> int \<times> ('h, 'p) world" where
  "session_step_stop J s root w =
     (let (response, w1) = stop_response J s root w in
      if s_view_chain s \<noteq> [] \<or> s_tunnel s \<noteq> [] then
        (case json_dumps J (w_json w1) response of
           None \<Rightarrow> (SANJI_INTERNAL_ERROR, w1\<lparr>w_json := json_decref J (w_json w1) response\<rparr>)
         | Some payload \<Rightarrow>
             (SANJI_SUCCESS,
              stop_release J s (stop_publish s payload
                (w1\<lparr>w_json := json_decref J (w_json w1) response\<rparr>))))
      else (SANJI_SUCCESS, stop_release J s (w1\<lparr>w_json := json_decref J (w_json w1) response\<rparr>)))"

text \<open>The request a later step sends: all results so far merged in, and no \<open>code\<close>.\<close>

definition step_request :: "('h, 'p) jansson \<Rightarrow> 'p session \<Rightarrow> 'p option \<Rightarrow> 'h \<Rightarrow> 'h" where
  "step_request J s root h =
     (if s_curr_step s \<noteq> 1
      then json_object_del J (merge_results J (s_result_chain s) root h) root ''code''
      else h)"

definition session_step ::
    "('h, 'p) jansson \<Rightarrow> 'p session option \<Rightarrow> 'p option \<Rightarrow> ('h, 'p) world \<Rightarrow>
     (int \<times> ('h, 'p) world) option" where
  "session_step J node root w =
     (case (node, w_resources w, w_components w, root) of
        (Some s, Some _, Some _, Some _) \<Rightarrow>
          (let s1 = s\<lparr>s_curr_step := Suc (s_curr_step s)\<rparr>;
               w1 = session_store s1 w
           in if s_curr_step s1 > length (s_model_chain s1)
              then Some (session_step_stop J s1 root w1)
              else case (session_node_update_wait s1, current_chain s1) of
                (Some s2, Some mc) \<Rightarrow>
                  (let w2 = session_store s2 w1;
                       w3 = w2\<lparr>w_json := step_request J s2 root (w_json w2)\<rparr>
                   in case json_dumps J (w_json w3) root of
                        None \<Rightarrow> Some (SANJI_INTERNAL_ERROR, w3)
                      | Some payload \<Rightarrow>
                          Some (SANJI_SUCCESS,
                            publish_all
                              (map (\<lambda>n. component_get_tunnel_by_name (w_components w3) (Some n))
                                 (take (unat (s_curr_wait s2)) (mc_models mc)))
                              payload w3))
              | _ \<Rightarrow> None)
      | _ \<Rightarrow> Some (-1, w))"

text \<open>The counter is unsigned: \<open>curr_wait <= 0\<close> holds for 0 only, and 0 wraps around.\<close>

definition session_node_decref_wait ::
    "('h, 'p) jansson \<Rightarrow> 'p session option \<Rightarrow> 'p option \<Rightarrow> ('h, 'p) world \<Rightarrow>
     ('h, 'p) world option" where
  "session_node_decref_wait J node root w =
     (case node of
        None \<Rightarrow> Some w
      | Some s \<Rightarrow>
          (let s1 = s\<lparr>s_curr_wait := s_curr_wait s - 1\<rparr>;
               w1 = session_store s1 w
           in if s_curr_wait s1 \<le> 0 then map_option snd (session_step J (Some s1) root w1)
              else Some w1))"

definition session_step_update ::
    "('h, 'p) jansson \<Rightarrow> 'p session \<Rightarrow> 'p option \<Rightarrow> int \<Rightarrow> 'p option \<Rightarrow> ('h, 'p) world \<Rightarrow>
     ('h, 'p) world option" where
  "session_step_update J s root code data w =
     (let (result, h1) = json_new_object J (w_json w);
          h2 = set_integer J result ''code'' code h1;
          h3 = json_object_set J h2 result ''data'' data;
          h4 = json_array_append_new J h3 (s_result_chain s) result;
          w1 = w\<lparr>w_json := h4\<rparr>
      in if code = 200 then session_node_decref_wait J (Some s) root w1
         else Some (snd (session_step_stop J s root w1)))"

section \<open>Time to live\<close>

text \<open>
  One step's times to live: \<open>ttls[i] -= pass_time\<close> on 32-bit integers, left at the first
  that is not positive any more.
\<close>

fun ttl_loop :: "32 word \<Rightarrow> 32 word list \<Rightarrow> 32 word list \<times> bool" where
  "ttl_loop pass_time [] = ([], False)"
| "ttl_loop pass_time (t # ts) =
     (let t1 = t - pass_time in
      if sint t1 \<le> 0 then (t1 # ts, True)
      else let (ts1, expired) = ttl_loop pass_time ts in (t1 # ts1, expired))"

definition session_age :: "32 word \<Rightarrow> 'p session \<Rightarrow> ('p session \<times> bool) option" where
  "session_age pass_time s =
     map_option (\<lambda>mc.
       (let (ts, expired) = ttl_loop pass_time (mc_ttls mc)
        in (s\<lparr>s_model_chain := (s_model_chain s)[s_curr_step s - 1 := mc\<lparr>mc_ttls := ts\<rparr>]\<rparr>, expired)))
       (current_chain s)"

text \<open>The first loop: age every session, collect the expired ones (the flush list).\<close>

fun age_sessions :: "32 word \<Rightarrow> 'p session list \<Rightarrow> ('p session list \<times> 'p session list) option" where
  "age_sessions pass_time [] = Some ([], [])"
| "age_sessions pass_time (s # ss) =
     (case session_age pass_time s of
        None \<Rightarrow> None
      | Some (s1, expired) \<Rightarrow>
          (case age_sessions pass_time ss of
             None \<Rightarrow> None
           | Some (ss1, flush) \<Rightarrow> Some (s1 # ss1, if expired then s1 # flush else flush)))"

fun flush_sessions :: "('h, 'p) jansson \<Rightarrow> 'p session list \<Rightarrow> ('h, 'p) world \<Rightarrow> ('h, 'p) world" where
  "flush_sessions J [] w = w"
| "flush_sessions J (s # ss) w = flush_sessions J ss (snd (session_step_stop J s None w))"

definition session_decref_ttl ::
    "('h, 'p) jansson \<Rightarrow> 32 word \<Rightarrow> ('h, 'p) world \<Rightarrow> ('h, 'p) world option" where
  "session_decref_ttl J pass_time w =
     (case w_sessions w of
        None \<Rightarrow> Some w
      | Some ss \<Rightarrow>
          (case age_sessions pass_time ss of
             None \<Rightarrow> None
           | Some (ss1, flush) \<Rightarrow> Some (flush_sessions J flush (w\<lparr>w_sessions := Some ss1\<rparr>))))"

end
