(* ===== verification/Responses.thy ===== *)
theory Responses
  imports Sessions
begin

text \<open>
  The answers \<open>src/sanji_controller.c\<close> builds and publishes itself: error answers on a
  tunnel, and the two success answers of the built-in models. Each is an object with
  \<open>id\<close>, \<open>code\<close>, \<open>method\<close>, \<open>resource\<close>, \<open>sign\<close> and \<open>data\<close>, in this order.
\<close>

abbreviation (input) SANJI_CONTROLLER_NAME :: string where
  "SANJI_CONTROLLER_NAME \<equiv> ''controller''"
abbreviation (input) SANJI_CONTROLLER_TOPIC :: string where
  "SANJI_CONTROLLER_TOPIC \<equiv> ''/controller''"

abbreviation (input) SESSION_CODE_OK :: int where "SESSION_CODE_OK \<equiv> 200"
abbreviation (input) SESSION_CODE_BAD_REQUEST :: int where "SESSION_CODE_BAD_REQUEST \<equiv> 400"
abbreviation (input) SESSION_CODE_FORBIDDEN :: int where "SESSION_CODE_FORBIDDEN \<equiv> 403"
abbreviation (input) SESSION_CODE_NOT_FOUND :: int where "SESSION_CODE_NOT_FOUND \<equiv> 404"
abbreviation (input) SESSION_CODE_METHOD_NOT_ALLOWED :: int where
  "SESSION_CODE_METHOD_NOT_ALLOWED \<equiv> 405"
abbreviation (input) SESSION_CODE_LOCKED :: int where "SESSION_CODE_LOCKED \<equiv> 423"
abbreviation (input) SESSION_CODE_INTERNAL_SERVER_ERROR :: int where
  "SESSION_CODE_INTERNAL_SERVER_ERROR \<equiv> 500"
abbreviation (input) SESSION_CODE_NOT_IMPLEMENTED :: int where
  "SESSION_CODE_NOT_IMPLEMENTED \<equiv> 501"
abbreviation (input) SESSION_CODE_SERVICE_UNAVAILABLE :: int where
  "SESSION_CODE_SERVICE_UNAVAILABLE \<equiv> 503"

definition sanji_response ::
    "string option \<Rightarrow> string option \<Rightarrow> ('h, 'p) world \<Rightarrow> int \<times> ('h, 'p) world" where
  "sanji_response tunnel context w =
     (case (tunnel, context) of
        (Some t, Some c) \<Rightarrow> (0, mosquitto_publish (Some t) c w)
      | _ \<Rightarrow> (1, w))"

text \<open>The members every answer starts with, up to \<open>resource\<close>.\<close>

definition response_header ::
    "('h, 'p) jansson \<Rightarrow> 'p option \<Rightarrow> 32 word \<Rightarrow> int \<Rightarrow> string option \<Rightarrow> int \<Rightarrow> heap \<Rightarrow> 'h \<Rightarrow>
     heap \<times> 'h" where
  "response_header J root sid method topic status_code m h =
     (let h1 = set_integer J root ''id'' (uint sid) h;
          h2 = set_integer J root ''code'' status_code h1;
          (m1, name) = resource_reverse_method m method;
          h3 = (case name of None \<Rightarrow> h2 | Some t \<Rightarrow> set_string J root ''method'' t h2);
          h4 = (case topic of None \<Rightarrow> h3 | Some t \<Rightarrow> set_string J root ''resource'' t h3)
      in (m1, h4))"

text \<open>Dumping an answer and publishing it on a tunnel.\<close>

definition dump_and_respond ::
    "('h, 'p) jansson \<Rightarrow> string \<Rightarrow> 'p option \<Rightarrow> ('h, 'p) world \<Rightarrow> int \<times> ('h, 'p) world" where
  "dump_and_respond J tunnel root w =
     (case json_dumps J (w_json w) root of
        None \<Rightarrow> (1, w\<lparr>w_json := json_decref J (w_json w) root\<rparr>)
      | Some c \<Rightarrow>
          (0, snd (sanji_response (Some tunnel) (Some c)
                     (w\<lparr>w_json := json_decref J (w_json w) root\<rparr>))))"

definition nonempty :: "string option \<Rightarrow> bool" where
  "nonempty p = (case p of None \<Rightarrow> False | Some s \<Rightarrow> s \<noteq> [])"

text \<open>The \<open>data\<close> member of an error answer: only for a nonempty message or log.\<close>

definition error_data ::
    "('h, 'p) jansson \<Rightarrow> 'p option \<Rightarrow> string option \<Rightarrow> string option \<Rightarrow> 'h \<Rightarrow> bool \<times> 'h" where
  "error_data J root message log h =
     (if nonempty message \<or> nonempty log then
        (let (data, h1) = json_new_object J h in
         if data = None then (False, json_decref J h1 root)
         else
           (let h2 = (if nonempty message then set_string J data ''message'' (the message) h1
                      else h1);
                h3 = (if nonempty log then set_string J data ''log'' (the log) h2 else h2)
            in (True, json_object_set_new J h3 root ''data'' data)))
      else (True, h))"

definition sanji_error_response ::
    "('h, 'p) jansson \<Rightarrow> string option \<Rightarrow> 32 word \<Rightarrow> int \<Rightarrow> string option \<Rightarrow> string option \<Rightarrow> int \<Rightarrow>
     string option \<Rightarrow> string option \<Rightarrow> ('h, 'p) world \<Rightarrow> int \<times> ('h, 'p) world" where
  "sanji_error_response J tunnel sid method topic sign status_code message log w =
     (if \<not> nonempty tunnel then (1, w) else
      let (root, h1) = json_new_object J (w_json w) in
      if root = None then (1, w\<lparr>w_json := h1\<rparr>) else
      let (m2, h2) = response_header J root sid method topic status_code (w_heap w) h1;
          h3 = (case sign of None \<Rightarrow> h2 | Some s \<Rightarrow> set_sign J root s h2);
          (ok, h4) = error_data J root message log h3;
          w1 = w\<lparr>w_heap := m2, w_json := h4\<rparr>
      in if \<not> ok then (1, w1) else dump_and_respond J (the tunnel) root w1)"

definition register_error_response ::
    "('h, 'p) jansson \<Rightarrow> 32 word \<Rightarrow> int \<Rightarrow> string option \<Rightarrow> int \<Rightarrow> string option \<Rightarrow> string option \<Rightarrow>
     ('h, 'p) world \<Rightarrow> ('h, 'p) world" where
  "register_error_response J sid method topic status_code message log w =
     snd (sanji_error_response J (Some SANJI_CONTROLLER_TOPIC) sid method topic
            (Some SANJI_CONTROLLER_NAME) status_code message log w)"

definition register_response ::
    "('h, 'p) jansson \<Rightarrow> 32 word \<Rightarrow> int \<Rightarrow> string option \<Rightarrow> int \<Rightarrow> string \<Rightarrow>
     ('h, 'p) world \<Rightarrow> int \<times> ('h, 'p) world" where
  "register_response J sid method topic status_code tunnel w =
     (let (root, h1) = json_new_object J (w_json w) in
      if root = None then (1, w\<lparr>w_json := h1\<rparr>) else
      let (m2, h2) = response_header J root sid method topic status_code (w_heap w) h1;
          h3 = set_sign J root SANJI_CONTROLLER_NAME h2;
          (data, h4) = json_new_object J h3
      in if data = None then (1, w\<lparr>w_heap := m2, w_json := json_decref J h4 root\<rparr>) else
      let h5 = set_string J data ''tunnel'' tunnel h4;
          h6 = json_object_set_new J h5 root ''data'' data
      in dump_and_respond J SANJI_CONTROLLER_TOPIC root (w\<lparr>w_heap := m2, w_json := h6\<rparr>))"

definition dependency_error_response ::
    "('h, 'p) jansson \<Rightarrow> 32 word \<Rightarrow> int \<Rightarrow> string option \<Rightarrow> int \<Rightarrow> string option \<Rightarrow> string option \<Rightarrow>
     ('h, 'p) world \<Rightarrow> ('h, 'p) world" where
  "dependency_error_response J sid method topic status_code message log w =
     snd (sanji_error_response J (Some SANJI_CONTROLLER_TOPIC) sid method topic
            (Some SANJI_CONTROLLER_NAME) status_code message log w)"

text \<open>The loop that fills the array \<open>resources\<close>.\<close>

fun append_strings :: "('h, 'p) jansson \<Rightarrow> 'p option \<Rightarrow> string list \<Rightarrow> 'h \<Rightarrow> 'h" where
  "append_strings J arr [] h = h"
| "append_strings J arr (s # ss) h =
     (let (v, h1) = json_string J h s
      in append_strings J arr ss (json_array_append_new J h1 arr v))"

definition dependency_response ::
    "('h, 'p) jansson \<Rightarrow> 32 word \<Rightarrow> int \<Rightarrow> string option \<Rightarrow> int \<Rightarrow> string list \<Rightarrow>
     ('h, 'p) world \<Rightarrow> int \<times> ('h, 'p) world" where
  "dependency_response J sid method topic status_code resources w =
     (let (root, h1) = json_new_object J (w_json w) in
      if root = None then (1, w\<lparr>w_json := h1\<rparr>) else
      let (m2, h2) = response_header J root sid method topic status_code (w_heap w) h1;
          h3 = set_sign J root SANJI_CONTROLLER_NAME h2;
          (data, h4) = json_new_object J h3
      in if data = None then (1, w\<lparr>w_heap := m2, w_json := json_decref J h4 root\<rparr>) else
      let (arr, h5) = json_new_array J h4
      in if arr = None
         then (1, w\<lparr>w_heap := m2, w_json := json_decref J (json_decref J h5 root) data\<rparr>) else
      let h6 = append_strings J arr resources h5;
          h7 = json_object_set_new J h6 data ''resources'' arr;
          h8 = json_object_set_new J h7 root ''data'' data
      in dump_and_respond J SANJI_CONTROLLER_TOPIC root (w\<lparr>w_heap := m2, w_json := h8\<rparr>))"

section \<open>Answers touch neither the registries nor the sessions\<close>

lemma sanji_response_frame [frame_simps]:
  "w_heap (snd (sanji_response t c w)) = w_heap w" "w_rand (snd (sanji_response t c w)) = w_rand w"
  "w_resources (snd (sanji_response t c w)) = w_resources w"
  "w_components (snd (sanji_response t c w)) = w_components w"
  "w_sessions (snd (sanji_response t c w)) = w_sessions w"
  "w_ud (snd (sanji_response t c w)) = w_ud w"
  by (simp_all add: sanji_response_def frame_simps split: option.split)

lemma dump_and_respond_frame [frame_simps]:
  "w_rand (snd (dump_and_respond J t r w)) = w_rand w"
  "w_resources (snd (dump_and_respond J t r w)) = w_resources w"
  "w_components (snd (dump_and_respond J t r w)) = w_components w"
  "w_sessions (snd (dump_and_respond J t r w)) = w_sessions w"
  "w_ud (snd (dump_and_respond J t r w)) = w_ud w"
  by (simp_all add: dump_and_respond_def frame_simps split: option.split)

lemma sanji_error_response_frame [frame_simps]:
  "w_rand (snd (sanji_error_response J t i me tp sg st ms lg w)) = w_rand w"
  "w_resources (snd (sanji_error_response J t i me tp sg st ms lg w)) = w_resources w"
  "w_components (snd (sanji_error_response J t i me tp sg st ms lg w)) = w_components w"
  "w_sessions (snd (sanji_error_response J t i me tp sg st ms lg w)) = w_sessions w"
  "w_ud (snd (sanji_error_response J t i me tp sg st ms lg w)) = w_ud w"
  by (simp_all add: sanji_error_response_def Let_def frame_simps split: prod.split)

lemma register_error_response_frame [frame_simps]:
  "w_rand (register_error_response J i me tp st ms lg w) = w_rand w"
  "w_resources (register_error_response J i me tp st ms lg w) = w_resources w"
  "w_components (register_error_response J i me tp st ms lg w) = w_components w"
  "w_sessions (register_error_response J i me tp st ms lg w) = w_sessions w"
  "w_ud (register_error_response J i me tp st ms lg w) = w_ud w"
  by (simp_all add: register_error_response_def frame_simps)

lemma register_response_frame [frame_simps]:
  "w_rand (snd (register_response J i me tp st tu w)) = w_rand w"
  "w_resources (snd (register_response J i me tp st tu w)) = w_resources w"
  "w_components (snd (register_response J i me tp st tu w)) = w_components w"
  "w_sessions (snd (register_response J i me tp st tu w)) = w_sessions w"
  "w_ud (snd (register_response J i me tp st tu w)) = w_ud w"
  by (simp_all add: register_response_def Let_def frame_simps split: prod.split)

lemma dependency_error_response_frame [frame_simps]:
  "w_rand (dependency_error_response J i me tp st ms lg w) = w_rand w"
  "w_resources (dependency_error_response J i me tp st ms lg w) = w_resources w"
  "w_components (dependency_error_response J i me tp st ms lg w) = w_components w"
  "w_sessions (dependency_error_response J i me tp st ms lg w) = w_sessions w"
  "w_ud (dependency_error_response J i me tp st ms lg w) = w_ud w"
  by (simp_all add: dependency_error_response_def frame_simps)

lemma dependency_response_frame [frame_simps]:
  "w_rand (snd (dependency_response J i me tp st xs w)) = w_rand w"
  "w_resources (snd (dependency_response J i me tp st xs w)) = w_resources w"
  "w_components (snd (dependency_response J i me tp st xs w)) = w_components w"
  "w_sessions (snd (dependency_response J i me tp st xs w)) = w_sessions w"
  "w_ud (snd (dependency_response J i me tp st xs w)) = w_ud w"
  by (simp_all add: dependency_response_def Let_def frame_simps split: prod.split)

end
