(* ===== verification/Register.thy ===== *)
theory Register
  imports Responses
begin

text \<open>
  Registering and removing components: \<open>register_create\<close>, \<open>register_delete\<close> and the handler
  \<open>register_procedure\<close> of \<open>src/sanji_controller.c\<close>. The outer \<open>option\<close> of a result is \<open>None\<close>
  where the search for a fresh tunnel does not end within the given random draws, or where a
  registry is a null pointer that the code reads. The buffers \<open>message\<close>, \<open>log\<close> and \<open>tunnel\<close>
  a function fills for its caller are components of its result (\<open>log\<close> is always empty).
\<close>

abbreviation (input) SANJI_REGISTER_RESOURCE :: string where
  "SANJI_REGISTER_RESOURCE \<equiv> ''/controller/registration''"
abbreviation (input) SANJI_REGISTER_RESOURCE_LEN :: nat where
  "SANJI_REGISTER_RESOURCE_LEN \<equiv> 24"

section \<open>A unique tunnel\<close>

text \<open>The loop draws a random tunnel until no component has it.\<close>

fun pick_tunnel :: "components \<Rightarrow> int list \<Rightarrow> (string \<times> int list) option" where
  "pick_tunnel head [] = None"
| "pick_tunnel head (r # rs) =
     (if component_is_unique_tunnel head (Some (sprintf_d r)) \<noteq> 0
      then Some (sprintf_d r, rs) else pick_tunnel head rs)"

section \<open>Creating and deleting\<close>

text \<open>The sum of the locks of the listed resources.\<close>

fun locked_sum :: "resources \<Rightarrow> string list \<Rightarrow> int option" where
  "locked_sum head [] = Some 0"
| "locked_sum head (n # ns) =
     (case (resource_is_locked head n, locked_sum head ns) of
        (Some a, Some b) \<Rightarrow> Some (a + b)
      | _ \<Rightarrow> None)"

text \<open>Subscribing the component to every listed resource; the return codes are dropped.\<close>

fun append_resources :: "heap \<Rightarrow> resources \<Rightarrow> string list \<Rightarrow> string \<Rightarrow> heap \<times> resources" where
  "append_resources m head [] name = (m, head)"
| "append_resources m head (n # ns) name =
     (let (_, m1, head1) = resource_append_component_by_name m head (Some n) (Some name)
      in append_resources m1 head1 ns name)"

definition register_create ::
    "string option \<Rightarrow> string option \<Rightarrow> string option \<Rightarrow> char list option \<Rightarrow> nat \<Rightarrow> 32 word \<Rightarrow>
     char list option \<Rightarrow> nat \<Rightarrow> ('h, 'p) world \<Rightarrow>
     (int \<times> string \<times> string \<times> ('h, 'p) world) option" where
  "register_create name description role hook hook_count ttl resources resources_count w =
     (case (name, description, role, resources) of
        (Some nm, Some ds, Some rl, Some buf) \<Rightarrow>
          (case locked_sum (w_resources w) (slots RESOURCE_NAME_LEN resources_count buf) of
             None \<Rightarrow> None
           | Some is_locked \<Rightarrow>
               if is_locked \<noteq> 0
               then Some (SESSION_CODE_LOCKED, ''the resource is locked'', [], w)
               else if component_is_registered (w_components w) name = -1
               then Some (SESSION_CODE_INTERNAL_SERVER_ERROR, ''internal server error'', [], w)
               else if component_is_registered (w_components w) name \<noteq> 0
               then Some (SESSION_CODE_FORBIDDEN, ''component had beed already registered'', [], w)
               else
                 (case pick_tunnel (w_components w) (w_rand w) of
                    None \<Rightarrow> None
                  | Some (tunnel, draws) \<Rightarrow>
                      (let (ret, m1, cs) = component_add_node (w_heap w) (w_components w) name
                             description (Some tunnel) role hook hook_count ttl 0;
                           w1 = w\<lparr>w_rand := draws, w_heap := m1, w_components := cs\<rparr>
                       in if ret \<noteq> 0
                          then Some (SESSION_CODE_SERVICE_UNAVAILABLE, ''some service unavailable'',
                                     tunnel, w1)
                          else let (m2, rs) = append_resources m1 (w_resources w1)
                                     (slots RESOURCE_NAME_LEN resources_count buf) nm
                               in Some (SESSION_CODE_OK, [], tunnel,
                                        w1\<lparr>w_heap := m2, w_resources := rs\<rparr>))))
      | _ \<Rightarrow> Some (SESSION_CODE_INTERNAL_SERVER_ERROR, ''internal server error'', [], w))"

definition register_delete ::
    "string option \<Rightarrow> ('h, 'p) world \<Rightarrow> (int \<times> string \<times> ('h, 'p) world) option" where
  "register_delete name w =
     (case name of
        None \<Rightarrow> Some (SESSION_CODE_INTERNAL_SERVER_ERROR, ''internal server error'', w)
      | Some nm \<Rightarrow>
          (let is_registered = component_is_registered (w_components w) name in
           if is_registered = -1
           then Some (SESSION_CODE_INTERNAL_SERVER_ERROR, ''internal server error'', w)
           else if is_registered = 0 then Some (SESSION_CODE_OK, [], w)
           else case (component_is_locked (w_components w) nm,
                      resource_is_any_locked_by_component (w_resources w) nm) of
               (Some a, Some b) \<Rightarrow>
                 if a + b \<noteq> 0 then Some (SESSION_CODE_LOCKED, ''resoures is locked'', w)
                 else (let (ret, cs) = component_delete_first_name (w_components w) name;
                           w1 = w\<lparr>w_components := cs\<rparr>
                       in if ret \<noteq> 0
                          then Some (SESSION_CODE_INTERNAL_SERVER_ERROR, ''internal server error'', w1)
                          else let (_, m1, rs) = resource_remove_all_component_by_name
                                     (w_heap w1) (w_resources w1) name
                               in Some (SESSION_CODE_OK, [],
                                        w1\<lparr>w_heap := m1, w_resources := rs\<rparr>))
             | _ \<Rightarrow> None))"

section \<open>Reading the request\<close>

text \<open>\<open>tmp && json_is_string(tmp) && strlen(json_string_value(tmp)) > 0\<close>.\<close>

definition nonempty_string :: "('h, 'p) jansson \<Rightarrow> 'h \<Rightarrow> 'p option \<Rightarrow> string option" where
  "nonempty_string J h v =
     (case v of
        None \<Rightarrow> None
      | Some p \<Rightarrow>
          if json_is_string J h p \<and> json_string_value J h p \<noteq> []
          then Some (json_string_value J h p) else None)"

definition string_attribute ::
    "('h, 'p) jansson \<Rightarrow> 'h \<Rightarrow> 'p option \<Rightarrow> string \<Rightarrow> nat \<Rightarrow> string option" where
  "string_attribute J h data key len =
     map_option (bounded_copy len) (nonempty_string J h (json_object_get J h data key))"

text \<open>
  Filling the slots of a flat buffer from the elements of an array, in order; \<open>None\<close> at the
  first element that is not a nonempty string.
\<close>

fun fill_slots :: "('h, 'p) jansson \<Rightarrow> 'h \<Rightarrow> 'p option \<Rightarrow> nat \<Rightarrow> nat list \<Rightarrow> char list option" where
  "fill_slots J h arr len [] = Some []"
| "fill_slots J h arr len (i # is) =
     (case nonempty_string J h (json_array_get J h arr i) of
        None \<Rightarrow> None
      | Some s \<Rightarrow> map_option (\<lambda>b. (slot len s)[len - 1 := NUL] @ b) (fill_slots J h arr len is))"

text \<open>
  The parsers return the status code and the message and log of the error answer, or the
  parsed buffer with its count. The component name comes from the topic or from the data.
\<close>

type_synonym parse_error = "int \<times> string option \<times> string option"

definition apostrophe :: char where
  "apostrophe = CHR 0x27"

definition quoted :: "string \<Rightarrow> string" where
  "quoted s = apostrophe # s @ [apostrophe]"

abbreviation (input) wrong_register_context :: "string \<Rightarrow> parse_error" where
  "wrong_register_context l \<equiv> (SESSION_CODE_BAD_REQUEST, Some ''wrong register context'', Some l)"

definition register_name ::
    "('h, 'p) jansson \<Rightarrow> 'h \<Rightarrow> int \<Rightarrow> string \<Rightarrow> 'p option \<Rightarrow> parse_error + string" where
  "register_name J h method topic data =
     (if method = RESOURCE_METHOD_CREATE \<or> method = RESOURCE_METHOD_DELETE then
        if length topic > SANJI_REGISTER_RESOURCE_LEN then
          if topic ! SANJI_REGISTER_RESOURCE_LEN = CHR ''/''
          then Inr (bounded_copy COMPONENT_NAME_LEN (drop (SANJI_REGISTER_RESOURCE_LEN + 1) topic))
          else Inl (wrong_register_context (quoted ''resource'' @ '' didn'' @ apostrophe # ''t match''))
        else (case string_attribute J h data ''name'' COMPONENT_NAME_LEN of
                None \<Rightarrow> Inl (wrong_register_context (''no '' @ quoted ''name''))
              | Some s \<Rightarrow> Inr s)
      else Inr [])"

text \<open>
  A single string needs one slot, whose allocation is not checked: \<open>None\<close> is the write
  through the null pointer.
\<close>

definition register_hook ::
    "('h, 'p) jansson \<Rightarrow> 'h \<Rightarrow> 'p option \<Rightarrow> heap \<Rightarrow>
     heap \<times> (parse_error + char list option \<times> nat) option" where
  "register_hook J h data m =
     (case json_object_get J h data ''hook'' of
        None \<Rightarrow> (m, Some (Inr (None, 0)))
      | Some p \<Rightarrow>
          if json_is_array J h p then
            (let hook_count = json_array_size J h (Some p) in
             if hook_count = 0 then (m, Some (Inr (None, 0)))
             else let (ok, m1) = malloc m in
               if \<not> ok then (m1, Some (Inl (SESSION_CODE_SERVICE_UNAVAILABLE, Some ''service unavailable'', None)))
               else case fill_slots J h (Some p) COMPONENT_NAME_LEN [0..<hook_count] of
                   None \<Rightarrow> (m1, Some (Inl (wrong_register_context (''empty '' @ quoted ''hook''))))
                 | Some b \<Rightarrow> (m1, Some (Inr (Some b, hook_count))))
          else if json_is_string J h p then
            (let (ok, m1) = malloc m in
             case nonempty_string J h (Some p) of
               None \<Rightarrow> (m1, Some (Inl (wrong_register_context (''empty '' @ quoted ''hook''))))
             | Some s \<Rightarrow>
                 if ok
                 then (m1, Some (Inr (Some ((slot COMPONENT_NAME_LEN s)[COMPONENT_NAME_LEN - 1 := NUL]), 1)))
                 else (m1, None))
          else (m, Some (Inr (None, 0))))"

lemma register_hook_slots: "register_hook J h data m = (m', Some (Inr (Some buf, n))) \<Longrightarrow> 0 < n"
  by (auto simp: register_hook_def Let_def split: option.splits if_splits prod.splits)

text \<open>A number is converted to an \<open>int\<close>; \<open>None\<close> is the conversion that is undefined.\<close>

definition register_ttl :: "('h, 'p) jansson \<Rightarrow> 'h \<Rightarrow> 'p option \<Rightarrow> (parse_error + 32 word) option" where
  "register_ttl J h data =
     (case json_object_get J h data ''ttl'' of
        None \<Rightarrow> Some (Inl (wrong_register_context (''need '' @ quoted ''ttl'')))
      | Some p \<Rightarrow>
          if json_is_number J h p then map_option Inr (double_to_int (json_number_value J h p))
          else Some (Inl (wrong_register_context (''need '' @ quoted ''ttl''))))"

definition register_resources ::
    "('h, 'p) jansson \<Rightarrow> 'h \<Rightarrow> 'p option \<Rightarrow> heap \<Rightarrow>
     heap \<times> (parse_error + char list option \<times> nat) option" where
  "register_resources J h data m =
     (case json_object_get J h data ''resources'' of
        None \<Rightarrow> (m, Some (Inl (wrong_register_context (''Need '' @ quoted ''resources''))))
      | Some p \<Rightarrow>
          if json_is_array J h p then
            (let resources_count = json_array_size J h (Some p) in
             if resources_count = 0
             then (m, Some (Inl (wrong_register_context (''empty '' @ quoted ''resources''))))
             else let (ok, m1) = malloc m in
               if \<not> ok then (m1, Some (Inl (SESSION_CODE_SERVICE_UNAVAILABLE, Some ''service unavailable'', None)))
               else case fill_slots J h (Some p) RESOURCE_NAME_LEN [0..<resources_count] of
                   None \<Rightarrow> (m1, Some (Inl (wrong_register_context (''empty '' @ quoted ''resources''))))
                 | Some b \<Rightarrow> (m1, Some (Inr (Some b, resources_count))))
          else if json_is_string J h p then
            (let (ok, m1) = malloc m in
             case nonempty_string J h (Some p) of
               None \<Rightarrow> (m1, Some (Inl (wrong_register_context (''empty '' @ quoted ''resources''))))
             | Some s \<Rightarrow>
                 if ok
                 then (m1, Some (Inr (Some ((slot RESOURCE_NAME_LEN s)[RESOURCE_NAME_LEN - 1 := NUL]), 1)))
                 else (m1, None))
          else (m, Some (Inr (None, 0))))"

text \<open>All attributes of a \<open>CREATE\<close> request, in the order the code reads them.\<close>

record register_request =
  q_description :: string
  q_role :: string
  q_hook :: "char list option \<times> nat"
  q_ttl :: "32 word"
  q_resources :: "char list option \<times> nat"

definition register_attributes ::
    "('h, 'p) jansson \<Rightarrow> 'h \<Rightarrow> 'p option \<Rightarrow> heap \<Rightarrow>
     heap \<times> (parse_error + register_request) option" where
  "register_attributes J h data m =
     (case string_attribute J h data ''description'' COMPONENT_DESCRIPTION_LEN of
        None \<Rightarrow> (m, Some (Inl (wrong_register_context (''need '' @ quoted ''description''))))
      | Some ds \<Rightarrow>
     (case string_attribute J h data ''role'' COMPONENT_ROLE_LEN of
        None \<Rightarrow> (m, Some (Inl (wrong_register_context (''need '' @ quoted ''role''))))
      | Some rl \<Rightarrow>
     (case register_hook J h data m of
        (m1, None) \<Rightarrow> (m1, None)
      | (m1, Some (Inl e)) \<Rightarrow> (m1, Some (Inl e))
      | (m1, Some (Inr hk)) \<Rightarrow>
     (case register_ttl J h data of
        None \<Rightarrow> (m1, None)
      | Some (Inl e) \<Rightarrow> (m1, Some (Inl e))
      | Some (Inr ttl) \<Rightarrow>
     (case register_resources J h data m1 of
        (m2, None) \<Rightarrow> (m2, None)
      | (m2, Some (Inl e)) \<Rightarrow> (m2, Some (Inl e))
      | (m2, Some (Inr rs)) \<Rightarrow>
          (m2, Some (Inr \<lparr> q_description = ds, q_role = rl, q_hook = hk, q_ttl = ttl,
                           q_resources = rs \<rparr>)))))))"

section \<open>The handler\<close>

definition register_refuse ::
    "('h, 'p) jansson \<Rightarrow> 32 word \<Rightarrow> int \<Rightarrow> string \<Rightarrow> parse_error \<Rightarrow> ('h, 'p) world \<Rightarrow> ('h, 'p) world" where
  "register_refuse J sid method topic e w =
     (case e of (code, message, log) \<Rightarrow>
        register_error_response J sid method (Some topic) code message log w)"

definition register_create_request ::
    "('h, 'p) jansson \<Rightarrow> 32 word \<Rightarrow> int \<Rightarrow> string \<Rightarrow> 'p option \<Rightarrow> string \<Rightarrow> ('h, 'p) world \<Rightarrow>
     (int \<times> ('h, 'p) world) option" where
  "register_create_request J sid method topic data name w =
     (case register_attributes J (w_json w) data (w_heap w) of
        (m1, None) \<Rightarrow> None
      | (m1, Some (Inl e)) \<Rightarrow> Some (1, register_refuse J sid method topic e (w\<lparr>w_heap := m1\<rparr>))
      | (m1, Some (Inr q)) \<Rightarrow>
          (case register_create (Some name) (Some (q_description q)) (Some (q_role q))
                  (fst (q_hook q)) (snd (q_hook q)) (q_ttl q)
                  (fst (q_resources q)) (snd (q_resources q)) (w\<lparr>w_heap := m1\<rparr>) of
             None \<Rightarrow> None
           | Some (status_code, message, tunnel, w1) \<Rightarrow>
               if status_code = SESSION_CODE_OK
               then Some (0, snd (register_response J sid method (Some topic) status_code tunnel w1))
               else Some (0, register_error_response J sid method (Some topic) status_code
                                (Some message) (Some []) w1)))"

text \<open>
  The cases of the switch besides the first. Deleting is answered by the function for errors
  even when it succeeded.
\<close>

definition register_other_method ::
    "('h, 'p) jansson \<Rightarrow> 32 word \<Rightarrow> int \<Rightarrow> string \<Rightarrow> string \<Rightarrow> ('h, 'p) world \<Rightarrow>
     (int \<times> ('h, 'p) world) option" where
  "register_other_method J sid method topic name w =
     (if method = RESOURCE_METHOD_DELETE
      then (case register_delete (Some name) w of
              None \<Rightarrow> None
            | Some (status_code, message, w1) \<Rightarrow>
                Some (0, register_error_response J sid method (Some topic) status_code
                           (Some message) (Some []) w1))
      else Some (0, register_error_response J sid method (Some topic)
                      SESSION_CODE_METHOD_NOT_ALLOWED (Some ''method not allowed'') None w))"

text \<open>
  A topic that does not start with the registration resource is answered with 400, and the
  request is processed all the same: that branch has no return.
\<close>

definition register_check_topic ::
    "('h, 'p) jansson \<Rightarrow> 32 word \<Rightarrow> int \<Rightarrow> string \<Rightarrow> ('h, 'p) world \<Rightarrow> ('h, 'p) world" where
  "register_check_topic J sid method topic w0 =
     (if length topic < SANJI_REGISTER_RESOURCE_LEN \<or>
         \<not> strncmp_eq SANJI_REGISTER_RESOURCE_LEN topic SANJI_REGISTER_RESOURCE
      then register_refuse J sid method topic
             (wrong_register_context (quoted ''resource'' @ '' didn'' @ apostrophe # ''t match'')) w0
      else w0)"

text \<open>The whole handler.\<close>

definition register_procedure ::
    "('h, 'p) jansson \<Rightarrow> 32 word \<Rightarrow> int \<Rightarrow> string \<Rightarrow> 'p option \<Rightarrow> ('h, 'p) world \<Rightarrow>
     (int \<times> ('h, 'p) world) option" where
  "register_procedure J sid method topic data w0 =
     (let w = register_check_topic J sid method topic w0
      in if method = RESOURCE_METHOD_CREATE \<and> data = None
         then Some (1, register_refuse J sid method topic
                         (wrong_register_context (''Need '' @ quoted ''data'')) w)
         else case register_name J (w_json w) method topic data of
             Inl e \<Rightarrow> Some (1, register_refuse J sid method topic e w)
           | Inr name \<Rightarrow>
               if method = RESOURCE_METHOD_CREATE
               then register_create_request J sid method topic data name w
               else register_other_method J sid method topic name w)"

end
