(* ===== verification/Registration_Facts.thy ===== *)
theory Registration_Facts
  imports Register
begin

text \<open>
  What registering and removing a component does to the two registries: the tunnel found is
  fresh, the component is linked and subscribed to each listed resource, removal undoes all
  of it, and refused requests change nothing.
\<close>

section \<open>Decimal numbers\<close>

definition undecimal :: "string \<Rightarrow> nat" where
  "undecimal s = foldl (\<lambda>a c. 10 * a + (of_char c - 48)) 0 s"

lemma undecimal_decimal [simp]: "undecimal (decimal n) = n"
proof (induction n rule: decimal.induct)
  case (1 n)
  have d: "of_char (char_of (48 + k) :: char) = 48 + k" if "k < 10" for k :: nat
    using that by (simp add: of_char_of)
  show ?case
  proof (cases "n < 10")
    case True
    then show ?thesis by (subst decimal.simps) (simp add: undecimal_def d)
  next
    case False
    have m: "n mod 10 < 10" by simp
    have "10 * (n div 10) + n mod 10 = n" by simp
    then show ?thesis
      using False 1 d[OF m] by (subst decimal.simps) (simp add: undecimal_def)
  qed
qed

lemma decimal_inject [simp]: "decimal m = decimal n \<longleftrightarrow> m = n"
  by (metis undecimal_decimal)

lemma sprintf_d_inject: "0 \<le> i \<Longrightarrow> 0 \<le> j \<Longrightarrow> sprintf_d i = sprintf_d j \<longleftrightarrow> i = j"
  by (simp add: sprintf_d_def eq_nat_nat_iff)

section \<open>The fresh tunnel\<close>

lemma component_is_unique_tunnel_Some:
  "component_is_unique_tunnel (Some cs) (Some t) \<noteq> 0 \<longleftrightarrow> t \<notin> c_tunnel ` set cs"
  by (auto simp: component_is_unique_tunnel_def find_None_iff_all split: option.splits
      dest!: find_Some_mem)

lemma pick_tunnel_eq:
  "pick_tunnel (Some cs) draws =
    (case dropWhile (\<lambda>r. sprintf_d r \<in> c_tunnel ` set cs) draws of
       [] \<Rightarrow> None | r # rs \<Rightarrow> Some (sprintf_d r, rs))"
  by (induction draws) (simp_all add: component_is_unique_tunnel_Some)

lemma pick_tunnel_fresh:
  "pick_tunnel (Some cs) draws = Some (t, rest) \<Longrightarrow> t \<notin> c_tunnel ` set cs"
proof (induction draws)
  case Nil
  then show ?case by simp
next
  case (Cons r rs)
  then show ?case using component_is_unique_tunnel_Some[of cs "sprintf_d r"]
    by (auto split: if_splits)
qed

text \<open>More different draws than components: one of them is free.\<close>

lemma pick_tunnel_enough:
  assumes "distinct draws" "\<forall>r \<in> set draws. 0 \<le> r" "length cs < length draws"
  shows "\<exists>t rest. pick_tunnel (Some cs) draws = Some (t, rest)"
proof (rule ccontr)
  assume n: "\<not> (\<exists>t rest. pick_tunnel (Some cs) draws = Some (t, rest))"
  then have "dropWhile (\<lambda>r. sprintf_d r \<in> c_tunnel ` set cs) draws = []"
    by (auto simp: pick_tunnel_eq split: list.splits)
  then have "sprintf_d ` set draws \<subseteq> c_tunnel ` set cs"
    by (auto simp: dropWhile_eq_Nil_conv)
  then have "card (sprintf_d ` set draws) \<le> card (c_tunnel ` set cs)" by (simp add: card_mono)
  also have "\<dots> \<le> length cs" by (meson card_image_le card_length finite_set le_trans)
  finally have "card (sprintf_d ` set draws) \<le> length cs" .
  moreover have "inj_on sprintf_d (set draws)"
    using assms(2) by (intro inj_onI) (simp add: sprintf_d_inject)
  ultimately have "card (set draws) \<le> length cs" by (simp add: card_image)
  then show False using assms(1,3) by (simp add: distinct_card)
qed

section \<open>Subscribing\<close>

type_synonym resource_views = "(string \<times> string list \<times> 32 word) list"

definition subscribe :: "string \<Rightarrow> string \<Rightarrow> resource_views \<Rightarrow> resource_views" where
  "subscribe s n vs =
     (if n \<in> fst ` set vs
      then map (\<lambda>(k, subs, l). (k, if k = n then subs @ [s] else subs, l)) vs
      else vs @ [(n, [s], 0)])"

lemma fst_r_view: "fst ` set (map r_view rs) = r_name ` set rs"
  by (auto simp: r_view_def image_iff)

lemma held_view:
  "resource_held (Some rs) n = map_option (\<lambda>v. snd (snd v) \<noteq> 0) (find (\<lambda>v. fst v = n) (map r_view rs))"
  by (induction rs) (auto simp: resource_held_def r_view_def)

lemma find_subscribe:
  "find (\<lambda>v. fst v = k) (subscribe s n vs) =
    (if k = n then Some (case find (\<lambda>v. fst v = n) vs of
                           None \<Rightarrow> (n, [s], 0) | Some (_, subs, l) \<Rightarrow> (n, subs @ [s], l))
     else find (\<lambda>v. fst v = k) vs)"
proof -
  have "find (\<lambda>v. fst v = k) (map (\<lambda>(k, subs, l). (k, if k = n then subs @ [s] else subs, l)) vs) =
    map_option (\<lambda>(k, subs, l). (k, if k = n then subs @ [s] else subs, l)) (find (\<lambda>v. fst v = k) vs)"
    by (induction vs) auto
  moreover have "n \<in> fst ` set vs \<longleftrightarrow> find (\<lambda>v. fst v = n) vs \<noteq> None"
    by (auto simp: find_None_iff_all)
  ultimately show ?thesis
    by (auto simp: subscribe_def find_append split: option.split dest: find_Some_mem)
qed

lemma held_subscribed:
  assumes "map r_view rs' = subscribe s n (map r_view rs)"
    and "resource_held (Some rs) n \<noteq> Some True"
  shows "resource_held (Some rs') k = Some True \<longleftrightarrow> resource_held (Some rs) k = Some True"
  using assms(2) unfolding held_view assms(1) find_subscribe
  by (auto split: option.splits)

lemma append_resources_view:
  assumes "resources_ok (Some rs)" "NUL \<notin> set s" "length s < COMPONENT_NAME_LEN"
    and "list_all (\<lambda>n. length n < RESOURCE_NAME_LEN) ns"
    and "list_all (\<lambda>n. resource_held (Some rs) n \<noteq> Some True) ns"
  shows "\<exists>rs'. append_resources [] (Some rs) ns s = ([], Some rs') \<and> resources_ok (Some rs') \<and>
    map r_view rs' = fold (subscribe s) ns (map r_view rs)"
  using assms(1,4,5)
proof (induction ns arbitrary: rs)
  case Nil
  then show ?case by auto
next
  case (Cons n ns)
  have "r_lock r = 0" if "find (\<lambda>r. r_name r = n) rs = Some r" for r
    using Cons.prems(3) that by (auto simp: resource_held_def)
  from resource_append_view[OF Cons.prems(1) assms(2,3) _ this] Cons.prems(2)
  have "\<exists>rs1. resource_append_component_by_name [] (Some rs) (Some n) (Some s) = (0, [], Some rs1) \<and>
      resources_ok (Some rs1) \<and> map r_view rs1 = subscribe s n (map r_view rs)"
    unfolding subscribe_def fst_r_view by simp
  then obtain rs1 where
    rs1: "resource_append_component_by_name [] (Some rs) (Some n) (Some s) = (0, [], Some rs1)"
      "resources_ok (Some rs1)" "map r_view rs1 = subscribe s n (map r_view rs)" by blast
  have "list_all (\<lambda>n. resource_held (Some rs1) n \<noteq> Some True) ns"
    using Cons.prems(3) held_subscribed[OF rs1(3)] by (auto simp: list_all_iff)
  from Cons.IH[OF rs1(2) _ this] Cons.prems(2) show ?case
    by (auto simp: rs1)
qed

text \<open>Subscribing to different resources, all at once; removing the fresh name undoes it.\<close>

lemma fold_subscribe:
  "distinct ns \<Longrightarrow> fold (subscribe s) ns vs =
    map (\<lambda>(k, subs, l). (k, if k \<in> set ns then subs @ [s] else subs, l)) vs @
    map (\<lambda>n. (n, [s], 0)) (filter (\<lambda>n. n \<notin> fst ` set vs) ns)"
proof (induction ns arbitrary: vs)
  case Nil
  then show ?case by (simp add: case_prod_unfold)
next
  case (Cons n ns)
  have k: "fst ` set (map (\<lambda>(k, subs, l). (k, if k = n then subs @ [s] else subs, l)) vs) = fst ` set vs"
    by force
  have IH: "fold (subscribe s) ns (subscribe s n vs) =
    map (\<lambda>(k, subs, l). (k, if k \<in> set ns then subs @ [s] else subs, l)) (subscribe s n vs) @
    map (\<lambda>n. (n, [s], 0)) (filter (\<lambda>k. k \<notin> fst ` set (subscribe s n vs)) ns)"
    using Cons by simp
  show ?case
  proof (cases "n \<in> fst ` set vs")
    case True
    then have sub: "subscribe s n vs = map (\<lambda>(k, subs, l). (k, if k = n then subs @ [s] else subs, l)) vs"
      by (simp add: subscribe_def)
    have "map (\<lambda>(k, subs, l). (k, if k \<in> set ns then subs @ [s] else subs, l)) (subscribe s n vs) =
        map (\<lambda>(k, subs, l). (k, if k \<in> set (n # ns) then subs @ [s] else subs, l)) vs"
      using Cons.prems by (auto simp: sub)
    moreover have "fst ` set (subscribe s n vs) = fst ` set vs" unfolding sub by (rule k)
    moreover have "filter (\<lambda>k. k \<notin> fst ` set vs) (n # ns) = filter (\<lambda>k. k \<notin> fst ` set vs) ns"
      using True by simp
    ultimately show ?thesis using IH by (simp only: fold_simps)
  next
    case False
    then have sub: "subscribe s n vs = vs @ [(n, [s], 0)]" by (simp add: subscribe_def)
    have "filter (\<lambda>k. k \<notin> fst ` set (subscribe s n vs)) ns = filter (\<lambda>k. k \<notin> fst ` set vs) ns"
      using Cons.prems by (auto simp: sub intro!: filter_cong)
    moreover have "map (\<lambda>(k, subs, l). (k, if k \<in> set ns then subs @ [s] else subs, l)) (subscribe s n vs) =
        map (\<lambda>(k, subs, l). (k, if k \<in> set (n # ns) then subs @ [s] else subs, l)) vs @ [(n, [s], 0)]"
      using False Cons.prems by (force simp: sub)
    moreover have "filter (\<lambda>k. k \<notin> fst ` set vs) (n # ns) = n # filter (\<lambda>k. k \<notin> fst ` set vs) ns"
      using False by simp
    ultimately show ?thesis using IH by (simp only: fold_simps list.map append_assoc append.simps)
  qed
qed

lemma remove_subscribed:
  assumes "distinct ns" "\<forall>(k, subs, l) \<in> set vs. subs \<noteq> [] \<and> s \<notin> set subs"
  shows "remove_subscriber s (fold (subscribe s) ns vs) = vs"
proof -
  have "remove_subscriber s (map (\<lambda>(k, subs, l). (k, if k \<in> set ns then subs @ [s] else subs, l)) vs) = vs"
    using assms(2)
  proof (induction vs)
    case Nil
    then show ?case by (simp add: remove_subscriber_def)
  next
    case (Cons v vs)
    then show ?case
      by (cases v) (auto simp: remove_subscriber_def remove1_append remove1_idem)
  qed
  moreover have "remove_subscriber s (map (\<lambda>n. (n, [s], 0)) xs) = []" for xs
    by (induction xs) (auto simp: remove_subscriber_def)
  moreover have "remove_subscriber s (a @ b) = remove_subscriber s a @ remove_subscriber s b" for a b
    by (simp add: remove_subscriber_def)
  ultimately show ?thesis by (simp add: fold_subscribe[OF assms(1)])
qed


section \<open>Creating a registration\<close>

lemma locked_sum_free:
  "list_all (\<lambda>n. resource_held (Some rs) n \<noteq> Some True) ns \<Longrightarrow> locked_sum (Some rs) ns = Some 0"
proof (induction ns)
  case Nil
  then show ?case by simp
next
  case (Cons n ns)
  then have "resource_is_locked (Some rs) n = Some 0"
    by (auto simp: resource_is_locked_def resource_held_def split: option.splits)
  then show ?case using Cons by simp
qed

lemma component_add_ok:
  assumes "components_ok (Some cs)" "NUL \<notin> set nm" "length nm < COMPONENT_NAME_LEN"
    and "nm \<notin> c_name ` set cs" "slots_ok COMPONENT_NAME_LEN hc (bytes_of hook)"
  shows "\<exists>c. component_add_node [] (Some cs) (Some nm) ds tn rl hook hc ttl 0 = (0, [], Some (cs @ [c])) \<and>
    components_ok (Some (cs @ [c])) \<and> c_name c = nm \<and> c_lock c = 0 \<and> c_ttl c = ttl \<and>
    c_role c = field_copy COMPONENT_ROLE_LEN rl \<and> c_tunnel c = field_copy COMPONENT_TUNNEL_LEN tn \<and>
    c_hooks c = slots COMPONENT_NAME_LEN hc (bytes_of hook)"
proof -
  have h: "\<And>h. hook = Some h \<Longrightarrow> hc * 32 \<le> length h" and h0: "hook = None \<Longrightarrow> hc = 0"
    using assms(5) by (auto simp: slots_ok_def bytes_of_def)
  have "\<exists>c. component_add_node [] (Some cs) (Some nm) ds tn rl hook hc ttl 0 = (0, [], Some (cs @ [c])) \<and>
    c_name c = nm \<and> c_lock c = 0 \<and> c_ttl c = ttl \<and>
    c_role c = field_copy COMPONENT_ROLE_LEN rl \<and> c_tunnel c = field_copy COMPONENT_TUNNEL_LEN tn \<and>
    c_hooks c = slots COMPONENT_NAME_LEN hc (bytes_of hook)"
  proof (cases hook)
    case None
    then show ?thesis
      using assms(3) h0 by (simp add: component_add_node_def Let_def field_copy_def c_hooks_def)
  next
    case (Some b)
    then show ?thesis
      using assms(3) h slots_terminate[OF assms(5)]
      by (simp add: component_add_node_def Let_def field_copy_def c_hooks_def bytes_of_def memcpy_all)
  qed
  moreover have "components_ok (snd (snd (component_add_node [] (Some cs) (Some nm) ds tn rl hook hc ttl 0)))"
    using assms by (intro component_add_node_inv) (auto simp: field_copy_def)
  ultimately show ?thesis by auto
qed

lemma register_create_view:
  assumes mem: "w_heap w = []" and reg: "w_resources w = Some rs" "w_components w = Some cs"
    and ok: "resources_ok (Some rs)" "components_ok (Some cs)"
    and nm: "NUL \<notin> set nm" "length nm < COMPONENT_NAME_LEN" "nm \<notin> c_name ` set cs"
    and hk: "slots_ok COMPONENT_NAME_LEN hc (bytes_of hook)"
    and rb: "slots_ok RESOURCE_NAME_LEN rn buf"
    and free: "list_all (\<lambda>n. resource_held (Some rs) n \<noteq> Some True) (slots RESOURCE_NAME_LEN rn buf)"
    and tn: "pick_tunnel (Some cs) (w_rand w) = Some (t, draws)"
  shows "\<exists>w' c rs'. register_create (Some nm) (Some ds) (Some rl) hook hc ttl (Some buf) rn w =
      Some (SESSION_CODE_OK, [], t, w') \<and>
    w' = w\<lparr>w_rand := draws, w_components := Some (cs @ [c]), w_resources := Some rs'\<rparr> \<and>
    components_ok (Some (cs @ [c])) \<and> resources_ok (Some rs') \<and>
    c_name c = nm \<and> c_role c = bounded_copy COMPONENT_ROLE_LEN rl \<and>
    c_tunnel c = bounded_copy COMPONENT_TUNNEL_LEN t \<and> c_ttl c = ttl \<and> c_lock c = 0 \<and>
    c_hooks c = slots COMPONENT_NAME_LEN hc (bytes_of hook) \<and>
    map r_view rs' = fold (subscribe nm) (slots RESOURCE_NAME_LEN rn buf) (map r_view rs)"
proof -
  obtain c where c: "component_add_node [] (Some cs) (Some nm) (Some ds) (Some t) (Some rl) hook hc ttl 0 =
      (0, [], Some (cs @ [c]))" "components_ok (Some (cs @ [c]))" "c_name c = nm" "c_lock c = 0"
    "c_ttl c = ttl" "c_role c = field_copy 16 (Some rl)" "c_tunnel c = field_copy 64 (Some t)"
    "c_hooks c = slots 32 hc (bytes_of hook)"
    using component_add_ok[OF ok(2) nm hk] by blast
  have "list_all (\<lambda>n. length n < 1024) (slots 1024 rn buf)"
    using slots_bounded[OF rb] by (auto simp: list_all_iff)
  from append_resources_view[OF ok(1) nm(1,2) this free] obtain rs' where
    rs': "append_resources [] (Some rs) (slots 1024 rn buf) nm = ([], Some rs')"
      "resources_ok (Some rs')" "map r_view rs' = fold (subscribe nm) (slots 1024 rn buf) (map r_view rs)"
    by blast
  have e: "w\<lparr>w_rand := draws, w_heap := [], w_components := Some (cs @ [c]), w_heap := [],
      w_resources := Some rs'\<rparr> =
      w\<lparr>w_rand := draws, w_components := Some (cs @ [c]), w_resources := Some rs'\<rparr>"
    using mem by (cases w) simp
  have "register_create (Some nm) (Some ds) (Some rl) hook hc ttl (Some buf) rn w =
      Some (SESSION_CODE_OK, [], t,
        w\<lparr>w_rand := draws, w_components := Some (cs @ [c]), w_resources := Some rs'\<rparr>)"
    unfolding e[symmetric] using c(1) rs'(1) nm(3) mem reg tn locked_sum_free[OF free]
    by (simp add: register_create_def Let_def)
  then show ?thesis using c rs' by (auto simp: field_copy_def)
qed

section \<open>Deleting a registration\<close>

lemma register_delete_view:
  assumes mem: "w_heap w = []" and reg: "w_resources w = Some rs" "w_components w = Some cs"
    and ok: "resources_ok (Some rs)" "components_ok (Some cs)"
    and nm: "length nm < COMPONENT_NAME_LEN" "component_held (Some cs) nm = Some False"
    and free: "resource_is_any_locked_by_component (Some rs) nm = Some 0"
  shows "\<exists>w' rs'. register_delete (Some nm) w = Some (SESSION_CODE_OK, [], w') \<and>
    w' = w\<lparr>w_components := Some (filter (\<lambda>c. c_name c \<noteq> nm) cs), w_resources := Some rs'\<rparr> \<and>
    components_ok (w_components w') \<and> resources_ok (Some rs') \<and>
    map r_view rs' = remove_subscriber nm (map r_view rs)"
proof -
  obtain c where c: "find (\<lambda>c. c_name c = nm) cs = Some c" "c_lock c = 0"
    using nm(2) by (auto simp: component_held_def)
  have l: "component_is_locked (Some cs) nm = Some 0" using c by (simp add: component_is_locked_def)
  have d: "component_delete_first_name (Some cs) (Some nm) = (0, Some (filter (\<lambda>c. c_name c \<noteq> nm) cs))"
  proof -
    have "delete_first (\<lambda>c. c_name c = nm) cs = filter (\<lambda>c. c_name c \<noteq> nm) cs"
      using ok(2) delete_first_filter[of c_name cs nm] by (simp add: components_ok_def)
    then show ?thesis using c by (simp add: component_delete_first_name_def)
  qed
  have i: "nm \<in> c_name ` set cs" using c(1) by (auto dest: find_Some_mem)
  obtain rs' where rs': "resource_remove_all_component_by_name [] (Some rs) (Some nm) = (0, [], Some rs')"
    "resources_ok (Some rs')" "map r_view rs' = remove_subscriber nm (map r_view rs)"
    using resource_remove_all_view[OF ok(1) nm(1) free] by blast
  have "components_ok (snd (component_delete_first_name (Some cs) (Some nm)))"
    by (rule component_delete_inv[OF ok(2)])
  then have ok': "components_ok (Some (filter (\<lambda>c. c_name c \<noteq> nm) cs))" by (simp add: d)
  have e: "w\<lparr>w_components := Some (filter (\<lambda>c. c_name c \<noteq> nm) cs), w_heap := [], w_resources := Some rs'\<rparr> =
      w\<lparr>w_components := Some (filter (\<lambda>c. c_name c \<noteq> nm) cs), w_resources := Some rs'\<rparr>"
    using mem by (cases w) simp
  have "register_delete (Some nm) w = Some (SESSION_CODE_OK, [],
      w\<lparr>w_components := Some (filter (\<lambda>c. c_name c \<noteq> nm) cs), w_resources := Some rs'\<rparr>)"
    unfolding e[symmetric] using d i rs'(1) mem reg l free by (simp add: register_delete_def Let_def)
  then show ?thesis using rs' ok' by auto
qed


section \<open>Creating and deleting again\<close>

lemma subscribed_unlocked:
  assumes ok: "resources_ok (Some rs)" "resources_ok (Some rs')" and l: "length nm < COMPONENT_NAME_LEN"
    and v: "map r_view rs' = fold (subscribe nm) ns (map r_view rs)"
    and d: "distinct ns" and free: "list_all (\<lambda>n. resource_held (Some rs) n \<noteq> Some True) ns"
    and new: "\<forall>r \<in> set rs. nm \<notin> set (r_subscribers r)"
  shows "resource_is_any_locked_by_component (Some rs') nm = Some 0"
proof -
  have "r_lock r = 0" if r: "r \<in> set rs'" "nm \<in> set (r_subscribers r)" for r
  proof -
    have "r_view r \<in> set (fold (subscribe nm) ns (map r_view rs))"
      using r(1) v by (metis image_eqI set_map)
    then consider x where "x \<in> set rs" "r_name x = r_name r" "r_lock x = r_lock r"
        "r_subscribers r = (if r_name x \<in> set ns then r_subscribers x @ [nm] else r_subscribers x)"
      | "r_lock r = 0"
      unfolding fold_subscribe[OF d] by (auto simp: r_view_def)
    then show ?thesis
    proof cases
      case 1
      then have "r_name x \<in> set ns" using new r(2) by (auto split: if_splits)
      then have "resource_held (Some rs) (r_name x) \<noteq> Some True" using free by (auto simp: list_all_iff)
      moreover have "find (\<lambda>y. r_name y = r_name x) rs = Some x"
        using ok(1) 1(1) by (intro find_key_mem) (simp_all add: resources_ok_def)
      ultimately show ?thesis using 1(3) by (simp add: resource_held_def)
    next
      case 2
      then show ?thesis .
    qed
  qed
  then have "any_locked_loop nm 0 rs' = 0"
    using any_locked_loop_zero[of rs' nm] ok(2) l by (simp add: resources_ok_def)
  then show ?thesis by (simp add: resource_is_any_locked_by_component_def)
qed

section \<open>Properties\<close>

text \<open>
  The tunnel of a new component is fresh: the loop returns the first draw whose decimal
  text no registered component has as its tunnel, and it ends as soon as more different
  numbers than there are components have been drawn.
\<close>

lemma fresh_tunnel:
  "pick_tunnel (Some cs) draws =
      (case dropWhile (\<lambda>r. sprintf_d r \<in> c_tunnel ` set cs) draws of
         [] \<Rightarrow> None | r # rs \<Rightarrow> Some (sprintf_d r, rs)) \<and>
   (distinct draws \<and> list_all (\<lambda>r. 0 \<le> r) draws \<and> length cs < length draws \<longrightarrow>
      pick_tunnel (Some cs) draws \<noteq> None)"
  using pick_tunnel_eq[of cs draws] pick_tunnel_enough[of draws cs] by (auto simp: list_all_iff)

lemma fresh_tunnel_witness:
  "pick_tunnel (Some [sample_component]) [1, 12] \<noteq> None"
  using conjunct2[OF fresh_tunnel[of "[sample_component]" "[1, 12]"]]
  by (simp del: pick_tunnel.simps)

text \<open>
  C13. A registration that is accepted does exactly what it says: the component is linked at
  the end of its registry with the given name, role, time to live, hooks and a fresh tunnel,
  unlocked; it is subscribed to every listed resource, in order, creating the missing ones;
  both registries stay well formed and nothing else of the state changes.
\<close>

theorem register_create_registers:
  assumes "w_heap w = []" "w_resources w = Some rs" "w_components w = Some cs"
    and "resources_ok (Some rs)" "components_ok (Some cs)"
    and "NUL \<notin> set nm" "length nm < COMPONENT_NAME_LEN" "nm \<notin> c_name ` set cs"
    and "slots_ok COMPONENT_NAME_LEN hc (bytes_of hook)" "slots_ok RESOURCE_NAME_LEN rn buf"
    and "list_all (\<lambda>n. resource_held (Some rs) n \<noteq> Some True) (slots RESOURCE_NAME_LEN rn buf)"
    and "pick_tunnel (Some cs) (w_rand w) = Some (t, draws)"
  shows "\<exists>w' c rs'. register_create (Some nm) (Some ds) (Some rl) hook hc ttl (Some buf) rn w =
      Some (SESSION_CODE_OK, [], t, w') \<and> t \<notin> c_tunnel ` set cs \<and>
    w' = w\<lparr>w_rand := draws, w_components := Some (cs @ [c]), w_resources := Some rs'\<rparr> \<and>
    components_ok (Some (cs @ [c])) \<and> resources_ok (Some rs') \<and>
    c_name c = nm \<and> c_role c = bounded_copy COMPONENT_ROLE_LEN rl \<and>
    c_tunnel c = bounded_copy COMPONENT_TUNNEL_LEN t \<and> c_ttl c = ttl \<and> c_lock c = 0 \<and>
    c_hooks c = slots COMPONENT_NAME_LEN hc (bytes_of hook) \<and>
    map r_view rs' = fold (subscribe nm) (slots RESOURCE_NAME_LEN rn buf) (map r_view rs)"
  using register_create_view[OF assms, of ds rl ttl] pick_tunnel_fresh[OF assms(12)] by blast

definition sample_registry :: "(unit, unit) world" where
  "sample_registry =
     \<lparr> w_heap = [], w_json = (), w_rand = [1, 12], w_resources = Some sample_resources,
       w_components = Some [sample_component], w_sessions = Some [],
       w_ud = \<lparr> ud_local_id_topic = [], ud_pub_qos = 1, ud_retain_sent = 1 \<rparr>, w_sent = [] \<rparr>"

lemma sample_buffer: "slots_ok 1024 2 (pack_slots 1024 [''/c'', ''/b''])"
  "slots 1024 2 (pack_slots 1024 [''/c'', ''/b'']) = [''/c'', ''/b'']"
  using pack_slots_correct[of 1024 "[''/c'', ''/b'']"] by (simp_all add: numeral_2_eq_2)

lemma sample_registry_facts:
  "list_all (\<lambda>n. resource_held (Some sample_resources) n \<noteq> Some True) [''/c'', ''/b'']"
  "pick_tunnel (Some [sample_component]) (w_rand sample_registry) = Some (''12'', [])"
  "''k'' \<notin> c_name ` set [sample_component]"
  "w_resources sample_registry = Some sample_resources"
  "w_components sample_registry = Some [sample_component]" "w_heap sample_registry = []"
  by code_simp+

theorem register_create_registers_witness:
  "\<exists>w' rs'. register_create (Some ''k'') (Some []) (Some ''model'') None 0 5
      (Some (pack_slots 1024 [''/c'', ''/b''])) 2 sample_registry = Some (SESSION_CODE_OK, [], ''12'', w') \<and>
    w_resources w' = Some rs' \<and> map r_view rs' =
      [(''/a'', [''m'', ''n''], 0), (''/b'', [''m'', ''k''], 0), (''/c'', [''k''], 0)]"
proof -
  have f: "fold (subscribe ''k'') [''/c'', ''/b''] (map r_view sample_resources) =
    [(''/a'', [''m'', ''n''], 0), (''/b'', [''m'', ''k''], 0), (''/c'', [''k''], 0)]"
    by (simp add: sample_resources_ok(2) subscribe_def)
  have "list_all (\<lambda>n. resource_held (Some sample_resources) n \<noteq> Some True)
      (slots 1024 2 (pack_slots 1024 [''/c'', ''/b'']))"
    unfolding sample_buffer(2) by (rule sample_registry_facts(1))
  from register_create_registers[OF sample_registry_facts(6,4,5) sample_resources_ok(1)
      sample_component_ok(1) _ _ sample_registry_facts(3) _ sample_buffer(1) this sample_registry_facts(2),
      of 0 None "[]" "''model''" 5]
  show ?thesis unfolding sample_buffer(2) f by (auto simp: bytes_of_def)
qed

text \<open>
  Deleting a registered component that is unlocked, and none of whose resources is locked,
  answers 200, unlinks exactly that component and drops its name once from each of its
  resources, removing those left without a subscriber; nothing else of the state changes.
\<close>

lemma register_delete_unregisters:
  assumes "w_heap w = []" "w_resources w = Some rs" "w_components w = Some cs"
    and "resources_ok (Some rs)" "components_ok (Some cs)"
    and "length nm < COMPONENT_NAME_LEN" "component_held (Some cs) nm = Some False"
    and "resource_is_any_locked_by_component (Some rs) nm = Some 0"
  shows "\<exists>w' rs'. register_delete (Some nm) w = Some (SESSION_CODE_OK, [], w') \<and>
    w' = w\<lparr>w_components := Some (filter (\<lambda>c. c_name c \<noteq> nm) cs), w_resources := Some rs'\<rparr> \<and>
    components_ok (w_components w') \<and> resources_ok (Some rs') \<and>
    map r_view rs' = remove_subscriber nm (map r_view rs)"
  using register_delete_view[OF assms] .

lemma register_delete_unregisters_witness:
  "\<exists>w'. register_delete (Some ''b'') sample_registry = Some (SESSION_CODE_OK, [], w') \<and>
    w_components w' = Some []"
proof -
  have "component_held (Some [sample_component]) ''b'' = Some False"
    "resource_is_any_locked_by_component (Some sample_resources) ''b'' = Some 0"
    "filter (\<lambda>c. c_name c \<noteq> ''b'') [sample_component] = []"
    by code_simp+
  then show ?thesis
    using register_delete_unregisters[OF sample_registry_facts(6,4,5) sample_resources_ok(1)
      sample_component_ok(1), of "''b''"] by auto
qed

text \<open>
  C14. Registration round trip: registering a new component on different unlocked resources
  and deleting it again restores the component registry, and every resource with its
  subscribers and its lock.
\<close>

theorem register_delete_roundtrip:
  assumes "w_heap w = []" "w_resources w = Some rs" "w_components w = Some cs"
    and "resources_ok (Some rs)" "components_ok (Some cs)"
    and "NUL \<notin> set nm" "length nm < COMPONENT_NAME_LEN" "nm \<notin> c_name ` set cs"
    and "slots_ok COMPONENT_NAME_LEN hc (bytes_of hook)" "slots_ok RESOURCE_NAME_LEN rn buf"
    and "list_all (\<lambda>n. resource_held (Some rs) n \<noteq> Some True) (slots RESOURCE_NAME_LEN rn buf)"
    and "pick_tunnel (Some cs) (w_rand w) = Some (t, draws)"
    and "distinct (slots RESOURCE_NAME_LEN rn buf)"
    and "list_all (\<lambda>r. r_subscribers r \<noteq> [] \<and> nm \<notin> set (r_subscribers r)) rs"
  shows "\<exists>w1 w2 rs2. register_create (Some nm) (Some ds) (Some rl) hook hc ttl (Some buf) rn w =
      Some (SESSION_CODE_OK, [], t, w1) \<and>
    register_delete (Some nm) w1 = Some (SESSION_CODE_OK, [], w2) \<and>
    w_components w2 = w_components w \<and> w_resources w2 = Some rs2 \<and>
    map r_view rs2 = map r_view rs"
proof -
  obtain w1 c rs1 where c: "register_create (Some nm) (Some ds) (Some rl) hook hc ttl (Some buf) rn w =
      Some (SESSION_CODE_OK, [], t, w1)"
    and w1: "w1 = w\<lparr>w_rand := draws, w_components := Some (cs @ [c]), w_resources := Some rs1\<rparr>"
    and ok: "components_ok (Some (cs @ [c]))" "resources_ok (Some rs1)"
    and cn: "c_name c = nm" "c_lock c = 0"
    and v: "map r_view rs1 = fold (subscribe nm) (slots 1024 rn buf) (map r_view rs)"
    using register_create_view[OF assms(1-12), of ds rl ttl] by blast
  have new: "\<forall>r \<in> set rs. nm \<notin> set (r_subscribers r)" using assms(14) by (auto simp: list_all_iff)
  have free: "resource_is_any_locked_by_component (Some rs1) nm = Some 0"
    using subscribed_unlocked[OF assms(4) ok(2) assms(7) v assms(13,11) new] .
  have "find (\<lambda>c. c_name c = nm) cs = None" using assms(8) by (auto simp: find_None_iff_all)
  then have held: "component_held (Some (cs @ [c])) nm = Some False"
    using cn by (simp add: component_held_def find_append)
  have reg: "w_heap w1 = []" "w_resources w1 = Some rs1" "w_components w1 = Some (cs @ [c])"
    using assms(1) by (simp_all add: w1)
  obtain w2 rs2 where d: "register_delete (Some nm) w1 = Some (SESSION_CODE_OK, [], w2)"
    "w2 = w1\<lparr>w_components := Some (filter (\<lambda>c. c_name c \<noteq> nm) (cs @ [c])), w_resources := Some rs2\<rparr>"
    "map r_view rs2 = remove_subscriber nm (map r_view rs1)"
    using register_delete_view[OF reg ok(2,1) assms(7) held free] by blast
  have "\<forall>x \<in> set cs. c_name x \<noteq> nm" using assms(8) by (metis image_eqI)
  then have "filter (\<lambda>c. c_name c \<noteq> nm) (cs @ [c]) = cs" using cn by simp
  moreover have "map r_view rs2 = map r_view rs"
    unfolding d(3) v using assms(13,14) by (intro remove_subscribed) (auto simp: r_view_def list_all_iff)
  ultimately show ?thesis using c d(1,2) assms(3) by auto
qed

theorem register_delete_roundtrip_witness:
  "\<exists>w1 w2 rs2. register_create (Some ''k'') (Some []) (Some ''model'') None 0 5
      (Some (pack_slots 1024 [''/c'', ''/b''])) 2 sample_registry = Some (SESSION_CODE_OK, [], ''12'', w1) \<and>
    register_delete (Some ''k'') w1 = Some (SESSION_CODE_OK, [], w2) \<and>
    w_resources w2 = Some rs2 \<and> map r_view rs2 = [(''/a'', [''m'', ''n''], 0), (''/b'', [''m''], 0)]"
proof -
  have s: "list_all (\<lambda>r. r_subscribers r \<noteq> [] \<and> ''k'' \<notin> set (r_subscribers r)) sample_resources"
    by code_simp
  have "list_all (\<lambda>n. resource_held (Some sample_resources) n \<noteq> Some True)
      (slots 1024 2 (pack_slots 1024 [''/c'', ''/b'']))"
    "distinct (slots 1024 2 (pack_slots 1024 [''/c'', ''/b'']))"
    unfolding sample_buffer(2) by (rule sample_registry_facts(1)) simp
  from register_delete_roundtrip[OF sample_registry_facts(6,4,5) sample_resources_ok(1)
      sample_component_ok(1) _ _ sample_registry_facts(3) _ sample_buffer(1) this(1)
      sample_registry_facts(2) this(2) s, of 0 None "[]" "''model''" 5]
  show ?thesis by (auto simp: bytes_of_def sample_resources_ok(2))
qed

text \<open>
  Listing a resource twice leaves a dangling subscriber: the component is subscribed to it
  twice, deleting the component removes one of the two, and the resource stays registered
  with the name of a component that no longer exists. (One concrete run.)
\<close>

lemma duplicate_resource_dangles:
  "\<exists>w1 w2 rs2. register_create (Some ''k'') (Some []) (Some ''model'') None 0 5
      (Some (pack_slots 1024 [''/c'', ''/c''])) 2 sample_registry = Some (SESSION_CODE_OK, [], ''12'', w1) \<and>
    register_delete (Some ''k'') w1 = Some (SESSION_CODE_OK, [], w2) \<and>
    component_is_registered (w_components w2) (Some ''k'') = 0 \<and> w_resources w2 = Some rs2 \<and>
    map r_view rs2 = [(''/a'', [''m'', ''n''], 0), (''/b'', [''m''], 0), (''/c'', [''k''], 0)]"
proof -
  have b: "slots_ok 1024 2 (pack_slots 1024 [''/c'', ''/c''])"
    "slots 1024 2 (pack_slots 1024 [''/c'', ''/c'']) = [''/c'', ''/c'']"
    using pack_slots_correct[of 1024 "[''/c'', ''/c'']"] by (simp_all add: numeral_2_eq_2)
  have f: "fold (subscribe ''k'') [''/c'', ''/c''] (map r_view sample_resources) =
    [(''/a'', [''m'', ''n''], 0), (''/b'', [''m''], 0), (''/c'', [''k'', ''k''], 0)]"
    by (simp add: sample_resources_ok(2) subscribe_def)
  have l: "list_all (\<lambda>n. resource_held (Some sample_resources) n \<noteq> Some True)
      (slots 1024 2 (pack_slots 1024 [''/c'', ''/c'']))"
    unfolding b(2) by code_simp
  from register_create_view[OF sample_registry_facts(6,4,5) sample_resources_ok(1)
      sample_component_ok(1) _ _ sample_registry_facts(3) _ b(1) l sample_registry_facts(2),
      of 0 None "[]" "''model''" 5]
  obtain w1 c rs1 where 1: "register_create (Some ''k'') (Some []) (Some ''model'') None 0 5
      (Some (pack_slots 1024 [''/c'', ''/c''])) 2 sample_registry = Some (SESSION_CODE_OK, [], ''12'', w1)"
    and w1: "w1 = sample_registry\<lparr>w_rand := [], w_components := Some ([sample_component] @ [c]),
      w_resources := Some rs1\<rparr>"
    and ok: "components_ok (Some ([sample_component] @ [c]))" "resources_ok (Some rs1)"
    and c: "c_name c = ''k''" "c_lock c = 0"
    and v: "map r_view rs1 = [(''/a'', [''m'', ''n''], 0), (''/b'', [''m''], 0), (''/c'', [''k'', ''k''], 0)]"
    unfolding b(2) f by (auto simp: bytes_of_def)
  have reg: "w_heap w1 = []" "w_resources w1 = Some rs1" "w_components w1 = Some ([sample_component] @ [c])"
    by (simp_all add: w1 sample_registry_def)
  have "map r_lock rs1 = map (\<lambda>v. snd (snd v)) (map r_view rs1)" by (simp add: r_view_def)
  then have "set (map r_lock rs1) = {0}" unfolding v by simp
  then have "any_locked_loop ''k'' 0 rs1 = 0"
    using any_locked_loop_zero[of rs1 "''k''"] ok(2) by (auto simp: resources_ok_def)
  then have free: "resource_is_any_locked_by_component (Some rs1) ''k'' = Some 0"
    by (simp add: resource_is_any_locked_by_component_def)
  have held: "component_held (Some ([sample_component] @ [c])) ''k'' = Some False"
    using c by (simp add: component_held_def sample_component_def)
  from register_delete_view[OF reg ok(2,1) _ held free] obtain w2 rs2 where
    2: "register_delete (Some ''k'') w1 = Some (SESSION_CODE_OK, [], w2)"
      "w2 = w1\<lparr>w_components := Some (filter (\<lambda>c. c_name c \<noteq> ''k'') ([sample_component] @ [c])),
         w_resources := Some rs2\<rparr>"
      "map r_view rs2 = remove_subscriber ''k'' (map r_view rs1)"
    by auto
  have "map r_view rs2 = [(''/a'', [''m'', ''n''], 0), (''/b'', [''m''], 0), (''/c'', [''k''], 0)]"
    unfolding 2(3) v by (simp add: remove_subscriber_def)
  moreover have "component_is_registered (w_components w2) (Some ''k'') = 0"
    by (auto simp: 2(2))
  ultimately show ?thesis using 1 2(1,2) by auto
qed

end
