(* ===== verification/Rounds.thy ===== *)
theory Rounds
  imports Sanji_Prelude
begin

text \<open>
  The loop \<open>do { ... } while (subscribed_count);\<close> that \<open>dependency_read\<close> and \<open>routing_req\<close>
  share: each round works through a list of component names, extends a state and collects
  the names of the next round; an error leaves the loop. The loop may run for ever, so its
  value is an option: \<open>None\<close> is a run that never ends.
\<close>

partial_function (option) do_rounds ::
    "('f list \<Rightarrow> 's \<Rightarrow> 'e + 'f list \<times> 's) \<Rightarrow> 'f list \<Rightarrow> 's \<Rightarrow> ('e + 's) option" where
  "do_rounds body fs s =
     (case body fs s of
        Inl e \<Rightarrow> Some (Inl e)
      | Inr (gs, s1) \<Rightarrow> if gs = [] then Some (Inr s1) else do_rounds body gs s1)"

declare do_rounds.simps [code]

text \<open>
  It ends when every name of a next round is lighter than some name of the round before.
\<close>

lemma do_rounds_terminates:
  assumes step: "\<And>fs s gs s1. body fs s = Inr (gs, s1) \<Longrightarrow>
      \<forall>g \<in> set gs. \<exists>f \<in> set fs. weight g < (weight f :: nat)"
  shows "\<exists>r. do_rounds body fs s = Some r"
proof -
  have "\<forall>f \<in> set fs. weight f < n \<Longrightarrow> \<exists>r. do_rounds body fs s = Some r" for n
  proof (induction n arbitrary: fs s)
    case 0
    have "gs = []" if "body fs s = Inr (gs, s1)" for gs s1
      using step[OF that] 0 by (cases gs) auto
    then show ?case by (subst do_rounds.simps) (auto split: sum.split)
  next
    case (Suc n)
    have "\<exists>r. do_rounds body gs s1 = Some r" if "body fs s = Inr (gs, s1)" for gs s1
      using step[OF that] Suc.prems by (intro Suc.IH) fastforce
    then show ?case by (subst do_rounds.simps) (auto split: sum.split)
  qed
  moreover have "\<forall>f \<in> set fs. weight f < Suc (Max (insert 0 (weight ` set fs)))"
    by (auto intro!: le_imp_less_Suc Max_ge)
  ultimately show ?thesis by blast
qed

text \<open>Induction over a run that ends, for a fixed body.\<close>

lemma do_rounds_induct [consumes 1, case_names stop finish more]:
  assumes "do_rounds body fs s = Some r"
    and "\<And>fs s e. body fs s = Inl e \<Longrightarrow> Q fs s (Inl e)"
    and "\<And>fs s s1. body fs s = Inr ([], s1) \<Longrightarrow> Q fs s (Inr s1)"
    and "\<And>fs s gs s1 r. body fs s = Inr (gs, s1) \<Longrightarrow> gs \<noteq> [] \<Longrightarrow>
      do_rounds body gs s1 = Some r \<Longrightarrow> Q gs s1 r \<Longrightarrow> Q fs s r"
  shows "Q fs s r"
proof -
  have "body = body \<longrightarrow> do_rounds body fs s = Some r \<and> Q fs s r"
    using assms(1)
  proof (rule do_rounds.raw_induct[where P = "\<lambda>b fs s r. b = body \<longrightarrow> do_rounds body fs s = Some r \<and> Q fs s r",
        rotated])
    fix loop b fs s r
    assume IH: "\<And>fs s b' y. loop fs s b' = Some y \<Longrightarrow>
        fs = body \<longrightarrow> do_rounds body s b' = Some y \<and> Q s b' y"
      and e: "(case b fs s of Inl e \<Rightarrow> Some (Inl e)
        | Inr (gs, s1) \<Rightarrow> if gs = [] then Some (Inr s1) else loop b gs s1) = Some r"
    show "b = body \<longrightarrow> do_rounds body fs s = Some r \<and> Q fs s r"
    proof
      assume b: "b = body"
      show "do_rounds body fs s = Some r \<and> Q fs s r"
      proof (cases "body fs s")
        case (Inl x)
        then show ?thesis using e b assms(2)[OF Inl] by (subst do_rounds.simps) auto
      next
        case (Inr p)
        obtain gs s1 where p: "p = (gs, s1)" by force
        show ?thesis
        proof (cases "gs = []")
          case True
          then show ?thesis using e b Inr p assms(3) by (subst do_rounds.simps) auto
        next
          case False
          then have "loop body gs s1 = Some r" using e b Inr p by simp
          then have "do_rounds body gs s1 = Some r" "Q gs s1 r" using IH by blast+
          then show ?thesis using False Inr p assms(4) by (subst do_rounds.simps) auto
        qed
      qed
    qed
  qed
  then show ?thesis by blast
qed

text \<open>It never ends when a condition on the round is kept that rules out both exits.\<close>

lemma do_rounds_diverges:
  assumes keep: "\<And>fs s. P fs s \<Longrightarrow> \<exists>gs s1. body fs s = Inr (gs, s1) \<and> gs \<noteq> [] \<and> P gs s1"
    and "P fs s"
  shows "do_rounds body fs s = None"
proof -
  have "do_rounds body fs s = Some r \<Longrightarrow> \<not> P fs s" for r
    by (induction rule: do_rounds_induct) (use keep in force)+
  then show ?thesis using assms(2) by (cases "do_rounds body fs s") auto
qed

text \<open>What every round keeps holds of the state at the end.\<close>

lemma do_rounds_invariant:
  assumes "do_rounds body fs s = Some (Inr t)" "I s"
    and keep: "\<And>fs s gs s1. I s \<Longrightarrow> body fs s = Inr (gs, s1) \<Longrightarrow> I s1"
  shows "I t"
proof -
  have "do_rounds body fs s = Some r \<Longrightarrow> I s \<Longrightarrow> r = Inr t \<longrightarrow> I t" for r
    by (induction rule: do_rounds_induct) (use keep in auto)
  then show ?thesis using assms by blast
qed


text \<open>The same where the condition also speaks of the names of the next round.\<close>

lemma do_rounds_frontier_invariant:
  assumes "do_rounds body fs s = Some (Inr t)" "I fs s"
    and keep: "\<And>fs s gs s1. I fs s \<Longrightarrow> body fs s = Inr (gs, s1) \<Longrightarrow> I gs s1"
  shows "I [] t"
proof -
  have "do_rounds body fs s = Some r \<Longrightarrow> I fs s \<longrightarrow> r = Inr t \<longrightarrow> I [] t" for r
    by (induction rule: do_rounds_induct) (use keep in auto)
  then show ?thesis using assms by blast
qed

end
