(* ===== verification/Dependency.thy ===== *)
theory Dependency
  imports Register Rounds
begin

text \<open>
  Looking up the resources a resource depends on: \<open>dependency_read\<close> and its handler
  \<open>lookup_resource_dependency_procedure\<close> of \<open>src/sanji_controller.c\<close>. Starting from the
  subscribers of the matched resources, each round collects the resources of the models it
  visits and goes on with the components that hook them. \<open>None\<close> is a search that never ends.
  Flat arrays of names are lists of their slots, null pointers empty lists.
\<close>

abbreviation (input) SANJI_RESOURCE_DEPENDENCY_RESOURCE :: string where
  "SANJI_RESOURCE_DEPENDENCY_RESOURCE \<equiv> ''/controller/resource/dependency''"
abbreviation (input) SANJI_RESOURCE_DEPENDENCY_RESOURCE_LEN :: nat where
  "SANJI_RESOURCE_DEPENDENCY_RESOURCE_LEN \<equiv> 31"

section \<open>Pieces of a round\<close>

text \<open>
  Appending the entries that are not there yet, with one \<open>realloc\<close> each (\<open>None\<close>: it failed).
\<close>

fun merge_names :: "heap \<Rightarrow> string list \<Rightarrow> string list \<Rightarrow> heap \<times> string list option" where
  "merge_names m acc [] = (m, Some acc)"
| "merge_names m acc (n # ns) =
     (if list_ex (strncmp_eq RESOURCE_NAME_LEN n) acc then merge_names m acc ns
      else let (ok, m1) = malloc m
           in if \<not> ok then (m1, None) else merge_names m1 (acc @ [n]) ns)"

text \<open>The components that hook \<open>name\<close>, appended to those of the next round.\<close>

definition gather_hooks ::
    "heap \<Rightarrow> components \<Rightarrow> string \<Rightarrow> string list \<Rightarrow> heap \<times> string list option" where
  "gather_hooks m cs name hooks =
     (let (m1, found) = component_get_names_by_hook m cs (Some name) in
      if found = [] then (m1, Some hooks)
      else let (ok, m2) = malloc m1
           in if \<not> ok then (m2, None) else (m2, Some (hooks @ found)))"

section \<open>The lookup\<close>

text \<open>The visit of one component: resources found so far and names of the next round.\<close>

definition dependency_visit ::
    "heap \<Rightarrow> components \<Rightarrow> resources \<Rightarrow> string \<Rightarrow> string list \<Rightarrow> string list \<Rightarrow>
     heap \<times> (string list \<times> string list) option" where
  "dependency_visit m cs rs name found hooks =
     (case component_lookup_node_by_name cs name of
        None \<Rightarrow> (m, Some (found, hooks))
      | Some c \<Rightarrow>
          if component_node_is_given_role (Some c) (Some ''model'') = 0 then (m, Some (found, hooks))
          else let (m1, names) = resource_get_names_by_component m rs (Some (c_name c))
            in case merge_names m1 found names of
                 (m2, None) \<Rightarrow> (m2, None)
               | (m2, Some found1) \<Rightarrow>
                   (case gather_hooks m2 cs (c_name c) hooks of
                      (m3, None) \<Rightarrow> (m3, None)
                    | (m3, Some hooks1) \<Rightarrow> (m3, Some (found1, hooks1))))"

fun dependency_visits ::
    "components \<Rightarrow> resources \<Rightarrow> string list \<Rightarrow> heap \<Rightarrow> string list \<Rightarrow> string list \<Rightarrow>
     heap \<times> (string list \<times> string list) option" where
  "dependency_visits cs rs [] m found hooks = (m, Some (found, hooks))"
| "dependency_visits cs rs (n # ns) m found hooks =
     (case dependency_visit m cs rs n found hooks of
        (m1, None) \<Rightarrow> (m1, None)
      | (m1, Some (found1, hooks1)) \<Rightarrow> dependency_visits cs rs ns m1 found1 hooks1)"

definition dependency_round ::
    "components \<Rightarrow> resources \<Rightarrow> string list \<Rightarrow> heap \<times> string list \<Rightarrow>
     heap + string list \<times> heap \<times> string list" where
  "dependency_round cs rs subscribed s =
     (case s of (m, found) \<Rightarrow>
       (case dependency_visits cs rs subscribed m found [] of
          (m1, None) \<Rightarrow> Inl m1
        | (m1, Some (found1, hooks)) \<Rightarrow> Inr (hooks, m1, found1)))"

text \<open>Status code, message, resources found.\<close>

definition dependency_read ::
    "string option \<Rightarrow> ('h, 'p) world \<Rightarrow> (int \<times> string \<times> string list \<times> ('h, 'p) world) option" where
  "dependency_read resource w =
     (case resource of
        None \<Rightarrow> Some (SESSION_CODE_INTERNAL_SERVER_ERROR, ''internal server error'', [], w)
      | Some topic \<Rightarrow>
     (case sanji_match_resource_list (w_heap w) (w_resources w) topic of
        (m1, None, n) \<Rightarrow>
          Some (SESSION_CODE_NOT_FOUND, ''resource had not been registered'', [], w\<lparr>w_heap := m1\<rparr>)
      | (m1, Some resource_list, n) \<Rightarrow>
     (case sanji_get_subscribed_component m1 [] resource_list of
        (m2, subscribed) \<Rightarrow>
          if subscribed = []
          then Some (SESSION_CODE_NOT_IMPLEMENTED, ''resource is not implemented'', [],
                     w\<lparr>w_heap := m2\<rparr>)
          else (case do_rounds (dependency_round (w_components w) (w_resources w)) subscribed (m2, [])
                of None \<Rightarrow> None
                 | Some (Inl m3) \<Rightarrow>
                     Some (SESSION_CODE_SERVICE_UNAVAILABLE, ''service unavailable'', [],
                           w\<lparr>w_heap := m3\<rparr>)
                 | Some (Inr (m3, found)) \<Rightarrow>
                     Some (SESSION_CODE_OK, [], found, w\<lparr>w_heap := m3\<rparr>)))))"

section \<open>The handler\<close>

text \<open>
  The resource of the query string. The topic sits in a buffer of \<open>RESOURCE_NAME_LEN\<close> bytes
  that is zero behind it, so reading at the fixed offset is in bounds.
\<close>

definition query_resource :: "string \<Rightarrow> string" where
  "query_resource topic =
     (let rest = drop SANJI_RESOURCE_DEPENDENCY_RESOURCE_LEN topic in
      if rest \<noteq> [] \<and> hd rest = CHR ''?'' \<and> strncmp_eq 10 rest ''?resource=''
      then bounded_copy RESOURCE_NAME_LEN (drop 10 rest) else [])"

definition dependency_read_request ::
    "('h, 'p) jansson \<Rightarrow> 32 word \<Rightarrow> int \<Rightarrow> string \<Rightarrow> ('h, 'p) world \<Rightarrow>
     (int \<times> ('h, 'p) world) option" where
  "dependency_read_request J sid method topic w0 =
     (let w = (if length topic = SANJI_RESOURCE_DEPENDENCY_RESOURCE_LEN
               then dependency_error_response J sid method (Some topic)
                      SESSION_CODE_METHOD_NOT_ALLOWED (Some ''method not allowed'')
                      (Some ''not support read capability'') w0
               else w0);
          resource = query_resource topic
      in if resource = []
         then Some (1, dependency_error_response J sid method (Some topic) SESSION_CODE_FORBIDDEN
                (Some ''query forbidden'')
                (Some (''only allow with query string '' @ quoted ''?resource=[identifier]'')) w)
         else case dependency_read (Some resource) w of
             None \<Rightarrow> None
           | Some (status_code, message, resources, w1) \<Rightarrow>
               if status_code = SESSION_CODE_OK
               then Some (0, snd (dependency_response J sid method (Some topic) status_code resources w1))
               else Some (0, dependency_error_response J sid method (Some topic) status_code
                                (Some message) (Some []) w1))"

definition lookup_resource_dependency_procedure ::
    "('h, 'p) jansson \<Rightarrow> 32 word \<Rightarrow> int \<Rightarrow> string \<Rightarrow> ('h, 'p) world \<Rightarrow>
     (int \<times> ('h, 'p) world) option" where
  "lookup_resource_dependency_procedure J sid method topic w0 =
     (let w = (if length topic < SANJI_RESOURCE_DEPENDENCY_RESOURCE_LEN \<or>
                  \<not> strncmp_eq SANJI_RESOURCE_DEPENDENCY_RESOURCE_LEN topic
                      SANJI_RESOURCE_DEPENDENCY_RESOURCE
               then dependency_error_response J sid method (Some topic) SESSION_CODE_BAD_REQUEST
                      (Some ''wrong context'')
                      (Some (quoted ''resource'' @ '' didn'' @ apostrophe # ''t match'')) w0
               else w0)
      in if method = RESOURCE_METHOD_READ then dependency_read_request J sid method topic w
         else Some (0, dependency_error_response J sid method (Some topic)
                         SESSION_CODE_METHOD_NOT_ALLOWED (Some ''method not allowed'') None w))"

end
