(* ===== verification/Routing.thy ===== *)
theory Routing
  imports Dependency
begin

text \<open>
  Routing (\<open>src/sanji_controller.c\<close>): events go to the subscribed views, responses update
  their session, and a request builds its model, dependency and view chains, locks what it
  writes and starts a session. \<open>None\<close> is a run that does not end (a cycle of hooks) or
  that dereferences a null array (the match list after a failed \<open>realloc\<close>).
\<close>

section \<open>Errors to the views of the matched resources\<close>

text \<open>The loop over the subscribers of one resource: those with the role \<open>view\<close> are answered.\<close>

fun view_errors ::
    "('h, 'p) jansson \<Rightarrow> 32 word \<Rightarrow> int \<Rightarrow> string \<Rightarrow> int \<Rightarrow> string option \<Rightarrow> string option \<Rightarrow>
     string list \<Rightarrow> ('h, 'p) world \<Rightarrow> ('h, 'p) world" where
  "view_errors J sid method topic status_code message log [] w = w"
| "view_errors J sid method topic status_code message log (n # ns) w =
     view_errors J sid method topic status_code message log ns
       (if component_is_given_role (w_components w) n (Some ''view'') \<noteq> 0
        then snd (sanji_error_response J (component_get_tunnel_by_name (w_components w) (Some n))
                    sid method (Some topic) (Some SANJI_CONTROLLER_NAME) status_code message log w)
        else w)"

definition routing_error_response ::
    "('h, 'p) jansson \<Rightarrow> resource option \<Rightarrow> 32 word \<Rightarrow> int \<Rightarrow> string \<Rightarrow> int \<Rightarrow> string option \<Rightarrow>
     string option \<Rightarrow> ('h, 'p) world \<Rightarrow> int \<times> ('h, 'p) world" where
  "routing_error_response J resource sid method topic status_code message log w =
     (case resource of
        None \<Rightarrow> (1, w)
      | Some r \<Rightarrow>
          if resource_get_subscribed_component resource = None \<or>
             resource_get_subscribed_count resource = 0 then (1, w)
          else (0, view_errors J sid method topic status_code message log (r_subscribers r) w))"

fun routing_error_responses ::
    "('h, 'p) jansson \<Rightarrow> 32 word \<Rightarrow> int \<Rightarrow> string \<Rightarrow> int \<Rightarrow> string option \<Rightarrow> string option \<Rightarrow>
     resource list \<Rightarrow> ('h, 'p) world \<Rightarrow> int \<times> ('h, 'p) world" where
  "routing_error_responses J sid method topic status_code message log [] w = (0, w)"
| "routing_error_responses J sid method topic status_code message log (r # rs) w =
     (let (ret, w1) = routing_error_response J (Some r) sid method topic status_code message log w
      in if ret \<noteq> 0 then (ret, w1)
         else routing_error_responses J sid method topic status_code message log rs w1)"

text \<open>The array may be null; its count is a parameter of its own.\<close>

definition routing_error_response_all ::
    "('h, 'p) jansson \<Rightarrow> string \<Rightarrow> resource list option \<Rightarrow> nat \<Rightarrow> 32 word \<Rightarrow> int \<Rightarrow> string \<Rightarrow> int \<Rightarrow>
     string option \<Rightarrow> string option \<Rightarrow> ('h, 'p) world \<Rightarrow> (int \<times> ('h, 'p) world) option" where
  "routing_error_response_all J tunnel resource resource_count sid method topic status_code
     message log w =
     (if tunnel \<noteq> []
      then Some (0, snd (sanji_error_response J (Some tunnel) sid method (Some topic)
                           (Some SANJI_CONTROLLER_NAME) status_code message log w))
      else case resource of
          None \<Rightarrow> (if resource_count = 0 then Some (0, w) else None)
        | Some rs \<Rightarrow>
            Some (routing_error_responses J sid method topic status_code message log
                    (take resource_count rs) w))"

section \<open>Events\<close>

text \<open>The broadcast to all subscribed views.\<close>

fun event_broadcast :: "string \<Rightarrow> string list \<Rightarrow> ('h, 'p) world \<Rightarrow> ('h, 'p) world" where
  "event_broadcast payload [] w = w"
| "event_broadcast payload (n # ns) w =
     event_broadcast payload ns
       (if component_is_given_role (w_components w) n (Some ''view'') \<noteq> 0
        then snd (sanji_response (component_get_tunnel_by_name (w_components w) (Some n))
                    (Some payload) w)
        else w)"

definition routing_event ::
    "('h, 'p) jansson \<Rightarrow> 'p option \<Rightarrow> string \<Rightarrow> ('h, 'p) world \<Rightarrow> int \<times> ('h, 'p) world" where
  "routing_event J root topic w =
     (case json_dumps J (w_json w) root of
        None \<Rightarrow> (1, w)
      | Some payload \<Rightarrow>
     (case sanji_match_resource_list (w_heap w) (w_resources w) topic of
        (m1, None, n) \<Rightarrow> (1, w\<lparr>w_heap := m1\<rparr>)
      | (m1, Some resource_list, n) \<Rightarrow>
     (case sanji_get_subscribed_component m1 [] resource_list of
        (m2, subscribed) \<Rightarrow>
          if subscribed = [] then (1, w\<lparr>w_heap := m2\<rparr>)
          else (0, event_broadcast payload subscribed (w\<lparr>w_heap := m2\<rparr>)))))"

section \<open>Building the chains of a request\<close>

text \<open>What an error exit of the loop answers: the status code and the message.\<close>

type_synonym chain_error = "int \<times> string"

abbreviation (input) chain_locked :: chain_error where
  "chain_locked \<equiv> (SESSION_CODE_LOCKED, ''resource is locked'')"
abbreviation (input) chain_oom :: chain_error where
  "chain_oom \<equiv> (SESSION_CODE_SERVICE_UNAVAILABLE, ''service unavailable'')"

text \<open>The chains built so far: this round's models, dependencies, views, next round's names.\<close>

record chains =
  ch_models :: model_chain
  ch_dependencies :: "string list"
  ch_views :: "string list"
  ch_hooks :: "string list"

text \<open>The part for write-like methods: dependency resources and hooks of a model.\<close>

definition visit_write ::
    "components \<Rightarrow> resources \<Rightarrow> string \<Rightarrow> heap \<Rightarrow> chains \<Rightarrow> heap \<times> (chain_error + chains)" where
  "visit_write cs rs name m ch =
     (let (m1, names) = resource_get_names_by_component m rs (Some name) in
      case merge_names m1 (ch_dependencies ch) names of
        (m2, None) \<Rightarrow> (m2, Inl chain_oom)
      | (m2, Some deps) \<Rightarrow>
          (case gather_hooks m2 cs name (ch_hooks ch) of
             (m3, None) \<Rightarrow> (m3, Inl chain_oom)
           | (m3, Some hooks) \<Rightarrow>
               (m3, Inr (ch\<lparr>ch_dependencies := deps, ch_hooks := hooks\<rparr>))))"

definition visit_model ::
    "components \<Rightarrow> resources \<Rightarrow> int \<Rightarrow> component \<Rightarrow> heap \<Rightarrow> chains \<Rightarrow>
     heap \<times> (chain_error + chains)" where
  "visit_model cs rs method c m ch =
     (if component_node_is_locked c \<noteq> 0 then (m, Inl chain_locked) else
      let (ok1, m1) = malloc m in
      if \<not> ok1 then (m1, Inl chain_oom) else
      let (ok2, m2) = malloc m1 in
      if \<not> ok2 then (m2, Inl chain_oom) else
      let mc = ch_models ch;
          ch1 = ch\<lparr>ch_models := \<lparr>mc_models = mc_models mc @ [c_name c],
                                mc_ttls = mc_ttls mc @ [c_ttl c]\<rparr>\<rparr>
      in if resource_is_write_like_method method then visit_write cs rs (c_name c) m2 ch1
         else (m2, Inr ch1))"

definition visit_view :: "component \<Rightarrow> heap \<Rightarrow> chains \<Rightarrow> heap \<times> (chain_error + chains)" where
  "visit_view c m ch =
     (let (ok, m1) = malloc m in
      if \<not> ok then (m1, Inl chain_oom)
      else (m1, Inr (ch\<lparr>ch_views := ch_views ch @ [c_name c]\<rparr>)))"

definition routing_visit ::
    "components \<Rightarrow> resources \<Rightarrow> int \<Rightarrow> string \<Rightarrow> heap \<Rightarrow> chains \<Rightarrow> heap \<times> (chain_error + chains)" where
  "routing_visit cs rs method name m ch =
     (case component_lookup_node_by_name cs name of
        None \<Rightarrow> (m, Inr ch)
      | Some c \<Rightarrow>
          (case (if component_node_is_given_role (Some c) (Some ''model'') \<noteq> 0
                 then visit_model cs rs method c m ch else (m, Inr ch)) of
             (m1, Inl e) \<Rightarrow> (m1, Inl e)
           | (m1, Inr ch1) \<Rightarrow>
               if component_node_is_given_role (Some c) (Some ''view'') \<noteq> 0
               then visit_view c m1 ch1 else (m1, Inr ch1)))"

fun routing_visits ::
    "components \<Rightarrow> resources \<Rightarrow> int \<Rightarrow> string list \<Rightarrow> heap \<Rightarrow> chains \<Rightarrow>
     heap \<times> (chain_error + chains)" where
  "routing_visits cs rs method [] m ch = (m, Inr ch)"
| "routing_visits cs rs method (n # ns) m ch =
     (case routing_visit cs rs method n m ch of
        (m1, Inl e) \<Rightarrow> (m1, Inl e)
      | (m1, Inr ch1) \<Rightarrow> routing_visits cs rs method ns m1 ch1)"

text \<open>
  One round of the \<open>do\<close> loop: a new step of the model chain, filled by visiting the names.
  The state between rounds is the heap, the model chain, the dependencies and the views.
\<close>

type_synonym routing_state = "heap \<times> model_chain list \<times> string list \<times> string list"

definition routing_round ::
    "components \<Rightarrow> resources \<Rightarrow> int \<Rightarrow> string list \<Rightarrow> routing_state \<Rightarrow>
     (heap \<times> chain_error) + string list \<times> routing_state" where
  "routing_round cs rs method subscribed s =
     (case s of (m, mcs, deps, views) \<Rightarrow>
        (let (ok, m1) = malloc m in
         if \<not> ok then Inl (m1, chain_oom)
         else case routing_visits cs rs method subscribed m1
                     \<lparr>ch_models = \<lparr>mc_models = [], mc_ttls = []\<rparr>, ch_dependencies = deps,
                      ch_views = views, ch_hooks = []\<rparr> of
             (m2, Inl e) \<Rightarrow> Inl (m2, e)
           | (m2, Inr ch) \<Rightarrow>
               Inr (ch_hooks ch, m2, mcs @ [ch_models ch], ch_dependencies ch, ch_views ch)))"

section \<open>Requests\<close>

text \<open>An error exit of the request handler: answer all, return 1.\<close>

definition routing_refuse ::
    "('h, 'p) jansson \<Rightarrow> string \<Rightarrow> resource list option \<Rightarrow> nat \<Rightarrow> 32 word \<Rightarrow> int \<Rightarrow> string \<Rightarrow> int \<Rightarrow>
     string option \<Rightarrow> string option \<Rightarrow> ('h, 'p) world \<Rightarrow> (int \<times> ('h, 'p) world) option" where
  "routing_refuse J tunnel rl n sid method topic code message log w =
     map_option (\<lambda>r. (1, snd r))
       (routing_error_response_all J tunnel rl n sid method topic code message log w)"

text \<open>
  The end of the handler: lock what a write-like session touches, link the session and take
  its first step. A failed lock is answered, and the whole chain is unlocked.
\<close>

definition routing_start ::
    "('h, 'p) jansson \<Rightarrow> 'p option \<Rightarrow> resource list \<Rightarrow> 'p session \<Rightarrow> 32 word \<Rightarrow> int \<Rightarrow> string \<Rightarrow>
     string \<Rightarrow> ('h, 'p) world \<Rightarrow> (int \<times> ('h, 'p) world) option" where
  "routing_start J root rl s sid method topic tunnel w =
     (let (ret, rs1, cs1) =
            (if resource_is_write_like_method (s_method s)
             then session_node_lock_by_step (Some s) (w_resources w) (w_components w) 0
             else (0, w_resources w, w_components w));
          w1 = w\<lparr>w_resources := rs1, w_components := cs1\<rparr>
      in if ret \<noteq> 0 then
           map_option (\<lambda>r.
             (let (_, rs2, cs2) = session_node_unlock_by_step (Some s) (w_resources (snd r))
                                    (w_components (snd r)) 0
              in (1, (snd r)\<lparr>w_resources := rs2, w_components := cs2,
                             w_json := json_decref J (w_json (snd r)) (s_result_chain s)\<rparr>)))
             (routing_error_response_all J tunnel (Some rl) (length rl) sid method topic
                SESSION_CODE_SERVICE_UNAVAILABLE (Some ''service unavailable'')
                (Some ''failed to lock resource'') w1)
         else
           map_option (\<lambda>r. (0, snd r))
             (session_step J (Some s) root
                (w1\<lparr>w_sessions := snd (session_add (w_sessions w1) (Some s))\<rparr>)))"

text \<open>The session of the chains the loop built.\<close>

definition routing_session ::
    "('h, 'p) jansson \<Rightarrow> 'p option \<Rightarrow> resource list \<Rightarrow> 32 word \<Rightarrow> int \<Rightarrow> string \<Rightarrow> string \<Rightarrow>
     model_chain list \<Rightarrow> string list \<Rightarrow> string list \<Rightarrow> ('h, 'p) world \<Rightarrow>
     (int \<times> ('h, 'p) world) option" where
  "routing_session J root rl sid method topic tunnel mcs deps views w =
     (if mc_models (hd mcs) = []
      then routing_refuse J tunnel (Some rl) (length rl) sid method topic SESSION_CODE_FORBIDDEN
             (Some ''request forbidden'') (Some ''resource has no subscribed model'') w
      else
        let (result_chain, h1) = json_new_array J (w_json w);
            w1 = w\<lparr>w_json := h1\<rparr>
        in if result_chain = None
           then routing_refuse J tunnel (Some rl) (length rl) sid method topic
                  SESSION_CODE_SERVICE_UNAVAILABLE (Some ''service unavailable'') None w1
           else case session_create_node (w_heap w1) sid method (Some topic) (Some tunnel) deps
                       result_chain mcs views of
               (m2, None) \<Rightarrow>
                 map_option (\<lambda>r. (1, (snd r)\<lparr>w_json := json_decref J (w_json (snd r)) result_chain\<rparr>))
                   (routing_refuse J tunnel (Some rl) (length rl) sid method topic
                      SESSION_CODE_SERVICE_UNAVAILABLE (Some ''service unavailable'') None
                      (w1\<lparr>w_heap := m2\<rparr>))
             | (m2, Some s) \<Rightarrow>
                 routing_start J root rl s sid method topic tunnel (w1\<lparr>w_heap := m2\<rparr>))"

text \<open>The checks before the loop, in the order of the code, and the loop.\<close>

definition routing_req ::
    "('h, 'p) jansson \<Rightarrow> 'p option \<Rightarrow> 32 word \<Rightarrow> int \<Rightarrow> string \<Rightarrow> string \<Rightarrow> ('h, 'p) world \<Rightarrow>
     (int \<times> ('h, 'p) world) option" where
  "routing_req J root sid method topic tunnel w =
     (case sanji_match_resource_list (w_heap w) (w_resources w) topic of
        (m1, None, n) \<Rightarrow>
          routing_refuse J tunnel None n sid method topic SESSION_CODE_NOT_FOUND None None
            (w\<lparr>w_heap := m1\<rparr>)
      | (m1, Some rl, n) \<Rightarrow>
          (let w1 = w\<lparr>w_heap := m1\<rparr>;
               refuse = (\<lambda>code message. routing_refuse J tunnel (Some rl) n sid method topic code
                                           (Some message) None)
           in if session_is_inflight (w_sessions w1) sid < 0
              then refuse SESSION_CODE_INTERNAL_SERVER_ERROR ''internal server error'' w1
              else if session_is_inflight (w_sessions w1) sid \<noteq> 0
              then refuse SESSION_CODE_FORBIDDEN
                     (quoted ''id'' @ '' was used, please use another '' @ quoted ''id'') w1
              else if list_ex (\<lambda>r. resource_node_is_locked (Some r) \<noteq> 0) rl
              then refuse SESSION_CODE_LOCKED ''resource is locked'' w1
              else case sanji_get_subscribed_component m1 [] rl of
                  (m2, subscribed) \<Rightarrow>
                    if subscribed = []
                    then refuse SESSION_CODE_NOT_IMPLEMENTED ''resource is not implemented''
                           (w1\<lparr>w_heap := m2\<rparr>)
                    else case do_rounds (routing_round (w_components w1) (w_resources w1) method)
                                subscribed (m2, [], [], []) of
                        None \<Rightarrow> None
                      | Some (Inl (m3, code, message)) \<Rightarrow> refuse code message (w1\<lparr>w_heap := m3\<rparr>)
                      | Some (Inr (m3, mcs, deps, views)) \<Rightarrow>
                          routing_session J root rl sid method topic tunnel mcs deps views
                            (w1\<lparr>w_heap := m3\<rparr>)))"

section \<open>Responses and the procedure\<close>

definition routing_res ::
    "('h, 'p) jansson \<Rightarrow> 'p option \<Rightarrow> 32 word \<Rightarrow> int \<Rightarrow> 'p option \<Rightarrow> ('h, 'p) world \<Rightarrow>
     (int \<times> ('h, 'p) world) option" where
  "routing_res J root sid code data w =
     (case session_lookup_node_by_id (w_sessions w) sid of
        None \<Rightarrow> Some (1, w)
      | Some s \<Rightarrow> map_option (\<lambda>w1. (0, w1)) (session_step_update J s root code data w))"

abbreviation (input) SANJI_HEADER_NO_ID :: "32 word" where "SANJI_HEADER_NO_ID \<equiv> 0"
abbreviation (input) SANJI_HEADER_NO_METHOD :: int where "SANJI_HEADER_NO_METHOD \<equiv> -2"
abbreviation (input) SANJI_HEADER_NO_CODE :: int where "SANJI_HEADER_NO_CODE \<equiv> -1"

definition routing_procedure ::
    "('h, 'p) jansson \<Rightarrow> 'p option \<Rightarrow> 32 word \<Rightarrow> int \<Rightarrow> string option \<Rightarrow> string \<Rightarrow> int \<Rightarrow> 'p option \<Rightarrow>
     ('h, 'p) world \<Rightarrow> (int \<times> ('h, 'p) world) option" where
  "routing_procedure J root sid method topic tunnel code data w =
     (case (root, topic) of
        (Some _, Some t) \<Rightarrow>
          map_option (\<lambda>w1. (0, w1))
            (if sid = SANJI_HEADER_NO_ID then Some (snd (routing_event J root t w))
             else if code = SANJI_HEADER_NO_CODE
             then map_option snd (routing_req J root sid method t tunnel w)
             else map_option snd (routing_res J root sid code data w))
      | _ \<Rightarrow> Some (1, w))"

end
