(* ===== verification/Static_Json.thy ===== *)
theory Static_Json
  imports World
begin

text \<open>
  A concrete JSON library to instantiate the parameter \<open>jansson\<close> with, for concrete runs:
  values are trees, a text parses to the document a table gives for it, reading works on the
  tree, and writing is not remembered (a reference is the tree itself). A dump is a fixed
  text, and the value of a string is a C string.
\<close>

datatype json = JString string | JNumber int | JArray "json list" | JObject "(string \<times> json) list"

definition member_of :: "json option \<Rightarrow> string \<Rightarrow> json option" where
  "member_of v key = (case v of Some (JObject ms) \<Rightarrow> map_of ms key | _ \<Rightarrow> None)"

definition element_of :: "json option \<Rightarrow> nat \<Rightarrow> json option" where
  "element_of v i =
     (case v of Some (JArray xs) \<Rightarrow> if i < length xs then Some (xs ! i) else None | _ \<Rightarrow> None)"

definition static_json :: "(string \<times> json) list \<Rightarrow> (unit, json) jansson" where
  "static_json docs =
     \<lparr> json_loads = (\<lambda>h text. (map_of docs text, h)),
       json_dumps = (\<lambda>h v. Some ''{}''),
       json_new_object = (\<lambda>h. (Some (JObject []), h)),
       json_new_array = (\<lambda>h. (Some (JArray []), h)),
       json_integer = (\<lambda>h i. (Some (JNumber i), h)),
       json_string = (\<lambda>h s. (Some (JString s), h)),
       json_deep_copy = (\<lambda>h v. (v, h)),
       json_decref = (\<lambda>h v. h),
       json_is_object = (\<lambda>h v. case v of JObject _ \<Rightarrow> True | _ \<Rightarrow> False),
       json_is_array = (\<lambda>h v. case v of JArray _ \<Rightarrow> True | _ \<Rightarrow> False),
       json_is_string = (\<lambda>h v. case v of JString _ \<Rightarrow> True | _ \<Rightarrow> False),
       json_is_number = (\<lambda>h v. case v of JNumber _ \<Rightarrow> True | _ \<Rightarrow> False),
       json_string_value = (\<lambda>h v. case v of JString s \<Rightarrow> cstr s | _ \<Rightarrow> []),
       json_number_value = (\<lambda>h v. case v of JNumber i \<Rightarrow> i | _ \<Rightarrow> 0),
       json_object_get = (\<lambda>h. member_of),
       json_object_set_new = (\<lambda>h v key x. h),
       json_object_set = (\<lambda>h v key x. h),
       json_object_del = (\<lambda>h v key. h),
       json_object_update = (\<lambda>h v x. h),
       json_array_size = (\<lambda>h v. case v of Some (JArray xs) \<Rightarrow> length xs | _ \<Rightarrow> 0),
       json_array_get = (\<lambda>h. element_of),
       json_array_append_new = (\<lambda>h v x. h) \<rparr>"

text \<open>The controller before its first connection, with memory and some random draws.\<close>

definition initial_world :: "int list \<Rightarrow> (unit, 'p) world" where
  "initial_world draws =
     \<lparr> w_heap = [], w_json = (), w_rand = draws, w_resources = None, w_components = None,
       w_sessions = None,
       w_ud = \<lparr> ud_local_id_topic = [], ud_pub_qos = 1, ud_retain_sent = 1 \<rparr>, w_sent = [] \<rparr>"

end
