(* ===== verification/Session_Facts.thy ===== *)
theory Session_Facts
  imports Sessions Static_Json
begin

text \<open>
  Facts about the session engine: what locking a whole chain does, what a step, an answer,
  a stop and the passing of time do to the registries and to the list of sessions, and the
  properties of \<open>src/session.c\<close> that rest on them.
\<close>

section \<open>Locking a chain\<close>

definition chain_models :: "'p session \<Rightarrow> string list" where
  "chain_models s = concat (map mc_models (s_model_chain s))"

lemma run_chains_concat: "run_chains act s mcs = run_names act s (concat (map mc_models mcs))"
  by (induction mcs arbitrary: s) (auto simp: run_names_append Let_def case_prod_beta)

lemma lock_step0 [lock_simps]:
  "session_node_lock_by_step (Some s) (Some rs) (Some cs) 0 =
     (let (ret, rl) = run_names (\<lambda>h n. resource_lock_by_name h (Some n)) (Some rs) (s_dependency_chain s)
      in if ret \<noteq> 0 then (ret, rl, Some cs)
         else let (ret2, cl) = run_names (\<lambda>h n. component_lock_by_name h (Some n)) (Some cs) (chain_models s)
              in (ret2, rl, cl))"
  by (simp add: session_node_lock_by_step_def run_chains_concat chain_models_def Let_def case_prod_beta)

lemma unlock_step0 [lock_simps]:
  "session_node_unlock_by_step (Some s) (Some rs) (Some cs) 0 =
     (let (ret, rl) = run_names (\<lambda>h n. resource_unlock_by_name h (Some n)) (Some rs) (s_dependency_chain s)
      in if ret \<noteq> 0 then (ret, rl, Some cs)
         else let (ret2, cl) = run_names (\<lambda>h n. component_unlock_by_name h (Some n)) (Some cs) (chain_models s)
              in (ret2, rl, cl))"
  by (simp add: session_node_unlock_by_step_def run_chains_concat chain_models_def Let_def case_prod_beta)

lemma shape_Some: "resource_shape rl = resource_shape (Some rs) \<Longrightarrow> rl \<noteq> None"
  "component_shape cl = component_shape (Some cs) \<Longrightarrow> cl \<noteq> None"
  by (auto simp: resource_shape_def component_shape_def)

lemma lock_step0_shape:
  assumes "session_node_lock_by_step (Some s) rl cl 0 = (ret, rl', cl')"
  shows "resource_shape rl' = resource_shape rl \<and> component_shape cl' = component_shape cl"
proof (cases "rl = None \<or> cl = None")
  case True
  then show ?thesis using assms by (auto simp: session_node_lock_by_step_def split: option.splits)
next
  case False
  then show ?thesis
    using assms res_locks.shape_lock_all comp_locks.shape_lock_all
    by (auto simp: lock_step0 Let_def case_prod_beta split: if_splits)
qed

lemma unlock_step0_shape:
  assumes "session_node_unlock_by_step (Some s) rl cl 0 = (ret, rl', cl')"
  shows "resource_shape rl' = resource_shape rl \<and> component_shape cl' = component_shape cl"
proof (cases "rl = None \<or> cl = None")
  case True
  then show ?thesis using assms by (auto simp: session_node_unlock_by_step_def split: option.splits)
next
  case False
  then show ?thesis
    using assms res_locks.shape_unlock_all comp_locks.shape_unlock_all
    by (auto simp: unlock_step0 Let_def case_prod_beta split: if_splits)
qed

text \<open>What one session's names are, in the two registries, and when they are all free.\<close>

definition chain_free :: "'p session \<Rightarrow> resources \<Rightarrow> components \<Rightarrow> bool" where
  "chain_free s rl cl \<longleftrightarrow>
     list_all (\<lambda>n. resource_held rl n = Some False) (s_dependency_chain s) \<and>
     list_all (\<lambda>n. component_held cl n = Some False) (chain_models s)"

lemma lock_step0_ok_iff:
  "fst (session_node_lock_by_step (Some s) (Some rs) (Some cs) 0) = 0 \<longleftrightarrow>
   distinct (s_dependency_chain s) \<and> distinct (chain_models s) \<and> chain_free s (Some rs) (Some cs)"
  using res_locks.lock_all_iff[of "Some rs" "s_dependency_chain s"]
    comp_locks.lock_all_iff[of "Some cs" "chain_models s"]
  by (auto simp: lock_step0 Let_def case_prod_beta chain_free_def list_all_iff)

lemma lock_step0_held:
  assumes "session_node_lock_by_step (Some s) (Some rs) (Some cs) 0 = (0, rl, cl)"
  shows "resource_held rl = (\<lambda>n. if n \<in> set (s_dependency_chain s) then Some True
                                 else resource_held (Some rs) n)"
    and "component_held cl = (\<lambda>n. if n \<in> set (chain_models s) then Some True
                                  else component_held (Some cs) n)"
  using assms res_locks.lock_all_held[of "Some rs" "s_dependency_chain s"]
    comp_locks.lock_all_held[of "Some cs" "chain_models s"]
  by (auto simp: lock_step0 Let_def case_prod_beta split: if_splits)

lemma unlock_step0_held:
  assumes "set (s_dependency_chain s) \<subseteq> dom (resource_held (Some rs))"
    and "set (chain_models s) \<subseteq> dom (component_held (Some cs))"
  shows "\<exists>rl cl. session_node_unlock_by_step (Some s) (Some rs) (Some cs) 0 = (0, rl, cl) \<and>
    resource_held rl = (\<lambda>n. if n \<in> set (s_dependency_chain s) then Some False
                            else resource_held (Some rs) n) \<and>
    component_held cl = (\<lambda>n. if n \<in> set (chain_models s) then Some False
                             else component_held (Some cs) n)"
  using res_locks.unlock_all[OF assms(1)] comp_locks.unlock_all[OF assms(2)]
  by (simp add: unlock_step0 Let_def case_prod_beta)

text \<open>Whatever its outcome, unlocking touches only the names of the chain.\<close>

lemma unlock_step0_component_other:
  assumes "session_node_unlock_by_step (Some s) rl cl 0 = (ret, rl', cl')"
    and "n \<notin> set (chain_models s)"
  shows "component_held cl' n = component_held cl n"
proof (cases "rl = None \<or> cl = None")
  case True
  then show ?thesis using assms by (auto simp: session_node_unlock_by_step_def split: option.splits)
next
  case False
  then show ?thesis
    using assms comp_locks.unlock_all_mono[of cl "chain_models s" n]
    by (auto simp: unlock_step0 Let_def case_prod_beta split: if_splits)
qed

lemma lock_step0_component_mono:
  assumes "session_node_lock_by_step (Some s) rl cl 0 = (ret, rl', cl')"
    and "component_held cl n = Some True"
  shows "component_held cl' n = Some True"
proof (cases "rl = None \<or> cl = None")
  case True
  then show ?thesis using assms by (auto simp: session_node_lock_by_step_def split: option.splits)
next
  case False
  then show ?thesis
    using assms comp_locks.lock_all_mono[of cl "chain_models s" n]
    by (auto simp: lock_step0 Let_def case_prod_beta split: if_splits)
qed


section \<open>What the engine does to the registries and to the list\<close>

text \<open>
  The part of a session that never changes while it runs: its identifier, and the models it
  keeps locked (none for a reading session).
\<close>

definition is_writer :: "'p session \<Rightarrow> bool" where
  "is_writer s = resource_is_write_like_method (s_method s)"

definition claimed :: "'p session \<Rightarrow> string list" where
  "claimed s = (if is_writer s then chain_models s else [])"

definition lock_view :: "'p session \<Rightarrow> 32 word \<times> string list" where
  "lock_view s = (s_id s, claimed s)"

definition views :: "('h, 'p) world \<Rightarrow> (32 word \<times> string list) list option" where
  "views w = map_option (map lock_view) (w_sessions w)"

text \<open>The list node a session pointer stands for, if any, has the same fixed part.\<close>

definition listed_as :: "'p session \<Rightarrow> ('h, 'p) world \<Rightarrow> bool" where
  "listed_as s w \<longleftrightarrow>
     (\<forall>ss x. w_sessions w = Some ss \<longrightarrow> find (\<lambda>x. s_id x = s_id s) ss = Some x \<longrightarrow>
        lock_view x = lock_view s)"

text \<open>Two worlds with the same registries and the same fixed parts.\<close>

definition same_locks :: "('h, 'p) world \<Rightarrow> ('h, 'p) world \<Rightarrow> bool" where
  "same_locks w w' \<longleftrightarrow> w_resources w' = w_resources w \<and> w_components w' = w_components w \<and>
     views w' = views w"

lemma same_locks_refl [simp]: "same_locks w w"
  by (simp add: same_locks_def)

lemma same_locks_trans: "same_locks a b \<Longrightarrow> same_locks b c \<Longrightarrow> same_locks a c"
  by (simp add: same_locks_def)

lemma same_locksI:
  "w_resources w' = w_resources w \<Longrightarrow> w_components w' = w_components w \<Longrightarrow>
   w_sessions w' = w_sessions w \<Longrightarrow> same_locks w w'"
  by (simp add: same_locks_def views_def)

lemma update_first_view:
  "find P xs = None \<or> (\<exists>x. find P xs = Some x \<and> v x = v y) \<Longrightarrow>
   map v (update_first P (\<lambda>_. y) xs) = map v xs"
  by (induction xs) (auto split: if_splits)

lemma find_update_first_same:
  "P y \<Longrightarrow> find P (update_first P (\<lambda>_. y) xs) = (if find P xs = None then None else Some y)"
  by (induction xs) auto

lemma session_store_locks:
  assumes "listed_as s w" "lock_view s' = lock_view s"
  shows "same_locks w (session_store s' w) \<and> listed_as s' (session_store s' w)"
proof (cases "w_sessions w")
  case None
  then show ?thesis by (simp add: session_store_def same_locks_def views_def listed_as_def)
next
  case (Some ss)
  have i: "s_id s' = s_id s" using assms(2) by (simp add: lock_view_def)
  have "map lock_view (update_first (\<lambda>x. s_id x = s_id s') (\<lambda>_. s') ss) = map lock_view ss"
    using assms Some i
    by (intro update_first_view) (cases "find (\<lambda>x. s_id x = s_id s) ss"; auto simp: listed_as_def)
  moreover have "find (\<lambda>x. s_id x = s_id s') (update_first (\<lambda>x. s_id x = s_id s') (\<lambda>_. s') ss) =
      (if find (\<lambda>x. s_id x = s_id s') ss = None then None else Some s')"
    by (intro find_update_first_same) simp
  ultimately show ?thesis
    using Some by (auto simp: session_store_def same_locks_def views_def listed_as_def split: if_splits)
qed

lemma listed_as_same: "listed_as s w \<Longrightarrow> w_sessions w' = w_sessions w \<Longrightarrow> listed_as s w'"
  by (simp add: listed_as_def)

lemma stop_response_frame [frame_simps]:
  "w_resources (snd (stop_response J s root w)) = w_resources w"
  "w_components (snd (stop_response J s root w)) = w_components w"
  "w_sessions (snd (stop_response J s root w)) = w_sessions w"
  "w_ud (snd (stop_response J s root w)) = w_ud w"
  "w_sent (snd (stop_response J s root w)) = w_sent w"
  by (simp_all add: stop_response_def Let_def split: prod.split)

lemma stop_publish_frame [frame_simps]:
  "w_resources (stop_publish s p w) = w_resources w"
  "w_components (stop_publish s p w) = w_components w"
  "w_sessions (stop_publish s p w) = w_sessions w" "w_json (stop_publish s p w) = w_json w"
  "w_ud (stop_publish s p w) = w_ud w"
  by (simp_all add: stop_publish_def frame_simps)

lemma session_delete_first_id_list:
  "snd (snd (session_delete_first_id J h ss i)) = map_option (delete_first (\<lambda>s. s_id s = i)) ss"
  by (auto simp: session_delete_first_id_def delete_first_None split: option.splits)

definition released ::
    "'p session \<Rightarrow> ('h, 'p) world \<Rightarrow> resources \<times> components" where
  "released s w =
     (if is_writer s
      then snd (session_node_unlock_by_step (Some s) (w_resources w) (w_components w) 0)
      else (w_resources w, w_components w))"

lemma stop_release_frame:
  "(w_resources (stop_release J s w), w_components (stop_release J s w)) = released s w"
  "w_sessions (stop_release J s w) =
     map_option (delete_first (\<lambda>x. s_id x = s_id s)) (w_sessions w)"
  "w_sent (stop_release J s w) = w_sent w"
  by (simp_all add: stop_release_def released_def is_writer_def Let_def case_prod_beta
      session_delete_first_id_list)

lemma session_step_stop_locks:
  assumes "session_step_stop J s root w = (ret, w')"
  shows "(ret \<noteq> 0 \<and> same_locks w w') \<or>
    (ret = 0 \<and> (w_resources w', w_components w') = released s w \<and>
     w_sessions w' = map_option (delete_first (\<lambda>x. s_id x = s_id s)) (w_sessions w))"
proof -
  obtain r w1 where r: "stop_response J s root w = (r, w1)" by force
  have f: "w_resources w1 = w_resources w" "w_components w1 = w_components w"
    "w_sessions w1 = w_sessions w"
    using stop_response_frame[of J s root w] r by simp_all
  obtain w2 where w2: "w2 = w1\<lparr>w_json := json_decref J (w_json w1) r\<rparr>" by simp
  have rel: "(w_resources (stop_release J s v), w_components (stop_release J s v)) = released s w"
    "w_sessions (stop_release J s v) = map_option (delete_first (\<lambda>x. s_id x = s_id s)) (w_sessions w)"
    if "w_resources v = w_resources w" "w_components v = w_components w"
      "w_sessions v = w_sessions w" for v :: "('a, 'b) world"
    using that stop_release_frame(1,2)[of J s v] by (simp_all add: released_def)
  consider "ret \<noteq> 0" "w' = w2" | v where "ret = 0" "w' = stop_release J s v"
      "w_resources v = w_resources w" "w_components v = w_components w" "w_sessions v = w_sessions w"
    using assms r f w2
    by (fastforce simp: session_step_stop_def frame_simps split: if_splits option.splits)
  then show ?thesis
  proof cases
    case 1
    then show ?thesis using f w2 by (auto intro: same_locksI)
  next
    case 2
    then show ?thesis using rel by blast
  qed
qed

text \<open>A step either leaves the locks alone or stops the session.\<close>

lemma session_step_locks:
  assumes "session_step J (Some s) root w = Some (ret, w')" "listed_as s w"
  shows "same_locks w w' \<or>
    (\<exists>s1 w1. same_locks w w1 \<and> lock_view s1 = lock_view s \<and> listed_as s1 w1 \<and>
       is_writer s1 = is_writer s \<and> s_dependency_chain s1 = s_dependency_chain s \<and>
       chain_models s1 = chain_models s \<and> w' = snd (session_step_stop J s1 root w1))"
proof -
  obtain s1 where s1: "s1 = s\<lparr>s_curr_step := Suc (s_curr_step s)\<rparr>" by simp
  have v: "lock_view s1 = lock_view s" "is_writer s1 = is_writer s"
    "s_dependency_chain s1 = s_dependency_chain s" "chain_models s1 = chain_models s"
    by (simp_all add: s1 lock_view_def claimed_def is_writer_def chain_models_def)
  obtain w1 where w1: "w1 = session_store s1 w" by simp
  have l1: "same_locks w w1" "listed_as s1 w1"
    using session_store_locks[OF assms(2) v(1)] by (simp_all add: w1)
  have store: "same_locks w (session_store s2 w1)" if "session_node_update_wait s1 = Some s2" for s2
  proof -
    have "lock_view s2 = lock_view s1"
      using that by (auto simp: session_node_update_wait_def lock_view_def claimed_def
          is_writer_def chain_models_def)
    then show ?thesis using session_store_locks[OF l1(2)] l1(1) same_locks_trans by blast
  qed
  have sl: "same_locks w v \<Longrightarrow> same_locks w (v\<lparr>w_json := h\<rparr>)"
    "same_locks w v \<Longrightarrow> same_locks w (publish_all ts p (v\<lparr>w_json := h\<rparr>))" for v h ts p
    by (simp_all add: same_locks_def views_def frame_simps)
  have "same_locks w w' \<or> w' = snd (session_step_stop J s1 root w1)"
    using assms(1) store
    by (auto simp: session_step_def s1[symmetric] w1[symmetric] Let_def sl
        split: option.splits if_splits)
  then show ?thesis using v l1 by blast
qed


section \<open>One step, in one equation\<close>

lemma update_first_twice: "P a \<Longrightarrow> update_first P (\<lambda>_. b) (update_first P (\<lambda>_. a) xs) =
    update_first P (\<lambda>_. b) xs"
  by (induction xs) auto

lemma session_store_frame [frame_simps]:
  "w_resources (session_store s w) = w_resources w" "w_components (session_store s w) = w_components w"
  "w_json (session_store s w) = w_json w" "w_heap (session_store s w) = w_heap w"
  "w_sent (session_store s w) = w_sent w" "w_ud (session_store s w) = w_ud w"
  by (simp_all add: session_store_def)

lemma session_store_twice:
  "s_id a = s_id b \<Longrightarrow> session_store b (session_store a w) = session_store b w"
  by (cases "w_sessions w") (simp_all add: session_store_def update_first_twice)

text \<open>The session after entering its next step.\<close>

definition entered :: "'p session \<Rightarrow> 'p session" where
  "entered s = s\<lparr>s_curr_step := Suc (s_curr_step s),
                 s_curr_wait := of_nat (length (mc_models (s_model_chain s ! s_curr_step s)))\<rparr>"

lemma session_step_next:
  assumes "w_resources w \<noteq> None" "w_components w \<noteq> None"
    and "s_curr_step s < length (s_model_chain s)"
  shows "session_step J (Some s) (Some r) w =
    (let w1 = (session_store (entered s) w)\<lparr>w_json := step_request J (entered s) (Some r) (w_json w)\<rparr>
     in case json_dumps J (w_json w1) (Some r) of
          None \<Rightarrow> Some (SANJI_INTERNAL_ERROR, w1)
        | Some payload \<Rightarrow> Some (SANJI_SUCCESS, publish_all
            (map (\<lambda>n. component_get_tunnel_by_name (w_components w) (Some n))
               (take (unat (s_curr_wait (entered s))) (mc_models (s_model_chain s ! s_curr_step s))))
            payload w1))"
  using assms
  by (auto simp: session_step_def current_chain_def session_node_update_wait_def entered_def
      session_store_twice frame_simps Let_def split: option.splits)

lemma session_step_end:
  assumes "w_resources w \<noteq> None" "w_components w \<noteq> None"
    and "length (s_model_chain s) \<le> s_curr_step s"
  shows "session_step J (Some s) (Some r) w =
    (let s1 = s\<lparr>s_curr_step := Suc (s_curr_step s)\<rparr>
     in Some (session_step_stop J s1 (Some r) (session_store s1 w)))"
  using assms by (auto simp: session_step_def Let_def)

lemma session_step_defined: "\<exists>r. session_step J node root w = Some r"
proof (cases "case (node, w_resources w, w_components w, root) of
    (Some s, Some _, Some _, Some _) \<Rightarrow> True | _ \<Rightarrow> False")
  case True
  then obtain s r where s: "node = Some s" "root = Some r" "w_resources w \<noteq> None" "w_components w \<noteq> None"
    by (auto split: option.splits)
  show ?thesis
  proof (cases "s_curr_step s < length (s_model_chain s)")
    case True
    then show ?thesis
      using session_step_next[OF s(3,4) True] s by (auto simp: Let_def split: option.split)
  next
    case False
    then show ?thesis using session_step_end[OF s(3,4)] s by (simp add: Let_def)
  qed
next
  case False
  then show ?thesis by (auto simp: session_step_def split: option.splits)
qed

lemma session_step_update_defined: "\<exists>w'. session_step_update J s root code data w = Some w'"
proof -
  have "\<exists>v. session_node_decref_wait J node root u = Some v" for node :: "'b session option"
      and u :: "('a, 'b) world"
    using session_step_defined[of J _ root]
    by (cases node; fastforce simp: session_node_decref_wait_def Let_def)
  then show ?thesis by (simp add: session_step_update_def Let_def split: prod.split)
qed

text \<open>Stopping when the library can dump every value.\<close>

definition dumps_all :: "('h, 'p) jansson \<Rightarrow> bool" where
  "dumps_all J \<longleftrightarrow> (\<forall>h p. json_dumps J h p \<noteq> None)"

lemma session_step_stop_ok: "dumps_all J \<Longrightarrow> fst (session_step_stop J s root w) = 0"
  by (auto simp: session_step_stop_def dumps_all_def Let_def split: prod.split option.split)
    (metis option.distinct(1))+

section \<open>Counting the answers\<close>

abbreviation lookup :: "('h, 'p) world \<Rightarrow> 32 word \<Rightarrow> 'p session option" where
  "lookup w i \<equiv> session_lookup_node_by_id (w_sessions w) i"

definition ids_distinct :: "('h, 'p) world \<Rightarrow> bool" where
  "ids_distinct w = (case w_sessions w of None \<Rightarrow> True | Some ss \<Rightarrow> distinct (map s_id ss))"

lemma lookup_store:
  "lookup (session_store s w) i =
     (if i = s_id s \<and> lookup w i \<noteq> None then Some s else lookup w i)"
proof (cases "w_sessions w")
  case None
  then show ?thesis by (simp add: session_store_def session_lookup_node_by_id_def)
next
  case (Some ss)
  show ?thesis
  proof (cases "i = s_id s")
    case True
    then show ?thesis using Some
      by (simp add: session_store_def session_lookup_node_by_id_def find_update_first_same)
  next
    case False
    then have "find (\<lambda>x. s_id x = i) (update_first (\<lambda>x. s_id x = s_id s) (\<lambda>_. s) ss) =
        find (\<lambda>x. s_id x = i) ss" by (induction ss) auto
    then show ?thesis using Some False
      by (simp add: session_store_def session_lookup_node_by_id_def)
  qed
qed

lemma ids_distinct_store: "ids_distinct w \<Longrightarrow> ids_distinct (session_store s w)"
proof -
  have "map s_id (update_first (\<lambda>x. s_id x = s_id s) (\<lambda>_. s) ss) = map s_id ss" for ss
    by (induction ss) auto
  then show "ids_distinct w \<Longrightarrow> ids_distinct (session_store s w)"
    by (cases "w_sessions w") (simp_all add: session_store_def ids_distinct_def)
qed

lemma session_step_stop_lookup:
  assumes "dumps_all J" "ids_distinct w"
  shows "lookup (snd (session_step_stop J s root w)) (s_id s) = None \<and>
    ids_distinct (snd (session_step_stop J s root w))"
proof -
  obtain w' where w': "session_step_stop J s root w = (0, w')"
    using session_step_stop_ok[OF assms(1)] by (metis prod.collapse)
  then have "w_sessions w' = map_option (delete_first (\<lambda>x. s_id x = s_id s)) (w_sessions w)"
    using session_step_stop_locks[OF w'] by simp
  then show ?thesis
    using assms(2) w' find_key_delete_first_same[of s_id _ "s_id s"]
      distinct_key_delete_first[of s_id]
    by (cases "w_sessions w") (auto simp: session_lookup_node_by_id_def ids_distinct_def)
qed

lemma released_registries:
  "w_resources w \<noteq> None \<Longrightarrow> w_components w \<noteq> None \<Longrightarrow>
   fst (released s w) \<noteq> None \<and> snd (released s w) \<noteq> None"
  using unlock_step0_shape[of s "w_resources w" "w_components w"]
  by (auto simp: released_def resource_shape_def component_shape_def dest: sym
      split: prod.splits) (metis fst_conv snd_conv prod.collapse map_option_is_None)+

text \<open>A session that waits for answers, and how many it still needs.\<close>

definition running :: "'p session \<Rightarrow> bool" where
  "running s \<longleftrightarrow> 0 < s_curr_step s \<and> s_curr_step s \<le> length (s_model_chain s) \<and>
     0 < unat (s_curr_wait s) \<and>
     list_all (\<lambda>mc. 0 < length (mc_models mc) \<and> length (mc_models mc) < 2 ^ 32)
       (drop (s_curr_step s) (s_model_chain s))"

definition pending :: "'p session \<Rightarrow> nat" where
  "pending s = unat (s_curr_wait s) +
     sum_list (map (\<lambda>mc. length (mc_models mc)) (drop (s_curr_step s) (s_model_chain s)))"

lemma entered_running:
  assumes "running s" "s_curr_step s < length (s_model_chain s)" "unat (s_curr_wait s) = 1"
  shows "running (entered s) \<and> pending (entered s) = pending s - 1"
proof -
  obtain mc mcs where d: "drop (s_curr_step s) (s_model_chain s) = mc # mcs"
    using assms(2) by (metis Cons_nth_drop_Suc)
  then have "mcs = drop (Suc (s_curr_step s)) (s_model_chain s)"
    "mc = s_model_chain s ! s_curr_step s"
    using assms(2) by (metis Cons_nth_drop_Suc list.inject)+
  then show ?thesis
    using assms d
    by (auto simp: running_def pending_def entered_def unsigned_of_nat take_bit_nat_eq_self)
qed


text \<open>One answer with code 200: one less to wait for, or the session is over.\<close>

definition after_answer :: "32 word \<Rightarrow> 'p session \<Rightarrow> ('h, 'p) world \<Rightarrow> bool" where
  "after_answer i s w \<longleftrightarrow> w_resources w \<noteq> None \<and> w_components w \<noteq> None \<and> ids_distinct w \<and>
     (if pending s = 1 then lookup w i = None
      else \<exists>s'. lookup w i = Some s' \<and> running s' \<and> pending s' = pending s - 1)"

lemma publish_all_lookup [simp]: "lookup (publish_all ts p w) i = lookup w i"
  "ids_distinct (publish_all ts p w) = ids_distinct w"
  by (simp_all add: frame_simps ids_distinct_def)

lemma w_json_lookup [simp]: "lookup (w\<lparr>w_json := h\<rparr>) i = lookup w i"
  "ids_distinct (w\<lparr>w_json := h\<rparr>) = ids_distinct w"
  by (simp_all add: ids_distinct_def)

lemma running_decref:
  assumes "running s" "unat (s_curr_wait s) \<noteq> 1"
  shows "running (s\<lparr>s_curr_wait := s_curr_wait s - 1\<rparr>) \<and>
    pending (s\<lparr>s_curr_wait := s_curr_wait s - 1\<rparr>) = pending s - 1 \<and> pending s \<noteq> 1 \<and>
    s_curr_wait s - 1 \<noteq> 0"
proof -
  have p: "1 < unat (s_curr_wait s)" using assms by (simp add: running_def)
  then have u: "unat (s_curr_wait s - 1) = unat (s_curr_wait s) - 1"
    by (subst unat_minus_one) auto
  then have "s_curr_wait s - 1 \<noteq> 0" using p by (metis unat_0 zero_less_diff less_irrefl)
  then show ?thesis using assms(1) p u by (simp add: running_def pending_def)
qed

lemma last_answer_of_step:
  assumes J: "dumps_all J" and reg: "w_resources w \<noteq> None" "w_components w \<noteq> None"
    and ids: "ids_distinct w" and l: "lookup w (s_id s) \<noteq> None"
    and run: "running s" and one: "unat (s_curr_wait s) = 1"
    and step: "session_step J (Some (s\<lparr>s_curr_wait := 0\<rparr>)) (Some r) w = Some (ret, w')"
  shows "after_answer (s_id s) s w'"
proof (cases "s_curr_step s < length (s_model_chain s)")
  case True
  let ?z = "s\<lparr>s_curr_wait := 0\<rparr>"
  have e: "entered ?z = entered s" by (simp add: entered_def)
  obtain t where "json_dumps J (step_request J (entered s) (Some r) (w_json w)) (Some r) = Some t"
    using J by (auto simp: dumps_all_def)
  then have "\<exists>ts h. w' = publish_all ts t ((session_store (entered s) w)\<lparr>w_json := h\<rparr>)"
    using step session_step_next[OF reg, of ?z J r] True
    by (auto simp: e Let_def split: option.splits)
  then obtain ts h where w': "w' = publish_all ts t ((session_store (entered s) w)\<lparr>w_json := h\<rparr>)"
    by blast
  have i: "s_id (entered s) = s_id s" by (simp add: entered_def)
  have "drop (s_curr_step s) (s_model_chain s) \<noteq> []" using True by simp
  then obtain mc mcs where d: "drop (s_curr_step s) (s_model_chain s) = mc # mcs"
    by (meson neq_Nil_conv)
  then have "0 < length (mc_models mc)" using run by (simp add: running_def)
  then have "pending s \<noteq> 1" using d one by (simp add: pending_def)
  then show ?thesis
    using w' entered_running[OF run True one] l reg ids ids_distinct_store
    by (simp add: after_answer_def lookup_store i frame_simps)
next
  case False
  let ?s1 = "s\<lparr>s_curr_wait := 0, s_curr_step := Suc (s_curr_step s)\<rparr>"
  have eq: "w' = snd (session_step_stop J ?s1 (Some r) (session_store ?s1 w))"
    using step session_step_end[OF reg, of "s\<lparr>s_curr_wait := 0\<rparr>" J r] False by (simp add: Let_def)
  have "pending s = 1" using False one run by (simp add: pending_def running_def)
  moreover have "lookup w' (s_id s) = None \<and> ids_distinct w'"
    using session_step_stop_lookup[OF J ids_distinct_store[OF ids], of ?s1 "Some r"] eq by simp
  moreover have "w_resources w' \<noteq> None \<and> w_components w' \<noteq> None"
  proof -
    obtain v where v: "session_step_stop J ?s1 (Some r) (session_store ?s1 w) = (0, v)"
      using session_step_stop_ok[OF J] by (metis prod.collapse)
    then have "(w_resources w', w_components w') = released ?s1 (session_store ?s1 w)"
      using session_step_stop_locks[OF v] eq by simp
    then show ?thesis
      using released_registries[of "session_store ?s1 w" ?s1] reg
      by (auto simp: frame_simps prod_eq_iff)
  qed
  ultimately show ?thesis by (simp add: after_answer_def)
qed

lemma answer_ok:
  assumes J: "dumps_all J" and reg: "w_resources w \<noteq> None" "w_components w \<noteq> None"
    and ids: "ids_distinct w" and l: "lookup w i = Some s" and run: "running s"
    and up: "session_step_update J s (Some r) 200 data w = Some w'"
  shows "after_answer i s w'"
proof -
  have i: "s_id s = i" using l
    by (auto simp: session_lookup_node_by_id_def split: option.splits dest!: find_Some_mem)
  obtain h where h: "session_node_decref_wait J (Some s) (Some r) (w\<lparr>w_json := h\<rparr>) = Some w'"
    using up by (auto simp: session_step_update_def Let_def split: prod.splits)
  let ?v = "w\<lparr>w_json := h\<rparr>" and ?s1 = "s\<lparr>s_curr_wait := s_curr_wait s - 1\<rparr>"
  let ?u = "session_store ?s1 ?v"
  have u: "w_resources ?u \<noteq> None" "w_components ?u \<noteq> None" "ids_distinct ?u" "lookup ?u i = Some ?s1"
    using reg ids ids_distinct_store[of ?v] l i by (simp_all add: lookup_store frame_simps)
  show ?thesis
  proof (cases "unat (s_curr_wait s) = 1")
    case True
    then have "s_curr_wait s = 1" by (metis unat_1 unsigned_word_eqI)
    then have "\<exists>ret. session_step J (Some (s\<lparr>s_curr_wait := 0\<rparr>)) (Some r)
        (session_store (s\<lparr>s_curr_wait := 0\<rparr>) ?v) = Some (ret, w')"
      using h by (simp add: session_node_decref_wait_def Let_def)
    moreover have "?s1 = s\<lparr>s_curr_wait := 0\<rparr>" using \<open>s_curr_wait s = 1\<close> by simp
    ultimately obtain ret where "session_step J (Some (s\<lparr>s_curr_wait := 0\<rparr>)) (Some r) ?u = Some (ret, w')"
      by metis
    then show ?thesis
      using last_answer_of_step[OF J u(1,2,3) _ run True] u(4) i by simp
  next
    case False
    then have "w' = ?u"
      using h running_decref[OF run False] by (auto simp: session_node_decref_wait_def Let_def)
    then show ?thesis
      using running_decref[OF run False] u by (auto simp: after_answer_def)
  qed
qed


text \<open>A sequence of answers with code 200, each with its own root and data.\<close>

fun take_answers ::
    "('h, 'p) jansson \<Rightarrow> 32 word \<Rightarrow> ('p \<times> 'p option) list \<Rightarrow> ('h, 'p) world \<Rightarrow> ('h, 'p) world option" where
  "take_answers J i [] w = Some w"
| "take_answers J i ((r, data) # as) w =
     (case lookup w i of
        None \<Rightarrow> None
      | Some s \<Rightarrow>
          (case session_step_update J s (Some r) 200 data w of
             None \<Rightarrow> None
           | Some w1 \<Rightarrow> take_answers J i as w1))"

lemma take_answers_pending:
  assumes "dumps_all J" "w_resources w \<noteq> None" "w_components w \<noteq> None" "ids_distinct w"
    and "lookup w i = Some s" "running s" "length as \<le> pending s"
  shows "\<exists>w'. take_answers J i as w = Some w' \<and>
    (if length as = pending s then lookup w' i = None
     else \<exists>s'. lookup w' i = Some s' \<and> running s' \<and> pending s' = pending s - length as)"
  using assms(2-7)
proof (induction as arbitrary: w s)
  case Nil
  then show ?case by (auto simp: running_def pending_def)
next
  case (Cons a as)
  obtain r data where a: "a = (r, data)" by force
  obtain w1 where w1: "session_step_update J s (Some r) 200 data w = Some w1"
    using session_step_update_defined[of J s "Some r" 200 data w] by blast
  have af: "after_answer i s w1"
    using answer_ok[OF assms(1) Cons.prems(1-5) w1] .
  show ?case
  proof (cases "pending s = 1")
    case True
    then show ?thesis using Cons.prems af w1 by (auto simp: a after_answer_def)
  next
    case False
    then obtain s' where s': "lookup w1 i = Some s'" "running s'" "pending s' = pending s - 1"
      using af by (auto simp: after_answer_def)
    moreover have "length as \<le> pending s'" using Cons.prems(6) s'(3) by simp
    moreover have "w_resources w1 \<noteq> None" "w_components w1 \<noteq> None" "ids_distinct w1"
      using af by (simp_all add: after_answer_def)
    ultimately obtain w' where "take_answers J i as w1 = Some w'"
      "if length as = pending s' then lookup w' i = None
       else \<exists>s''. lookup w' i = Some s'' \<and> running s'' \<and> pending s'' = pending s' - length as"
      using Cons.IH[of w1 s'] by blast
    then show ?thesis using Cons.prems s'(3) w1 by (auto simp: a split: if_splits)
  qed
qed


section \<open>Expiry\<close>

text \<open>Some time to live of the current step is used up after \<open>pass_time\<close>.\<close>

definition ttl_expired :: "32 word \<Rightarrow> 'p session \<Rightarrow> bool" where
  "ttl_expired pass_time s =
     list_ex (\<lambda>t. sint (t - pass_time) \<le> 0) (mc_ttls (s_model_chain s ! (s_curr_step s - 1)))"

definition in_chain :: "'p session \<Rightarrow> bool" where
  "in_chain s \<longleftrightarrow> 0 < s_curr_step s \<and> s_curr_step s \<le> length (s_model_chain s)"

text \<open>The session with the current step's times to live counted down.\<close>

definition aged :: "32 word \<Rightarrow> 'p session \<Rightarrow> 'p session" where
  "aged pass_time s =
     (let mc = s_model_chain s ! (s_curr_step s - 1) in
      s\<lparr>s_model_chain := (s_model_chain s)[s_curr_step s - 1 :=
          mc\<lparr>mc_ttls := fst (ttl_loop pass_time (mc_ttls mc))\<rparr>]\<rparr>)"

lemma ttl_loop_expired: "snd (ttl_loop pt ts) = list_ex (\<lambda>t. sint (t - pt) \<le> 0) ts"
  by (induction ts) (auto simp: Let_def split: prod.splits)

lemma ttl_loop_alive:
  "\<not> snd (ttl_loop pt ts) \<Longrightarrow> fst (ttl_loop pt ts) = map (\<lambda>t. t - pt) ts"
  by (induction ts) (auto simp: Let_def split: prod.splits if_splits)

lemma session_age_eq:
  "in_chain s \<Longrightarrow> session_age pt s = Some (aged pt s, ttl_expired pt s)"
  by (simp add: session_age_def current_chain_def in_chain_def aged_def ttl_expired_def Let_def
      ttl_loop_expired[symmetric] case_prod_beta)

lemma age_sessions_eq:
  "list_all in_chain ss \<Longrightarrow>
   age_sessions pt ss = Some (map (aged pt) ss, map (aged pt) (filter (ttl_expired pt) ss))"
  by (induction ss) (auto simp: session_age_eq)

lemma aged_id [simp]: "s_id (aged pt s) = s_id s"
  by (simp add: aged_def Let_def)

lemma map_list_update_same: "f y = f (xs ! k) \<Longrightarrow> map f (xs[k := y]) = map f xs"
  by (cases "k < length xs") (simp_all add: map_update list_update_same_conv list_update_beyond)

lemma aged_view [simp]: "lock_view (aged pt s) = lock_view s"
  by (simp add: aged_def Let_def lock_view_def claimed_def is_writer_def chain_models_def
      map_list_update_same)

lemma flush_sessions_list:
  assumes "dumps_all J"
  shows "w_sessions (flush_sessions J fs w) =
    map_option (fold (\<lambda>i. delete_first (\<lambda>s. s_id s = i)) (map s_id fs)) (w_sessions w)"
proof (induction fs arbitrary: w)
  case Nil
  then show ?case by (simp add: option.map_ident)
next
  case (Cons f fs)
  obtain w' where w': "session_step_stop J f None w = (0, w')"
    using session_step_stop_ok[OF assms] by (metis prod.collapse)
  then have "w_sessions w' = map_option (delete_first (\<lambda>x. s_id x = s_id f)) (w_sessions w)"
    using session_step_stop_locks[OF w'] by simp
  then show ?case using Cons w' by (cases "w_sessions w") simp_all
qed

lemma fold_delete_first:
  "distinct (map key xs) \<Longrightarrow>
   fold (\<lambda>i. delete_first (\<lambda>x. key x = i)) is xs = filter (\<lambda>x. key x \<notin> set is) xs"
proof (induction "is" arbitrary: xs)
  case Nil
  then show ?case by simp
next
  case (Cons i "is")
  have "distinct (map key (filter (\<lambda>x. key x \<noteq> i) xs))"
    using Cons.prems by (simp add: distinct_map_filter)
  from Cons.IH[OF this] show ?case
    using Cons.prems by (simp add: delete_first_filter conj_commute)
qed

lemma session_decref_ttl_list:
  assumes J: "dumps_all J" and ss: "w_sessions w = Some ss" and d: "distinct (map s_id ss)"
    and c: "list_all in_chain ss"
  shows "\<exists>w'. session_decref_ttl J pt w = Some w' \<and>
    w_sessions w' = Some (map (aged pt) (filter (\<lambda>s. \<not> ttl_expired pt s) ss))"
proof -
  have ids: "map s_id (map (aged pt) ss) = map s_id ss"
    "map s_id (map (aged pt) (filter (ttl_expired pt) ss)) = map s_id (filter (ttl_expired pt) ss)"
    by simp_all
  have "filter (\<lambda>x. s_id x \<notin> set (map s_id (filter (ttl_expired pt) ss))) (map (aged pt) ss) =
      map (aged pt) (filter (\<lambda>s. \<not> ttl_expired pt s) ss)"
  proof -
    have "s_id s \<in> s_id ` {x \<in> set ss. ttl_expired pt x} \<longleftrightarrow> ttl_expired pt s" if "s \<in> set ss" for s
      using d that by (auto simp: distinct_map dest: inj_onD)
    then show ?thesis by (auto simp: filter_map intro!: arg_cong[where f = "map (aged pt)"] filter_cong)
  qed
  then show ?thesis
    using ss d ids fold_delete_first[of s_id "map (aged pt) ss"]
    by (simp only: session_decref_ttl_def option.case age_sessions_eq[OF c] prod.case
        flush_sessions_list[OF J] option.map) (simp add: flush_sessions_list[OF J])
qed

text \<open>Counting down does not wrap around for what is still alive and a sane clock.\<close>

lemma sint_count_down:
  assumes "0 < sint (t :: 32 word)" "0 \<le> sint p"
  shows "sint (t - p) = sint t - sint p"
proof -
  have "sint t < 2 ^ 31" "sint p < 2 ^ 31" using sint_lt[of t] sint_lt[of p] by simp_all
  then show ?thesis
    using assms by (simp add: sint_word_ariths(2) signed_take_bit_int_eq_self)
qed


section \<open>Properties\<close>

text \<open>
  C31. Locking the chain of a session is all or nothing in its answer: it succeeds exactly when
  the names of its dependency resources are distinct, registered and unlocked, and the
  models of all its steps are distinct, registered and unlocked.
\<close>

theorem lock_chain_succeeds_iff:
  "fst (session_node_lock_by_step (Some s) (Some rs) (Some cs) 0) = 0 \<longleftrightarrow>
   distinct (s_dependency_chain s) \<and> distinct (chain_models s) \<and>
   list_all (\<lambda>n. resource_held (Some rs) n = Some False) (s_dependency_chain s) \<and>
   list_all (\<lambda>n. component_held (Some cs) n = Some False) (chain_models s)"
  by (simp add: lock_step0_ok_iff chain_free_def)

definition sample_session :: "json session" where
  "sample_session =
     \<lparr> s_id = 7, s_method = RESOURCE_METHOD_UPDATE, s_resource = ''/a'', s_tunnel = [],
       s_dependency_chain = [''/a'', ''/b''], s_result_chain = Some (JArray []),
       s_model_chain = [\<lparr>mc_models = [''b''], mc_ttls = [3]\<rparr>], s_view_chain = [],
       s_curr_step = 0, s_curr_wait = 0 \<rparr>"

text \<open>
  C15. Locking a chain and unlocking it again restores the locks: after a successful lock
  exactly the chain's names are held in addition, unlocking succeeds, and afterwards both
  registries are as they were before, in every lock and everything else.
\<close>

theorem lock_unlock_chain_roundtrip:
  assumes "session_node_lock_by_step (Some s) (Some rs) (Some cs) 0 = (0, rl, cl)"
  shows "resource_held rl = (\<lambda>n. if n \<in> set (s_dependency_chain s) then Some True
                                 else resource_held (Some rs) n) \<and>
    component_held cl = (\<lambda>n. if n \<in> set (chain_models s) then Some True
                                  else component_held (Some cs) n) \<and>
    (\<exists>rl' cl'. session_node_unlock_by_step (Some s) rl cl 0 = (0, rl', cl') \<and>
      resource_held rl' = resource_held (Some rs) \<and> component_held cl' = component_held (Some cs) \<and>
      resource_shape rl' = resource_shape (Some rs) \<and> component_shape cl' = component_shape (Some cs))"
proof -
  have h: "resource_held rl = (\<lambda>n. if n \<in> set (s_dependency_chain s) then Some True
                                 else resource_held (Some rs) n)"
    "component_held cl = (\<lambda>n. if n \<in> set (chain_models s) then Some True
                                  else component_held (Some cs) n)"
    using lock_step0_held[OF assms] by blast+
  have sh: "resource_shape rl = resource_shape (Some rs)" "component_shape cl = component_shape (Some cs)"
    using lock_step0_shape[OF assms] by blast+
  obtain rs1 cs1 where reg: "rl = Some rs1" "cl = Some cs1"
    using shape_Some(1)[OF sh(1)] shape_Some(2)[OF sh(2)] by auto
  have free: "chain_free s (Some rs) (Some cs)" using lock_step0_ok_iff[of s rs cs] assms by simp
  have "set (s_dependency_chain s) \<subseteq> dom (resource_held (Some rs1))"
    "set (chain_models s) \<subseteq> dom (component_held (Some cs1))"
    using h by (auto simp: reg dom_def)
  from unlock_step0_held[OF this, folded reg] obtain rl' cl' where
    u: "session_node_unlock_by_step (Some s) rl cl 0 = (0, rl', cl')"
    and "resource_held rl' = (\<lambda>n. if n \<in> set (s_dependency_chain s) then Some False
                                  else resource_held rl n)"
    and "component_held cl' = (\<lambda>n. if n \<in> set (chain_models s) then Some False
                                   else component_held cl n)"
    by blast
  then have "resource_held rl' = resource_held (Some rs)" "component_held cl' = component_held (Some cs)"
    using h free by (auto simp: chain_free_def list_all_iff)
  then show ?thesis
    using u unlock_step0_shape[OF u] sh h by auto
qed

theorem lock_unlock_chain_roundtrip_witness:
  "\<exists>rl cl rl' cl'. session_node_lock_by_step (Some sample_session) (Some sample_resources)
      (Some [sample_component]) 0 = (0, rl, cl) \<and>
    session_node_unlock_by_step (Some sample_session) rl cl 0 = (0, rl', cl') \<and>
    component_held cl ''b'' = Some True \<and> component_held cl' ''b'' = Some False"
proof -
  have "fst (session_node_lock_by_step (Some sample_session) (Some sample_resources)
      (Some [sample_component]) 0) = 0" by code_simp
  then obtain rl cl where l: "session_node_lock_by_step (Some sample_session) (Some sample_resources)
      (Some [sample_component]) 0 = (0, rl, cl)" by (metis prod.collapse)
  have "''b'' \<in> set (chain_models sample_session)" "component_held (Some [sample_component]) ''b'' = Some False"
    by (simp_all add: chain_models_def sample_session_def component_held_def sample_component_def)
  then show ?thesis
    using lock_unlock_chain_roundtrip[OF l] l by auto
qed

text \<open>
  No step of the engine reads outside the model chain, whatever session, root and world it
  is given: stepping, and updating with an answer, always have a result.
\<close>

lemma engine_steps_in_bounds:
  "session_step J node root w \<noteq> None \<and> session_step_update J s root code data w \<noteq> None"
  using session_step_defined[of J node root w] session_step_update_defined[of J s root code data w]
  by auto

text \<open>
  C22. Entering a step asks every model of it: the request goes, once each and in the order of
  the chain, to the tunnels of all models of the next step and to nobody else; the session
  then waits for as many answers as models were asked, and neither registry changes.
\<close>

theorem step_asks_all_models:
  assumes "w_resources w \<noteq> None" "w_components w \<noteq> None"
    and "s_curr_step s < length (s_model_chain s)"
    and "length (mc_models (s_model_chain s ! s_curr_step s)) < 2 ^ 32"
    and "lookup w (s_id s) = Some s" "dumps_all J"
  shows "\<exists>payload w' s'. session_step J (Some s) (Some r) w = Some (SANJI_SUCCESS, w') \<and>
    w_sent w' = w_sent w @
      map (\<lambda>n. \<lparr>p_topic = component_get_tunnel_by_name (w_components w) (Some n),
                p_payload = payload, p_qos = ud_pub_qos (w_ud w),
                p_retain = ud_retain_sent (w_ud w)\<rparr>)
        (mc_models (s_model_chain s ! s_curr_step s)) \<and>
    lookup w' (s_id s) = Some s' \<and> s_curr_step s' = Suc (s_curr_step s) \<and>
    unat (s_curr_wait s') = length (mc_models (s_model_chain s ! s_curr_step s)) \<and>
    w_resources w' = w_resources w \<and> w_components w' = w_components w"
proof -
  obtain t where t: "json_dumps J (step_request J (entered s) (Some r) (w_json w)) (Some r) = Some t"
    using assms(6) by (auto simp: dumps_all_def)
  have u: "unat (s_curr_wait (entered s)) = length (mc_models (s_model_chain s ! s_curr_step s))"
    using assms(4) by (simp add: entered_def unsigned_of_nat take_bit_nat_eq_self)
  have i: "s_id (entered s) = s_id s" "s_curr_step (entered s) = Suc (s_curr_step s)"
    by (simp_all add: entered_def)
  show ?thesis
    using session_step_next[OF assms(1-3), of J r] t assms(5)
    by (auto simp: Let_def u i frame_simps lookup_store publish_all_sent)
qed

definition sample_world :: "(unit, json) world" where
  "sample_world = (initial_world [])\<lparr>w_resources := Some sample_resources,
     w_components := Some [sample_component], w_sessions := Some [sample_session]\<rparr>"

lemma sample_world_regs: "w_resources sample_world \<noteq> None" "w_components sample_world \<noteq> None"
  "lookup sample_world 7 = Some sample_session" "s_id sample_session = 7"
  by (simp_all add: sample_world_def session_lookup_node_by_id_def sample_session_def)

lemma static_json_dumps: "dumps_all (static_json docs)"
  by (simp add: dumps_all_def static_json_def)

theorem step_asks_all_models_witness:
  "\<exists>w'. session_step (static_json []) (Some sample_session) (Some (JObject [])) sample_world =
      Some (SANJI_SUCCESS, w') \<and> map p_topic (w_sent w') = [Some ''1'']"
proof -
  have "component_get_tunnel_by_name (w_components sample_world) (Some ''b'') = Some ''1''"
    "w_sent sample_world = []" "s_curr_step sample_session < length (s_model_chain sample_session)"
    "length (mc_models (s_model_chain sample_session ! s_curr_step sample_session)) < 2 ^ 32"
    "mc_models (s_model_chain sample_session ! s_curr_step sample_session) = [''b'']"
    by (simp_all add: sample_world_def component_get_tunnel_by_name_def sample_component_def
        initial_world_def sample_session_def)
  then show ?thesis
    using step_asks_all_models[OF sample_world_regs(1,2) _ _ _ static_json_dumps,
        of sample_session "[]" "JObject []"] sample_world_regs(3,4)
    by (auto simp: comp_def)
qed


text \<open>
  C10. Stopping a writing session releases everything it held and removes it: with the answer
  dumped, the session is gone from the list, all its dependency resources and models are
  unlocked, and every other lock is as before.
\<close>

theorem stop_releases_everything:
  assumes "dumps_all J" "ids_distinct w" "is_writer s"
    and "set (s_dependency_chain s) \<subseteq> dom (resource_held (w_resources w))"
    and "set (chain_models s) \<subseteq> dom (component_held (w_components w))"
    and "w_resources w = Some rs" "w_components w = Some cs"
  shows "\<exists>w'. session_step_stop J s root w = (SANJI_SUCCESS, w') \<and> lookup w' (s_id s) = None \<and>
    resource_held (w_resources w') =
      (\<lambda>n. if n \<in> set (s_dependency_chain s) then Some False else resource_held (w_resources w) n) \<and>
    component_held (w_components w') =
      (\<lambda>n. if n \<in> set (chain_models s) then Some False else component_held (w_components w) n)"
proof -
  obtain w' where w': "session_step_stop J s root w = (0, w')"
    using session_step_stop_ok[OF assms(1)] by (metis prod.collapse)
  have "(w_resources w', w_components w') =
      snd (session_node_unlock_by_step (Some s) (w_resources w) (w_components w) 0)"
    using session_step_stop_locks[OF w'] assms(3) by (simp add: released_def)
  moreover have "lookup w' (s_id s) = None"
    using session_step_stop_lookup[OF assms(1,2), of s root] w' by simp
  moreover obtain rl cl where
    "session_node_unlock_by_step (Some s) (w_resources w) (w_components w) 0 = (0, rl, cl)"
    "resource_held rl = (\<lambda>n. if n \<in> set (s_dependency_chain s) then Some False
                             else resource_held (w_resources w) n)"
    "component_held cl = (\<lambda>n. if n \<in> set (chain_models s) then Some False
                              else component_held (w_components w) n)"
    using unlock_step0_held[of s rs cs] assms(4,5) unfolding assms(6,7) by blast
  ultimately show ?thesis using w' by auto
qed

theorem stop_releases_everything_witness:
  "\<exists>w'. session_step_stop (static_json []) sample_session None sample_world = (SANJI_SUCCESS, w') \<and>
    lookup w' 7 = None \<and> component_held (w_components w') ''b'' = Some False"
proof -
  have "ids_distinct sample_world" "is_writer sample_session"
    "set (s_dependency_chain sample_session) \<subseteq> dom (resource_held (w_resources sample_world))"
    "set (chain_models sample_session) \<subseteq> dom (component_held (w_components sample_world))"
    "''b'' \<in> set (chain_models sample_session)"
    by (auto simp: ids_distinct_def sample_world_def is_writer_def sample_session_def chain_models_def
        resource_is_write_like_method_def resource_held_def component_held_def sample_resources_def
        sample_component_def)
  then show ?thesis
    using stop_releases_everything[OF static_json_dumps, of sample_world sample_session sample_resources
        "[sample_component]" "[]" None] sample_world_regs(4)
    by (auto simp: sample_world_def)
qed

text \<open>
  Time passing removes exactly the expired sessions: with answers dumped, a pass over the
  list keeps, in order, the sessions none of whose current times to live is used up, with
  these counted down, and stops all others.
\<close>

lemma refresh_removes_expired:
  assumes "dumps_all J" "w_sessions w = Some ss" "distinct (map s_id ss)" "list_all in_chain ss"
  shows "\<exists>w'. session_decref_ttl J pass_time w = Some w' \<and>
    w_sessions w' = Some (map (aged pass_time) (filter (\<lambda>s. \<not> ttl_expired pass_time s) ss))"
  using session_decref_ttl_list[OF assms] .

definition waiting_session :: "json session" where
  "waiting_session = sample_session\<lparr>s_curr_step := 1, s_curr_wait := 1\<rparr>"

lemma refresh_removes_expired_witness:
  "\<exists>w'. session_decref_ttl (static_json []) 3 (sample_world\<lparr>w_sessions := Some [waiting_session]\<rparr>) = Some w' \<and>
    w_sessions w' = Some []"
proof -
  have "ttl_expired 3 waiting_session" "in_chain waiting_session"
    by (simp_all add: ttl_expired_def waiting_session_def sample_session_def in_chain_def)
  then show ?thesis
    using refresh_removes_expired[OF static_json_dumps, of
        "sample_world\<lparr>w_sessions := Some [waiting_session]\<rparr>" "[waiting_session]" "[]" 3]
    by simp
qed

text \<open>
  The countdown of a time to live on 32-bit integers does not wrap: for a time to live
  that is still positive and a nonnegative time passed, a session expires exactly when one of
  the times to live of its current step is at most the time passed.
\<close>

lemma ttl_expiry_without_wraparound:
  assumes "0 \<le> sint pass_time"
    and "list_all (\<lambda>t. 0 < sint t) (mc_ttls (s_model_chain s ! (s_curr_step s - 1)))"
  shows "ttl_expired pass_time s \<longleftrightarrow>
    list_ex (\<lambda>t. sint t \<le> sint pass_time) (mc_ttls (s_model_chain s ! (s_curr_step s - 1)))"
  using assms sint_count_down[of _ pass_time]
  by (auto simp: ttl_expired_def list_ex_iff list_all_iff)

lemma ttl_expiry_without_wraparound_witness:
  "ttl_expired 3 waiting_session"
proof -
  have "mc_ttls (s_model_chain waiting_session ! (s_curr_step waiting_session - 1)) = [3]"
    by (simp add: waiting_session_def sample_session_def)
  then show ?thesis using ttl_expiry_without_wraparound[of 3 waiting_session] by simp
qed

text \<open>
  A step without models hangs its session: it has no time to live, so no passing of time
  expires it, and its counter of awaited answers starts at 0, so that an answer wraps it to
  the largest unsigned number instead of ending the step. (Such a step arises when only
  views hook the models of the step before.)
\<close>

lemma empty_step_hangs:
  assumes "in_chain s" "s_model_chain s ! (s_curr_step s - 1) = \<lparr>mc_models = [], mc_ttls = []\<rparr>"
    and "s_curr_wait s = 0"
  shows "session_age pass_time s = Some (s, False) \<and>
    session_node_decref_wait J (Some s) root w = Some (session_store (s\<lparr>s_curr_wait := - 1\<rparr>) w) \<and>
    unat (- 1 :: 32 word) = 2 ^ 32 - 1"
proof -
  have "aged pass_time s = s"
    using assms(1,2) list_update_id[of "s_model_chain s" "s_curr_step s - 1"] by (simp add: aged_def)
  moreover have "\<not> ttl_expired pass_time s" using assms(2) by (simp add: ttl_expired_def)
  ultimately show ?thesis
    using assms session_age_eq[OF assms(1), of pass_time]
    by (simp add: session_node_decref_wait_def Let_def unsigned_minus_1_eq_mask mask_eq_exp_minus_1)
qed

lemma empty_step_hangs_witness:
  "session_age 1000 (sample_session\<lparr>s_model_chain := [\<lparr>mc_models = [], mc_ttls = []\<rparr>], s_curr_step := 1\<rparr>) =
    Some (sample_session\<lparr>s_model_chain := [\<lparr>mc_models = [], mc_ttls = []\<rparr>], s_curr_step := 1\<rparr>, False)"
  by (rule conjunct1[OF empty_step_hangs]) (simp_all add: in_chain_def sample_session_def)


text \<open>
  C5. A session ends with the last answer it needs: with answers dumped and unique
  identifiers, a running session takes any sequence of answers with code 200 no longer than
  the number of models it still waits for, over all its steps; after that many it is gone
  from the list, after fewer it still runs and waits for the rest.
\<close>

theorem session_ends_after_all_answers:
  assumes "dumps_all J" "w_resources w \<noteq> None" "w_components w \<noteq> None" "ids_distinct w"
    and "lookup w i = Some s" "running s" "length answers \<le> pending s"
  shows "\<exists>w'. take_answers J i answers w = Some w' \<and>
    (if length answers = pending s then lookup w' i = None
     else \<exists>s'. lookup w' i = Some s' \<and> running s' \<and> pending s' = pending s - length answers)"
  using take_answers_pending[OF assms] .

theorem session_ends_after_all_answers_witness:
  "\<exists>w'. take_answers (static_json []) 7 [(JObject [], None)]
      (sample_world\<lparr>w_sessions := Some [waiting_session]\<rparr>) = Some w' \<and> lookup w' 7 = None"
proof -
  let ?w = "sample_world\<lparr>w_sessions := Some [waiting_session]\<rparr>"
  have "w_resources ?w \<noteq> None" "w_components ?w \<noteq> None" "ids_distinct ?w"
    "lookup ?w 7 = Some waiting_session" "running waiting_session" "pending waiting_session = 1"
    by (simp_all add: ids_distinct_def session_lookup_node_by_id_def running_def pending_def
        waiting_session_def sample_session_def sample_world_def)
  then show ?thesis
    using session_ends_after_all_answers[OF static_json_dumps, of ?w 7 waiting_session
        "[(JObject [], None)]" "[]"] by auto
qed

end
