(* ===== verification/Chain_Facts.thy ===== *)
theory Chain_Facts
  imports Routing Session_Facts
begin

text \<open>
  Facts about the search that builds the chain of a request, and that the lookup of
  dependencies shares: what a round collects, when the search ends, and when it does not.
\<close>

section \<open>Hooks\<close>

text \<open>Component \<open>b\<close> is registered and hooks the name \<open>a\<close>.\<close>

definition hooks_on :: "component list \<Rightarrow> string \<Rightarrow> string \<Rightarrow> bool" where
  "hooks_on cs b a \<longleftrightarrow> list_ex (\<lambda>c. c_name c = b \<and> a \<in> set (c_hooks c)) cs"

text \<open>A rank that sinks along every hook: the hooks have no cycle.\<close>

definition hooks_ranked :: "(string \<Rightarrow> nat) \<Rightarrow> component list \<Rightarrow> bool" where
  "hooks_ranked rank cs \<longleftrightarrow>
     list_all (\<lambda>c. list_all (\<lambda>a. rank (c_name c) < rank a) (c_hooks c)) cs"

lemma hooks_ranked_less: "hooks_ranked rank cs \<Longrightarrow> hooks_on cs b a \<Longrightarrow> rank b < rank a"
  by (auto simp: hooks_ranked_def hooks_on_def list_all_iff list_ex_iff)

lemma lookup_ok:
  "components_ok (Some cs) \<Longrightarrow> component_lookup_node_by_name (Some cs) n = Some c \<Longrightarrow>
   c_name c = n \<and> length n < COMPONENT_NAME_LEN"
  by (auto dest: component_find_ok simp: component_ok_def)

lemma gather_hooks_names:
  assumes "components_ok (Some cs)" "length n < COMPONENT_NAME_LEN"
    and "gather_hooks m (Some cs) n hooks = (m', Some hooks')"
  shows "set hooks' \<subseteq> set hooks \<union> {b. hooks_on cs b n}"
proof -
  obtain m1 found where f: "component_get_names_by_hook m (Some cs) (Some n) = (m1, found)" by force
  have "found = [] \<or> found = map c_name (filter (\<lambda>c. n \<in> set (c_hooks c)) cs)"
    using names_by_hook_loop_eq[of cs n m "[]"] assms(1,2) f
    by (simp add: component_get_names_by_hook_def components_ok_def)
  then have "set found \<subseteq> {b. hooks_on cs b n}" by (auto simp: hooks_on_def list_ex_iff)
  moreover have "set hooks' \<subseteq> set hooks \<union> set found"
    using assms(3) f by (auto simp: gather_hooks_def Let_def split: if_splits prod.splits)
  ultimately show ?thesis by blast
qed

lemma gather_hooks_enough:
  assumes "components_ok (Some cs)" "length n < COMPONENT_NAME_LEN"
  shows "gather_hooks [] (Some cs) n hooks =
    ([], Some (hooks @ map c_name (filter (\<lambda>c. n \<in> set (c_hooks c)) cs)))"
  by (simp add: gather_hooks_def component_get_names_by_hook_enough[OF assms] Let_def)

lemma merge_names_enough: "\<exists>acc'. merge_names [] acc ns = ([], Some acc')"
  by (induction ns arbitrary: acc) auto

lemma names_by_component_enough: "\<exists>xs. resource_get_names_by_component [] rs n = ([], xs)"
proof -
  have "\<exists>xs. names_by_component_loop [] c acc rl = ([], xs)" for c acc rl
    by (induction rl arbitrary: acc) (auto split: option.split)
  then show ?thesis by (auto simp: resource_get_names_by_component_def split: option.split)
qed

section \<open>The lookup of dependencies\<close>

lemma dependency_visit_hooks:
  assumes "components_ok (Some cs)"
    and "dependency_visit m (Some cs) rs n found hooks = (m', Some (found', hooks'))"
  shows "set hooks' \<subseteq> set hooks \<union> {b. hooks_on cs b n}"
proof (cases "component_lookup_node_by_name (Some cs) n")
  case None
  then show ?thesis using assms(2) by (simp add: dependency_visit_def)
next
  case (Some c)
  then show ?thesis
    using assms(2) lookup_ok[OF assms(1) Some] gather_hooks_names[OF assms(1), of n]
    by (fastforce simp: dependency_visit_def Let_def split: if_splits prod.splits option.splits)
qed

lemma dependency_visits_hooks:
  assumes "components_ok (Some cs)"
  shows "dependency_visits (Some cs) rs fs m found hooks = (m', Some (found', hooks')) \<Longrightarrow>
    set hooks' \<subseteq> set hooks \<union> {b. \<exists>f \<in> set fs. hooks_on cs b f}"
proof (induction fs arbitrary: m found hooks)
  case Nil
  then show ?case by simp
next
  case (Cons f fs)
  obtain m1 o1 where v: "dependency_visit m (Some cs) rs f found hooks = (m1, o1)" by force
  then obtain found1 hooks1 where o1: "o1 = Some (found1, hooks1)"
    and r: "dependency_visits (Some cs) rs fs m1 found1 hooks1 = (m', Some (found', hooks'))"
    using Cons.prems by (cases o1) auto
  show ?case
    using Cons.IH[OF r] dependency_visit_hooks[OF assms v[unfolded o1]] by auto
qed

lemma dependency_rounds_terminate:
  assumes "components_ok (Some cs)" "hooks_ranked rank cs"
  shows "\<exists>r. do_rounds (dependency_round (Some cs) rs) fs s = Some r"
proof (rule do_rounds_terminates[where weight = rank])
  fix fs s gs s1
  assume "dependency_round (Some cs) rs fs s = Inr (gs, s1)"
  then obtain m found m1 found1 where
    "dependency_visits (Some cs) rs fs m found [] = (m1, Some (found1, gs))"
    by (cases s) (auto simp: dependency_round_def split: prod.splits option.splits)
  from dependency_visits_hooks[OF assms(1) this]
  show "\<forall>g \<in> set gs. \<exists>f \<in> set fs. rank g < rank f"
    using hooks_ranked_less[OF assms(2)] by force
qed

section \<open>The chain of a request\<close>

lemma visit_write_hooks:
  assumes "components_ok (Some cs)" "length n < COMPONENT_NAME_LEN"
    and "visit_write (Some cs) rs n m ch = (m', Inr ch')"
  shows "set (ch_hooks ch') \<subseteq> set (ch_hooks ch) \<union> {b. hooks_on cs b n} \<and> ch_models ch' = ch_models ch"
  using assms(3) gather_hooks_names[OF assms(1,2)]
  by (fastforce simp: visit_write_def Let_def split: prod.splits option.splits)

text \<open>What one visit adds to the models of the step and to the names of the next round.\<close>

lemma routing_visit_adds:
  assumes ok: "components_ok (Some cs)"
    and v: "routing_visit (Some cs) rs me n m ch = (m', Inr ch')"
  shows "(mc_models (ch_models ch') = mc_models (ch_models ch) \<and> ch_hooks ch' = ch_hooks ch) \<or>
    (mc_models (ch_models ch') = mc_models (ch_models ch) @ [n] \<and>
     set (ch_hooks ch') \<subseteq> set (ch_hooks ch) \<union> {b. hooks_on cs b n})"
proof (cases "component_lookup_node_by_name (Some cs) n")
  case None
  then show ?thesis using v by (simp add: routing_visit_def)
next
  case (Some c)
  have c: "c_name c = n" "length n < COMPONENT_NAME_LEN" using lookup_ok[OF ok Some] by simp_all
  have view: "ch_models y = ch_models x \<and> ch_hooks y = ch_hooks x" if "visit_view c k x = (l, Inr y)" for k l x y
    using that by (auto simp: visit_view_def Let_def split: prod.splits if_splits)
  have model: "mc_models (ch_models y) = mc_models (ch_models x) @ [n] \<and>
      set (ch_hooks y) \<subseteq> set (ch_hooks x) \<union> {b. hooks_on cs b n}"
    if "visit_model (Some cs) rs me c k x = (l, Inr y)" for k l x y
    using that visit_write_hooks[OF ok c(2)] c(1)
    by (fastforce simp: visit_model_def Let_def split: prod.splits if_splits)
  show ?thesis
  proof (cases "component_node_is_given_role (Some c) (Some ''model'') = 0")
    case True
    then show ?thesis using v Some view by (auto simp: routing_visit_def split: if_splits)
  next
    case False
    then obtain m1 ch1 where vm: "visit_model (Some cs) rs me c m ch = (m1, Inr ch1)"
      and "ch' = ch1 \<or> visit_view c m1 ch1 = (m', Inr ch')"
      using v Some by (auto simp: routing_visit_def split: prod.splits sum.splits if_splits)
    then show ?thesis using model[OF vm] view by auto
  qed
qed

text \<open>What a round adds: models among the names, hooks on the models.\<close>

lemma routing_visits_adds:
  assumes "components_ok (Some cs)"
  shows "routing_visits (Some cs) rs me fs m ch = (m', Inr ch') \<Longrightarrow>
    set (mc_models (ch_models ch')) \<subseteq> set (mc_models (ch_models ch)) \<union> set fs \<and>
    set (mc_models (ch_models ch)) \<subseteq> set (mc_models (ch_models ch')) \<and>
    set (ch_hooks ch') \<subseteq> set (ch_hooks ch) \<union>
      {b. \<exists>a \<in> set (mc_models (ch_models ch')). a \<in> set fs \<and> hooks_on cs b a}"
proof (induction fs arbitrary: m ch)
  case Nil
  then show ?case by simp
next
  case (Cons f fs)
  then obtain m1 ch1 where v: "routing_visit (Some cs) rs me f m ch = (m1, Inr ch1)"
    and r: "routing_visits (Some cs) rs me fs m1 ch1 = (m', Inr ch')"
    by (auto split: prod.splits sum.splits)
  from routing_visit_adds[OF assms v] show ?case
  proof
    assume "mc_models (ch_models ch1) = mc_models (ch_models ch) \<and> ch_hooks ch1 = ch_hooks ch"
    then show ?thesis using Cons.IH[OF r] by auto
  next
    assume a: "mc_models (ch_models ch1) = mc_models (ch_models ch) @ [f] \<and>
      set (ch_hooks ch1) \<subseteq> set (ch_hooks ch) \<union> {b. hooks_on cs b f}"
    then have "f \<in> set (mc_models (ch_models ch'))" using Cons.IH[OF r] by auto
    then show ?thesis using a Cons.IH[OF r] by auto blast
  qed
qed

lemma routing_round_adds:
  assumes "components_ok (Some cs)"
    and "routing_round (Some cs) rs me fs (m, mcs, deps, vs) = Inr (gs, m', mcs', deps', vs')"
  shows "\<exists>mc. mcs' = mcs @ [mc] \<and> set (mc_models mc) \<subseteq> set fs \<and>
    set gs \<subseteq> {b. \<exists>a \<in> set (mc_models mc). hooks_on cs b a}"
proof -
  obtain k ch l where v: "routing_visits (Some cs) rs me fs k
      \<lparr>ch_models = \<lparr>mc_models = [], mc_ttls = []\<rparr>, ch_dependencies = deps, ch_views = vs, ch_hooks = []\<rparr> =
      (l, Inr ch)" "mcs' = mcs @ [ch_models ch]" "gs = ch_hooks ch"
    using assms(2) by (auto simp: routing_round_def Let_def split: prod.splits sum.splits if_splits)
  show ?thesis using routing_visits_adds[OF assms(1) v(1)] v(2,3) by auto
qed

lemma routing_rounds_terminate:
  assumes "components_ok (Some cs)" "hooks_ranked rank cs"
  shows "\<exists>r. do_rounds (routing_round (Some cs) rs me) fs s = Some r"
proof (rule do_rounds_terminates[where weight = rank])
  fix fs gs and s s1 :: routing_state
  assume r: "routing_round (Some cs) rs me fs s = Inr (gs, s1)"
  obtain m mcs deps vs m' mcs' deps' vs' where s: "s = (m, mcs, deps, vs)" "s1 = (m', mcs', deps', vs')"
    by (metis prod_cases4)
  from routing_round_adds[OF assms(1) r[unfolded s]]
  show "\<forall>g \<in> set gs. \<exists>f \<in> set fs. rank g < rank f"
    using hooks_ranked_less[OF assms(2)] by blast
qed

text \<open>Each step of the chain hooks the one before.\<close>

definition chain_linked :: "component list \<Rightarrow> string list \<Rightarrow> model_chain list \<Rightarrow> bool" where
  "chain_linked cs start mcs \<longleftrightarrow>
     (\<forall>i < length mcs. \<forall>b \<in> set (mc_models (mcs ! i)).
        if i = 0 then b \<in> set start
        else \<exists>a \<in> set (mc_models (mcs ! (i - 1))). hooks_on cs b a)"

lemma chain_linked_snoc:
  assumes "chain_linked cs start mcs"
    and "\<forall>b \<in> set (mc_models mc). if mcs = [] then b \<in> set start
        else \<exists>a \<in> set (mc_models (last mcs)). hooks_on cs b a"
  shows "chain_linked cs start (mcs @ [mc])"
  unfolding chain_linked_def
proof (intro allI impI ballI)
  fix i b
  assume i: "i < length (mcs @ [mc])" and b: "b \<in> set (mc_models ((mcs @ [mc]) ! i))"
  show "if i = 0 then b \<in> set start
      else \<exists>a \<in> set (mc_models ((mcs @ [mc]) ! (i - 1))). hooks_on cs b a"
  proof (cases "i < length mcs")
    case True
    then have "b \<in> set (mc_models (mcs ! i))" using b by (simp add: nth_append)
    then have "if i = 0 then b \<in> set start
        else \<exists>a \<in> set (mc_models (mcs ! (i - 1))). hooks_on cs b a"
      using assms(1) True unfolding chain_linked_def by blast
    then show ?thesis
      using True by (cases "i = 0") (simp_all add: nth_append less_imp_diff_less)
  next
    case False
    then have "i = length mcs" using i by simp
    then show ?thesis using assms(2) b by (cases "mcs = []") (auto simp: nth_append last_conv_nth)
  qed
qed

lemma routing_rounds_linked:
  assumes ok: "components_ok (Some cs)"
    and r: "do_rounds (routing_round (Some cs) rs me) fs (m, [], deps, vs) = Some (Inr (m', mcs, deps', vs'))"
  shows "chain_linked cs fs mcs \<and> mcs \<noteq> []"
proof -
  let ?I = "\<lambda>gs (s :: routing_state). chain_linked cs fs (fst (snd s)) \<and>
    (\<forall>g \<in> set gs. if fst (snd s) = [] then g \<in> set fs
       else \<exists>a \<in> set (mc_models (last (fst (snd s)))). hooks_on cs g a) \<and>
    (gs = [] \<longrightarrow> fs = [] \<or> fst (snd s) \<noteq> [])"
  have "?I [] (m', mcs, deps', vs')"
  proof (rule do_rounds_frontier_invariant[where I = ?I, OF r])
    show "?I fs (m, [], deps, vs)" by (simp add: chain_linked_def)
    fix gs hs and s s1 :: routing_state
    assume I: "?I gs s" and rr: "routing_round (Some cs) rs me gs s = Inr (hs, s1)"
    obtain k mcs deps vs k' mcs' deps' vs' where s: "s = (k, mcs, deps, vs)" "s1 = (k', mcs', deps', vs')"
      by (metis prod_cases4)
    obtain mc where mc: "mcs' = mcs @ [mc]" "set (mc_models mc) \<subseteq> set gs"
      "set hs \<subseteq> {b. \<exists>a \<in> set (mc_models mc). hooks_on cs b a}"
      using routing_round_adds[OF ok rr[unfolded s]] by blast
    have "chain_linked cs fs mcs'"
      unfolding mc(1) using I mc(2) s by (intro chain_linked_snoc) auto
    then show "?I hs s1" using mc s by auto
  qed
  moreover have "mcs \<noteq> []"
  proof -
    have "do_rounds (routing_round (Some cs) rs me) fs s = Some x \<Longrightarrow>
        x = Inr t \<longrightarrow> fst (snd t) \<noteq> []" for s x t
    proof (induction rule: do_rounds_induct)
      case (finish fs s s1)
      then show ?case
        by (auto simp: routing_round_def Let_def split: prod.splits sum.splits if_splits)
    qed auto
    from this[OF r, of "(m', mcs, deps', vs')"] show ?thesis by simp
  qed
  ultimately show ?thesis by simp
qed


section \<open>With enough memory a round takes every hook\<close>

definition is_model :: "component list \<Rightarrow> string \<Rightarrow> bool" where
  "is_model cs n \<longleftrightarrow>
     (case find (\<lambda>c. c_name c = n) cs of None \<Rightarrow> False | Some c \<Rightarrow> c_role c = ''model'')"

lemma given_role: "component_node_is_given_role (Some c) (Some r) = (if c_role c = r then 1 else 0)"
  by (simp add: component_node_is_given_role_def)

lemma hooks_on_names: "{b. hooks_on cs b n} = set (map c_name (filter (\<lambda>c. n \<in> set (c_hooks c)) cs))"
  by (auto simp: hooks_on_def list_ex_iff)

lemma dependency_visits_enough:
  assumes "components_ok (Some cs)"
  shows "\<exists>found' hooks'. dependency_visits (Some cs) rs fs [] found hooks = ([], Some (found', hooks')) \<and>
    set hooks \<subseteq> set hooks' \<and> (\<forall>f \<in> set fs. is_model cs f \<longrightarrow> {b. hooks_on cs b f} \<subseteq> set hooks')"
proof (induction fs arbitrary: found hooks)
  case Nil
  then show ?case by simp
next
  case (Cons f fs)
  have "\<exists>found1 hooks1. dependency_visit [] (Some cs) rs f found hooks = ([], Some (found1, hooks1)) \<and>
      set hooks \<subseteq> set hooks1 \<and> (is_model cs f \<longrightarrow> {b. hooks_on cs b f} \<subseteq> set hooks1)"
  proof (cases "is_model cs f")
    case True
    then obtain c where c: "find (\<lambda>c. c_name c = f) cs = Some c" "c_role c = ''model''"
      by (auto simp: is_model_def split: option.splits)
    then have n: "c_name c = f" "length f < 32" using lookup_ok[OF assms, of f c] by simp_all
    obtain xs where xs: "resource_get_names_by_component [] rs (Some f) = ([], xs)"
      using names_by_component_enough by blast
    obtain acc where "merge_names [] found xs = ([], Some acc)" using merge_names_enough by blast
    then show ?thesis
      using c xs n gather_hooks_enough[OF assms n(2), of hooks]
      by (simp add: dependency_visit_def given_role Let_def hooks_on_names)
  next
    case False
    then show ?thesis
      by (auto simp: dependency_visit_def given_role is_model_def split: option.splits)
  qed
  then obtain found1 hooks1 where v: "dependency_visit [] (Some cs) rs f found hooks = ([], Some (found1, hooks1))"
    and h: "set hooks \<subseteq> set hooks1" "is_model cs f \<longrightarrow> {b. hooks_on cs b f} \<subseteq> set hooks1"
    by blast
  obtain found' hooks' where r: "dependency_visits (Some cs) rs fs [] found1 hooks1 = ([], Some (found', hooks'))"
    "set hooks1 \<subseteq> set hooks'" "\<forall>f \<in> set fs. is_model cs f \<longrightarrow> {b. hooks_on cs b f} \<subseteq> set hooks'"
    using Cons.IH[of found1 hooks1] by blast
  have "dependency_visits (Some cs) rs (f # fs) [] found hooks = ([], Some (found', hooks'))"
    using v r(1) by simp
  moreover have "set hooks \<subseteq> set hooks'" using h(1) r(2) by blast
  moreover have "\<forall>g \<in> set (f # fs). is_model cs g \<longrightarrow> {b. hooks_on cs b g} \<subseteq> set hooks'"
    using h(2) r(2,3) unfolding list.set(2) ball_simps by blast
  ultimately show ?case by blast
qed

lemma visit_write_enough:
  assumes "components_ok (Some cs)" "length n < COMPONENT_NAME_LEN"
  shows "\<exists>ch'. visit_write (Some cs) rs n [] ch = ([], Inr ch') \<and>
    set (ch_hooks ch') = set (ch_hooks ch) \<union> {b. hooks_on cs b n}"
proof -
  obtain xs where xs: "resource_get_names_by_component [] rs (Some n) = ([], xs)"
    using names_by_component_enough by blast
  obtain acc where "merge_names [] (ch_dependencies ch) xs = ([], Some acc)"
    using merge_names_enough by blast
  then show ?thesis
    using xs gather_hooks_enough[OF assms, of "ch_hooks ch"]
    by (simp add: visit_write_def Let_def hooks_on_names)
qed

lemma routing_visits_enough:
  assumes ok: "components_ok (Some cs)" and free: "list_all (\<lambda>c. c_lock c = 0) cs"
  shows "\<exists>ch'. routing_visits (Some cs) rs me fs [] ch = ([], Inr ch') \<and>
    set (ch_hooks ch) \<subseteq> set (ch_hooks ch') \<and>
    (resource_is_write_like_method me \<longrightarrow>
      (\<forall>f \<in> set fs. is_model cs f \<longrightarrow> {b. hooks_on cs b f} \<subseteq> set (ch_hooks ch')))"
proof (induction fs arbitrary: ch)
  case Nil
  then show ?case by simp
next
  case (Cons f fs)
  have "\<exists>ch1. routing_visit (Some cs) rs me f [] ch = ([], Inr ch1) \<and>
      set (ch_hooks ch) \<subseteq> set (ch_hooks ch1) \<and>
      (resource_is_write_like_method me \<longrightarrow> is_model cs f \<longrightarrow> {b. hooks_on cs b f} \<subseteq> set (ch_hooks ch1))"
  proof (cases "find (\<lambda>c. c_name c = f) cs")
    case None
    then show ?thesis by (simp add: routing_visit_def is_model_def)
  next
    case (Some c)
    then have n: "c_name c = f" "length f < 32" using lookup_ok[OF ok, of f c] by simp_all
    have l: "c_lock c = 0" using free find_Some_mem[OF Some] by (auto simp: list_all_iff)
    let ?ch = "ch\<lparr>ch_models := \<lparr>mc_models = mc_models (ch_models ch) @ [c_name c],
        mc_ttls = mc_ttls (ch_models ch) @ [c_ttl c]\<rparr>\<rparr>"
    obtain ch1 where "visit_write (Some cs) rs f [] ?ch = ([], Inr ch1)"
      "set (ch_hooks ch1) = set (ch_hooks ?ch) \<union> {b. hooks_on cs b f}"
      using visit_write_enough[OF ok n(2)] by blast
    then show ?thesis
      using Some n(1) l
      by (cases "c_role c = ''model''"; cases "resource_is_write_like_method me")
        (auto simp: routing_visit_def visit_model_def visit_view_def given_role is_model_def
          component_node_is_locked_def Let_def)
  qed
  then obtain ch1 where v: "routing_visit (Some cs) rs me f [] ch = ([], Inr ch1)"
    and h: "set (ch_hooks ch) \<subseteq> set (ch_hooks ch1)"
      "resource_is_write_like_method me \<longrightarrow> is_model cs f \<longrightarrow> {b. hooks_on cs b f} \<subseteq> set (ch_hooks ch1)"
    by blast
  obtain ch' where r: "routing_visits (Some cs) rs me fs [] ch1 = ([], Inr ch')"
    "set (ch_hooks ch1) \<subseteq> set (ch_hooks ch')" "resource_is_write_like_method me \<longrightarrow>
      (\<forall>f \<in> set fs. is_model cs f \<longrightarrow> {b. hooks_on cs b f} \<subseteq> set (ch_hooks ch'))"
    using Cons.IH[of ch1] by blast
  have "routing_visits (Some cs) rs me (f # fs) [] ch = ([], Inr ch')" using v r(1) by simp
  moreover have "set (ch_hooks ch) \<subseteq> set (ch_hooks ch')" using h(1) r(2) by blast
  moreover have "resource_is_write_like_method me \<longrightarrow>
      (\<forall>g \<in> set (f # fs). is_model cs g \<longrightarrow> {b. hooks_on cs b g} \<subseteq> set (ch_hooks ch'))"
    using h(2) r(2,3) unfolding list.set(2) ball_simps by blast
  ultimately show ?case by blast
qed

text \<open>A set of models each hooked by one of them: a cycle of hooks.\<close>

definition hook_cycle :: "component list \<Rightarrow> string list \<Rightarrow> bool" where
  "hook_cycle cs ns \<longleftrightarrow> list_all (\<lambda>n. is_model cs n \<and> list_ex (\<lambda>b. hooks_on cs b n) ns) ns"

lemma hook_cycle_next:
  "hook_cycle cs ns \<Longrightarrow> n \<in> set ns \<Longrightarrow> is_model cs n \<and> (\<exists>b \<in> set ns. hooks_on cs b n)"
  by (auto simp: hook_cycle_def list_all_iff list_ex_iff)

lemma dependency_rounds_diverge:
  assumes ok: "components_ok (Some cs)" and cyc: "hook_cycle cs ns" "n \<in> set ns" "n \<in> set fs"
  shows "do_rounds (dependency_round (Some cs) rs) fs ([], found) = None"
proof (rule do_rounds_diverges[where P = "\<lambda>fs s. (\<exists>f \<in> set fs. f \<in> set ns) \<and> fst s = []"])
  show "(\<exists>f \<in> set fs. f \<in> set ns) \<and> fst ([], found) = []" using cyc by auto
  fix fs s
  assume "(\<exists>f \<in> set fs. f \<in> set ns) \<and> fst (s :: heap \<times> string list) = []"
  then obtain f found where f: "f \<in> set fs" "f \<in> set ns" and s: "s = ([], found)" by (cases s) auto
  obtain b where b: "b \<in> set ns" "hooks_on cs b f" "is_model cs f"
    using hook_cycle_next[OF cyc(1) f(2)] by blast
  obtain found' hooks' where "dependency_visits (Some cs) rs fs [] found [] = ([], Some (found', hooks'))"
    "\<forall>f \<in> set fs. is_model cs f \<longrightarrow> {b. hooks_on cs b f} \<subseteq> set hooks'"
    using dependency_visits_enough[OF ok] by blast
  moreover from this(2) have "b \<in> set hooks'" using f(1) b by blast
  ultimately show "\<exists>gs s1. dependency_round (Some cs) rs fs s = Inr (gs, s1) \<and> gs \<noteq> [] \<and>
      (\<exists>f \<in> set gs. f \<in> set ns) \<and> fst s1 = []"
    using b(1) by (auto simp: dependency_round_def s)
qed

lemma routing_rounds_diverge:
  assumes ok: "components_ok (Some cs)" and free: "list_all (\<lambda>c. c_lock c = 0) cs"
    and wr: "resource_is_write_like_method me"
    and cyc: "hook_cycle cs ns" "n \<in> set ns" "n \<in> set fs"
  shows "do_rounds (routing_round (Some cs) rs me) fs ([], mcs, deps, vs) = None"
proof (rule do_rounds_diverges[where P = "\<lambda>fs s. (\<exists>f \<in> set fs. f \<in> set ns) \<and> fst s = []"])
  show "(\<exists>f \<in> set fs. f \<in> set ns) \<and> fst ([], mcs, deps, vs) = []" using cyc by auto
  fix fs and s :: routing_state
  assume "(\<exists>f \<in> set fs. f \<in> set ns) \<and> fst s = []"
  then obtain f mcs deps vs where f: "f \<in> set fs" "f \<in> set ns" and s: "s = ([], mcs, deps, vs)"
    by (cases s) auto
  obtain b where b: "b \<in> set ns" "hooks_on cs b f" "is_model cs f"
    using hook_cycle_next[OF cyc(1) f(2)] by blast
  obtain ch' where "routing_visits (Some cs) rs me fs []
      \<lparr>ch_models = \<lparr>mc_models = [], mc_ttls = []\<rparr>, ch_dependencies = deps, ch_views = vs, ch_hooks = []\<rparr> =
      ([], Inr ch')" "\<forall>f \<in> set fs. is_model cs f \<longrightarrow> {b. hooks_on cs b f} \<subseteq> set (ch_hooks ch')"
    using routing_visits_enough[OF ok free] wr by blast
  moreover from this(2) have "b \<in> set (ch_hooks ch')" using f(1) b by blast
  ultimately show "\<exists>gs s1. routing_round (Some cs) rs me fs s = Inr (gs, s1) \<and> gs \<noteq> [] \<and>
      (\<exists>f \<in> set gs. f \<in> set ns) \<and> fst s1 = []"
    using b(1) by (auto simp: routing_round_def s)
qed


section \<open>The handlers return\<close>

lemma error_response_all_returns:
  "routing_error_response_all J tn (Some rl) n sid me tp st msg lg w \<noteq> None"
  "routing_error_response_all J tn None 0 sid me tp st msg lg w \<noteq> None"
  by (simp_all add: routing_error_response_all_def)

lemma routing_refuse_returns:
  "routing_refuse J tn (Some rl) n sid me tp st msg lg w \<noteq> None"
  "routing_refuse J tn None 0 sid me tp st msg lg w \<noteq> None"
  unfolding routing_refuse_def by (simp_all only: option.map_disc_iff error_response_all_returns not_False_eq_True)

lemma session_step_returns: "session_step J node root w \<noteq> None"
  using session_step_defined[of J node root w] by auto

lemma routing_start_returns: "routing_start J root rl s sid me tp tn w \<noteq> None"
proof -
  obtain ret rs1 cs1 where lk: "(if resource_is_write_like_method (s_method s)
      then session_node_lock_by_step (Some s) (w_resources w) (w_components w) 0
      else (0, w_resources w, w_components w)) = (ret, rs1, cs1)"
    by (metis prod_cases3)
  show ?thesis
    unfolding routing_start_def lk Let_def prod.case
    by (cases "ret = 0") (simp_all only: if_True if_False option.map_disc_iff
        error_response_all_returns session_step_returns not_False_eq_True simp_thms)
qed

lemma routing_session_returns: "routing_session J root rl sid me tp tn mcs deps vs w \<noteq> None"
proof -
  obtain rc h1 where rc: "json_new_array J (w_json w) = (rc, h1)" by force
  obtain m2 so where cr: "session_create_node (w_heap (w\<lparr>w_json := h1\<rparr>)) sid me (Some tp) (Some tn)
      deps rc mcs vs = (m2, so)" by force
  show ?thesis
    unfolding routing_session_def rc Let_def prod.case cr
    by (cases "mc_models (hd mcs) = []"; cases "rc = None"; cases so)
      (simp_all only: if_True if_False option.map_disc_iff option.case routing_refuse_returns
        routing_start_returns not_False_eq_True simp_thms)
qed

lemma not_none_if: "\<lbrakk> b \<Longrightarrow> x \<noteq> None; \<not> b \<Longrightarrow> y \<noteq> None \<rbrakk> \<Longrightarrow> (if b then x else y) \<noteq> None"
  by simp

lemma routing_req_returns:
  assumes "w_heap w = []" "w_resources w = Some rs" "resources_ok (Some rs)"
    and "w_components w = Some cs" "components_ok (Some cs)" "hooks_ranked rank cs"
  shows "routing_req J root sid me tp tn w \<noteq> None"
proof -
  obtain l n where ml: "sanji_match_resource_list [] (Some rs) tp = ([], l, n)" "l = None \<longrightarrow> n = 0"
    using match_list_enough[OF assms(3), of tp] by blast
  show ?thesis
  proof (cases l)
    case None
    then show ?thesis
      using ml routing_refuse_returns(2)
      unfolding routing_req_def assms(1,2) by (simp only: prod.case option.case simp_thms not_False_eq_True)
  next
    case (Some rl)
    obtain m2 sub where sub: "sanji_get_subscribed_component [] [] rl = (m2, sub)" by force
    obtain r where r: "do_rounds (routing_round (Some cs) (Some rs) me) sub (m2, [], [], []) = Some r"
      using routing_rounds_terminate[OF assms(5,6)] by blast
    have ws: "w_components (w\<lparr>w_heap := m\<rparr>) = Some cs" "w_resources (w\<lparr>w_heap := m\<rparr>) = Some rs" for m
      using assms(2,4) by simp_all
    have "(case r of Inl (m3, code, message) \<Rightarrow>
          routing_refuse J tn (Some rl) n sid me tp code (Some message) None (w\<lparr>w_heap := []\<rparr>\<lparr>w_heap := m3\<rparr>)
        | Inr (m3, mcs, deps, vs) \<Rightarrow>
          routing_session J root rl sid me tp tn mcs deps vs (w\<lparr>w_heap := []\<rparr>\<lparr>w_heap := m3\<rparr>)) \<noteq> None"
      using routing_refuse_returns(1) routing_session_returns
      by (cases r) (simp_all only: sum.case case_prod_beta not_False_eq_True)
    then show ?thesis
      unfolding routing_req_def assms(1,2) ml(1) Some prod.case option.case Let_def sub ws r
      by (intro not_none_if routing_refuse_returns)
  qed
qed

lemma dependency_read_returns:
  assumes "w_components w = Some cs" "components_ok (Some cs)" "hooks_ranked rank cs"
  shows "dependency_read rn w \<noteq> None"
proof (cases rn)
  case (Some tp)
  obtain m1 l n where ml: "sanji_match_resource_list (w_heap w) (w_resources w) tp = (m1, l, n)"
    by (metis prod_cases3)
  show ?thesis
  proof (cases l)
    case (Some rl)
    obtain m2 sub where sub: "sanji_get_subscribed_component m1 [] rl = (m2, sub)" by force
    obtain r where r: "do_rounds (dependency_round (Some cs) (w_resources w)) sub (m2, []) = Some r"
      using dependency_rounds_terminate[OF assms(2,3)] by blast
    show ?thesis
      unfolding dependency_read_def \<open>rn = Some tp\<close> option.case ml prod.case Some sub assms(1) r
      by (cases r) (auto simp: case_prod_beta)
  qed (simp add: dependency_read_def \<open>rn = Some tp\<close> ml)
qed (simp add: dependency_read_def)

end
