(* ===== verification/Dispatch.thy ===== *)
theory Dispatch
  imports Routing
begin

text \<open>
  The entry points of \<open>src/sanji_controller.c\<close>: parsing a JSON context into its header,
  dispatching it by topic, the callbacks of the MQTT client that change the controller's
  state, and the periodic aging of the sessions.
\<close>

section \<open>Parsing a context\<close>

text \<open>The header \<open>sanji_dispatch_context\<close> declares, with the values it starts from.\<close>

record 'p sanji_context =
  x_id :: "32 word"
  x_method :: int
  x_resource :: string
  x_tunnel :: string
  x_sign :: "'p option"
  x_code :: int
  x_data :: "'p option"

abbreviation (input) empty_context :: "'p sanji_context" where
  "empty_context \<equiv>
     \<lparr> x_id = SANJI_HEADER_NO_ID, x_method = SANJI_HEADER_NO_METHOD, x_resource = [],
       x_tunnel = [], x_sign = None, x_code = SANJI_HEADER_NO_CODE, x_data = None \<rparr>"

text \<open>One member of the root object, if it has the type the code tests for.\<close>

definition typed_member ::
    "('h, 'p) jansson \<Rightarrow> 'h \<Rightarrow> 'p option \<Rightarrow> string \<Rightarrow> ('h \<Rightarrow> 'p \<Rightarrow> bool) \<Rightarrow> 'p option" where
  "typed_member J h root key has_type =
     (case json_object_get J h root key of
        None \<Rightarrow> None | Some p \<Rightarrow> if has_type h p then Some p else None)"

definition parse_method :: "('h, 'p) jansson \<Rightarrow> 'h \<Rightarrow> 'p option \<Rightarrow> int \<Rightarrow> int option" where
  "parse_method J h root method =
     (case typed_member J h root ''method'' (json_is_string J) of
        None \<Rightarrow> Some method
      | Some p \<Rightarrow>
          resource_lookup_method (Some (bounded_copy RESOURCE_METHOD_LEN (json_string_value J h p))))"

definition parse_string ::
    "('h, 'p) jansson \<Rightarrow> 'h \<Rightarrow> 'p option \<Rightarrow> string \<Rightarrow> nat \<Rightarrow> string" where
  "parse_string J h root key len =
     (case typed_member J h root key (json_is_string J) of
        None \<Rightarrow> [] | Some p \<Rightarrow> bounded_copy len (json_string_value J h p))"

text \<open>A number, converted to the type of the variable that holds \<open>n\<close>.\<close>

definition parse_number ::
    "('h, 'p) jansson \<Rightarrow> 'h \<Rightarrow> 'p option \<Rightarrow> string \<Rightarrow> (int \<Rightarrow> 32 word option) \<Rightarrow> 32 word \<Rightarrow> 32 word option" where
  "parse_number J h root key to_type n =
     (case typed_member J h root key (json_is_number J) of
        None \<Rightarrow> Some n | Some p \<Rightarrow> to_type (json_number_value J h p))"

text \<open>
  The return code, the root and the header. \<open>None\<close> is undefined: a number that does not fit its
  variable, or the overflow of the method buffer.
\<close>

definition sanji_parse_context ::
    "('h, 'p) jansson \<Rightarrow> string option \<Rightarrow> 'p sanji_context \<Rightarrow> 'h \<Rightarrow>
     (int \<times> 'p option \<times> 'p sanji_context \<times> 'h) option" where
  "sanji_parse_context J payload x h =
     (case payload of
        None \<Rightarrow> Some (SANJI_INTERNAL_ERROR, None, x, h)
      | Some text \<Rightarrow>
     (case json_loads J h text of
        (None, h1) \<Rightarrow> Some (SANJI_DATA_ERROR, None, x, h1)
      | (Some r, h1) \<Rightarrow>
     (case parse_number J h1 (Some r) ''id'' double_to_uint (x_id x) of
        None \<Rightarrow> None
      | Some sid \<Rightarrow>
     (case parse_method J h1 (Some r) (x_method x) of
        None \<Rightarrow> None
      | Some method \<Rightarrow>
     (case parse_number J h1 (Some r) ''code'' double_to_int (word_of_int (x_code x)) of
        None \<Rightarrow> None
      | Some code \<Rightarrow>
          Some (SANJI_SUCCESS, Some r,
            \<lparr> x_id = sid,
              x_method = method,
              x_resource = parse_string J h1 (Some r) ''resource'' RESOURCE_NAME_LEN,
              x_tunnel = parse_string J h1 (Some r) ''tunnel'' COMPONENT_TUNNEL_LEN,
              x_sign = (case typed_member J h1 (Some r) ''sign'' (json_is_array J) of
                          None \<Rightarrow> x_sign x | Some p \<Rightarrow> Some p),
              x_code = sint code,
              x_data = (case typed_member J h1 (Some r) ''data'' (json_is_object J) of
                          None \<Rightarrow> x_data x | Some p \<Rightarrow> Some p) \<rparr>, h1))))))"

section \<open>Dispatching\<close>

abbreviation (input) SANJI_MAX_CONTEXT_LEN :: int where "SANJI_MAX_CONTEXT_LEN \<equiv> 1024 * 1024"

definition context_invalid :: "'p sanji_context \<Rightarrow> bool" where
  "context_invalid x \<longleftrightarrow>
     (x_id x = SANJI_HEADER_NO_ID \<and> (x_method x = SANJI_HEADER_NO_METHOD \<or> x_resource x = [])) \<or>
     (x_code x = SANJI_HEADER_NO_CODE \<and> (x_method x = SANJI_HEADER_NO_METHOD \<or> x_resource x = []))"

text \<open>The handler a topic selects.\<close>

definition dispatch_handler ::
    "('h, 'p) jansson \<Rightarrow> string \<Rightarrow> 'p option \<Rightarrow> 'p sanji_context \<Rightarrow> ('h, 'p) world \<Rightarrow>
     ('h, 'p) world option" where
  "dispatch_handler J topic root x w =
     (if topic = SANJI_CONTROLLER_TOPIC \<or>
         (length (ud_local_id_topic (w_ud w)) > 1 \<and> topic = ud_local_id_topic (w_ud w))
      then map_option snd (routing_procedure J root (x_id x) (x_method x) (Some (x_resource x))
                             (x_tunnel x) (x_code x) (x_data x) w)
      else if topic = SANJI_REGISTER_RESOURCE
      then map_option snd (register_procedure J (x_id x) (x_method x) (x_resource x) (x_data x) w)
      else if topic = SANJI_RESOURCE_DEPENDENCY_RESOURCE
      then map_option snd
             (lookup_resource_dependency_procedure J (x_id x) (x_method x) (x_resource x) w)
      else Some w)"

definition sanji_dispatch_context ::
    "('h, 'p) jansson \<Rightarrow> string \<Rightarrow> string option \<Rightarrow> int \<Rightarrow> ('h, 'p) world \<Rightarrow>
     (int \<times> ('h, 'p) world) option" where
  "sanji_dispatch_context J topic payload context_len w =
     (if payload = None \<or> context_len \<le> 0 \<or> context_len \<ge> SANJI_MAX_CONTEXT_LEN
      then Some (SANJI_INTERNAL_ERROR, w)
      else case sanji_parse_context J payload empty_context (w_json w) of
          None \<Rightarrow> None
        | Some (ret, root, x, h1) \<Rightarrow>
            (let drop_root = (\<lambda>v. if root = None then v
                                  else v\<lparr>w_json := json_decref J (w_json v) root\<rparr>);
                 w1 = w\<lparr>w_json := h1\<rparr>
             in if ret \<noteq> 0 \<or> context_invalid x then Some (SANJI_DATA_ERROR, drop_root w1)
                else map_option (\<lambda>w2. (SANJI_SUCCESS, drop_root w2))
                       (dispatch_handler J topic root x w1)))"

section \<open>Callbacks and the clock\<close>

text \<open>A message of the broker.\<close>

record message =
  msg_topic :: string
  msg_payload :: "string option"
  msg_payloadlen :: int
  msg_retain :: bool

definition sanji_message_callback ::
    "('h, 'p) jansson \<Rightarrow> message \<Rightarrow> ('h, 'p) world \<Rightarrow> ('h, 'p) world option" where
  "sanji_message_callback J message w =
     (if msg_retain message then Some w
      else if msg_payloadlen message \<noteq> 0
      then map_option snd (sanji_dispatch_context J (msg_topic message) (msg_payload message)
                             (msg_payloadlen message) w)
      else Some w)"

text \<open>
  The clock: \<open>last_time\<close> is the static of the function (0 before the first call), \<open>now_time\<close>
  the monotonic time in seconds; the difference is an unsigned 32-bit number.
\<close>

definition sanji_refresh_session ::
    "('h, 'p) jansson \<Rightarrow> int \<Rightarrow> int \<Rightarrow> ('h, 'p) world \<Rightarrow> (int \<times> ('h, 'p) world) option" where
  "sanji_refresh_session J last_time now_time w =
     map_option (\<lambda>w1. (now_time, w1))
       (let diff_time = (word_of_int (now_time - last_time) :: 32 word) in
        if last_time \<noteq> 0 \<and> diff_time \<noteq> 0 then session_decref_ttl J diff_time w else Some w)"

text \<open>One of the two built-in models with its two resources, unless it is registered.\<close>

definition register_builtin ::
    "string \<Rightarrow> string \<Rightarrow> string \<Rightarrow> string \<Rightarrow> ('h, 'p) world \<Rightarrow> ('h, 'p) world" where
  "register_builtin name description topic wildcard w =
     (if component_is_registered (w_components w) (Some name) = 0 then
        (let (_, m1, cs) = component_add_node (w_heap w) (w_components w) (Some name)
               (Some description) (Some topic) (Some ''model'') None 0 10 0;
             (_, m2, rs1) = resource_append_component_by_name m1 (w_resources w) (Some topic) (Some name);
             (_, m3, rs2) = resource_append_component_by_name m2 rs1 (Some wildcard) (Some name)
         in w\<lparr>w_heap := m3, w_components := cs, w_resources := rs2\<rparr>)
      else w)"

text \<open>
  Connecting, and connecting again: what is null is allocated, what is missing is
  registered. The Boolean is whether all three lists exist (else \<open>sanji_run\<close> becomes 0).
  Subscribing to the topics is left to the client library.
\<close>

definition sanji_connect_callback :: "('h, 'p) world \<Rightarrow> bool \<times> ('h, 'p) world" where
  "sanji_connect_callback w =
     (let (m1, rs) = (case w_resources w of None \<Rightarrow> resource_init (w_heap w)
                      | Some _ \<Rightarrow> (w_heap w, w_resources w));
          (m2, cs) = (case w_components w of None \<Rightarrow> component_init m1
                      | Some _ \<Rightarrow> (m1, w_components w));
          (m3, ss) = (case w_sessions w of None \<Rightarrow> session_init m2
                      | Some _ \<Rightarrow> (m2, w_sessions w));
          w1 = w\<lparr>w_heap := m3, w_resources := rs, w_components := cs, w_sessions := ss\<rparr>;
          w2 = register_builtin ''registration'' ''This is registration model.''
                 SANJI_REGISTER_RESOURCE ''/controller/registration/+'' w1;
          w3 = register_builtin ''dependency'' ''This is dependency model.''
                 SANJI_RESOURCE_DEPENDENCY_RESOURCE ''/controller/resource/dependency/+'' w2
      in (rs \<noteq> None \<and> cs \<noteq> None \<and> ss \<noteq> None, w3))"

end
