(* ===== verification/Exclusion.thy ===== *)
theory Exclusion
  imports Dispatch Session_Facts
begin

text \<open>
  Mutual exclusion of the writing sessions. A session with a write-like method works on the
  models of its chain; the engine promises that no two sessions in flight have a model in
  common, and that each of them holds the lock of all its models. The invariant is kept by
  every operation of the controller, and so holds in every reachable state of its event
  loop, whatever messages arrive, whatever the JSON library answers and whatever
  allocations fail.
\<close>

section \<open>The invariant\<close>

definition exclusive :: "(32 word \<times> string list) list \<Rightarrow> components \<Rightarrow> bool" where
  "exclusive vs cl \<longleftrightarrow>
     distinct (map fst vs) \<and> distinct (concat (map snd vs)) \<and>
     set (concat (map snd vs)) \<subseteq> {n. component_held cl n = Some True}"

definition models_exclusive :: "('h, 'p) world \<Rightarrow> bool" where
  "models_exclusive w \<longleftrightarrow>
     (case views w of None \<Rightarrow> True | Some vs \<Rightarrow> exclusive vs (w_components w))"

text \<open>Held locks stay held.\<close>

definition keeps_locks :: "components \<Rightarrow> components \<Rightarrow> bool" where
  "keeps_locks cl cl' \<longleftrightarrow> (\<forall>n. component_held cl n = Some True \<longrightarrow> component_held cl' n = Some True)"

lemma keeps_locks_refl [simp]: "keeps_locks cl cl"
  by (simp add: keeps_locks_def)

lemma keeps_locks_trans: "keeps_locks a b \<Longrightarrow> keeps_locks b c \<Longrightarrow> keeps_locks a c"
  by (simp add: keeps_locks_def)

lemma exclusive_keeps: "exclusive vs cl \<Longrightarrow> keeps_locks cl cl' \<Longrightarrow> exclusive vs cl'"
  by (auto simp: exclusive_def keeps_locks_def)

lemma exclusive_Nil [simp]: "exclusive [] cl"
  by (simp add: exclusive_def)

text \<open>A session with free models joins.\<close>

lemma exclusive_snoc:
  assumes "exclusive vs cl" "i \<notin> fst ` set vs" "distinct ms"
    and "\<forall>n \<in> set ms. component_held cl n \<noteq> Some True"
    and "component_held cl' = (\<lambda>n. if n \<in> set ms then Some True else component_held cl n)"
  shows "exclusive (vs @ [(i, ms)]) cl'"
  using assms by (auto simp: exclusive_def)

lemma concat_other:
  "distinct (map fst vs) \<Longrightarrow> distinct (concat (map snd vs)) \<Longrightarrow> (i, ms) \<in> set vs \<Longrightarrow>
   n \<in> set ms \<Longrightarrow> n \<notin> set (concat (map snd (filter (\<lambda>v. fst v \<noteq> i) vs)))"
proof (induction vs)
  case Nil
  then show ?case by simp
next
  case (Cons v vs)
  show ?case
  proof (cases "v = (i, ms)")
    case True
    then show ?thesis using Cons.prems by fastforce
  next
    case False
    then have m: "(i, ms) \<in> set vs" using Cons.prems by auto
    then have "n \<in> set (concat (map snd vs))" using Cons.prems(4) by force
    then have "n \<notin> set (snd v)" using Cons.prems(2) by auto
    then show ?thesis using Cons m by auto
  qed
qed

lemma distinct_concat_filter:
  "distinct (concat (map f xs)) \<Longrightarrow> distinct (concat (map f (filter P xs)))"
  by (induction xs) auto

text \<open>A session leaves, releasing at most its own models.\<close>

lemma exclusive_delete:
  assumes ex: "exclusive vs cl" and m: "(i, ms) \<in> set vs"
    and out: "\<And>n. n \<notin> set ms \<Longrightarrow> component_held cl' n = component_held cl n"
  shows "exclusive (delete_first (\<lambda>v. fst v = i) vs) cl'"
proof -
  have d: "distinct (map fst vs)" "distinct (concat (map snd vs))"
    using ex by (simp_all add: exclusive_def)
  have e: "delete_first (\<lambda>v. fst v = i) vs = filter (\<lambda>v. fst v \<noteq> i) vs"
    using d(1) by (rule delete_first_filter)
  have "component_held cl' n = Some True"
    if n: "n \<in> set (concat (map snd (filter (\<lambda>v. fst v \<noteq> i) vs)))" for n
  proof -
    have "n \<notin> set ms" using concat_other[OF d m] n by blast
    moreover have "n \<in> set (concat (map snd vs))" using n by force
    ultimately show ?thesis using ex out by (auto simp: exclusive_def)
  qed
  then have "set (concat (map snd (filter (\<lambda>v. fst v \<noteq> i) vs))) \<subseteq> {n. component_held cl' n = Some True}"
    by blast
  then show ?thesis
    unfolding e exclusive_def using d distinct_map_filter distinct_concat_filter by blast
qed

section \<open>The session engine keeps it\<close>

lemma delete_first_view:
  "map lock_view (delete_first (\<lambda>x. s_id x = i) ss) = delete_first (\<lambda>v. fst v = i) (map lock_view ss)"
  by (induction ss) (auto simp: lock_view_def)

text \<open>The session a pointer stands for is in the list.\<close>

definition in_flight :: "'p session \<Rightarrow> ('h, 'p) world \<Rightarrow> bool" where
  "in_flight s w \<longleftrightarrow> (\<exists>vs. views w = Some vs \<and> lock_view s \<in> set vs)"

lemma in_flight_same: "same_locks w w' \<Longrightarrow> in_flight s w \<Longrightarrow> in_flight s w'"
  by (simp add: same_locks_def in_flight_def)

lemma models_exclusive_same: "same_locks w w' \<Longrightarrow> models_exclusive w \<Longrightarrow> models_exclusive w'"
  by (auto simp: same_locks_def models_exclusive_def split: option.splits)

lemma in_flight_listed: "models_exclusive w \<Longrightarrow> in_flight s w \<Longrightarrow> listed_as s w"
proof -
  assume ex: "models_exclusive w" and fl: "in_flight s w"
  have "lock_view x = lock_view s"
    if "w_sessions w = Some ss" "find (\<lambda>x. s_id x = s_id s) ss = Some x" for ss x
  proof -
    have x: "x \<in> set ss" "s_id x = s_id s" using that(2) find_Some_mem by fast+
    have "lock_view s \<in> lock_view ` set ss" using fl that(1) by (auto simp: in_flight_def views_def)
    then obtain y where y: "y \<in> set ss" "lock_view y = lock_view s" by fastforce
    have "distinct (map s_id ss)"
      using ex that by (simp add: models_exclusive_def views_def exclusive_def lock_view_def comp_def)
    moreover have "s_id y = s_id s" using y by (simp add: lock_view_def)
    ultimately have "x = y" using x y by (metis distinct_map inj_onD)
    then show ?thesis using y by simp
  qed
  then show ?thesis by (simp add: listed_as_def)
qed

lemma released_components_other:
  "n \<notin> set (claimed s) \<Longrightarrow>
   component_held (snd (released s w)) n = component_held (w_components w) n"
  using unlock_step0_component_other[of s "w_resources w" "w_components w" _ _ _ n]
  by (auto simp: released_def claimed_def) (metis prod.collapse)

lemma stop_keeps_exclusive:
  assumes ex: "models_exclusive w" and fl: "in_flight s w"
  shows "models_exclusive (snd (session_step_stop J s root w))"
proof -
  obtain ret w' where w': "session_step_stop J s root w = (ret, w')" by force
  from session_step_stop_locks[OF w'] show ?thesis
  proof
    assume "ret \<noteq> 0 \<and> same_locks w w'"
    then show ?thesis using w' models_exclusive_same ex by auto
  next
    assume a: "ret = 0 \<and> (w_resources w', w_components w') = released s w \<and>
      w_sessions w' = map_option (delete_first (\<lambda>x. s_id x = s_id s)) (w_sessions w)"
    obtain vs where vs: "views w = Some vs" "(s_id s, claimed s) \<in> set vs"
      using fl by (auto simp: in_flight_def lock_view_def)
    have "w_components w' = snd (released s w)" using a by (metis snd_conv)
    then have out: "n \<notin> set (claimed s) \<Longrightarrow>
        component_held (w_components w') n = component_held (w_components w) n" for n
      by (simp add: released_components_other)
    have "views w' = Some (delete_first (\<lambda>v. fst v = s_id s) vs)"
      using a vs(1) by (auto simp: views_def delete_first_view)
    moreover have "exclusive vs (w_components w)" using ex vs(1) by (simp add: models_exclusive_def)
    ultimately show ?thesis
      using exclusive_delete[OF _ vs(2) out] w' by (simp add: models_exclusive_def)
  qed
qed

lemma step_keeps_exclusive:
  assumes ex: "models_exclusive w" and fl: "in_flight s w"
    and st: "session_step J (Some s) root w = Some (ret, w')"
  shows "models_exclusive w'"
  using session_step_locks[OF st in_flight_listed[OF ex fl]]
proof (elim disjE exE conjE)
  assume "same_locks w w'"
  then show ?thesis using ex models_exclusive_same by blast
next
  fix s1 w1
  assume s1: "same_locks w w1" "lock_view s1 = lock_view s"
    and eq: "w' = snd (session_step_stop J s1 root w1)"
  have "in_flight s1 w1" using in_flight_same[OF s1(1) fl] s1(2) by (simp add: in_flight_def)
  then show ?thesis
    unfolding eq using stop_keeps_exclusive models_exclusive_same[OF s1(1) ex] by blast
qed

lemma step_update_keeps_exclusive:
  assumes ex: "models_exclusive w" and fl: "in_flight s w"
    and up: "session_step_update J s root code data w = Some w'"
  shows "models_exclusive w'"
proof -
  have same: "same_locks w (w\<lparr>w_json := h\<rparr>)" for h by (rule same_locksI) simp_all
  have ex': "models_exclusive (w\<lparr>w_json := h\<rparr>)" "in_flight s (w\<lparr>w_json := h\<rparr>)" for h
    using models_exclusive_same[OF same ex] in_flight_same[OF same fl] by blast+
  have dec: "models_exclusive v'"
    if "session_node_decref_wait J (Some s) root v = Some v'" "models_exclusive v" "in_flight s v"
    for v v'
  proof -
    let ?s1 = "s\<lparr>s_curr_wait := s_curr_wait s - 1\<rparr>"
    have lv: "lock_view ?s1 = lock_view s"
      by (simp add: lock_view_def claimed_def is_writer_def chain_models_def)
    have sl: "same_locks v (session_store ?s1 v)"
      using session_store_locks[OF in_flight_listed[OF that(2,3)] lv] by simp
    have ex1: "models_exclusive (session_store ?s1 v)" "in_flight ?s1 (session_store ?s1 v)"
      using models_exclusive_same[OF sl that(2)] in_flight_same[OF sl that(3)] lv
      by (simp_all add: in_flight_def)
    show ?thesis
      using that(1) ex1 step_keeps_exclusive[OF ex1]
      by (auto simp: session_node_decref_wait_def Let_def split: if_splits)
  qed
  show ?thesis
    using up ex' dec stop_keeps_exclusive[OF ex']
    by (auto simp: session_step_update_def Let_def split: prod.splits if_splits)
qed

lemma flush_keeps_exclusive:
  assumes "models_exclusive w" "distinct (map s_id fs)" "\<forall>f \<in> set fs. in_flight f w"
  shows "models_exclusive (flush_sessions J fs w)"
  using assms
proof (induction fs arbitrary: w)
  case Nil
  then show ?case by simp
next
  case (Cons f fs)
  let ?w = "snd (session_step_stop J f None w)"
  obtain ret w' where w': "session_step_stop J f None w = (ret, w')" by force
  have "in_flight g ?w" if "g \<in> set fs" for g
  proof -
    have g: "in_flight g w" "s_id g \<noteq> s_id f"
      using Cons.prems(2,3) that by (simp_all, metis image_eqI)
    from session_step_stop_locks[OF w'] show ?thesis
    proof (elim disjE conjE)
      assume "same_locks w w'"
      then show ?thesis using in_flight_same g w' by simp
    next
      assume "w_sessions w' = map_option (delete_first (\<lambda>x. s_id x = s_id f)) (w_sessions w)"
      moreover have "v \<in> set (delete_first (\<lambda>v. fst v = i) vs)" if "v \<in> set vs" "fst v \<noteq> i"
        for v :: "32 word \<times> string list" and vs i
        using that by (induction vs) auto
      ultimately show ?thesis
        using g w' by (auto simp: in_flight_def views_def delete_first_view lock_view_def)
    qed
  qed
  then show ?case using Cons by (simp add: stop_keeps_exclusive)
qed

text \<open>Aging changes times to live only.\<close>

lemma session_age_view: "session_age pt s = Some (s1, b) \<Longrightarrow> lock_view s1 = lock_view s"
  by (auto simp: session_age_def current_chain_def lock_view_def claimed_def is_writer_def
      chain_models_def map_list_update_same Let_def split: if_splits prod.splits)

lemma age_sessions_views:
  "age_sessions pt ss = Some (ss1, fs) \<Longrightarrow> map lock_view ss1 = map lock_view ss \<and>
   set (map lock_view fs) \<subseteq> set (map lock_view ss) \<and>
   (distinct (map s_id ss) \<longrightarrow> distinct (map s_id fs))"
proof (induction ss arbitrary: ss1 fs)
  case Nil
  then show ?case by simp
next
  case (Cons s ss)
  then obtain s1 b ss2 fs2 where s1: "session_age pt s = Some (s1, b)"
    and r: "age_sessions pt ss = Some (ss2, fs2)" "ss1 = s1 # ss2" "fs = (if b then s1 # fs2 else fs2)"
    by (auto split: option.splits)
  have v: "lock_view s1 = lock_view s" using session_age_view[OF s1] .
  then have i: "s_id s1 = s_id s" by (simp add: lock_view_def)
  have "set (map s_id fs2) \<subseteq> set (map s_id ss)"
    using Cons.IH[OF r(1)] by (auto simp: lock_view_def image_iff)
  then show ?case using Cons.IH[OF r(1)] v i r by (cases b) auto
qed

lemma decref_ttl_keeps_exclusive:
  assumes ex: "models_exclusive w" and up: "session_decref_ttl J pt w = Some w'"
  shows "models_exclusive w'"
proof (cases "w_sessions w")
  case None
  then show ?thesis using up ex by (simp add: session_decref_ttl_def)
next
  case (Some ss)
  then obtain ss1 fs where a: "age_sessions pt ss = Some (ss1, fs)"
    and w': "w' = flush_sessions J fs (w\<lparr>w_sessions := Some ss1\<rparr>)"
    using up by (auto simp: session_decref_ttl_def split: option.splits)
  have v: "views (w\<lparr>w_sessions := Some ss1\<rparr>) = views w"
    using age_sessions_views[OF a] Some by (simp add: views_def)
  then have same: "same_locks w (w\<lparr>w_sessions := Some ss1\<rparr>)" by (simp add: same_locks_def)
  have "distinct (map s_id ss)"
    using ex Some by (simp add: models_exclusive_def views_def exclusive_def lock_view_def comp_def)
  then show ?thesis
    unfolding w' using age_sessions_views[OF a] models_exclusive_same[OF same ex] Some
    by (intro flush_keeps_exclusive) (auto simp: in_flight_def views_def)
qed


section \<open>Registration keeps it\<close>

text \<open>A handler that touches no session and takes no lock away.\<close>

definition harmless :: "('h, 'p) world \<Rightarrow> ('h, 'p) world \<Rightarrow> bool" where
  "harmless w w' \<longleftrightarrow> w_sessions w' = w_sessions w \<and> keeps_locks (w_components w) (w_components w')"

lemma harmlessI:
  "w_sessions w' = w_sessions w \<Longrightarrow> w_components w' = w_components w \<Longrightarrow> harmless w w'"
  by (simp add: harmless_def)

lemma harmless_refl [simp]: "harmless w w"
  by (simp add: harmless_def)

lemma harmless_trans: "harmless a b \<Longrightarrow> harmless b c \<Longrightarrow> harmless a c"
  by (auto simp: harmless_def intro: keeps_locks_trans)

lemma harmless_exclusive: "harmless w w' \<Longrightarrow> models_exclusive w \<Longrightarrow> models_exclusive w'"
  by (auto simp: harmless_def models_exclusive_def views_def intro: exclusive_keeps split: option.splits)

text \<open>A handler that only answers: neither the sessions nor the registries change.\<close>

definition same_tables :: "('h, 'p) world \<Rightarrow> ('h, 'p) world \<Rightarrow> bool" where
  "same_tables w w' \<longleftrightarrow> w_sessions w' = w_sessions w \<and> w_components w' = w_components w \<and>
     w_resources w' = w_resources w"

lemma same_tablesI:
  "w_sessions w' = w_sessions w \<Longrightarrow> w_components w' = w_components w \<Longrightarrow>
   w_resources w' = w_resources w \<Longrightarrow> same_tables w w'"
  by (simp add: same_tables_def)

lemma same_tables_refl [simp]: "same_tables w w"
  by (simp add: same_tables_def)

lemma same_tables_trans: "same_tables a b \<Longrightarrow> same_tables b c \<Longrightarrow> same_tables a c"
  by (simp add: same_tables_def)

lemma same_tables_harmless: "same_tables w w' \<Longrightarrow> harmless w w'"
  by (simp add: same_tables_def harmless_def)

lemma component_add_node_keeps:
  "keeps_locks cl (snd (snd (component_add_node m cl name d t r hk n ttl l)))"
  by (auto simp: keeps_locks_def component_add_node_def component_held_def find_append Let_def
      split: option.splits prod.splits)

lemma component_delete_keeps: "keeps_locks cl (snd (component_delete_first_name cl name))"
proof -
  have "component_held (Some (delete_first (\<lambda>c. c_name c = k) cs)) n = Some True"
    if "component_held (Some cs) n = Some True" "find (\<lambda>c. c_name c = k) cs = Some c" "c_lock c = 0"
    for cs k n c
    using that by (cases "n = k") (auto simp: component_held_def find_key_delete_first_other)
  then show ?thesis
    by (auto simp: keeps_locks_def component_delete_first_name_def split: option.splits)
qed

lemma register_create_harmless:
  "register_create nm ds rl hk n ttl rs rn w = Some (st, msg, tn, w') \<Longrightarrow> harmless w w'"
  by (auto simp: register_create_def harmless_def Let_def component_add_node_keeps case_prod_beta
      split: option.splits if_splits)

lemma register_delete_harmless:
  "register_delete nm w = Some (st, msg, w') \<Longrightarrow> harmless w w'"
  by (auto simp: register_delete_def harmless_def Let_def component_delete_keeps case_prod_beta
      split: option.splits if_splits)

lemma register_refuse_tables: "same_tables w (register_refuse J sid method topic e w)"
  by (rule same_tablesI) (simp_all add: register_refuse_def frame_simps split: prod.split)

lemma register_error_tables: "same_tables w (register_error_response J i me tp st ms lg w)"
  by (rule same_tablesI) (simp_all add: frame_simps)

lemma register_response_tables: "same_tables w (snd (register_response J i me tp st tu w))"
  by (rule same_tablesI) (simp_all add: frame_simps)

lemmas register_refuse_harmless = same_tables_harmless[OF register_refuse_tables]
lemmas register_error_harmless = same_tables_harmless[OF register_error_tables]

lemma register_create_request_harmless:
  assumes "register_create_request J sid method topic data name w = Some (r, w')"
  shows "harmless w w'"
proof -
  obtain m1 q where a: "register_attributes J (w_json w) data (w_heap w) = (m1, q)" by force
  have h: "harmless w (w\<lparr>w_heap := m1\<rparr>)" by (rule harmlessI) simp_all
  show ?thesis
  proof (cases "\<exists>p. q = Some (Inr p)")
    case False
    then obtain e where e: "q = Some (Inl e)"
      using assms a by (auto simp: register_create_request_def split: option.splits sum.splits)
    have "w' = register_refuse J sid method topic e (w\<lparr>w_heap := m1\<rparr>)"
      using assms a e by (simp add: register_create_request_def)
    then show ?thesis using harmless_trans[OF h register_refuse_harmless] by simp
  next
    case True
    then obtain p where Inr: "q = Some (Inr p)" ..
    have fin: "harmless w1 (snd (register_response J sid method (Some topic) st tn w1))" for st tn w1
      by (rule harmlessI) (simp_all add: frame_simps)
    from Inr obtain st msg tn w1 where c: "register_create (Some name) (Some (q_description p))
        (Some (q_role p)) (fst (q_hook p)) (snd (q_hook p)) (q_ttl p) (fst (q_resources p))
        (snd (q_resources p)) (w\<lparr>w_heap := m1\<rparr>) = Some (st, msg, tn, w1)"
      and e: "w' = snd (register_response J sid method (Some topic) st tn w1) \<or>
        w' = register_error_response J sid method (Some topic) st (Some msg) (Some []) w1"
      using assms a Inr by (auto simp: register_create_request_def split: option.splits if_splits)
    show ?thesis
      using e harmless_trans[OF harmless_trans[OF h register_create_harmless[OF c]]]
        fin register_error_harmless by blast
  qed
qed

lemma register_procedure_harmless:
  assumes "register_procedure J sid method topic data w0 = Some (r, w')"
  shows "harmless w0 w'"
proof -
  obtain w where w: "w = (if length topic < SANJI_REGISTER_RESOURCE_LEN \<or>
      \<not> strncmp_eq SANJI_REGISTER_RESOURCE_LEN topic SANJI_REGISTER_RESOURCE
    then register_refuse J sid method topic
      (wrong_register_context (quoted ''resource'' @ '' didn'' @ apostrophe # ''t match'')) w0
    else w0)" by simp
  have h: "harmless w0 w" by (simp add: w register_refuse_harmless)
  have "harmless w w'"
    using assms register_refuse_harmless register_create_request_harmless
      harmless_trans[OF register_delete_harmless register_error_harmless] register_error_harmless
    unfolding register_procedure_def register_check_topic_def register_other_method_def Let_def w[symmetric]
    by (auto split: if_splits sum.splits option.splits prod.splits)
  then show ?thesis using h harmless_trans by blast
qed

section \<open>Lookups and events keep it\<close>

lemma dependency_read_tables:
  "dependency_read rn w = Some (st, msg, found, w') \<Longrightarrow> same_tables w w'"
  by (auto simp: dependency_read_def same_tables_def split: option.splits prod.splits if_splits sum.splits)

lemma dependency_error_tables: "same_tables w (dependency_error_response J i me tp st ms lg w)"
  by (rule same_tablesI) (simp_all add: frame_simps)

lemma dependency_procedure_tables:
  assumes "lookup_resource_dependency_procedure J sid method topic w0 = Some (r, w')"
  shows "same_tables w0 w'"
proof -
  have fin: "same_tables w1 (snd (dependency_response J sid method (Some topic) st xs w1))" for st xs w1
    by (rule same_tablesI) (simp_all add: frame_simps)
  have rd: "same_tables w v" if "dependency_read_request J sid method topic w = Some (r, v)" for w v
  proof -
    obtain w1 where w1: "w1 = (if length topic = SANJI_RESOURCE_DEPENDENCY_RESOURCE_LEN
        then dependency_error_response J sid method (Some topic) SESSION_CODE_METHOD_NOT_ALLOWED
          (Some ''method not allowed'') (Some ''not support read capability'') w
        else w)" by simp
    have "same_tables w w1" by (simp add: w1 dependency_error_tables)
    moreover have "same_tables w1 v"
      using that dependency_error_tables same_tables_trans[OF dependency_read_tables fin]
        same_tables_trans[OF dependency_read_tables dependency_error_tables]
      unfolding dependency_read_request_def Let_def w1[symmetric]
      by (auto split: if_splits option.splits)
    ultimately show ?thesis by (rule same_tables_trans)
  qed
  obtain w where w: "w = (if length topic < SANJI_RESOURCE_DEPENDENCY_RESOURCE_LEN \<or>
      \<not> strncmp_eq SANJI_RESOURCE_DEPENDENCY_RESOURCE_LEN topic SANJI_RESOURCE_DEPENDENCY_RESOURCE
    then dependency_error_response J sid method (Some topic) SESSION_CODE_BAD_REQUEST
      (Some ''wrong context'')
      (Some (quoted ''resource'' @ '' didn'' @ apostrophe # ''t match'')) w0
    else w0)" by simp
  have h: "same_tables w0 w" by (simp add: w dependency_error_tables)
  have "same_tables w w'"
    using assms rd
    unfolding lookup_resource_dependency_procedure_def Let_def w[symmetric]
    by (auto simp: dependency_error_tables split: if_splits)
  then show ?thesis using h same_tables_trans by blast
qed

lemma event_broadcast_tables: "same_tables w (event_broadcast p ns w)"
proof (induction ns arbitrary: w)
  case Nil
  then show ?case by simp
next
  case (Cons n ns)
  have "same_tables w (snd (sanji_response t (Some p) w))" for t
    by (rule same_tablesI) (simp_all add: frame_simps)
  from same_tables_trans[OF this Cons] show ?case using Cons by simp
qed

lemma routing_event_tables: "same_tables w (snd (routing_event J root topic w))"
proof -
  have h: "same_tables w (w\<lparr>w_heap := m\<rparr>)" for m by (rule same_tablesI) simp_all
  show ?thesis
    using h same_tables_trans[OF h event_broadcast_tables]
    by (auto simp: routing_event_def split: option.split prod.split)
qed


lemmas dependency_procedure_harmless = same_tables_harmless[OF dependency_procedure_tables]
lemmas routing_event_harmless = same_tables_harmless[OF routing_event_tables]

section \<open>Requests keep it\<close>

text \<open>Every model that enters the chain was registered and free when it was visited.\<close>

definition models_free :: "components \<Rightarrow> model_chain list \<Rightarrow> bool" where
  "models_free cs mcs \<longleftrightarrow>
     set (concat (map mc_models mcs)) \<subseteq> {n. component_held cs n = Some False}"

lemma visit_write_models:
  "visit_write cs rs n m ch = (m', Inr ch') \<Longrightarrow> ch_models ch' = ch_models ch"
  by (auto simp: visit_write_def Let_def split: prod.splits option.splits)

lemma visit_model_models:
  assumes "visit_model cs rs me c m ch = (m', Inr ch')"
  shows "c_lock c = 0 \<and> mc_models (ch_models ch') = mc_models (ch_models ch) @ [c_name c]"
proof -
  have "c_lock c = 0"
    using assms by (auto simp: visit_model_def component_node_is_locked_def signed_eq_0_iff split: if_splits)
  then show ?thesis
    using assms
    by (auto simp: visit_model_def Let_def case_prod_beta component_node_is_locked_def
        dest!: visit_write_models split: if_splits)
qed

lemma visit_view_models:
  "visit_view c m ch = (m', Inr ch') \<Longrightarrow> ch_models ch' = ch_models ch"
  by (auto simp: visit_view_def Let_def split: prod.splits if_splits)

lemma component_lookup_held:
  "component_lookup_node_by_name cs n = Some c \<Longrightarrow> c_lock c = 0 \<Longrightarrow>
   component_held cs (c_name c) = Some False"
  by (auto simp: component_lookup_node_by_name_def component_held_def dest: find_Some_mem
      split: option.splits)

lemma routing_visit_models:
  assumes "routing_visit cs rs me n m ch = (m', Inr ch')"
    and "set (mc_models (ch_models ch)) \<subseteq> {n. component_held cs n = Some False}"
  shows "set (mc_models (ch_models ch')) \<subseteq> {n. component_held cs n = Some False}"
  using assms component_lookup_held[of cs n]
  by (auto simp: routing_visit_def dest!: visit_model_models visit_view_models
      split: option.splits prod.splits sum.splits if_splits)

lemma routing_visits_models:
  "routing_visits cs rs me ns m ch = (m', Inr ch') \<Longrightarrow>
   set (mc_models (ch_models ch)) \<subseteq> {n. component_held cs n = Some False} \<Longrightarrow>
   set (mc_models (ch_models ch')) \<subseteq> {n. component_held cs n = Some False}"
proof (induction ns arbitrary: m ch)
  case Nil
  then show ?case by simp
next
  case (Cons n ns)
  then obtain m1 ch1 where "routing_visit cs rs me n m ch = (m1, Inr ch1)"
    and "routing_visits cs rs me ns m1 ch1 = (m', Inr ch')"
    by (auto split: prod.splits sum.splits)
  then show ?case using Cons routing_visit_models by blast
qed

lemma routing_rounds_models:
  assumes "do_rounds (routing_round cs rs me) fs (m, [], [], []) = Some (Inr (m', mcs, deps, vs))"
  shows "models_free cs mcs"
proof -
  have "\<forall>m mcs deps vs. s1 = (m, mcs, deps, vs) \<longrightarrow> models_free cs mcs"
    if "\<forall>m mcs deps vs. s = (m, mcs, deps, vs) \<longrightarrow> models_free cs mcs"
      "routing_round cs rs me fs s = Inr (gs, s1)" for fs s gs s1
    using that routing_visits_models
    by (fastforce simp: routing_round_def Let_def models_free_def
        split: prod.splits sum.splits if_splits)
  from do_rounds_invariant[where I = "\<lambda>s. \<forall>m mcs deps vs. s = (m, mcs, deps, vs) \<longrightarrow> models_free cs mcs",
      OF assms _ this]
  show ?thesis by (auto simp: models_free_def)
qed

lemma routing_error_responses_tables:
  "same_tables w (snd (routing_error_responses J sid me tp st msg lg rl w))"
proof -
  have v: "same_tables w (view_errors J sid me tp st msg lg ns w)" for ns and w :: "('a, 'b) world"
  proof (induction ns arbitrary: w)
    case Nil
    then show ?case by simp
  next
    case (Cons n ns)
    have "same_tables w (snd (sanji_error_response J t sid me (Some tp) sg st msg lg w))" for t sg
      by (rule same_tablesI) (simp_all add: frame_simps)
    from same_tables_trans[OF this Cons] show ?case using Cons by simp
  qed
  show ?thesis
  proof (induction rl arbitrary: w)
    case Nil
    then show ?case by simp
  next
    case (Cons r rl)
    have "same_tables w (snd (routing_error_response J (Some r) sid me tp st msg lg w))"
      by (simp add: routing_error_response_def v)
    from same_tables_trans[OF this Cons] this show ?case by (simp add: Let_def case_prod_beta)
  qed
qed

lemma routing_error_response_all_tables:
  assumes "routing_error_response_all J tn rl n sid me tp st msg lg w = Some (r, w')"
  shows "same_tables w w'"
proof -
  have "same_tables w (snd (sanji_error_response J t sid me (Some tp) sg st msg lg w))" for t sg
    by (rule same_tablesI) (simp_all add: frame_simps)
  moreover have "same_tables w (snd (routing_error_responses J sid me tp st msg lg rs w))" for rs
    by (rule routing_error_responses_tables)
  ultimately show ?thesis
    using assms by (auto simp: routing_error_response_all_def split: if_splits option.splits)
       (metis snd_conv)+
qed

lemma routing_refuse_tables:
  "routing_refuse J tn rl n sid me tp st msg lg w = Some (r, w') \<Longrightarrow> same_tables w w'"
  using routing_error_response_all_tables by (fastforce simp: routing_refuse_def)


lemmas routing_error_response_all_harmless = same_tables_harmless[OF routing_error_response_all_tables]
lemmas routing_refuse_harmless = same_tables_harmless[OF routing_refuse_tables]

text \<open>A fresh session with free models, locked or reading, joins and takes its first step.\<close>

lemma joined_exclusive:
  assumes ex: "models_exclusive w" and ss: "w_sessions w = Some ss"
    and fresh: "s_id s \<notin> s_id ` set ss"
    and free: "set (chain_models s) \<subseteq> {n. component_held (w_components w) n = Some False}"
    and lk: "(if resource_is_write_like_method (s_method s)
      then session_node_lock_by_step (Some s) (w_resources w) (w_components w) 0
      else (0, w_resources w, w_components w)) = (0, rs1, cs1)"
  shows "models_exclusive (w\<lparr>w_resources := rs1, w_components := cs1, w_sessions := Some (ss @ [s])\<rparr>)"
proof -
  have exv: "exclusive (map lock_view ss) (w_components w)"
    using ex ss by (simp add: models_exclusive_def views_def)
  have "exclusive (map lock_view ss @ [(s_id s, claimed s)]) cs1"
  proof (cases "is_writer s")
    case wr: True
    then have lk0: "session_node_lock_by_step (Some s) (w_resources w) (w_components w) 0 = (0, rs1, cs1)"
      using lk by (simp add: is_writer_def)
    then obtain rs cs where reg: "w_resources w = Some rs" "w_components w = Some cs"
      by (cases "w_resources w"; cases "w_components w")
        (simp_all add: session_node_lock_by_step_def)
    have "distinct (chain_models s)"
      using lk0 lock_step0_ok_iff[of s rs cs] by (simp add: reg)
    moreover have "component_held cs1 =
        (\<lambda>n. if n \<in> set (chain_models s) then Some True else component_held (w_components w) n)"
      using lock_step0_held(2)[of s rs cs rs1 cs1] lk0 unfolding reg by blast
    ultimately show ?thesis
      using exclusive_snoc[OF exv, of "s_id s" "claimed s" cs1] fresh free wr
      by (force simp: claimed_def lock_view_def)
  next
    case False
    then show ?thesis
      using lk exv fresh by (auto simp: is_writer_def claimed_def exclusive_def lock_view_def)
  qed
  then show ?thesis by (simp add: models_exclusive_def views_def lock_view_def)
qed

lemma routing_start_keeps_exclusive:
  assumes ex: "models_exclusive w" and ss: "w_sessions w = Some ss"
    and fresh: "s_id s \<notin> s_id ` set ss"
    and free: "set (chain_models s) \<subseteq> {n. component_held (w_components w) n = Some False}"
    and st: "routing_start J root rl s sid me tp tn w = Some (r, w')"
  shows "models_exclusive w'"
proof -
  obtain ret rs1 cs1 where lk: "(if resource_is_write_like_method (s_method s)
      then session_node_lock_by_step (Some s) (w_resources w) (w_components w) 0
      else (0, w_resources w, w_components w)) = (ret, rs1, cs1)"
    by (metis prod_cases3)
  let ?w1 = "w\<lparr>w_resources := rs1, w_components := cs1\<rparr>"
  have exv: "exclusive (map lock_view ss) (w_components w)"
    using ex ss by (simp add: models_exclusive_def views_def)
  have mono: "keeps_locks (w_components w) cs1"
    using lk lock_step0_component_mono[of s "w_resources w" "w_components w" 0]
    by (auto simp: keeps_locks_def split: if_splits) (metis lock_step0_component_mono)
  show ?thesis
  proof (cases "ret = 0")
    case True
    let ?w2 = "?w1\<lparr>w_sessions := snd (session_add (w_sessions ?w1) (Some s))\<rparr>"
    have "models_exclusive ?w2"
      using joined_exclusive[OF ex ss fresh free lk[unfolded True]] ss by (simp add: session_add_def)
    moreover have "in_flight s ?w2" using ss by (simp add: views_def session_add_def in_flight_def)
    ultimately have "models_exclusive ?w2" "in_flight s ?w2" .
    from step_keeps_exclusive[OF this] show ?thesis
      using st True lk by (auto simp: routing_start_def)
  next
    case False
    have h1: "harmless w ?w1" using mono by (simp add: harmless_def)
    obtain r1 v where er: "routing_error_response_all J tn (Some rl) (length rl) sid me tp
        SESSION_CODE_SERVICE_UNAVAILABLE (Some ''service unavailable'')
        (Some ''failed to lock resource'') ?w1 = Some (r1, v)"
      and w': "\<exists>ret2 rs2 cs2 h. session_node_unlock_by_step (Some s) (w_resources v) (w_components v) 0 =
          (ret2, rs2, cs2) \<and> w' = v\<lparr>w_resources := rs2, w_components := cs2, w_json := h\<rparr>"
    proof -
      have "map_option (\<lambda>r. case session_node_unlock_by_step (Some s) (w_resources (snd r))
              (w_components (snd r)) 0 of (_, rs2, cs2) \<Rightarrow>
            (1, (snd r)\<lparr>w_resources := rs2, w_components := cs2,
               w_json := json_decref J (w_json (snd r)) (s_result_chain s)\<rparr>))
          (routing_error_response_all J tn (Some rl) (length rl) sid me tp
             SESSION_CODE_SERVICE_UNAVAILABLE (Some ''service unavailable'')
             (Some ''failed to lock resource'') ?w1) = Some (r, w')"
        using st False unfolding routing_start_def lk Let_def by simp
      then obtain q where q: "routing_error_response_all J tn (Some rl) (length rl) sid me tp
             SESSION_CODE_SERVICE_UNAVAILABLE (Some ''service unavailable'')
             (Some ''failed to lock resource'') ?w1 = Some q"
        and e: "(case session_node_unlock_by_step (Some s) (w_resources (snd q))
              (w_components (snd q)) 0 of (_, rs2, cs2) \<Rightarrow>
            (1, (snd q)\<lparr>w_resources := rs2, w_components := cs2,
               w_json := json_decref J (w_json (snd q)) (s_result_chain s)\<rparr>)) = (r, w')"
        unfolding map_option_eq_Some by blast
      obtain x rs2 cs2 where u: "session_node_unlock_by_step (Some s) (w_resources (snd q))
          (w_components (snd q)) 0 = (x, rs2, cs2)" by (metis prod_cases3)
      show ?thesis using that[of "fst q" "snd q"] q e u by auto
    qed
    have hv: "harmless w v" using h1 routing_error_response_all_harmless[OF er] harmless_trans by blast
    then have ev: "exclusive (map lock_view ss) (w_components v)"
      using harmless_exclusive ex ss by (fastforce simp: models_exclusive_def views_def harmless_def)
    from w' obtain ret2 rs2 cs2 h where
      un: "session_node_unlock_by_step (Some s) (w_resources v) (w_components v) 0 = (ret2, rs2, cs2)"
      and w': "w' = v\<lparr>w_resources := rs2, w_components := cs2, w_json := h\<rparr>" by blast
    have "component_held cs2 n = Some True" if "n \<in> set (concat (map snd (map lock_view ss)))" for n
    proof -
      have "component_held (w_components w) n = Some True" "component_held (w_components v) n = Some True"
        using that exv ev by (auto simp: exclusive_def)
      moreover have "n \<notin> set (chain_models s)" using calculation(1) free by auto
      ultimately show ?thesis using unlock_step0_component_other[OF un] by simp
    qed
    then have "exclusive (map lock_view ss) cs2" using ev by (auto simp: exclusive_def)
    then show ?thesis using w' hv ss by (simp add: models_exclusive_def views_def harmless_def)
  qed
qed

lemma routing_session_keeps_exclusive:
  assumes ex: "models_exclusive w" and ss: "w_sessions w = Some ss" "sid \<notin> s_id ` set ss"
    and free: "models_free (w_components w) mcs"
    and st: "routing_session J root rl sid me tp tn mcs deps vs w = Some (r, w')"
  shows "models_exclusive w'"
proof (cases "mc_models (hd mcs) = []")
  case True
  then show ?thesis
    using st routing_refuse_harmless harmless_exclusive[OF _ ex] by (fastforce simp: routing_session_def)
next
  case False
  obtain rc h1 where rc: "json_new_array J (w_json w) = (rc, h1)" by force
  let ?w1 = "w\<lparr>w_json := h1\<rparr>"
  have ex1: "models_exclusive (v\<lparr>w_json := h\<rparr>)" if "models_exclusive v" for v :: "('a, 'b) world" and h
    by (rule models_exclusive_same[OF same_locksI that]) simp_all
  have exh: "models_exclusive (v\<lparr>w_heap := m\<rparr>)" if "models_exclusive v" for v :: "('a, 'b) world" and m
    by (rule models_exclusive_same[OF same_locksI that]) simp_all
  show ?thesis
  proof (cases "rc = None")
    case True
    then show ?thesis
      using st False rc routing_refuse_harmless harmless_exclusive[OF _ ex1[OF ex]]
      by (fastforce simp: routing_session_def)
  next
    case some: False
    obtain m2 so where cr: "session_create_node (w_heap ?w1) sid me (Some tp) (Some tn) deps rc mcs vs = (m2, so)"
      by force
    show ?thesis
    proof (cases so)
      case None
      then show ?thesis
        using st False rc some cr ex1 exh ex
          harmless_exclusive[OF routing_refuse_harmless exh[OF ex1[OF ex]]]
        by (fastforce simp: routing_session_def)
    next
      case (Some s)
      have s: "s_id s = sid" "chain_models s = concat (map mc_models mcs)"
        using cr Some by (auto simp: session_create_node_def chain_models_def split: prod.splits if_splits)
      have "routing_start J root rl s sid me tp tn (?w1\<lparr>w_heap := m2\<rparr>) = Some (r, w')"
        using st False rc some cr Some by (auto simp: routing_session_def)
      from routing_start_keeps_exclusive[OF exh[OF ex1[OF ex]] _ _ _ this, of ss] show ?thesis
        using ss s free by (simp add: models_free_def)
    qed
  qed
qed

lemma routing_req_keeps_exclusive:
  assumes ex: "models_exclusive w" and st: "routing_req J root sid me tp tn w = Some (r, w')"
  shows "models_exclusive w'"
proof -
  have exh: "models_exclusive (w\<lparr>w_heap := m\<rparr>)" for m
    by (rule models_exclusive_same[OF same_locksI ex]) simp_all
  have rf: "models_exclusive w'"
    if "routing_refuse J tn rl n sid me tp code msg lg (w\<lparr>w_heap := m\<rparr>) = Some (r, w')"
    for m rl n code msg lg
    using harmless_exclusive[OF routing_refuse_harmless[OF that] exh] .
  obtain m1 rlo n where ml: "sanji_match_resource_list (w_heap w) (w_resources w) tp = (m1, rlo, n)"
    by (metis prod_cases3)
  show ?thesis
  proof (cases rlo)
    case None
    then show ?thesis using st ml rf by (auto simp: routing_req_def)
  next
    case (Some rl)
    obtain m2 sub where sub: "sanji_get_subscribed_component m1 [] rl = (m2, sub)" by force
    show ?thesis
    proof (cases "w_sessions w = None \<or> (\<exists>ss. w_sessions w = Some ss \<and> sid \<in> s_id ` set ss)")
      case True
      then have "session_is_inflight (w_sessions w) sid \<noteq> 0"
        by (auto simp: session_is_inflight_def find_None_iff_all split: option.splits)
      then show ?thesis using st ml Some rf by (auto simp: routing_req_def Let_def split: if_splits)
    next
      case False
      then obtain ss where ss: "w_sessions w = Some ss" "sid \<notin> s_id ` set ss" by auto
      let ?body = "routing_round (w_components w) (w_resources w) me"
      have "models_exclusive w'"
        if "do_rounds ?body sub (m2, [], [], []) = Some (Inr (m3, mcs, deps, vs))"
          "routing_session J root rl sid me tp tn mcs deps vs (w\<lparr>w_heap := m3\<rparr>) = Some (r, w')"
        for m3 mcs deps vs
        using routing_session_keeps_exclusive[OF exh _ _ _ that(2), of ss] ss
          routing_rounds_models[OF that(1)] by simp
      then show ?thesis
        using st ml Some sub rf
        by (auto simp: routing_req_def Let_def split: if_splits option.splits sum.splits prod.splits)
    qed
  qed
qed


lemma routing_procedure_keeps_exclusive:
  assumes ex: "models_exclusive w"
    and st: "routing_procedure J root sid me tp tn code data w = Some (r, w')"
  shows "models_exclusive w'"
proof -
  have res: "models_exclusive v" if "routing_res J root sid code data w = Some (x, v)" for x v
  proof (cases "session_lookup_node_by_id (w_sessions w) sid")
    case None
    then show ?thesis using that ex by (simp add: routing_res_def)
  next
    case (Some s)
    then have "in_flight s w"
      by (auto simp: session_lookup_node_by_id_def in_flight_def views_def dest!: find_Some_mem
          split: option.splits)
    then show ?thesis
      using that Some step_update_keeps_exclusive[OF ex] by (auto simp: routing_res_def)
  qed
  show ?thesis
    using st res ex routing_req_keeps_exclusive[OF ex] harmless_exclusive[OF routing_event_harmless ex]
    by (auto simp: routing_procedure_def split: option.splits if_splits)
qed

section \<open>The event loop keeps it\<close>

lemma dispatch_keeps_exclusive:
  assumes ex: "models_exclusive w" and st: "sanji_dispatch_context J tp pl n w = Some (r, w')"
  shows "models_exclusive w'"
proof -
  have j: "models_exclusive (v\<lparr>w_json := h\<rparr>)" if "models_exclusive v" for v :: "('a, 'b) world" and h
    by (rule models_exclusive_same[OF same_locksI that]) simp_all
  have hd: "models_exclusive v'" if "dispatch_handler J tp root x v = Some v'" "models_exclusive v"
    for root x and v v' :: "('a, 'b) world"
    using that routing_procedure_keeps_exclusive
      harmless_exclusive[OF register_procedure_harmless]
      harmless_exclusive[OF dependency_procedure_harmless]
    unfolding dispatch_handler_def
    by (auto split: if_splits) blast+
  show ?thesis
    using st ex j hd
    by (auto simp: sanji_dispatch_context_def Let_def split: if_splits option.splits)
qed

lemma register_builtin_harmless: "harmless w (register_builtin nm ds tp wc w)"
  by (auto simp: register_builtin_def harmless_def Let_def case_prod_beta component_add_node_keeps)

lemma connect_keeps_exclusive:
  assumes "models_exclusive w"
  shows "models_exclusive (snd (sanji_connect_callback w))"
proof -
  obtain m1 rs where 1: "(case w_resources w of None \<Rightarrow> resource_init (w_heap w)
      | Some _ \<Rightarrow> (w_heap w, w_resources w)) = (m1, rs)" by force
  obtain m2 cs where 2: "(case w_components w of None \<Rightarrow> component_init m1
      | Some _ \<Rightarrow> (m1, w_components w)) = (m2, cs)" by force
  obtain m3 ss where 3: "(case w_sessions w of None \<Rightarrow> session_init m2
      | Some _ \<Rightarrow> (m2, w_sessions w)) = (m3, ss)" by force
  let ?w = "w\<lparr>w_heap := m3, w_resources := rs, w_components := cs, w_sessions := ss\<rparr>"
  have k: "keeps_locks (w_components w) cs"
    using 2 by (auto simp: keeps_locks_def component_held_def split: option.splits)
  have "models_exclusive ?w"
  proof (cases "w_sessions w")
    case None
    then show ?thesis
      using 3 by (auto simp: session_init_def models_exclusive_def views_def split: if_splits prod.splits)
  next
    case (Some x)
    then have "harmless w ?w" using 3 k by (simp add: harmless_def)
    then show ?thesis using assms harmless_exclusive by blast
  qed
  from harmless_exclusive[OF harmless_trans[OF register_builtin_harmless register_builtin_harmless] this]
  show ?thesis by (simp add: sanji_connect_callback_def 1 2 3 Let_def)
qed

text \<open>
  The states of the controller: the globals start as null pointers; the client library calls
  the callbacks, the main loop refreshes the sessions, and the environment answers
  allocations and random draws in any way.
\<close>

inductive reachable :: "('h, 'p) jansson \<Rightarrow> ('h, 'p) world \<Rightarrow> bool" for J where
  start: "w_resources w = None \<Longrightarrow> w_components w = None \<Longrightarrow> w_sessions w = None \<Longrightarrow> reachable J w"
| connect: "reachable J w \<Longrightarrow> reachable J (snd (sanji_connect_callback w))"
| message: "reachable J w \<Longrightarrow> sanji_message_callback J msg w = Some w' \<Longrightarrow> reachable J w'"
| refresh: "reachable J w \<Longrightarrow> sanji_refresh_session J last_time now_time w = Some (t, w') \<Longrightarrow>
    reachable J w'"
| environment: "reachable J w \<Longrightarrow> reachable J (w\<lparr>w_heap := m, w_rand := draws, w_json := h\<rparr>)"

lemma reachable_models_exclusive: "reachable J w \<Longrightarrow> models_exclusive w"
proof (induction rule: reachable.induct)
  case (start w)
  then show ?case by (simp add: models_exclusive_def views_def)
next
  case (connect w)
  then show ?case using connect_keeps_exclusive by blast
next
  case (message w msg w')
  then show ?case
    using dispatch_keeps_exclusive
    by (auto simp: sanji_message_callback_def split: if_splits)
next
  case (refresh w last_time now_time t w')
  then show ?case
    using decref_ttl_keeps_exclusive
    by (auto simp: sanji_refresh_session_def Let_def split: if_splits)
next
  case (environment w m draws h)
  show ?case by (rule models_exclusive_same[OF same_locksI environment.IH]) simp_all
qed

text \<open>The invariant on the sessions themselves.\<close>

lemma models_exclusive_sessions:
  assumes "models_exclusive w" "w_sessions w = Some ss"
  shows "distinct (map s_id ss) \<and> distinct (concat (map claimed ss)) \<and>
    list_all (\<lambda>n. component_held (w_components w) n = Some True) (concat (map claimed ss))"
  using assms
  by (auto simp: models_exclusive_def views_def exclusive_def lock_view_def comp_def list_all_iff)

end
