(* ===== verification/Request_Facts.thy ===== *)
theory Request_Facts
  imports Chain_Facts Exclusion
begin

text \<open>
  Properties of request and event routing as a whole (\<open>routing_req\<close>, \<open>routing_event\<close>,
  \<open>dependency_read\<close> of \<open>src/sanji_controller.c\<close>): what a refused request leaves alone, what
  an accepted one locks and sends, who gets an event, and when the search for the chain of a
  request ends.
\<close>

section \<open>Error answers change no registry\<close>

lemma view_errors_frame [frame_simps]:
  "w_sessions (view_errors J sid me tp st msg lg ns w) = w_sessions w"
  "w_resources (view_errors J sid me tp st msg lg ns w) = w_resources w"
  "w_components (view_errors J sid me tp st msg lg ns w) = w_components w"
  by (induction ns arbitrary: w) (simp_all add: frame_simps)

lemma routing_error_response_frame [frame_simps]:
  "w_sessions (snd (routing_error_response J r sid me tp st msg lg w)) = w_sessions w"
  "w_resources (snd (routing_error_response J r sid me tp st msg lg w)) = w_resources w"
  "w_components (snd (routing_error_response J r sid me tp st msg lg w)) = w_components w"
  by (simp_all add: routing_error_response_def frame_simps split: option.split)

lemma routing_error_responses_frame [frame_simps]:
  "w_sessions (snd (routing_error_responses J sid me tp st msg lg rl w)) = w_sessions w"
  "w_resources (snd (routing_error_responses J sid me tp st msg lg rl w)) = w_resources w"
  "w_components (snd (routing_error_responses J sid me tp st msg lg rl w)) = w_components w"
  by (induction rl arbitrary: w) (simp_all add: frame_simps Let_def case_prod_beta)

text \<open>The lists and registries of two worlds are the same.\<close>

definition same_lists :: "('h, 'p) world \<Rightarrow> ('h, 'p) world \<Rightarrow> bool" where
  "same_lists w w' \<longleftrightarrow> w_sessions w' = w_sessions w \<and> w_resources w' = w_resources w \<and>
     w_components w' = w_components w"

lemma error_response_all_same:
  assumes "routing_error_response_all J tn rl n sid me tp st msg lg w = Some (r, w')"
  shows "same_lists w w'"
proof -
  have "w' = snd (sanji_error_response J (Some tn) sid me (Some tp) (Some SANJI_CONTROLLER_NAME) st msg lg w) \<or>
      w' = w \<or> (\<exists>rs. w' = snd (routing_error_responses J sid me tp st msg lg rs w))"
    using assms by (auto simp: routing_error_response_all_def split: if_splits option.splits)
      (metis snd_conv)
  then show ?thesis by (auto simp: same_lists_def frame_simps)
qed

lemma routing_refuse_same:
  "routing_refuse J tn rl n sid me tp st msg lg w = Some (r, w') \<Longrightarrow> r = 1 \<and> same_lists w w'"
  using error_response_all_same by (fastforce simp: routing_refuse_def)

lemma same_lists_heap: "same_lists (w\<lparr>w_heap := m\<rparr>) w' \<longleftrightarrow> same_lists w w'"
  by (simp add: same_lists_def)

section \<open>The matched resources and their subscribers\<close>

lemma matched_subscribers:
  assumes "resources_ok (Some rs)"
  obtains (none) "filter (topic_hits tp) rs = []" "sanji_match_resource_list [] (Some rs) tp = ([], None, 0)"
  | (some) rl where "sanji_match_resource_list [] (Some rs) tp = ([], Some rl, length rl)"
    "distinct rl" "set rl = set (filter (topic_hits tp) rs)" "rl \<noteq> []"
    "sanji_get_subscribed_component [] [] rl = ([], concat (map r_subscribers rl))"
proof -
  obtain l n where l: "sanji_match_resource_list [] (Some rs) tp = ([], l, n)"
    "(l = None) = ({r \<in> set rs. topic_hits tp r} = {})" "l = None \<longrightarrow> n = 0"
    "\<forall>xs. l = Some xs \<longrightarrow> n = length xs \<and> distinct xs \<and> set xs = {r \<in> set rs. topic_hits tp r}"
    using match_list_enough[OF assms, of tp] by blast
  show ?thesis
  proof (cases l)
    case None
    then show ?thesis using l(1-3) by (intro none) (auto simp: filter_empty_conv)
  next
    case (Some rl)
    then show ?thesis using l get_subscribed_enough[of "[]" rl] by (intro some[of rl]) auto
  qed
qed

text \<open>The request is refused before it looks for a chain.\<close>

definition refused_early :: "32 word \<Rightarrow> string \<Rightarrow> resource list \<Rightarrow> ('h, 'p) world \<Rightarrow> bool" where
  "refused_early sid topic rs w \<longleftrightarrow>
     session_is_inflight (w_sessions w) sid \<noteq> 0 \<or>
     list_all (\<lambda>r. r_subscribers r = []) (filter (topic_hits topic) rs) \<or>
     list_ex (\<lambda>r. r_lock r \<noteq> 0) (filter (topic_hits topic) rs)"

lemma refused_early_same:
  assumes "w_heap w = []" "w_resources w = Some rs" "resources_ok (Some rs)"
    and early: "refused_early sid tp rs w"
    and st: "routing_req J root sid me tp tn w = Some (ret, w')"
  shows "ret = 1 \<and> same_lists w w'"
  using assms(3)
proof (cases rule: matched_subscribers[where tp = tp])
  case none
  then show ?thesis
    using st assms(1,2) routing_refuse_same[of J tn None 0 sid me tp]
    by (auto simp: routing_req_def same_lists_heap dest!: routing_refuse_same)
next
  case (some rl)
  have locked: "list_ex (\<lambda>r. resource_node_is_locked (Some r) \<noteq> 0) rl \<or> concat (map r_subscribers rl) = []"
    if "session_is_inflight (w_sessions w) sid = 0"
    using early that some(3)
    by (auto simp: refused_early_def list_ex_iff list_all_iff resource_node_is_locked_def
        signed_eq_0_iff)
  show ?thesis
    using st locked some(1,5)
    unfolding routing_req_def assms(1,2)
    by (auto simp: Let_def same_lists_heap split: if_splits dest!: routing_refuse_same)
qed


section \<open>Events\<close>

lemma tunnel_of_view:
  "component_is_given_role (w_components w) n (Some r) \<noteq> 0 \<Longrightarrow>
   \<exists>t. component_get_tunnel_by_name (w_components w) (Some n) = Some t"
  by (auto simp: component_is_given_role_def component_lookup_node_by_name_def
      component_get_tunnel_by_name_def split: option.splits)

lemma event_broadcast_sent:
  "w_sent (event_broadcast p ns w) = w_sent w @
     map (\<lambda>n. \<lparr>p_topic = component_get_tunnel_by_name (w_components w) (Some n), p_payload = p,
               p_qos = ud_pub_qos (w_ud w), p_retain = ud_retain_sent (w_ud w)\<rparr>)
       (filter (\<lambda>n. component_is_given_role (w_components w) n (Some ''view'') \<noteq> 0) ns)"
proof (induction ns arbitrary: w)
  case Nil
  then show ?case by simp
next
  case (Cons n ns)
  have f: "w_components (snd (sanji_response t (Some p) w)) = w_components w"
    "w_ud (snd (sanji_response t (Some p) w)) = w_ud w" for t
    by (simp_all add: frame_simps)
  show ?case
    using Cons tunnel_of_view[of w n "''view''"]
    by (auto simp: f) (auto simp: sanji_response_def mosquitto_publish_def)
qed

lemma event_broadcast_frame [frame_simps]:
  "w_sessions (event_broadcast p ns w) = w_sessions w"
  "w_resources (event_broadcast p ns w) = w_resources w"
  "w_components (event_broadcast p ns w) = w_components w"
  by (induction ns arbitrary: w) (simp_all add: frame_simps)

section \<open>An accepted request\<close>

text \<open>Who is registered does not depend on the locks.\<close>

lemma dom_component_held: "dom (component_held (Some cs)) = set (map c_name cs)"
  by (auto simp: component_held_def dom_def find_None_iff_all image_iff)

lemma dom_resource_held: "dom (resource_held (Some rs)) = set (map r_name rs)"
  by (auto simp: resource_held_def dom_def find_None_iff_all image_iff)

lemma dom_held_shape:
  "resource_shape (Some rs') = resource_shape (Some rs) \<Longrightarrow>
     dom (resource_held (Some rs')) = dom (resource_held (Some rs))"
  "component_shape (Some cs') = component_shape (Some cs) \<Longrightarrow>
     dom (component_held (Some cs')) = dom (component_held (Some cs))"
proof -
  assume "resource_shape (Some rs') = resource_shape (Some rs)"
  then have "map r_name (map (\<lambda>r. r\<lparr>r_lock := 0\<rparr>) rs') = map r_name (map (\<lambda>r. r\<lparr>r_lock := 0\<rparr>) rs)"
    by (simp add: resource_shape_def)
  then have "map r_name rs' = map r_name rs" by (simp add: comp_def)
  then show "dom (resource_held (Some rs')) = dom (resource_held (Some rs))"
    by (simp only: dom_resource_held)
next
  assume "component_shape (Some cs') = component_shape (Some cs)"
  then have "map c_name (map (\<lambda>r. r\<lparr>c_lock := 0\<rparr>) cs') = map c_name (map (\<lambda>r. r\<lparr>c_lock := 0\<rparr>) cs)"
    by (simp add: component_shape_def)
  then have "map c_name cs' = map c_name cs" by (simp add: comp_def)
  then show "dom (component_held (Some cs')) = dom (component_held (Some cs))"
    by (simp only: dom_component_held)
qed

text \<open>With free models and dependencies: the session holds all of them and asks its first step.\<close>

lemma lookup_added: "s_id s \<notin> s_id ` set ss \<Longrightarrow> find (\<lambda>x. s_id x = s_id s) (ss @ [s]) = Some s"
  by (induction ss) auto

lemma routing_start_first_step:
  assumes J: "dumps_all J" and ss: "w_sessions w = Some ss" "s_id s \<notin> s_id ` set ss"
    and reg: "w_resources w = Some rs" "w_components w = Some cs"
    and wr: "is_writer s" and ok: "distinct (s_dependency_chain s)" "distinct (chain_models s)"
      "chain_free s (Some rs) (Some cs)"
    and fst: "s_curr_step s = 0" "s_model_chain s = mc # mcs" "length (mc_models mc) < 2 ^ 32"
  shows "\<exists>w' s' payload. routing_start J (Some r) rl s sid me tp tn w = Some (0, w') \<and>
    lookup w' (s_id s) = Some s' \<and> s_curr_step s' = 1 \<and> unat (s_curr_wait s') = length (mc_models mc) \<and>
    resource_held (w_resources w') =
      (\<lambda>n. if n \<in> set (s_dependency_chain s) then Some True else resource_held (Some rs) n) \<and>
    component_held (w_components w') =
      (\<lambda>n. if n \<in> set (chain_models s) then Some True else component_held (Some cs) n) \<and>
    map p_payload (drop (length (w_sent w)) (w_sent w')) = map (\<lambda>n. payload) (mc_models mc) \<and>
    map p_topic (drop (length (w_sent w)) (w_sent w')) =
      map (\<lambda>n. component_get_tunnel_by_name (w_components w') (Some n)) (mc_models mc)"
proof -
  obtain rl1 cl1 where lk: "session_node_lock_by_step (Some s) (Some rs) (Some cs) 0 = (0, rl1, cl1)"
    using ok lock_step0_ok_iff[of s rs cs] by (metis prod.collapse)
  note held = lock_step0_held[OF lk]
  have sh: "resource_shape rl1 = resource_shape (Some rs)" "component_shape cl1 = component_shape (Some cs)"
    using lock_step0_shape[OF lk] by auto
  let ?w1 = "w\<lparr>w_resources := rl1, w_components := cl1, w_sessions := Some (ss @ [s])\<rparr>"
  have w1: "w_resources ?w1 \<noteq> None" "w_components ?w1 \<noteq> None" "s_curr_step s < length (s_model_chain s)"
    "lookup ?w1 (s_id s) = Some s"
    using shape_Some(1)[OF sh(1)] shape_Some(2)[OF sh(2)] fst lookup_added[OF ss(2)]
    by (simp_all add: session_lookup_node_by_id_def)
  obtain t where t: "json_dumps J (step_request J (entered s) (Some r) (w_json w)) (Some r) = Some t"
    using J by (auto simp: dumps_all_def)
  have u: "unat (s_curr_wait (entered s)) = length (mc_models mc)"
    using fst by (simp add: entered_def unsigned_of_nat take_bit_nat_eq_self)
  have i: "s_id (entered s) = s_id s" "s_curr_step (entered s) = 1"
    using fst by (simp_all add: entered_def)
  let ?w2 = "publish_all (map (\<lambda>n. component_get_tunnel_by_name cl1 (Some n)) (mc_models mc)) t
    ((session_store (entered s) ?w1)\<lparr>w_json := step_request J (entered s) (Some r) (w_json w)\<rparr>)"
  have "session_step J (Some s) (Some r) ?w1 = Some (SANJI_SUCCESS, ?w2)"
    using session_step_next[OF w1(1-3), of J r] t fst u by (simp add: Let_def)
  then have "routing_start J (Some r) rl s sid me tp tn w = Some (0, ?w2)"
    using wr lk reg ss(1) by (simp add: routing_start_def is_writer_def session_add_def)
  moreover have "lookup ?w2 (s_id s) = Some (entered s)" using w1(4) by (simp add: lookup_store i)
  ultimately show ?thesis
    using i u held by (intro exI[of _ ?w2] exI[of _ "entered s"] exI[of _ t])
      (simp add: frame_simps publish_all_sent comp_def)
qed


lemma not_in_flight: "sid \<notin> s_id ` set ss \<Longrightarrow> session_is_inflight (Some ss) sid = 0"
  by (auto simp: session_is_inflight_def find_None_iff_all dest!: find_Some_mem split: option.split)

section \<open>A small controller\<close>

text \<open>
  Resource \<open>/a\<close> is served by model \<open>m\<close> and shown by view \<open>v\<close>; model \<open>k\<close> hooks \<open>m\<close> and serves
  \<open>/b\<close>. Model \<open>z\<close> serves \<open>/z\<close> and hooks itself.
\<close>

definition sample_model :: "string \<Rightarrow> string \<Rightarrow> string list \<Rightarrow> component" where
  "sample_model n t hooks =
     \<lparr> c_name = n, c_description = ''model'', c_tunnel = t, c_role = ''model'',
       c_hook = (if hooks = [] then None else Some (pack_slots 32 hooks)),
       c_hook_count = length hooks, c_ttl = 3, c_lock = 0 \<rparr>"

definition sample_resource :: "string \<Rightarrow> string list \<Rightarrow> resource" where
  "sample_resource n subs =
     \<lparr> r_name = n, r_subscribed_component = Some (pack_slots 32 subs),
       r_subscribed_count = length subs, r_lock = 0 \<rparr>"

definition plain_components :: "component list" where
  "plain_components =
     [sample_model ''m'' ''1'' [], sample_model ''k'' ''2'' [''m''],
      (sample_model ''v'' ''3'' [])\<lparr>c_role := ''view''\<rparr>]"

definition plain_resources :: "resource list" where
  "plain_resources = [sample_resource ''/a'' [''m'', ''v''], sample_resource ''/b'' [''k'']]"

definition cyclic_components :: "component list" where
  "cyclic_components = [sample_model ''z'' ''1'' [''z'']]"

definition cyclic_resources :: "resource list" where
  "cyclic_resources = [sample_resource ''/z'' [''z'']]"

definition plain_world :: "resource list \<Rightarrow> component list \<Rightarrow> (unit, json) world" where
  "plain_world rs cs = (initial_world [])\<lparr>w_resources := Some rs, w_components := Some cs,
     w_sessions := Some []\<rparr>"

lemma plain_world_sel [simp]:
  "w_heap (plain_world rs cs) = []" "w_resources (plain_world rs cs) = Some rs"
  "w_components (plain_world rs cs) = Some cs" "w_sessions (plain_world rs cs) = Some []"
  "w_sent (plain_world rs cs) = []"
  by (simp_all add: plain_world_def initial_world_def)

lemma plain_ok: "components_ok (Some plain_components)" "resources_ok (Some plain_resources)"
  "components_ok (Some cyclic_components)" "resources_ok (Some cyclic_resources)"
  by code_simp+

lemma plain_hits:
  "filter (topic_hits ''/a'') plain_resources = [sample_resource ''/a'' [''m'', ''v'']]"
  "filter (topic_hits ''/z'') cyclic_resources = [sample_resource ''/z'' [''z'']]"
  by code_simp+

section \<open>Properties\<close>

text \<open>
  C12. A request refused before its chain is built changes nothing: with memory, when the
  identifier is in flight (or there is no list of sessions), when a matched resource is locked,
  or when the matched resources have no subscriber, the request fails and neither the sessions
  nor the two registries change, locks included. (A write that is refused later, because its
  chain cannot be locked, does change the locks.)
\<close>

theorem early_refusal_changes_nothing:
  assumes "w_heap w = []" "w_resources w = Some rs" "resources_ok (Some rs)"
    and "refused_early sid tp rs w"
    and "routing_req J root sid me tp tn w = Some (ret, w')"
  shows "ret = 1 \<and> w_sessions w' = w_sessions w \<and> w_resources w' = w_resources w \<and>
    w_components w' = w_components w"
  using refused_early_same[OF assms] by (simp add: same_lists_def)

theorem early_refusal_changes_nothing_witness:
  "\<exists>w'. routing_req (static_json []) None 5 RESOURCE_METHOD_UPDATE ''/none'' ''t''
      (plain_world plain_resources plain_components) = Some (1, w') \<and>
    w_components w' = Some plain_components"
proof -
  have "refused_early 5 ''/none'' plain_resources (plain_world plain_resources plain_components)"
    by code_simp
  moreover have "routing_req (static_json []) None 5 RESOURCE_METHOD_UPDATE ''/none'' ''t''
      (plain_world plain_resources plain_components) \<noteq> None" by code_simp
  ultimately show ?thesis
    using early_refusal_changes_nothing[OF _ _ plain_ok(2), of
        "plain_world plain_resources plain_components" 5 "''/none''"]
    by fastforce
qed

text \<open>
  A request ends when the hooks have no cycle: with a rank that sinks along every hook and
  memory available, handling any request returns, whatever the JSON library does.
\<close>

lemma request_ends_without_hook_cycle:
  assumes "w_heap w = []" "w_resources w = Some rs" "resources_ok (Some rs)"
    and "w_components w = Some cs" "components_ok (Some cs)"
    and "hooks_ranked rank cs"
  shows "\<exists>ret w'. routing_req J root sid me tp tn w = Some (ret, w')"
  using routing_req_returns[OF assms, of J root sid me tp tn] by auto

lemma request_ends_without_hook_cycle_witness:
  "\<exists>ret w'. routing_req (static_json []) (Some (JObject [])) 5 RESOURCE_METHOD_UPDATE ''/a'' []
     (plain_world plain_resources plain_components) = Some (ret, w')"
proof -
  have "hooks_ranked (\<lambda>n. if n = ''m'' then 1 else 0) plain_components" by code_simp
  from request_ends_without_hook_cycle[OF plain_world_sel(1,2) plain_ok(2) plain_world_sel(3)
      plain_ok(1) this]
  show ?thesis .
qed

text \<open>
  The lookup of the resources a resource depends on ends when the hooks have no cycle,
  whatever memory there is.
\<close>

lemma dependency_lookup_ends_without_hook_cycle:
  assumes "w_components w = Some cs" "components_ok (Some cs)" "hooks_ranked rank cs"
  shows "\<exists>code message found w'. dependency_read resource w = Some (code, message, found, w')"
  using dependency_read_returns[OF assms, of resource] by auto

lemma dependency_lookup_ends_without_hook_cycle_witness:
  "\<exists>code message found w'. dependency_read (Some ''/a'')
     ((plain_world plain_resources plain_components)\<lparr>w_heap := [True, False]\<rparr>) =
     Some (code, message, found, w')"
proof -
  have "hooks_ranked (\<lambda>n. if n = ''m'' then 1 else 0) plain_components" by code_simp
  then show ?thesis by (intro dependency_lookup_ends_without_hook_cycle) (simp_all add: plain_ok)
qed


text \<open>
  C21. A cycle of hooks makes a write never return: if a write-like request with a fresh
  identifier reaches a resource subscribed by a model of a set in which every model is hooked
  by another one (a model that hooks itself suffices), nothing is locked and memory is
  available, then the search for its chain goes on for ever.
\<close>

theorem hook_cycle_never_answers:
  assumes "w_heap w = []" "w_resources w = Some rs" "resources_ok (Some rs)"
    and "w_components w = Some cs" "components_ok (Some cs)"
    and "w_sessions w = Some ss" "sid \<notin> s_id ` set ss"
    and "list_all (\<lambda>r. r_lock r = 0) rs" "list_all (\<lambda>c. c_lock c = 0) cs"
    and "resource_is_write_like_method me" "hook_cycle cs ns"
    and "r \<in> set rs" "topic_hits tp r" "n \<in> set (r_subscribers r)" "n \<in> set ns"
  shows "routing_req J root sid me tp tn w = None"
  using assms(3)
proof (cases rule: matched_subscribers[where tp = tp])
  case none
  then show ?thesis using assms(12,13) by (auto simp: filter_empty_conv)
next
  case (some rl)
  have n: "n \<in> set (concat (map r_subscribers rl))" using assms(12-14) some(3) by auto
  have free: "session_is_inflight (Some ss) sid = 0"
    "\<not> list_ex (\<lambda>r. resource_node_is_locked (Some r) \<noteq> 0) rl"
    using assms(7,8) some(3) not_in_flight
    by (auto simp: list_ex_iff list_all_iff resource_node_is_locked_def)
  have "do_rounds (routing_round (Some cs) (Some rs) me) (concat (map r_subscribers rl))
      ([], [], [], []) = None"
    using routing_rounds_diverge[OF assms(5,9,10,11,15) n] .
  then show ?thesis
    using some(1,5) n free assms(2,4,6)
    by (simp add: routing_req_def assms(1) Let_def) auto
qed

theorem hook_cycle_never_answers_witness:
  "routing_req (static_json []) (Some (JObject [])) 5 RESOURCE_METHOD_UPDATE ''/z'' []
     (plain_world cyclic_resources cyclic_components) = None"
proof -
  have "hook_cycle cyclic_components [''z'']" "resource_is_write_like_method RESOURCE_METHOD_UPDATE"
    "list_all (\<lambda>r. r_lock r = 0) cyclic_resources" "list_all (\<lambda>c. c_lock c = 0) cyclic_components"
    "topic_hits ''/z'' (sample_resource ''/z'' [''z''])"
    "''z'' \<in> set (r_subscribers (sample_resource ''/z'' [''z'']))"
    by code_simp+
  moreover have "(5 :: 32 word) \<notin> s_id ` set ([] :: json session list)"
    "sample_resource ''/z'' [''z''] \<in> set cyclic_resources" "''z'' \<in> set [''z'']"
    by (simp_all add: cyclic_resources_def)
  ultimately show ?thesis
    using hook_cycle_never_answers[OF plain_world_sel(1,2) plain_ok(4) plain_world_sel(3) plain_ok(3)
        plain_world_sel(4)] by blast
qed

text \<open>
  C11. The chain a request is given follows the hooks: its first step asks subscribers of the
  matched resources, every model of a later step hooks a model of the step before it, and all
  its models are registered and free.
\<close>

theorem chain_follows_hooks:
  assumes "components_ok (Some cs)"
    and "do_rounds (routing_round (Some cs) rs me) subscribed (m, [], [], []) =
      Some (Inr (m', mcs, deps, vs))"
  shows "mcs \<noteq> [] \<and> chain_linked cs subscribed mcs \<and>
    list_all (\<lambda>mc. list_all (\<lambda>n. component_held (Some cs) n = Some False) (mc_models mc)) mcs"
  using routing_rounds_linked[OF assms] routing_rounds_models[OF assms(2)]
  by (auto simp: models_free_def list_all_iff)

theorem chain_follows_hooks_witness:
  "\<exists>mcs deps vs. do_rounds (routing_round (Some plain_components) (Some plain_resources)
      RESOURCE_METHOD_UPDATE) [''m'', ''v''] ([], [], [], []) = Some (Inr ([], mcs, deps, vs)) \<and>
    map mc_models mcs = [[''m''], [''k'']] \<and> deps = [''/a'', ''/b''] \<and> vs = [''v''] \<and>
    chain_linked plain_components [''m'', ''v''] mcs"
proof -
  have e: "do_rounds (routing_round (Some plain_components) (Some plain_resources)
      RESOURCE_METHOD_UPDATE) [''m'', ''v''] ([], [], [], []) =
      Some (Inr ([], [\<lparr>mc_models = [''m''], mc_ttls = [3]\<rparr>, \<lparr>mc_models = [''k''], mc_ttls = [3]\<rparr>],
        [''/a'', ''/b''], [''v'']))"
    by code_simp
  then show ?thesis using chain_follows_hooks[OF plain_ok(1) e] by simp
qed


text \<open>
  C4. A write that is accepted holds what it works on and asks its first models: with a fresh
  identifier, unlocked resources, a chain of distinct models whose first step has one, distinct
  free dependency resources, memory available and a JSON library that builds arrays and
  dumps values, the request succeeds, its session is in the list at step 1 and waits for as
  many answers as its first step has models, all dependency resources and all models of the
  chain are locked in addition to what was, and one and the same payload went to the tunnels
  of the first step's models, in order.
\<close>

theorem accepted_write_locks_and_asks:
  assumes "w_heap w = []" "w_resources w = Some rs" "w_components w = Some cs"
    and "w_sessions w = Some ss" "sid \<notin> s_id ` set ss" "resource_is_write_like_method me"
    and "sanji_match_resource_list [] (Some rs) tp = ([], Some rl, length rl)"
    and "list_all (\<lambda>r. r_lock r = 0) rl" "concat (map r_subscribers rl) \<noteq> []"
    and "do_rounds (routing_round (Some cs) (Some rs) me) (concat (map r_subscribers rl))
        ([], [], [], []) = Some (Inr ([], mc # mcs, deps, vs))"
    and "mc_models mc \<noteq> []" "length (mc_models mc) < 2 ^ 32" "distinct (concat (map mc_models (mc # mcs)))"
    and "distinct deps" "list_all (\<lambda>n. resource_held (Some rs) n = Some False) deps"
    and "dumps_all J" "fst (json_new_array J (w_json w)) \<noteq> None"
  shows "\<exists>w' s' payload. routing_req J (Some root) sid me tp tn w = Some (0, w') \<and>
    lookup w' sid = Some s' \<and> s_curr_step s' = 1 \<and> unat (s_curr_wait s') = length (mc_models mc) \<and>
    resource_held (w_resources w') =
      (\<lambda>n. if n \<in> set deps then Some True else resource_held (Some rs) n) \<and>
    component_held (w_components w') =
      (\<lambda>n. if n \<in> set (concat (map mc_models (mc # mcs))) then Some True
           else component_held (Some cs) n) \<and>
    map p_payload (drop (length (w_sent w)) (w_sent w')) = map (\<lambda>n. payload) (mc_models mc) \<and>
    map p_topic (drop (length (w_sent w)) (w_sent w')) =
      map (\<lambda>n. component_get_tunnel_by_name (w_components w') (Some n)) (mc_models mc)"
proof -
  obtain p h1 where na: "json_new_array J (w_json w) = (Some p, h1)"
    using assms(17) by (metis not_None_eq prod.collapse)
  let ?s = "\<lparr> s_id = sid, s_method = me, s_resource = field_copy RESOURCE_NAME_LEN (Some tp),
     s_tunnel = field_copy COMPONENT_TUNNEL_LEN (Some tn), s_dependency_chain = deps,
     s_result_chain = Some p, s_model_chain = mc # mcs, s_view_chain = vs, s_curr_step = 0,
     s_curr_wait = 0 \<rparr>"
  let ?w = "w\<lparr>w_json := h1, w_heap := []\<rparr>"
  have cm: "chain_models ?s = concat (map mc_models (mc # mcs))" by (simp add: chain_models_def)
  have free: "chain_free ?s (Some rs) (Some cs)"
    using assms(15) routing_rounds_models[OF assms(10)] cm
    by (auto simp: chain_free_def list_all_iff models_free_def)
  have "session_is_inflight (Some ss) sid = 0"
    "\<not> list_ex (\<lambda>r. resource_node_is_locked (Some r) \<noteq> 0) rl"
    using assms(5,8) not_in_flight by (auto simp: list_ex_iff list_all_iff resource_node_is_locked_def)
  then have start: "routing_req J (Some root) sid me tp tn w =
      routing_start J (Some root) rl ?s sid me tp tn ?w"
    using assms(1-4,7,9-11) na get_subscribed_enough[of "[]" rl]
    by (simp add: routing_req_def routing_session_def session_create_node_def Let_def) auto
  show ?thesis
    unfolding start cm[symmetric]
    using routing_start_first_step[of J ?w ss ?s rs cs mc mcs root rl sid me tp tn] assms(2-6,12-14,16)
      free cm by (simp add: is_writer_def)
qed


theorem accepted_write_locks_and_asks_witness:
  "\<exists>w' s'. routing_req (static_json []) (Some (JObject [])) 5 RESOURCE_METHOD_UPDATE ''/a'' []
      (plain_world plain_resources plain_components) = Some (0, w') \<and>
    lookup w' 5 = Some s' \<and> component_held (w_components w') ''k'' = Some True \<and>
    resource_held (w_resources w') ''/b'' = Some True \<and> length (w_sent w') = 1"
proof -
  obtain w rl mc mcs where
    w: "w = plain_world plain_resources plain_components"
    and rl: "rl = [sample_resource ''/a'' [''m'', ''v'']]"
    and mc: "mc = \<lparr>mc_models = [''m''], mc_ttls = [3]\<rparr>" "mcs = [\<lparr>mc_models = [''k''], mc_ttls = [3]\<rparr>]"
    by simp
  have h: "w_heap w = []" "w_resources w = Some plain_resources" "w_sent w = []"
    "w_components w = Some plain_components" "w_sessions w = Some []"
    "(5 :: 32 word) \<notin> s_id ` set ([] :: json session list)"
    "fst (json_new_array (static_json []) (w_json w)) \<noteq> None"
    by (simp_all add: w static_json_def)
  have m: "sanji_match_resource_list [] (Some plain_resources) ''/a'' = ([], Some rl, length rl)"
    unfolding rl by code_simp
  have r: "do_rounds (routing_round (Some plain_components) (Some plain_resources)
      RESOURCE_METHOD_UPDATE) (concat (map r_subscribers rl)) ([], [], [], []) =
      Some (Inr ([], mc # mcs, [''/a'', ''/b''], [''v'']))"
    unfolding rl mc by code_simp
  have d: "resource_is_write_like_method RESOURCE_METHOD_UPDATE"
    "list_all (\<lambda>r. r_lock r = 0) rl" "concat (map r_subscribers rl) \<noteq> []"
    "list_all (\<lambda>n. resource_held (Some plain_resources) n = Some False) [''/a'', ''/b'']"
    "distinct (concat (map mc_models (mc # mcs)))" "distinct [''/a'', ''/b'']"
    unfolding rl mc by code_simp+
  have c: "mc_models mc \<noteq> []" "length (mc_models mc) < 2 ^ 32" "mc_models mc = [''m'']"
    "''k'' \<in> set (concat (map mc_models (mc # mcs)))" by (simp_all add: mc)
  obtain w' s' p where e: "routing_req (static_json []) (Some (JObject [])) 5 RESOURCE_METHOD_UPDATE ''/a'' [] w =
      Some (0, w')" "lookup w' 5 = Some s'"
    "resource_held (w_resources w') =
      (\<lambda>n. if n \<in> set [''/a'', ''/b''] then Some True else resource_held (Some plain_resources) n)"
    "component_held (w_components w') = (\<lambda>n. if n \<in> set (concat (map mc_models (mc # mcs)))
       then Some True else component_held (Some plain_components) n)"
    "map p_payload (drop (length (w_sent w)) (w_sent w')) = map (\<lambda>n. p) (mc_models mc)"
    using accepted_write_locks_and_asks[OF h(1,2,4,5,6) d(1) m d(2,3) r c(1,2) d(5,6,4)
        static_json_dumps h(7), of "JObject []" "[]"] by blast
  have "length (w_sent w') = 1"
    using arg_cong[OF e(5), of length] by (simp add: h(3) c(3))
  then show ?thesis using e(1,2) c(4) by (auto simp: e(3,4) w simp del: map_append)
qed

text \<open>
  C16. A lock that fails takes other sessions' locks away: when a write cannot lock its chain
  because one of its names is locked by somebody else, the handler unlocks the whole chain,
  not only what it locked itself, and afterwards every dependency resource and every model of
  the chain is free, the foreign one included.
\<close>

theorem failed_lock_frees_foreign_locks:
  assumes "w_resources w = Some rs" "w_components w = Some cs" "is_writer s"
    and "fst (session_node_lock_by_step (Some s) (Some rs) (Some cs) 0) \<noteq> 0"
    and "set (s_dependency_chain s) \<subseteq> dom (resource_held (Some rs))"
    and "set (chain_models s) \<subseteq> dom (component_held (Some cs))"
  shows "\<exists>w'. routing_start J root rl s sid me tp tn w = Some (1, w') \<and>
    w_sessions w' = w_sessions w \<and>
    list_all (\<lambda>n. resource_held (w_resources w') n = Some False) (s_dependency_chain s) \<and>
    list_all (\<lambda>n. component_held (w_components w') n = Some False) (chain_models s)"
proof -
  obtain ret rs1 cs1 where lk: "session_node_lock_by_step (Some s) (Some rs) (Some cs) 0 = (ret, rs1, cs1)"
    by (metis prod_cases3)
  have sh: "resource_shape rs1 = resource_shape (Some rs)" "component_shape cs1 = component_shape (Some cs)"
    using lock_step0_shape[OF lk] by auto
  obtain rs2 cs2 where reg: "rs1 = Some rs2" "cs1 = Some cs2"
    using shape_Some(1)[OF sh(1)] shape_Some(2)[OF sh(2)] by auto
  have "set (s_dependency_chain s) \<subseteq> dom (resource_held rs1)"
    "set (chain_models s) \<subseteq> dom (component_held cs1)"
    using assms(5,6) dom_held_shape sh unfolding reg by metis+
  from unlock_step0_held[OF this[unfolded reg]] obtain rl' cl' where
    u: "session_node_unlock_by_step (Some s) rs1 cs1 0 = (0, rl', cl')"
    "list_all (\<lambda>n. resource_held rl' n = Some False) (s_dependency_chain s)"
    "list_all (\<lambda>n. component_held cl' n = Some False) (chain_models s)"
    unfolding reg by (auto simp: list_all_iff)
  let ?w1 = "w\<lparr>w_resources := rs1, w_components := cs1\<rparr>"
  obtain r where r: "routing_error_response_all J tn (Some rl) (length rl) sid me tp
      SESSION_CODE_SERVICE_UNAVAILABLE (Some ''service unavailable'')
      (Some ''failed to lock resource'') ?w1 = Some r"
    using error_response_all_returns(1) by blast
  then have "same_lists ?w1 (snd r)" using error_response_all_same by (metis prod.collapse)
  then show ?thesis
    using assms(1-4) lk r u by (simp add: routing_start_def is_writer_def same_lists_def)
qed


theorem failed_lock_frees_foreign_locks_witness:
  "\<exists>w'. resource_held (Some [sample_resource ''/a'' [''m''], (sample_resource ''/b'' [''k''])\<lparr>r_lock := 1\<rparr>])
      ''/b'' = Some True \<and>
    routing_start (static_json []) None [] sample_session 7 RESOURCE_METHOD_UPDATE ''/a'' ''t''
      (plain_world [sample_resource ''/a'' [''m''], (sample_resource ''/b'' [''k''])\<lparr>r_lock := 1\<rparr>]
         [sample_component]) = Some (1, w') \<and>
    resource_held (w_resources w') ''/b'' = Some False"
proof -
  obtain rs where rs: "rs = [sample_resource ''/a'' [''m''], (sample_resource ''/b'' [''k''])\<lparr>r_lock := 1\<rparr>]"
    by simp
  have f: "is_writer sample_session" "resource_held (Some rs) ''/b'' = Some True"
    "fst (session_node_lock_by_step (Some sample_session) (Some rs) (Some [sample_component]) 0) \<noteq> 0"
    unfolding rs by code_simp+
  have d: "set (s_dependency_chain sample_session) \<subseteq> dom (resource_held (Some rs))"
    "set (chain_models sample_session) \<subseteq> dom (component_held (Some [sample_component]))"
    by (auto simp: dom_resource_held dom_component_held rs sample_resource_def sample_session_def
        chain_models_def sample_component_def)
  have b: "''/b'' \<in> set (s_dependency_chain sample_session)" by (simp add: sample_session_def)
  show ?thesis
    unfolding rs[symmetric]
    using failed_lock_frees_foreign_locks[OF _ _ f(1,3) d, of "plain_world rs [sample_component]"
        "static_json []" None "[]" 7 RESOURCE_METHOD_UPDATE "''/a''" "''t''"] b f(2)
    by (auto simp: list_all_iff)
qed

text \<open>
  C19. An event reaches exactly the views of its resources: with memory available and the event
  dumped, its text is published, unchanged and once per subscription, to the tunnels of the
  subscribers with the view role of the resources that match the topic, each taken once;
  nothing is sent to anybody else and no registry changes.
\<close>

theorem event_reaches_views:
  assumes "w_heap w = []" "w_resources w = Some rs" "resources_ok (Some rs)"
    and "json_dumps J (w_json w) root = Some payload"
  shows "\<exists>rl ret w'. distinct rl \<and> set rl = set (filter (topic_hits tp) rs) \<and>
    routing_event J root tp w = (ret, w') \<and>
    w_sent w' = w_sent w @
      map (\<lambda>n. \<lparr>p_topic = component_get_tunnel_by_name (w_components w) (Some n),
                p_payload = payload, p_qos = ud_pub_qos (w_ud w),
                p_retain = ud_retain_sent (w_ud w)\<rparr>)
        (filter (\<lambda>n. component_is_given_role (w_components w) n (Some ''view'') \<noteq> 0)
           (concat (map r_subscribers rl))) \<and>
    w_sessions w' = w_sessions w \<and> w_resources w' = w_resources w \<and> w_components w' = w_components w"
  using assms(3)
proof (cases rule: matched_subscribers[where tp = tp])
  case none
  then show ?thesis
    using assms(1,2,4) by (intro exI[of _ "[]"]) (simp add: routing_event_def)
next
  case (some rl)
  then show ?thesis
    using assms(1,2,4)
    by (intro exI[of _ rl]) (auto simp: routing_event_def event_broadcast_sent frame_simps)
qed

theorem event_reaches_views_witness:
  "\<exists>ret w'. routing_event (static_json []) (Some (JObject [])) ''/a''
      (plain_world plain_resources plain_components) = (ret, w') \<and>
    map p_topic (w_sent w') = [Some ''3'']"
proof -
  let ?w = "plain_world plain_resources plain_components"
  have d: "json_dumps (static_json []) (w_json ?w) (Some (JObject [])) = Some ''{}''"
    by (simp add: static_json_def)
  obtain rl ret w' where e: "distinct rl" "set rl = set (filter (topic_hits ''/a'') plain_resources)"
    "routing_event (static_json []) (Some (JObject [])) ''/a'' ?w = (ret, w')"
    "map p_topic (w_sent w') = map (\<lambda>n. component_get_tunnel_by_name (Some plain_components) (Some n))
       (filter (\<lambda>n. component_is_given_role (Some plain_components) n (Some ''view'') \<noteq> 0)
          (concat (map r_subscribers rl)))"
    using event_reaches_views[OF plain_world_sel(1,2) plain_ok(2) d, of "''/a''"]
    by (auto simp: comp_def)
  have "rl = [sample_resource ''/a'' [''m'', ''v'']]"
    using e(1,2) unfolding plain_hits by (cases rl; cases "tl rl") auto
  moreover have "map (\<lambda>n. component_get_tunnel_by_name (Some plain_components) (Some n))
       (filter (\<lambda>n. component_is_given_role (Some plain_components) n (Some ''view'') \<noteq> 0)
          (concat (map r_subscribers [sample_resource ''/a'' [''m'', ''v'']]))) = [Some ''3'']"
    by code_simp
  ultimately show ?thesis using e(3,4) by auto
qed

end
