(* ===== verification/Kernel_List.thy ===== *)
theory Kernel_List
  imports Sanji_Prelude
begin

text \<open>
  The doubly linked lists of \<open>src/list.h\<close> on an explicit store. The nodes of the three
  registries embed a \<open>struct list_head\<close>; a list is a ring through the \<open>list_head\<close> of its
  head. The operations are given assignment by assignment, in the order of the code, and
  shown to implement the operations on lists that the theories of the registries are written
  with: appending (\<open>list_add_tail\<close>), walking (\<open>list_for_each\<close>, \<open>list_for_each_entry\<close>) and
  unlinking the first node that satisfies a guard (\<open>list_del\<close>).
\<close>

section \<open>The store\<close>

type_synonym addr = int

record list_head =
  lh_next :: addr
  lh_prev :: addr

type_synonym store = "addr \<Rightarrow> list_head"

definition LIST_POISON1 :: addr where "LIST_POISON1 = 0x00100100"
definition LIST_POISON2 :: addr where "LIST_POISON2 = 0x00200200"

definition set_next :: "addr \<Rightarrow> addr \<Rightarrow> store \<Rightarrow> store" where
  "set_next a v s = s(a := (s a)\<lparr>lh_next := v\<rparr>)"

definition set_prev :: "addr \<Rightarrow> addr \<Rightarrow> store \<Rightarrow> store" where
  "set_prev a v s = s(a := (s a)\<lparr>lh_prev := v\<rparr>)"

section \<open>The operations\<close>

definition INIT_LIST_HEAD :: "addr \<Rightarrow> store \<Rightarrow> store" where
  "INIT_LIST_HEAD ptr s = set_prev ptr ptr (set_next ptr ptr s)"

text \<open>\<open>__list_add\<close> and \<open>__list_del\<close>: the arguments are addresses read before any write.\<close>

definition list_add_between :: "addr \<Rightarrow> addr \<Rightarrow> addr \<Rightarrow> store \<Rightarrow> store" where
  "list_add_between new prev nxt s =
     (let s1 = set_prev nxt new s;
          s2 = set_next new nxt s1;
          s3 = set_prev new prev s2
      in set_next prev new s3)"

definition list_add :: "addr \<Rightarrow> addr \<Rightarrow> store \<Rightarrow> store" where
  "list_add new head s = list_add_between new head (lh_next (s head)) s"

definition list_add_tail :: "addr \<Rightarrow> addr \<Rightarrow> store \<Rightarrow> store" where
  "list_add_tail new head s = list_add_between new (lh_prev (s head)) head s"

definition list_del_between :: "addr \<Rightarrow> addr \<Rightarrow> store \<Rightarrow> store" where
  "list_del_between prev nxt s = set_next prev nxt (set_prev nxt prev s)"

definition list_del :: "addr \<Rightarrow> store \<Rightarrow> store" where
  "list_del entry s =
     (let s1 = list_del_between (lh_prev (s entry)) (lh_next (s entry)) s
      in set_prev entry LIST_POISON2 (set_next entry LIST_POISON1 s1))"

definition list_del_init :: "addr \<Rightarrow> store \<Rightarrow> store" where
  "list_del_init entry s =
     INIT_LIST_HEAD entry (list_del_between (lh_prev (s entry)) (lh_next (s entry)) s)"

definition list_move :: "addr \<Rightarrow> addr \<Rightarrow> store \<Rightarrow> store" where
  "list_move entry head s =
     list_add entry head (list_del_between (lh_prev (s entry)) (lh_next (s entry)) s)"

definition list_move_tail :: "addr \<Rightarrow> addr \<Rightarrow> store \<Rightarrow> store" where
  "list_move_tail entry head s =
     list_add_tail entry head (list_del_between (lh_prev (s entry)) (lh_next (s entry)) s)"

definition list_empty :: "addr \<Rightarrow> store \<Rightarrow> bool" where
  "list_empty head s \<longleftrightarrow> lh_next (s head) = head"

text \<open>\<open>__list_splice\<close>.\<close>

definition list_splice_ring :: "addr \<Rightarrow> addr \<Rightarrow> store \<Rightarrow> store" where
  "list_splice_ring lst head s =
     (let first = lh_next (s lst);
          last = lh_prev (s lst);
          at = lh_next (s head);
          s1 = set_prev first head s;
          s2 = set_next head first s1;
          s3 = set_next last at s2
      in set_prev at last s3)"

definition list_splice :: "addr \<Rightarrow> addr \<Rightarrow> store \<Rightarrow> store" where
  "list_splice lst head s = (if \<not> list_empty lst s then list_splice_ring lst head s else s)"

definition list_splice_init :: "addr \<Rightarrow> addr \<Rightarrow> store \<Rightarrow> store" where
  "list_splice_init lst head s =
     (if \<not> list_empty lst s then INIT_LIST_HEAD lst (list_splice_ring lst head s) else s)"

text \<open>
  The positions a loop visits, forwards and backwards; the walk of a store that is no ring may
  go on for ever, and is then \<open>None\<close>.
\<close>

partial_function (option) walk_next :: "addr \<Rightarrow> store \<Rightarrow> addr \<Rightarrow> addr list option" where
  "walk_next head s pos =
     (if pos = head then Some []
      else Option.bind (walk_next head s (lh_next (s pos))) (\<lambda>ps. Some (pos # ps)))"

partial_function (option) walk_prev :: "addr \<Rightarrow> store \<Rightarrow> addr \<Rightarrow> addr list option" where
  "walk_prev head s pos =
     (if pos = head then Some []
      else Option.bind (walk_prev head s (lh_prev (s pos))) (\<lambda>ps. Some (pos # ps)))"

declare walk_next.simps [code] walk_prev.simps [code]

definition list_for_each :: "addr \<Rightarrow> store \<Rightarrow> addr list option" where
  "list_for_each head s = walk_next head s (lh_next (s head))"

text \<open>The loop that goes on behind a position.\<close>

definition list_for_each_continue :: "addr \<Rightarrow> addr \<Rightarrow> store \<Rightarrow> addr list option" where
  "list_for_each_continue pos head s = walk_next head s (lh_next (s pos))"

definition list_for_each_prev :: "addr \<Rightarrow> store \<Rightarrow> addr list option" where
  "list_for_each_prev head s = walk_prev head s (lh_prev (s head))"

text \<open>
  The loop safe against removal, with a body that may unlink the position: the successor is
  read before the body runs.
\<close>

partial_function (option) list_for_each_safe_from ::
    "addr \<Rightarrow> (addr \<Rightarrow> store \<Rightarrow> store) \<Rightarrow> addr \<Rightarrow> addr \<Rightarrow> store \<Rightarrow> store option" where
  "list_for_each_safe_from head body pos n s =
     (if pos = head then Some s
      else let s1 = body pos s in list_for_each_safe_from head body n (lh_next (s1 n)) s1)"

declare list_for_each_safe_from.simps [code]

definition list_for_each_safe :: "addr \<Rightarrow> (addr \<Rightarrow> store \<Rightarrow> store) \<Rightarrow> store \<Rightarrow> store option" where
  "list_for_each_safe head body s =
     (let pos = lh_next (s head) in list_for_each_safe_from head body pos (lh_next (s pos)) s)"

text \<open>
  The loop \<open>while (!list_empty(&head->list)) { curr = head->list.next; list_del(&curr->list); }\<close>
  by which \<open>component_free\<close>, \<open>resource_free\<close> and \<open>session_free\<close> take their lists apart; the
  nodes in the order they are freed, and the store left.
\<close>

partial_function (option) free_all :: "addr \<Rightarrow> store \<Rightarrow> (addr list \<times> store) option" where
  "free_all head s =
     (if list_empty head s then Some ([], s)
      else let curr = lh_next (s head) in
        Option.bind (free_all head (list_del curr s)) (\<lambda>(ps, s1). Some (curr # ps, s1)))"

declare free_all.simps [code]


section \<open>Rings\<close>

text \<open>Neighbours in the list of addresses point at each other.\<close>

fun linked :: "store \<Rightarrow> addr list \<Rightarrow> bool" where
  "linked s (a # b # xs) \<longleftrightarrow> lh_next (s a) = b \<and> lh_prev (s b) = a \<and> linked s (b # xs)"
| "linked s _ \<longleftrightarrow> True"

definition ring :: "store \<Rightarrow> addr \<Rightarrow> addr list \<Rightarrow> bool" where
  "ring s head xs \<longleftrightarrow> distinct (head # xs) \<and> linked s (head # xs @ [head])"

text \<open>Reading what was written.\<close>

lemma lh_set [simp]:
  "lh_next (set_next a v s b) = (if b = a then v else lh_next (s b))"
  "lh_prev (set_next a v s b) = lh_prev (s b)"
  "lh_prev (set_prev a v s b) = (if b = a then v else lh_prev (s b))"
  "lh_next (set_prev a v s b) = lh_next (s b)"
  by (simp_all add: set_next_def set_prev_def)

lemma set_other [simp]: "b \<noteq> a \<Longrightarrow> set_next a v s b = s b" "b \<noteq> a \<Longrightarrow> set_prev a v s b = s b"
  by (simp_all add: set_next_def set_prev_def)

lemma lh_add_between [simp]:
  "lh_next (list_add_between new p n s b) =
     (if b = p then new else if b = new then n else lh_next (s b))"
  "lh_prev (list_add_between new p n s b) =
     (if b = new then p else if b = n then new else lh_prev (s b))"
  by (simp_all add: list_add_between_def Let_def)

lemma lh_del_between [simp]:
  "lh_next (list_del_between p n s b) = (if b = p then n else lh_next (s b))"
  "lh_prev (list_del_between p n s b) = (if b = n then p else lh_prev (s b))"
  by (simp_all add: list_del_between_def)

lemma lh_init [simp]:
  "lh_next (INIT_LIST_HEAD a s b) = (if b = a then a else lh_next (s b))"
  "lh_prev (INIT_LIST_HEAD a s b) = (if b = a then a else lh_prev (s b))"
  by (simp_all add: INIT_LIST_HEAD_def)

text \<open>Two linked stretches, joined; the cells a stretch depends on.\<close>

lemma linked_join:
  "xs \<noteq> [] \<Longrightarrow> ys \<noteq> [] \<Longrightarrow>
   linked s (xs @ ys) \<longleftrightarrow>
     linked s xs \<and> lh_next (s (last xs)) = hd ys \<and> lh_prev (s (hd ys)) = last xs \<and> linked s ys"
proof (induction s xs rule: linked.induct)
  case (1 s a b xs)
  then show ?case by auto
next
  case "2_2"
  then show ?case by (cases ys) auto
qed simp

lemma linked_frame:
  assumes "\<And>a. a \<in> set (butlast xs) \<Longrightarrow> lh_next (s' a) = lh_next (s a)"
    and "\<And>a. a \<in> set (tl xs) \<Longrightarrow> lh_prev (s' a) = lh_prev (s a)"
  shows "linked s' xs \<longleftrightarrow> linked s xs"
  using assms
proof (induction s xs rule: linked.induct)
  case (1 s a b xs)
  then show ?case by (cases xs) auto
qed simp_all

lemma ring_cong:
  assumes "\<And>a. a \<in> set (head # xs) \<Longrightarrow> s' a = s a"
  shows "ring s' head xs \<longleftrightarrow> ring s head xs"
proof -
  have "linked s' (head # xs @ [head]) \<longleftrightarrow> linked s (head # xs @ [head])"
    by (rule linked_frame) (use assms in \<open>auto dest: in_set_butlastD\<close>)
  then show ?thesis by (simp add: ring_def)
qed

text \<open>A ring cut in two: the stretch up to a place, and the rest back to the head.\<close>

lemma ring_cut:
  "ring s head (xs @ ys) \<longleftrightarrow>
     distinct (head # xs @ ys) \<and> linked s (head # xs) \<and>
     lh_next (s (last (head # xs))) = hd (ys @ [head]) \<and>
     lh_prev (s (hd (ys @ [head]))) = last (head # xs) \<and> linked s (ys @ [head])"
  using linked_join[of "head # xs" "ys @ [head]" s] by (auto simp: ring_def)

lemma hd_notin_tl: "distinct xs \<Longrightarrow> hd xs \<notin> set (tl xs)"
  by (cases xs) auto

lemma in_tl: "a \<in> set (tl xs) \<Longrightarrow> a \<in> set xs"
  by (cases xs) auto

lemma in_tl_snoc: "a \<in> set (tl (xs @ [x])) \<Longrightarrow> a = x \<or> a \<in> set xs"
  by (cases xs) auto

lemma last_notin_butlast: "distinct xs \<Longrightarrow> last xs \<notin> set (butlast xs)"
  by (cases xs rule: rev_cases) auto

lemma place:
  assumes "distinct (head # xs @ ys)"
  shows "last (head # xs) \<notin> set ys" "last (head # xs) \<in> set (head # xs)"
    and "hd (ys @ [head]) \<notin> set xs" "hd (ys @ [head]) \<in> set (head # ys)"
    and "last (head # xs) \<notin> set (butlast (head # xs))" "hd (ys @ [head]) \<notin> set (tl (ys @ [head]))"
proof -
  show "last (head # xs) \<in> set (head # xs)" using last_in_set by blast
  then show "last (head # xs) \<notin> set ys" using assms by auto
  show "hd (ys @ [head]) \<in> set (head # ys)" by (cases ys) auto
  then show "hd (ys @ [head]) \<notin> set xs" using assms by auto
  show "last (head # xs) \<notin> set (butlast (head # xs))"
    using assms by (intro last_notin_butlast) auto
  show "hd (ys @ [head]) \<notin> set (tl (ys @ [head]))"
    using assms by (intro hd_notin_tl) auto
qed

section \<open>Inserting and deleting\<close>

lemma ring_insert:
  assumes r: "ring s head (xs @ ys)" and new: "new \<notin> set (head # xs @ ys)"
  shows "ring (list_add_between new (last (head # xs)) (hd (ys @ [head])) s) head (xs @ new # ys)"
proof -
  let ?p = "last (head # xs)" and ?n = "hd (ys @ [head])"
  let ?s = "list_add_between new ?p ?n s"
  have d: "distinct (head # xs @ ys)" and l: "linked s (head # xs)" "linked s (ys @ [head])"
    using r by (simp_all only: ring_cut)
  note pl = place[OF d]
  have "linked ?s (head # xs)"
    using l(1) pl new by (subst linked_frame[where s = s]) (auto dest: in_set_butlastD split: if_splits)
  moreover have "linked ?s (ys @ [head])"
    using l(2) pl new by (subst linked_frame[where s = s]) (auto dest: in_set_butlastD in_tl_snoc)
  ultimately show ?thesis
    using d new pl(2,4)
    by (auto simp: ring_cut linked_join[of "[new]" "ys @ [head]", simplified])
qed

lemma ring_remove:
  assumes r: "ring s head (xs @ e # ys)"
  shows "lh_prev (s e) = last (head # xs)" "lh_next (s e) = hd (ys @ [head])"
    and "ring (list_del_between (last (head # xs)) (hd (ys @ [head])) s) head (xs @ ys)"
proof -
  let ?p = "last (head # xs)" and ?n = "hd (ys @ [head])"
  let ?s = "list_del_between ?p ?n s"
  have d: "distinct (head # xs @ ys)" using r by (auto simp: ring_def)
  have l: "linked s (head # xs)" "linked s (e # ys @ [head])" "lh_prev (s e) = ?p"
    using r by (simp_all only: ring_cut append_Cons list.sel)
  then show "lh_prev (s e) = ?p" by simp
  have n: "lh_next (s e) = ?n \<and> linked s (ys @ [head])"
    using l(2) linked_join[of "[e]" "ys @ [head]" s] by auto
  then show "lh_next (s e) = ?n" by simp
  note pl = place[OF d]
  have "linked ?s (head # xs)"
    using l(1) pl by (subst linked_frame[where s = s]) (auto dest: in_set_butlastD split: if_splits)
  moreover have "linked ?s (ys @ [head])"
    using n pl by (subst linked_frame[where s = s]) (auto dest: in_set_butlastD in_tl_snoc)
  ultimately show "ring ?s head (xs @ ys)"
    using d by (auto simp: ring_cut)
qed


section \<open>What each operation does to its ring\<close>

lemma init_ring: "ring (INIT_LIST_HEAD a s) a []"
  by (simp add: ring_def)

lemma add_ring:
  assumes "ring s head xs" "new \<notin> set (head # xs)"
  shows "ring (list_add new head s) head (new # xs)"
proof -
  have "lh_next (s head) = hd (xs @ [head])" using assms(1) ring_cut[of s head "[]" xs] by simp
  then show ?thesis using ring_insert[of s head "[]" xs new] assms by (simp add: list_add_def)
qed

lemma add_tail_ring:
  assumes "ring s head xs" "new \<notin> set (head # xs)"
  shows "ring (list_add_tail new head s) head (xs @ [new])"
proof -
  have "lh_prev (s head) = last (head # xs)" using assms(1) ring_cut[of s head xs "[]"] by simp
  then show ?thesis using ring_insert[of s head xs "[]" new] assms by (simp add: list_add_tail_def)
qed

lemma del_ring:
  assumes "ring s head (xs @ e # ys)"
  shows "ring (list_del e s) head (xs @ ys)"
    and "list_del e s e = \<lparr>lh_next = LIST_POISON1, lh_prev = LIST_POISON2\<rparr>"
proof -
  let ?s = "list_del_between (last (head # xs)) (hd (ys @ [head])) s"
  have "list_del e s = set_prev e LIST_POISON2 (set_next e LIST_POISON1 ?s)"
    using ring_remove(1,2)[OF assms] by (simp add: list_del_def)
  moreover have "e \<notin> set (head # xs @ ys)" using assms by (auto simp: ring_def)
  ultimately have "list_del e s a = ?s a" if "a \<in> set (head # xs @ ys)" for a
    using that by (metis set_other)
  then show "ring (list_del e s) head (xs @ ys)"
    using ring_remove(3)[OF assms] ring_cong[of head "xs @ ys" "list_del e s" ?s] by blast
  show "list_del e s e = \<lparr>lh_next = LIST_POISON1, lh_prev = LIST_POISON2\<rparr>"
    by (rule list_head.equality) (simp_all add: list_del_def)
qed

lemma del_init_ring:
  assumes "ring s head (xs @ e # ys)"
  shows "ring (list_del_init e s) head (xs @ ys) \<and> ring (list_del_init e s) e []"
proof -
  let ?s = "list_del_between (last (head # xs)) (hd (ys @ [head])) s"
  have "list_del_init e s = INIT_LIST_HEAD e ?s"
    using ring_remove(1,2)[OF assms] by (simp add: list_del_init_def)
  moreover have "e \<notin> set (head # xs @ ys)" using assms by (auto simp: ring_def)
  ultimately have "list_del_init e s a = ?s a" if "a \<in> set (head # xs @ ys)" for a
    using that unfolding INIT_LIST_HEAD_def by (metis set_other)
  then have "ring (list_del_init e s) head (xs @ ys)"
    using ring_remove(3)[OF assms] ring_cong[of head "xs @ ys" "list_del_init e s" ?s] by blast
  then show ?thesis using init_ring by (simp add: \<open>list_del_init e s = INIT_LIST_HEAD e ?s\<close>)
qed

text \<open>Cells outside the ring and the new node are not written.\<close>

lemma add_between_other:
  "b \<notin> {new, p, n} \<Longrightarrow> list_add_between new p n s b = s b"
  by (simp add: list_add_between_def Let_def)

lemma del_between_other: "b \<notin> {p, n} \<Longrightarrow> list_del_between p n s b = s b"
  by (simp add: list_del_between_def)

lemma ring_neighbours:
  assumes "ring s head xs" "a \<in> set (head # xs)"
  shows "lh_next (s a) \<in> set (head # xs)" "lh_prev (s a) \<in> set (head # xs)"
proof -
  have "lh_next (s a) \<in> set (head # xs) \<and> lh_prev (s a) \<in> set (head # xs)"
  proof (cases "a = head")
    case True
    have "lh_next (s head) = hd (xs @ [head])" "lh_prev (s head) = last (head # xs)"
      using assms(1) ring_cut[of s head "[]" xs] ring_cut[of s head xs "[]"] by simp_all
    moreover have "hd (xs @ [head]) \<in> set (head # xs)" by (cases xs) auto
    moreover have "last (head # xs) \<in> set (head # xs)" using last_in_set by blast
    ultimately show ?thesis using True by simp
  next
    case False
    then obtain ys zs where xs: "xs = ys @ a # zs" using assms(2) split_list by fastforce
    have "hd (zs @ [head]) \<in> set (head # xs)" unfolding xs by (cases zs) auto
    moreover have "last (head # ys) \<in> set (head # ys)" using last_in_set by blast
    moreover have "set (head # ys) \<subseteq> set (head # xs)" by (auto simp: xs)
    ultimately show ?thesis using ring_remove(1,2)[of s head ys a zs] assms(1) xs by auto
  qed
  then show "lh_next (s a) \<in> set (head # xs)" "lh_prev (s a) \<in> set (head # xs)" by blast+
qed

lemma add_other:
  assumes "ring s head xs" "b \<notin> set (new # head # xs)"
  shows "list_add new head s b = s b" "list_add_tail new head s b = s b"
  using assms(2) ring_neighbours[OF assms(1), of head]
  by (auto simp: list_add_def list_add_tail_def intro!: add_between_other)

lemma del_other:
  assumes "ring s head xs" "e \<in> set xs" "b \<notin> set (head # xs)"
  shows "list_del e s b = s b" "list_del_init e s b = s b"
proof -
  have "e \<in> set (head # xs)" using assms(2) by simp
  from ring_neighbours[OF assms(1) this] have "b \<notin> {e, lh_prev (s e), lh_next (s e)}"
    using assms(2,3) by auto
  then show "list_del e s b = s b" "list_del_init e s b = s b"
    by (simp_all add: list_del_def list_del_init_def INIT_LIST_HEAD_def del_between_other)
qed


text \<open>Moving a node from one ring to another, or within one.\<close>

lemma move_rings:
  assumes "ring s src (xs @ e # ys)" "ring s head zs" "set (src # xs @ e # ys) \<inter> set (head # zs) = {}"
  shows "ring (list_move e head s) src (xs @ ys) \<and> ring (list_move e head s) head (e # zs)"
    and "ring (list_move_tail e head s) src (xs @ ys) \<and> ring (list_move_tail e head s) head (zs @ [e])"
proof -
  let ?s = "list_del_between (lh_prev (s e)) (lh_next (s e)) s"
  have r: "ring ?s src (xs @ ys)" using ring_remove[OF assms(1)] by simp
  have "e \<in> set (src # xs @ e # ys)" by simp
  note nb = ring_neighbours[OF assms(1) this]
  have "?s a = s a" if "a \<in> set (head # zs)" for a
    by (rule del_between_other) (use nb assms(3) that in blast)
  then have h: "ring ?s head zs" using assms(2) ring_cong[of head zs ?s s] by blast
  have e: "e \<notin> set (head # zs)" using assms(3) by auto
  have d: "e \<notin> set (src # xs @ ys)" using assms(1) by (auto simp: ring_def)
  have off: "a \<notin> set (e # head # zs)" if "a \<in> set (src # xs @ ys)" for a
    using that assms(3) d by auto
  note o = add_other[OF h off]
  show "ring (list_move e head s) src (xs @ ys) \<and> ring (list_move e head s) head (e # zs)"
    unfolding list_move_def
    using ring_cong[of src "xs @ ys" "list_add e head ?s" ?s] o(1) r add_ring[OF h e] by blast
  show "ring (list_move_tail e head s) src (xs @ ys) \<and> ring (list_move_tail e head s) head (zs @ [e])"
    unfolding list_move_tail_def
    using ring_cong[of src "xs @ ys" "list_add_tail e head ?s" ?s] o(2) r add_tail_ring[OF h e] by blast
qed

lemma empty_ring: "ring s head xs \<Longrightarrow> list_empty head s \<longleftrightarrow> xs = []"
  using ring_cut[of s head "[]" xs] by (cases xs) (auto simp: list_empty_def)

text \<open>Splicing: the nodes of one ring go to the front of the other.\<close>

lemma lh_splice [simp]:
  "lh_next (list_splice_ring l h s b) =
     (if b = lh_prev (s l) then lh_next (s h) else if b = h then lh_next (s l) else lh_next (s b))"
  "lh_prev (list_splice_ring l h s b) =
     (if b = lh_next (s h) then lh_prev (s l) else if b = lh_next (s l) then h else lh_prev (s b))"
  by (simp_all add: list_splice_ring_def Let_def)

lemma splice_ring:
  assumes l: "ring s l xs" and h: "ring s h ys" and dis: "set (l # xs) \<inter> set (h # ys) = {}"
    and ne: "xs \<noteq> []"
  shows "ring (list_splice_ring l h s) h (xs @ ys)"
proof -
  let ?s = "list_splice_ring l h s"
  have f: "lh_next (s l) = hd xs" "lh_prev (s l) = last xs" "linked s xs"
    using l ne ring_cut[of s l "[]" xs] ring_cut[of s l xs "[]"] linked_join[of "[l]" xs s]
      linked_join[of xs "[l]" s]
    by (auto simp: ring_def)
  have a: "lh_next (s h) = hd (ys @ [h])" "linked s (ys @ [h])"
    using h ring_cut[of s h "[]" ys] by simp_all
  have d: "distinct xs" "distinct (h # ys)" "distinct (h # xs @ ys)"
    using l h dis by (auto simp: ring_def)
  have pl: "hd (ys @ [h]) \<in> set (h # ys)" "hd xs \<in> set xs" "last xs \<in> set xs"
    "hd xs \<notin> set (tl xs)" "last xs \<notin> set (butlast xs)" "hd (ys @ [h]) \<notin> set (tl (ys @ [h]))"
    using ne d place(6)[of h "[]" ys] hd_notin_tl[of xs] last_notin_butlast[of xs]
    by (auto simp: hd_append)
  have lx: "linked ?s xs"
    using f(3) pl d dis
    by (subst linked_frame[where s = s]) (auto simp: f a dest: in_set_butlastD in_tl)
  have ly: "linked ?s (ys @ [h])"
    using a(2) pl d dis
    by (subst linked_frame[where s = s]) (auto simp: f a dest: in_set_butlastD in_tl_snoc)
  have j: "lh_next (?s h) = hd xs" "lh_prev (?s (hd xs)) = h"
    "lh_next (?s (last xs)) = hd (ys @ [h])" "lh_prev (?s (hd (ys @ [h]))) = last xs"
    using pl d dis by (auto simp: f a)
  have "linked ?s (xs @ ys @ [h])"
    using lx ly j(3,4) ne linked_join[of xs "ys @ [h]" ?s] by simp
  then have "linked ?s ([h] @ (xs @ ys @ [h]))"
    using j(1,2) ne by (subst linked_join) auto
  then show ?thesis using d(3) by (simp add: ring_def)
qed

lemma splice_rings:
  assumes "ring s l xs" "ring s h ys" "set (l # xs) \<inter> set (h # ys) = {}"
  shows "ring (list_splice l h s) h (xs @ ys)"
    and "ring (list_splice_init l h s) h (xs @ ys) \<and> ring (list_splice_init l h s) l []"
proof -
  have "ring (list_splice l h s) h (xs @ ys) \<and> ring (list_splice_init l h s) h (xs @ ys) \<and>
    ring (list_splice_init l h s) l []"
  proof (cases "xs = []")
    case True
    then show ?thesis using assms empty_ring[OF assms(1)] by (simp add: list_splice_def list_splice_init_def)
  next
    case False
    let ?s = "list_splice_ring l h s"
    have r: "ring ?s h (xs @ ys)" using splice_ring[OF assms False] .
    have "INIT_LIST_HEAD l ?s a = ?s a" if "a \<in> set (h # xs @ ys)" for a
    proof -
      have "a \<noteq> l" using that assms(1,3) by (auto simp: ring_def)
      then show ?thesis by (simp add: INIT_LIST_HEAD_def)
    qed
    then have "ring (INIT_LIST_HEAD l ?s) h (xs @ ys)"
      using r ring_cong[of h "xs @ ys" "INIT_LIST_HEAD l ?s" ?s] by blast
    then show ?thesis
      using r init_ring False empty_ring[OF assms(1)]
      by (simp add: list_splice_def list_splice_init_def)
  qed
  then show "ring (list_splice l h s) h (xs @ ys)"
    "ring (list_splice_init l h s) h (xs @ ys) \<and> ring (list_splice_init l h s) l []" by blast+
qed


section \<open>Loops over a ring\<close>

lemma walk_next_linked:
  "head \<notin> set xs \<Longrightarrow> linked s (xs @ [head]) \<Longrightarrow> walk_next head s (hd (xs @ [head])) = Some xs"
proof (induction xs)
  case Nil
  then show ?case by (simp add: walk_next.simps)
next
  case (Cons x xs)
  have "lh_next (s x) = hd (xs @ [head]) \<and> linked s (xs @ [head])"
    using Cons.prems(2) linked_join[of "[x]" "xs @ [head]" s] by simp
  then show ?case using Cons by (subst walk_next.simps) simp
qed

lemma continue_ring:
  assumes "ring s head (xs @ n # ys)"
  shows "list_for_each_continue n head s = Some ys"
proof -
  have "ring s head ((xs @ [n]) @ ys)" using assms by simp
  then have "lh_next (s n) = hd (ys @ [head])" "linked s (ys @ [head])" "head \<notin> set ys"
    unfolding ring_cut by auto
  then show ?thesis by (simp add: list_for_each_continue_def walk_next_linked)
qed

lemma walk_prev_linked:
  "head \<notin> set xs \<Longrightarrow> linked s (head # xs) \<Longrightarrow> walk_prev head s (last (head # xs)) = Some (rev xs)"
proof (induction xs rule: rev_induct)
  case Nil
  then show ?case by (simp add: walk_prev.simps)
next
  case (snoc x xs)
  have "lh_prev (s x) = last (head # xs) \<and> linked s (head # xs)"
    using snoc.prems(2) linked_join[of "head # xs" "[x]" s] by simp
  then show ?case using snoc by (subst walk_prev.simps) simp
qed

lemma for_each_ring: "ring s head xs \<Longrightarrow> list_for_each head s = Some xs"
  using ring_cut[of s head "[]" xs] walk_next_linked[of head xs s]
  by (simp add: list_for_each_def)

lemma for_each_prev_ring: "ring s head xs \<Longrightarrow> list_for_each_prev head s = Some (rev xs)"
  using ring_cut[of s head xs "[]"] walk_prev_linked[of head xs s]
  by (simp add: list_for_each_prev_def)

text \<open>A body that unlinks the positions it dislikes, under the safe loop.\<close>

definition del_if :: "(addr \<Rightarrow> bool) \<Rightarrow> addr \<Rightarrow> store \<Rightarrow> store" where
  "del_if P a s = (if P a then list_del a s else s)"

lemma for_each_safe_from:
  "ring s head (xs @ ys) \<Longrightarrow> \<exists>s'. list_for_each_safe_from head (del_if P) (hd (ys @ [head]))
     (lh_next (s (hd (ys @ [head])))) s = Some s' \<and> ring s' head (xs @ filter (\<lambda>a. \<not> P a) ys)"
proof (induction ys arbitrary: xs s)
  case Nil
  then show ?case by (simp add: list_for_each_safe_from.simps)
next
  case (Cons y ys)
  have y: "y \<noteq> head" "lh_next (s y) = hd (ys @ [head])"
    using Cons.prems ring_remove(2)[OF Cons.prems] by (auto simp: ring_def)
  let ?s = "del_if P y s"
  obtain zs where zs: "ring ?s head (zs @ ys)" "zs = xs @ (if P y then [] else [y])"
    using Cons.prems del_ring(1)[OF Cons.prems] by (cases "P y") (simp_all add: del_if_def)
  show ?case
    using Cons.IH[OF zs(1)] y zs(2) by (subst list_for_each_safe_from.simps) (auto simp: Let_def)
qed

lemma for_each_safe_del:
  assumes "ring s head xs"
  shows "\<exists>s'. list_for_each_safe head (del_if P) s = Some s' \<and> ring s' head (filter (\<lambda>a. \<not> P a) xs)"
proof -
  have "lh_next (s head) = hd (xs @ [head])" using assms ring_cut[of s head "[]" xs] by simp
  then show ?thesis
    using for_each_safe_from[of s head "[]" xs P] assms by (simp add: list_for_each_safe_def Let_def)
qed

lemma free_all_ring: "ring s head xs \<Longrightarrow> \<exists>s'. free_all head s = Some (xs, s') \<and> ring s' head []"
proof (induction xs arbitrary: s)
  case Nil
  then show ?case using empty_ring[OF Nil] by (simp add: free_all.simps)
next
  case (Cons x xs)
  have "lh_next (s head) = x" using Cons.prems ring_cut[of s head "[]" "x # xs"] by simp
  moreover obtain s' where "free_all head (list_del x s) = Some (xs, s')" "ring s' head []"
    using Cons.IH del_ring(1)[of s head "[]" x xs] Cons.prems by auto
  ultimately show ?case
    using empty_ring[OF Cons.prems] by (subst free_all.simps) (simp add: Let_def)
qed


section \<open>The interface the registries use\<close>

text \<open>
  The loop of the delete functions: \<open>list_for_each_entry\<close> up to the first node that satisfies
  the guard, which is unlinked.
\<close>

definition unlink_first ::
    "('s \<Rightarrow> 'n list option) \<Rightarrow> ('n \<Rightarrow> 's \<Rightarrow> 's) \<Rightarrow> ('n \<Rightarrow> bool) \<Rightarrow> 's \<Rightarrow> 's option" where
  "unlink_first positions del P s =
     map_option (\<lambda>ps. case find P ps of None \<Rightarrow> s | Some n \<Rightarrow> del n s) (positions s)"

locale unlinkable_list =
  fixes view :: "'s \<Rightarrow> 'n list \<Rightarrow> bool"
    and positions :: "'s \<Rightarrow> 'n list option"
    and del :: "'n \<Rightarrow> 's \<Rightarrow> 's"
  assumes positions_view: "view s xs \<Longrightarrow> positions s = Some xs"
    and del_view: "view s (xs @ n # ys) \<Longrightarrow> view (del n s) (xs @ ys)"
begin

text \<open>The store has one view only.\<close>

lemma view_unique: "view s xs \<Longrightarrow> view s ys \<Longrightarrow> xs = ys"
  using positions_view[of s xs] positions_view[of s ys] by simp

lemma unlink_first_view:
  assumes "view s xs"
  shows "\<exists>s'. unlink_first positions del P s = Some s' \<and> view s' (delete_first P xs)"
proof (cases "find P xs")
  case None
  then show ?thesis
    using assms positions_view[OF assms] by (simp add: unlink_first_def delete_first_None)
next
  case (Some n)
  have "find P xs = Some n \<Longrightarrow> \<exists>ys zs. xs = ys @ n # zs \<and> delete_first P xs = ys @ zs" for xs
  proof (induction xs)
    case (Cons x xs)
    then show ?case
      by (cases "P x") (auto, metis Cons_eq_appendI)
  qed simp
  from this[OF Some] obtain ys zs where "xs = ys @ n # zs" "delete_first P xs = ys @ zs" by blast
  then show ?thesis
    using assms Some positions_view[OF assms] del_view by (auto simp: unlink_first_def)
qed

text \<open>With contents: the list of the nodes' contents is what the registries' theories work on.\<close>

lemma unlink_first_contents:
  assumes "view s xs"
  shows "\<exists>s' ys. unlink_first positions del (\<lambda>a. P (m a)) s = Some s' \<and> view s' ys \<and>
    map m ys = delete_first P (map m xs)"
proof -
  have "map m (delete_first (\<lambda>a. P (m a)) xs) = delete_first P (map m xs)" by (induction xs) auto
  then show ?thesis using unlink_first_view[OF assms] by blast
qed

end

text \<open>A list that can also be appended to.\<close>

locale intrusive_list = unlinkable_list view positions del
  for view :: "'s \<Rightarrow> 'n list \<Rightarrow> bool"
    and positions :: "'s \<Rightarrow> 'n list option"
    and del :: "'n \<Rightarrow> 's \<Rightarrow> 's" +
  fixes usable :: "'n \<Rightarrow> 'n list \<Rightarrow> bool"
    and add_tail :: "'n \<Rightarrow> 's \<Rightarrow> 's"
  assumes add_tail_view: "view s xs \<Longrightarrow> usable n xs \<Longrightarrow> view (add_tail n s) (xs @ [n])"
begin

lemma add_tail_contents:
  "view s xs \<Longrightarrow> usable n xs \<Longrightarrow>
   view (add_tail n s) (xs @ [n]) \<and> map m (xs @ [n]) = map m xs @ [m n]"
  using add_tail_view by simp

end

interpretation ring_list: intrusive_list
  "\<lambda>s xs. ring s head xs" "list_for_each head" list_del
  "\<lambda>n xs. n \<notin> set (head # xs)" "\<lambda>n s. list_add_tail n head s"
  for head
proof unfold_locales
  fix s :: store and xs ys n
  show "ring s head xs \<Longrightarrow> list_for_each head s = Some xs" by (rule for_each_ring)
  show "ring s head xs \<Longrightarrow> n \<notin> set (head # xs) \<Longrightarrow> ring (list_add_tail n head s) head (xs @ [n])"
    by (rule add_tail_ring)
  show "ring s head (xs @ n # ys) \<Longrightarrow> ring (list_del n s) head (xs @ ys)" by (rule del_ring)
qed

text \<open>A ring of two nodes at 1 and 2 behind the head at 0.\<close>

definition sample_store :: store where
  "sample_store = list_add_tail 2 0 (list_add_tail 1 0
     (INIT_LIST_HEAD 0 (\<lambda>a. \<lparr>lh_next = LIST_POISON1, lh_prev = LIST_POISON2\<rparr>)))"

lemma sample_store_ring: "ring sample_store 0 [1, 2]"
  using add_tail_ring[OF add_tail_ring[OF init_ring], of 1 0 2] by (simp add: sample_store_def)

section \<open>Properties\<close>

text \<open>
  C34. Linking a node at the tail of a list in the store is appending to the list: with the
  node not linked there yet, walking the list afterwards visits the old nodes and then the new
  one, walking backwards visits them in reverse, the contents read along the way are the old
  ones with the new one appended, and every cell outside the list is as it was, so that no
  other list is touched.
\<close>

theorem link_tail_refines_append:
  assumes "ring s head xs" "n \<notin> set (head # xs)"
  shows "list_for_each head (list_add_tail n head s) = Some (xs @ [n]) \<and>
    list_for_each_prev head (list_add_tail n head s) = Some (n # rev xs) \<and>
    ring (list_add_tail n head s) head (xs @ [n]) \<and> map m (xs @ [n]) = map m xs @ [m n] \<and>
    (\<forall>b. b \<notin> set (n # head # xs) \<longrightarrow> list_add_tail n head s b = s b)"
proof -
  have r: "ring (list_add_tail n head s) head (xs @ [n])" using add_tail_ring[OF assms] .
  show ?thesis
    using r for_each_ring[OF r] for_each_prev_ring[OF r] add_other(2)[OF assms(1)] by auto
qed

theorem link_tail_refines_append_witness:
  "list_for_each 0 (list_add_tail 3 0 sample_store) = Some [1, 2, 3] \<and>
   list_for_each_prev 0 (list_add_tail 3 0 sample_store) = Some [3, 2, 1]"
  using link_tail_refines_append[OF sample_store_ring, of 3 id] by simp

text \<open>
  C35. The delete loops on the store refine deletion of the first match from the list: walking
  to the first node whose contents satisfy the guard and unlinking it leaves a list whose
  contents are the old ones without their first match; the unlinked node is poisoned, and
  every cell outside the list is as it was.
\<close>

theorem unlink_refines_delete_first:
  assumes "ring s head xs"
  shows "\<exists>s' ys. unlink_first (list_for_each head) list_del (\<lambda>a. P (m a)) s = Some s' \<and>
    ring s' head ys \<and> map m ys = delete_first P (map m xs) \<and>
    (\<forall>b. b \<notin> set (head # xs) \<longrightarrow> s' b = s b) \<and>
    (\<forall>n. find (\<lambda>a. P (m a)) xs = Some n \<longrightarrow>
       s' n = \<lparr>lh_next = LIST_POISON1, lh_prev = LIST_POISON2\<rparr>)"
proof -
  obtain s' ys where u: "unlink_first (list_for_each head) list_del (\<lambda>a. P (m a)) s = Some s'"
    "ring s' head ys" "map m ys = delete_first P (map m xs)"
    using ring_list.unlink_first_contents[OF assms] by blast
  have s': "s' = (case find (\<lambda>a. P (m a)) xs of None \<Rightarrow> s | Some n \<Rightarrow> list_del n s)"
    using u(1) for_each_ring[OF assms] by (simp add: unlink_first_def)
  have "s' b = s b" if "b \<notin> set (head # xs)" for b
    using that s' del_other(1)[OF assms] by (auto split: option.splits dest: find_Some_mem)
  moreover have "s' n = \<lparr>lh_next = LIST_POISON1, lh_prev = LIST_POISON2\<rparr>"
    if f: "find (\<lambda>a. P (m a)) xs = Some n" for n
  proof -
    obtain ys zs where "xs = ys @ n # zs" using find_Some_mem[OF f] split_list by fast
    then show ?thesis using del_ring(2)[of s head ys n zs] assms f s' by simp
  qed
  ultimately show ?thesis using u by blast
qed

theorem unlink_refines_delete_first_witness:
  "\<exists>s'. unlink_first (list_for_each 0) list_del (\<lambda>a. a = 1) sample_store = Some s' \<and>
     ring s' 0 [2]"
  using unlink_refines_delete_first[OF sample_store_ring, of "\<lambda>a. a = 1" id] by auto

text \<open>
  Taking a list apart frees every node exactly once and in order, and ends with the empty
  list: the loop that unlinks the first node until the list is empty terminates.
\<close>

lemma free_all_frees_each_once:
  assumes "ring s head xs"
  shows "\<exists>s'. free_all head s = Some (xs, s') \<and> distinct xs \<and> list_empty head s'"
  using free_all_ring[OF assms] empty_ring[of _ head "[]"] assms by (auto simp: ring_def)

lemma free_all_frees_each_once_witness:
  "\<exists>s'. free_all 0 sample_store = Some ([1, 2], s') \<and> list_empty 0 s'"
  using free_all_frees_each_once[OF sample_store_ring] by blast

end
