(* ===== verification/Hash_List.thy ===== *)
theory Hash_List
  imports Kernel_List
begin

text \<open>
  The other half of \<open>list.h\<close>: lists with a single pointer for their head, whose nodes point
  back at the pointer that points at them (\<open>pprev\<close>). A place that holds such a pointer is the
  head of a list or the \<open>next\<close> of a node. The program does not use these operations; they are
  shown to satisfy the contract of the lists it does use, except that there is no tail to
  append to.
\<close>

section \<open>The store and the operations\<close>

datatype cell = First addr | Next addr

record hlist_store =
  hs_cell :: "cell \<Rightarrow> addr option"
  hs_pprev :: "addr \<Rightarrow> cell option"

definition set_cell :: "cell \<Rightarrow> addr option \<Rightarrow> hlist_store \<Rightarrow> hlist_store" where
  "set_cell c v s = s\<lparr>hs_cell := (hs_cell s)(c := v)\<rparr>"

definition set_pprev :: "addr \<Rightarrow> cell option \<Rightarrow> hlist_store \<Rightarrow> hlist_store" where
  "set_pprev a c s = s\<lparr>hs_pprev := (hs_pprev s)(a := c)\<rparr>"

definition INIT_HLIST_HEAD :: "addr \<Rightarrow> hlist_store \<Rightarrow> hlist_store" where
  "INIT_HLIST_HEAD h s = set_cell (First h) None s"

definition INIT_HLIST_NODE :: "addr \<Rightarrow> hlist_store \<Rightarrow> hlist_store" where
  "INIT_HLIST_NODE n s = set_pprev n None (set_cell (Next n) None s)"

definition hlist_unhashed :: "addr \<Rightarrow> hlist_store \<Rightarrow> bool" where
  "hlist_unhashed n s \<longleftrightarrow> hs_pprev s n = None"

definition hlist_empty :: "addr \<Rightarrow> hlist_store \<Rightarrow> bool" where
  "hlist_empty h s \<longleftrightarrow> hs_cell s (First h) = None"

text \<open>\<open>__hlist_del\<close>; a null \<open>pprev\<close> is written through, which is undefined.\<close>

definition hlist_unlink :: "addr \<Rightarrow> hlist_store \<Rightarrow> hlist_store option" where
  "hlist_unlink n s =
     (let nxt = hs_cell s (Next n) in
      case hs_pprev s n of None \<Rightarrow> None
      | Some c \<Rightarrow>
          let s1 = set_cell c nxt s
          in Some (case nxt of None \<Rightarrow> s1 | Some x \<Rightarrow> set_pprev x (Some c) s1))"

definition hlist_del :: "addr \<Rightarrow> hlist_store \<Rightarrow> hlist_store option" where
  "hlist_del n s =
     map_option (\<lambda>s1. set_pprev n (Some (First LIST_POISON2)) (set_cell (Next n) (Some LIST_POISON1) s1))
       (hlist_unlink n s)"

definition hlist_del_init :: "addr \<Rightarrow> hlist_store \<Rightarrow> hlist_store option" where
  "hlist_del_init n s =
     (if hs_pprev s n \<noteq> None then map_option (INIT_HLIST_NODE n) (hlist_unlink n s) else Some s)"

definition hlist_add_head :: "addr \<Rightarrow> addr \<Rightarrow> hlist_store \<Rightarrow> hlist_store" where
  "hlist_add_head n h s =
     (let first = hs_cell s (First h);
          s1 = set_cell (Next n) first s;
          s2 = (case first of None \<Rightarrow> s1 | Some x \<Rightarrow> set_pprev x (Some (Next n)) s1);
          s3 = set_cell (First h) (Some n) s2
      in set_pprev n (Some (First h)) s3)"

definition hlist_add_before :: "addr \<Rightarrow> addr \<Rightarrow> hlist_store \<Rightarrow> hlist_store option" where
  "hlist_add_before n nxt s =
     (let s1 = set_pprev n (hs_pprev s nxt) s;
          s2 = set_cell (Next n) (Some nxt) s1;
          s3 = set_pprev nxt (Some (Next n)) s2
      in map_option (\<lambda>c. set_cell c (Some n) s3) (hs_pprev s3 n))"

text \<open>The second argument is the new node, which goes behind the first.\<close>

definition hlist_add_after :: "addr \<Rightarrow> addr \<Rightarrow> hlist_store \<Rightarrow> hlist_store" where
  "hlist_add_after n nxt s =
     (let s1 = set_cell (Next nxt) (hs_cell s (Next n)) s;
          s2 = set_cell (Next n) (Some nxt) s1;
          s3 = set_pprev nxt (Some (Next n)) s2
      in case hs_cell s3 (Next nxt) of None \<Rightarrow> s3 | Some x \<Rightarrow> set_pprev x (Some (Next nxt)) s3)"

text \<open>The positions the loops visit.\<close>

partial_function (option) hlist_walk :: "hlist_store \<Rightarrow> cell \<Rightarrow> addr list option" where
  "hlist_walk s c =
     (case hs_cell s c of None \<Rightarrow> Some []
      | Some x \<Rightarrow> Option.bind (hlist_walk s (Next x)) (\<lambda>ps. Some (x # ps)))"

declare hlist_walk.simps [code]

definition hlist_for_each :: "addr \<Rightarrow> hlist_store \<Rightarrow> addr list option" where
  "hlist_for_each h s = hlist_walk s (First h)"

section \<open>Chains\<close>

fun stretch :: "hlist_store \<Rightarrow> cell \<Rightarrow> addr list \<Rightarrow> bool" where
  "stretch s c [] \<longleftrightarrow> True"
| "stretch s c (x # xs) \<longleftrightarrow> hs_cell s c = Some x \<and> hs_pprev s x = Some c \<and> stretch s (Next x) xs"

fun end_cell :: "cell \<Rightarrow> addr list \<Rightarrow> cell" where
  "end_cell c [] = c"
| "end_cell c (x # xs) = end_cell (Next x) xs"

text \<open>A list behind a head: its nodes are linked up to a null pointer.\<close>

definition hlist :: "hlist_store \<Rightarrow> addr \<Rightarrow> addr list \<Rightarrow> bool" where
  "hlist s h xs \<longleftrightarrow> distinct xs \<and> stretch s (First h) xs \<and> hs_cell s (end_cell (First h) xs) = None"

lemma hs_set [simp]:
  "hs_cell (set_cell c v s) d = (if d = c then v else hs_cell s d)"
  "hs_pprev (set_cell c v s) = hs_pprev s"
  "hs_pprev (set_pprev a p s) b = (if b = a then p else hs_pprev s b)"
  "hs_cell (set_pprev a p s) = hs_cell s"
  by (simp_all add: set_cell_def set_pprev_def)

lemma stretch_append: "stretch s c (xs @ ys) \<longleftrightarrow> stretch s c xs \<and> stretch s (end_cell c xs) ys"
  by (induction xs arbitrary: c) auto

lemma end_cell_append [simp]: "end_cell c (xs @ ys) = end_cell (end_cell c xs) ys"
  by (induction xs arbitrary: c) auto

lemma end_cell_cases: "end_cell c xs = c \<and> xs = [] \<or> (\<exists>x \<in> set xs. end_cell c xs = Next x)"
  by (induction xs arbitrary: c) auto

lemma end_cell_Next: "xs \<noteq> [] \<Longrightarrow> end_cell c xs = Next (last xs)"
  by (induction xs arbitrary: c) auto

text \<open>A stretch reads the cells before its nodes, and their back pointers.\<close>

lemma stretch_frame:
  assumes "\<And>x. x \<in> set xs \<Longrightarrow> hs_pprev s' x = hs_pprev s x"
    and "\<And>x. x \<in> set (butlast xs) \<Longrightarrow> hs_cell s' (Next x) = hs_cell s (Next x)"
    and "xs \<noteq> [] \<Longrightarrow> hs_cell s' c = hs_cell s c"
  shows "stretch s' c xs \<longleftrightarrow> stretch s c xs"
  using assms
proof (induction xs arbitrary: c)
  case (Cons x xs)
  have "set (butlast xs) \<subseteq> set (butlast (x # xs))" "xs \<noteq> [] \<Longrightarrow> x \<in> set (butlast (x # xs))" by auto
  then have "stretch s' (Next x) xs \<longleftrightarrow> stretch s (Next x) xs"
    by (intro Cons.IH Cons.prems) auto
  then show ?case using Cons.prems by auto
qed simp

lemma not_in_butlast: "distinct xs \<Longrightarrow> xs \<noteq> [] \<Longrightarrow> last xs \<notin> set (butlast xs)"
  by (induction xs) auto

lemma hlist_cong:
  assumes "\<And>x. x \<in> set xs \<Longrightarrow> hs_pprev s' x = hs_pprev s x \<and> hs_cell s' (Next x) = hs_cell s (Next x)"
    and "hs_cell s' (First h) = hs_cell s (First h)"
  shows "hlist s' h xs \<longleftrightarrow> hlist s h xs"
proof -
  have "stretch s' (First h) xs \<longleftrightarrow> stretch s (First h) xs"
    by (rule stretch_frame) (use assms in \<open>auto dest: in_set_butlastD\<close>)
  moreover have "hs_cell s' (end_cell (First h) xs) = hs_cell s (end_cell (First h) xs)"
    using end_cell_cases[of "First h" xs] assms by auto
  ultimately show ?thesis by (simp add: hlist_def)
qed

text \<open>A list cut at a place.\<close>

lemma hlist_cut:
  "hlist s h (xs @ ys) \<longleftrightarrow>
     distinct (xs @ ys) \<and> stretch s (First h) xs \<and> stretch s (end_cell (First h) xs) ys \<and>
     hs_cell s (end_cell (end_cell (First h) xs) ys) = None"
  by (auto simp: hlist_def stretch_append)

text \<open>The stretch up to a place does not depend on the cell of the place.\<close>

lemma stretch_before:
  assumes "distinct xs" "\<And>x. x \<in> set xs \<Longrightarrow> hs_pprev s' x = hs_pprev s x"
    and "\<And>c. c \<noteq> end_cell (First h) xs \<Longrightarrow> c \<in> insert (First h) (Next ` set xs) \<Longrightarrow> hs_cell s' c = hs_cell s c"
  shows "stretch s' (First h) xs \<longleftrightarrow> stretch s (First h) xs"
proof (rule stretch_frame)
  fix x assume x: "x \<in> set (butlast xs)"
  then have "xs \<noteq> []" by auto
  then have "end_cell (First h) xs \<noteq> Next x" using x not_in_butlast[OF assms(1)] by (auto simp: end_cell_Next)
  then show "hs_cell s' (Next x) = hs_cell s (Next x)" using x assms(3) by (auto dest: in_set_butlastD)
qed (use assms in \<open>auto simp: end_cell_Next\<close>)

text \<open>The rest behind a place depends only on its own nodes.\<close>

lemma stretch_behind:
  assumes "stretch s (Next n) ys" "hs_cell s (end_cell (Next n) ys) = None"
    and "\<And>y. y \<in> set ys \<Longrightarrow> hs_pprev s' y = hs_pprev s y"
    and "\<And>y. y \<in> insert n (set ys) \<Longrightarrow> hs_cell s' (Next y) = hs_cell s (Next y)"
  shows "stretch s' (Next n) ys \<and> hs_cell s' (end_cell (Next n) ys) = None"
proof -
  have "stretch s' (Next n) ys \<longleftrightarrow> stretch s (Next n) ys"
    by (rule stretch_frame) (use assms(3,4) in \<open>auto dest: in_set_butlastD\<close>)
  moreover have "hs_cell s' (end_cell (Next n) ys) = hs_cell s (end_cell (Next n) ys)"
    using end_cell_cases[of "Next n" ys] assms(4) by auto
  ultimately show ?thesis using assms(1,2) by simp
qed

lemma end_cell_not_behind: "x \<notin> set xs \<Longrightarrow> end_cell (First h) xs \<noteq> Next x"
  using end_cell_cases[of "First h" xs] by auto

lemma unlink_hlist:
  assumes "hlist s h (xs @ n # ys)"
  shows "\<exists>s'. hlist_unlink n s = Some s' \<and> hlist s' h (xs @ ys)"
proof -
  let ?c = "end_cell (First h) xs"
  have d: "distinct (xs @ n # ys)" "stretch s (First h) xs" "hs_cell s ?c = Some n" "hs_pprev s n = Some ?c"
    "stretch s (Next n) ys" "hs_cell s (end_cell (Next n) ys) = None"
    using assms by (auto simp: hlist_cut)
  have "\<And>y. y \<in> set ys \<Longrightarrow> y \<notin> set xs" using d(1) by auto
  then have behind: "\<And>y. y \<in> set ys \<Longrightarrow> Next y \<noteq> ?c" using end_cell_not_behind by metis
  show ?thesis
  proof (cases ys)
    case Nil
    let ?s = "set_cell ?c None s"
    have "hlist_unlink n s = Some ?s" using d Nil by (simp add: hlist_unlink_def)
    moreover have "stretch ?s (First h) xs" using stretch_before[of xs ?s s h] d(1,2) by auto
    ultimately show ?thesis using Nil d(1) by (auto simp: hlist_def)
  next
    case (Cons y zs)
    let ?s = "set_pprev y (Some ?c) (set_cell ?c (Some y) s)"
    have "hlist_unlink n s = Some ?s" using d Cons by (simp add: hlist_unlink_def)
    moreover have "stretch ?s (First h) xs \<longleftrightarrow> stretch s (First h) xs"
      by (rule stretch_before) (use d(1) Cons in auto)
    moreover have "stretch ?s (Next y) zs \<and> hs_cell ?s (end_cell (Next y) zs) = None"
      using d(1,5,6) Cons behind by (intro stretch_behind[of s y zs]) auto
    ultimately show ?thesis using Cons d(1,2) by (auto simp: hlist_cut)
  qed
qed

lemma del_hlist:
  assumes "hlist s h (xs @ n # ys)"
  shows "\<exists>s'. hlist_del n s = Some s' \<and> hlist s' h (xs @ ys)"
proof -
  obtain s1 where s1: "hlist_unlink n s = Some s1" "hlist s1 h (xs @ ys)" using unlink_hlist[OF assms] by blast
  have "n \<notin> set (xs @ ys)" using assms by (auto simp: hlist_def)
  then have "hlist (set_pprev n (Some (First LIST_POISON2)) (set_cell (Next n) (Some LIST_POISON1) s1)) h (xs @ ys)"
    using s1(2) by (subst hlist_cong[where s = s1]) auto
  then show ?thesis using s1(1) by (simp add: hlist_del_def)
qed

lemma del_init_hlist:
  assumes "hlist s h (xs @ n # ys)"
  shows "\<exists>s'. hlist_del_init n s = Some s' \<and> hlist s' h (xs @ ys) \<and> hlist_unhashed n s'"
proof -
  obtain s1 where s1: "hlist_unlink n s = Some s1" "hlist s1 h (xs @ ys)" using unlink_hlist[OF assms] by blast
  have "n \<notin> set (xs @ ys)" "hs_pprev s n \<noteq> None" using assms by (auto simp: hlist_def stretch_append)
  then have "hlist (INIT_HLIST_NODE n s1) h (xs @ ys)"
    using s1(2) by (subst hlist_cong[where s = s1]) (auto simp: INIT_HLIST_NODE_def)
  then show ?thesis
    using s1(1) \<open>hs_pprev s n \<noteq> None\<close> by (auto simp: hlist_del_init_def INIT_HLIST_NODE_def hlist_unhashed_def)
qed

lemma add_head_hlist:
  assumes "hlist s h xs" "n \<notin> set xs"
  shows "hlist (hlist_add_head n h s) h (n # xs)"
proof (cases xs)
  case Nil
  then show ?thesis using assms by (simp add: hlist_def hlist_add_head_def)
next
  case (Cons y zs)
  let ?s = "hlist_add_head n h s"
  have a: "hs_cell s (First h) = Some y" "stretch s (Next y) zs" "hs_cell s (end_cell (Next y) zs) = None" "distinct xs"
    using assms(1) Cons by (auto simp: hlist_def)
  have "stretch ?s (Next y) zs \<and> hs_cell ?s (end_cell (Next y) zs) = None"
    using a assms(2) Cons by (intro stretch_behind[of s y zs]) (auto simp: hlist_add_head_def)
  then show ?thesis using a assms(2) Cons by (auto simp: hlist_def hlist_add_head_def)
qed

lemma for_each_hlist: "hlist s h xs \<Longrightarrow> hlist_for_each h s = Some xs"
proof -
  have "stretch s c xs \<Longrightarrow> hs_cell s (end_cell c xs) = None \<Longrightarrow> hlist_walk s c = Some xs" for c
  proof (induction xs arbitrary: c)
    case Nil
    then show ?case by (subst hlist_walk.simps) simp
  next
    case (Cons x xs)
    then show ?case by (subst hlist_walk.simps) simp
  qed
  then show "hlist s h xs \<Longrightarrow> hlist_for_each h s = Some xs" by (simp add: hlist_def hlist_for_each_def)
qed

text \<open>The lists satisfy the contract for unlinking, so the delete loop works on them as well.\<close>

interpretation hash_chain: unlinkable_list
  "\<lambda>s xs. hlist s h xs" "hlist_for_each h" "\<lambda>n s. the (hlist_del n s)"
  for h
proof unfold_locales
  fix s xs n ys
  show "hlist s h xs \<Longrightarrow> hlist_for_each h s = Some xs" by (rule for_each_hlist)
  assume "hlist s h (xs @ n # ys)"
  then show "hlist (the (hlist_del n s)) h (xs @ ys)" using del_hlist by fastforce
qed

text \<open>Inserting before and behind a node.\<close>

lemma add_before_hlist:
  assumes "hlist s h (xs @ n # ys)" "m \<notin> set (xs @ n # ys)"
  shows "\<exists>s'. hlist_add_before m n s = Some s' \<and> hlist s' h (xs @ m # n # ys)"
proof -
  let ?c = "end_cell (First h) xs"
  have d: "distinct (xs @ n # ys)" "stretch s (First h) xs" "hs_cell s ?c = Some n" "hs_pprev s n = Some ?c"
    "stretch s (Next n) ys" "hs_cell s (end_cell (Next n) ys) = None"
    using assms(1) by (auto simp: hlist_cut)
  let ?s = "set_cell ?c (Some m) (set_pprev n (Some (Next m)) (set_cell (Next m) (Some n) (set_pprev m (Some ?c) s)))"
  have "m \<notin> set xs" "n \<notin> set xs" "\<And>y. y \<in> set ys \<Longrightarrow> y \<notin> set xs" using assms(2) d(1) by auto
  then have c: "Next m \<noteq> ?c" "Next n \<noteq> ?c" "\<And>y. y \<in> set ys \<Longrightarrow> Next y \<noteq> ?c"
    using end_cell_not_behind by metis+
  have "m \<noteq> n" using assms(2) by auto
  then have "hlist_add_before m n s = Some ?s" using d(4) by (simp add: hlist_add_before_def)
  moreover have "stretch ?s (First h) xs \<longleftrightarrow> stretch s (First h) xs"
    by (rule stretch_before) (use d(1) assms(2) in auto)
  moreover have "stretch ?s (Next n) ys \<and> hs_cell ?s (end_cell (Next n) ys) = None"
    using d(1,5,6) assms(2) c by (intro stretch_behind[of s n ys]) auto
  ultimately show ?thesis using d(1,2) assms(2) c by (auto simp: hlist_cut)
qed

lemma add_after_hlist:
  assumes "hlist s h (xs @ n # ys)" "m \<notin> set (xs @ n # ys)"
  shows "hlist (hlist_add_after n m s) h (xs @ n # m # ys)"
proof -
  let ?c = "end_cell (First h) xs"
  let ?s = "hlist_add_after n m s"
  have d: "distinct (xs @ n # ys)" "stretch s (First h) xs" "hs_cell s ?c = Some n" "hs_pprev s n = Some ?c"
    "stretch s (Next n) ys" "hs_cell s (end_cell (Next n) ys) = None"
    using assms(1) by (auto simp: hlist_cut)
  have nx: "m \<notin> set xs" "n \<notin> set xs" "m \<noteq> n" using assms(2) d(1) by auto
  then have c: "?c \<noteq> Next m" "?c \<noteq> Next n" using end_cell_not_behind by metis+
  have y: "hs_cell s (Next n) = (case ys of [] \<Rightarrow> None | y # _ \<Rightarrow> Some y)"
    using d(5,6) by (cases ys) auto
  have cells: "hs_cell ?s z = (if z = Next n then Some m else if z = Next m then hs_cell s (Next n) else hs_cell s z)" for z
    using nx(3) by (auto simp: hlist_add_after_def Let_def split: option.splits)
  have prevs: "hs_pprev ?s x = (if hs_cell s (Next n) = Some x then Some (Next m) else if x = m then Some (Next n)
      else hs_pprev s x)" for x
    using nx(3) by (auto simp: hlist_add_after_def Let_def split: option.splits)
  have "hs_cell s (Next n) \<noteq> Some x" if "x \<in> insert m (set xs)" for x
    using that y d(1) assms(2) by (auto split: list.splits)
  then have "stretch ?s (First h) xs \<longleftrightarrow> stretch s (First h) xs"
    using nx d(1) by (intro stretch_before) (auto simp: cells prevs)
  moreover have "stretch ?s (Next m) ys \<and> hs_cell ?s (end_cell (Next m) ys) = None"
  proof (cases ys)
    case Nil
    then show ?thesis using y nx(3) by (simp add: cells)
  next
    case (Cons y' zs)
    have "stretch ?s (Next y') zs \<and> hs_cell ?s (end_cell (Next y') zs) = None"
      using d(1,5,6) Cons assms(2) y by (intro stretch_behind[of s y' zs]) (auto simp: cells prevs)
    then show ?thesis using Cons y nx(3) assms(2) by (auto simp: cells prevs)
  qed
  moreover have "hs_cell s (Next n) \<noteq> Some n" "hs_cell s (Next n) \<noteq> Some m"
    using y d(1) assms(2) by (auto split: list.splits)
  ultimately show ?thesis using d nx assms(2) c by (auto simp: hlist_cut cells prevs)
qed

end
