(* ===== verification/List_Loops.thy ===== *)
theory List_Loops
  imports Hash_List
begin

text \<open>
  The loops of \<open>list.h\<close> that the program does not use: backwards, behind a position, and safe
  against removal in either direction, on rings and on hash chains. Each visits the nodes it is
  documented to visit, and the safe ones survive a body that unlinks the node it is at.
\<close>

section \<open>Rings\<close>

definition LIST_HEAD_INIT :: "addr \<Rightarrow> list_head" where
  "LIST_HEAD_INIT name = \<lparr>lh_next = name, lh_prev = name\<rparr>"

definition LIST_HEAD :: "addr \<Rightarrow> store \<Rightarrow> store" where
  "LIST_HEAD name s = s(name := LIST_HEAD_INIT name)"

text \<open>\<open>__list_for_each\<close>, which does not prefetch.\<close>

definition plain_list_for_each :: "addr \<Rightarrow> store \<Rightarrow> addr list option" where
  "plain_list_for_each head s = walk_next head s (lh_next (s head))"

definition list_for_each_entry_reverse :: "addr \<Rightarrow> store \<Rightarrow> addr list option" where
  "list_for_each_entry_reverse head s = walk_prev head s (lh_prev (s head))"

definition list_prepare_entry :: "addr option \<Rightarrow> addr \<Rightarrow> addr" where
  "list_prepare_entry pos head = (case pos of Some p \<Rightarrow> p | None \<Rightarrow> head)"

definition list_for_each_entry_safe_continue ::
    "addr \<Rightarrow> addr \<Rightarrow> (addr \<Rightarrow> store \<Rightarrow> store) \<Rightarrow> store \<Rightarrow> store option" where
  "list_for_each_entry_safe_continue pos head body s =
     (let pos1 = lh_next (s pos) in list_for_each_safe_from head body pos1 (lh_next (s pos1)) s)"

partial_function (option) safe_reverse_from ::
    "addr \<Rightarrow> (addr \<Rightarrow> store \<Rightarrow> store) \<Rightarrow> addr \<Rightarrow> addr \<Rightarrow> store \<Rightarrow> store option" where
  "safe_reverse_from head body pos n s =
     (if pos = head then Some s
      else let s1 = body pos s in safe_reverse_from head body n (lh_prev (s1 n)) s1)"

declare safe_reverse_from.simps [code]

definition list_for_each_entry_safe_reverse :: "addr \<Rightarrow> (addr \<Rightarrow> store \<Rightarrow> store) \<Rightarrow> store \<Rightarrow> store option" where
  "list_for_each_entry_safe_reverse head body s =
     (let pos = lh_prev (s head) in safe_reverse_from head body pos (lh_prev (s pos)) s)"

lemma list_head_ring: "ring (LIST_HEAD name s) name []"
  by (simp add: ring_def LIST_HEAD_def LIST_HEAD_INIT_def)

lemma list_head_init: "LIST_HEAD name s = INIT_LIST_HEAD name s"
  by (simp add: LIST_HEAD_def LIST_HEAD_INIT_def INIT_LIST_HEAD_def set_next_def set_prev_def fun_eq_iff)

lemma plain_for_each_ring: "ring s head xs \<Longrightarrow> plain_list_for_each head s = Some xs"
  using for_each_ring by (simp add: plain_list_for_each_def list_for_each_def)

lemma for_each_entry_reverse_ring: "ring s head xs \<Longrightarrow> list_for_each_entry_reverse head s = Some (rev xs)"
  using for_each_prev_ring by (simp add: list_for_each_entry_reverse_def list_for_each_prev_def)

text \<open>Continuing from a prepared entry: behind the node, or from the start when there is none.\<close>

lemma continue_prepared:
  "ring s head xs \<Longrightarrow> list_for_each_continue (list_prepare_entry None head) head s = Some xs"
  "ring s head (xs @ n # ys) \<Longrightarrow> list_for_each_continue (list_prepare_entry (Some n) head) head s = Some ys"
  using for_each_ring[of s head xs] continue_ring[of s head xs n ys]
  by (simp_all add: list_prepare_entry_def list_for_each_continue_def list_for_each_def)

lemma safe_continue_del:
  assumes "ring s head (xs @ n # ys)"
  shows "\<exists>s'. list_for_each_entry_safe_continue n head (del_if P) s = Some s' \<and>
    ring s' head (xs @ n # filter (\<lambda>a. \<not> P a) ys)"
  using for_each_safe_from[of s head "xs @ [n]" ys P] ring_remove(2)[OF assms] assms
  by (simp add: list_for_each_entry_safe_continue_def Let_def)

lemma safe_reverse_from_del:
  "ring s head (xs @ ys) \<Longrightarrow> \<exists>s'. safe_reverse_from head (del_if P) (last (head # xs))
     (lh_prev (s (last (head # xs)))) s = Some s' \<and> ring s' head (filter (\<lambda>a. \<not> P a) xs @ ys)"
proof (induction xs arbitrary: ys s rule: rev_induct)
  case Nil
  then show ?case by (simp add: safe_reverse_from.simps)
next
  case (snoc x xs)
  have r: "ring s head (xs @ x # ys)" using snoc.prems by simp
  have x: "x \<noteq> head" "lh_prev (s x) = last (head # xs)"
    using r ring_remove(1)[OF r] by (auto simp: ring_def)
  let ?s = "del_if P x s"
  obtain zs where zs: "ring ?s head (xs @ zs)" "zs = (if P x then [] else [x]) @ ys"
    using r del_ring(1)[OF r] by (cases "P x") (simp_all add: del_if_def)
  show ?case
    using snoc.IH[OF zs(1)] x zs(2) by (subst safe_reverse_from.simps) (auto simp: Let_def)
qed

lemma safe_reverse_del:
  assumes "ring s head xs"
  shows "\<exists>s'. list_for_each_entry_safe_reverse head (del_if P) s = Some s' \<and>
    ring s' head (filter (\<lambda>a. \<not> P a) xs)"
proof -
  have "lh_prev (s head) = last (head # xs)" using assms ring_cut[of s head xs "[]"] by simp
  then show ?thesis
    using safe_reverse_from_del[of s head xs "[]" P] assms
    by (simp add: list_for_each_entry_safe_reverse_def Let_def)
qed

section \<open>Hash chains\<close>

definition hlist_for_each_entry_continue :: "addr \<Rightarrow> hlist_store \<Rightarrow> addr list option" where
  "hlist_for_each_entry_continue pos s = hlist_walk s (Next pos)"

definition hlist_for_each_entry_from :: "addr option \<Rightarrow> hlist_store \<Rightarrow> addr list option" where
  "hlist_for_each_entry_from pos s =
     (case pos of None \<Rightarrow> Some [] | Some p \<Rightarrow> map_option ((#) p) (hlist_walk s (Next p)))"

text \<open>
  The loop safe against removal, from a position that may be null; the body may be undefined.
\<close>

partial_function (option) hlist_safe_from ::
    "(addr \<Rightarrow> hlist_store \<Rightarrow> hlist_store option) \<Rightarrow> addr option \<Rightarrow> hlist_store \<Rightarrow> hlist_store option" where
  "hlist_safe_from body pos s =
     (case pos of
        None \<Rightarrow> Some s
      | Some p \<Rightarrow> let n = hs_cell s (Next p) in Option.bind (body p s) (hlist_safe_from body n))"

declare hlist_safe_from.simps [code]

definition hlist_for_each_safe ::
    "addr \<Rightarrow> (addr \<Rightarrow> hlist_store \<Rightarrow> hlist_store option) \<Rightarrow> hlist_store \<Rightarrow> hlist_store option" where
  "hlist_for_each_safe h body s = hlist_safe_from body (hs_cell s (First h)) s"

text \<open>With an entry for each node, the loop over entries is the same.\<close>

definition hlist_for_each_entry_safe ::
    "addr \<Rightarrow> (addr \<Rightarrow> hlist_store \<Rightarrow> hlist_store option) \<Rightarrow> hlist_store \<Rightarrow> hlist_store option" where
  "hlist_for_each_entry_safe h body s = hlist_safe_from body (hs_cell s (First h)) s"

lemma hlist_next:
  assumes "hlist s h (xs @ n # ys)"
  shows "hs_cell s (Next n) = (case ys of [] \<Rightarrow> None | y # _ \<Rightarrow> Some y)" "hlist_walk s (Next n) = Some ys"
proof -
  have a: "stretch s (Next n) ys" "hs_cell s (end_cell (Next n) ys) = None"
    using assms by (auto simp: hlist_def stretch_append)
  show "hs_cell s (Next n) = (case ys of [] \<Rightarrow> None | y # _ \<Rightarrow> Some y)" using a by (cases ys) simp_all
  have "stretch s c zs \<Longrightarrow> hs_cell s (end_cell c zs) = None \<Longrightarrow> hlist_walk s c = Some zs" for c zs
    by (induction zs arbitrary: c) (subst hlist_walk.simps; simp)+
  then show "hlist_walk s (Next n) = Some ys" using a .
qed

lemma hlist_continue: "hlist s h (xs @ n # ys) \<Longrightarrow> hlist_for_each_entry_continue n s = Some ys"
  by (simp add: hlist_for_each_entry_continue_def hlist_next(2))

lemma hlist_from: "hlist s h (xs @ n # ys) \<Longrightarrow> hlist_for_each_entry_from (Some n) s = Some (n # ys)"
  by (simp add: hlist_for_each_entry_from_def hlist_next(2))

definition hlist_del_if :: "(addr \<Rightarrow> bool) \<Rightarrow> addr \<Rightarrow> hlist_store \<Rightarrow> hlist_store option" where
  "hlist_del_if P a s = (if P a then hlist_del a s else Some s)"

lemma hlist_safe_from_del:
  "hlist s h (xs @ ys) \<Longrightarrow> \<exists>s'. hlist_safe_from (hlist_del_if P) (case ys of [] \<Rightarrow> None | y # _ \<Rightarrow> Some y) s =
     Some s' \<and> hlist s' h (xs @ filter (\<lambda>a. \<not> P a) ys)"
proof (induction ys arbitrary: xs s)
  case Nil
  then show ?case by (simp add: hlist_safe_from.simps)
next
  case (Cons y ys)
  note n = hlist_next(1)[OF Cons.prems]
  show ?case
  proof (cases "P y")
    case True
    then obtain s1 where s1: "hlist_del y s = Some s1" "hlist s1 h (xs @ ys)" using del_hlist[OF Cons.prems] by blast
    have b: "hlist_del_if P y s = Some s1" using True s1(1) by (simp add: hlist_del_if_def)
    show ?thesis
      using Cons.IH[OF s1(2)] True by (subst hlist_safe_from.simps) (simp add: b Let_def n)
  next
    case False
    have b: "hlist_del_if P y s = Some s" using False by (simp add: hlist_del_if_def)
    have "hlist s h ((xs @ [y]) @ ys)" using Cons.prems by simp
    from Cons.IH[OF this] show ?thesis
      using False by (subst hlist_safe_from.simps) (simp add: b Let_def n)
  qed
qed

lemma hlist_safe_del:
  assumes "hlist s h xs"
  shows "\<exists>s'. hlist_for_each_safe h (hlist_del_if P) s = Some s' \<and> hlist s' h (filter (\<lambda>a. \<not> P a) xs) \<and>
    hlist_for_each_entry_safe h (hlist_del_if P) s = Some s'"
proof -
  have "hs_cell s (First h) = (case xs of [] \<Rightarrow> None | y # _ \<Rightarrow> Some y)"
    using assms by (cases xs) (simp_all add: hlist_def)
  then show ?thesis
    using hlist_safe_from_del[of s h "[]" xs P] assms
    by (auto simp: hlist_for_each_safe_def hlist_for_each_entry_safe_def)
qed

end
