(* ===== verification/Crc16.thy ===== *)
theory Crc16
  imports Sanji_Prelude
begin

text \<open>
  The table-driven CRC16-CCITT of \<open>lib/crc16.c\<close>, and its equivalence with the bit-by-bit
  definition of the polynomial 0x1021. The table index is computed in \<open>int\<close> from a \<open>char\<close>,
  so it depends on the signedness of \<open>char\<close>, which C leaves to the platform.
\<close>

section \<open>The routine\<close>

definition CRC16_VALUES :: "int list" where
  "CRC16_VALUES =
    [0x0000, 0x1021, 0x2042, 0x3063, 0x4084, 0x50A5, 0x60C6, 0x70E7,
     0x8108, 0x9129, 0xA14A, 0xB16B, 0xC18C, 0xD1AD, 0xE1CE, 0xF1EF,
     0x1231, 0x0210, 0x3273, 0x2252, 0x52B5, 0x4294, 0x72F7, 0x62D6,
     0x9339, 0x8318, 0xB37B, 0xA35A, 0xD3BD, 0xC39C, 0xF3FF, 0xE3DE,
     0x2462, 0x3443, 0x0420, 0x1401, 0x64E6, 0x74C7, 0x44A4, 0x5485,
     0xA56A, 0xB54B, 0x8528, 0x9509, 0xE5EE, 0xF5CF, 0xC5AC, 0xD58D,
     0x3653, 0x2672, 0x1611, 0x0630, 0x76D7, 0x66F6, 0x5695, 0x46B4,
     0xB75B, 0xA77A, 0x9719, 0x8738, 0xF7DF, 0xE7FE, 0xD79D, 0xC7BC,
     0x48C4, 0x58E5, 0x6886, 0x78A7, 0x0840, 0x1861, 0x2802, 0x3823,
     0xC9CC, 0xD9ED, 0xE98E, 0xF9AF, 0x8948, 0x9969, 0xA90A, 0xB92B,
     0x5AF5, 0x4AD4, 0x7AB7, 0x6A96, 0x1A71, 0x0A50, 0x3A33, 0x2A12,
     0xDBFD, 0xCBDC, 0xFBBF, 0xEB9E, 0x9B79, 0x8B58, 0xBB3B, 0xAB1A,
     0x6CA6, 0x7C87, 0x4CE4, 0x5CC5, 0x2C22, 0x3C03, 0x0C60, 0x1C41,
     0xEDAE, 0xFD8F, 0xCDEC, 0xDDCD, 0xAD2A, 0xBD0B, 0x8D68, 0x9D49,
     0x7E97, 0x6EB6, 0x5ED5, 0x4EF4, 0x3E13, 0x2E32, 0x1E51, 0x0E70,
     0xFF9F, 0xEFBE, 0xDFDD, 0xCFFC, 0xBF1B, 0xAF3A, 0x9F59, 0x8F78,
     0x9188, 0x81A9, 0xB1CA, 0xA1EB, 0xD10C, 0xC12D, 0xF14E, 0xE16F,
     0x1080, 0x00A1, 0x30C2, 0x20E3, 0x5004, 0x4025, 0x7046, 0x6067,
     0x83B9, 0x9398, 0xA3FB, 0xB3DA, 0xC33D, 0xD31C, 0xE37F, 0xF35E,
     0x02B1, 0x1290, 0x22F3, 0x32D2, 0x4235, 0x5214, 0x6277, 0x7256,
     0xB5EA, 0xA5CB, 0x95A8, 0x8589, 0xF56E, 0xE54F, 0xD52C, 0xC50D,
     0x34E2, 0x24C3, 0x14A0, 0x0481, 0x7466, 0x6447, 0x5424, 0x4405,
     0xA7DB, 0xB7FA, 0x8799, 0x97B8, 0xE75F, 0xF77E, 0xC71D, 0xD73C,
     0x26D3, 0x36F2, 0x0691, 0x16B0, 0x6657, 0x7676, 0x4615, 0x5634,
     0xD94C, 0xC96D, 0xF90E, 0xE92F, 0x99C8, 0x89E9, 0xB98A, 0xA9AB,
     0x5844, 0x4865, 0x7806, 0x6827, 0x18C0, 0x08E1, 0x3882, 0x28A3,
     0xCB7D, 0xDB5C, 0xEB3F, 0xFB1E, 0x8BF9, 0x9BD8, 0xABBB, 0xBB9A,
     0x4A75, 0x5A54, 0x6A37, 0x7A16, 0x0AF1, 0x1AD0, 0x2AB3, 0x3A92,
     0xFD2E, 0xED0F, 0xDD6C, 0xCD4D, 0xBDAA, 0xAD8B, 0x9DE8, 0x8DC9,
     0x7C26, 0x6C07, 0x5C64, 0x4C45, 0x3CA2, 0x2C83, 0x1CE0, 0x0CC1,
     0xEF1F, 0xFF3E, 0xCF5D, 0xDF7C, 0xAF9B, 0xBFBA, 0x8FD9, 0x9FF8,
     0x6E17, 0x7E36, 0x4E55, 0x5E74, 0x2E93, 0x3EB2, 0x0ED1, 0x1EF0]"

definition CRC16_TABLE :: "16 word list" where
  "CRC16_TABLE = map word_of_int CRC16_VALUES"

text \<open>The value of a \<open>char\<close> promoted to \<open>int\<close>.\<close>

definition char_to_int :: "bool \<Rightarrow> 8 word \<Rightarrow> int" where
  "char_to_int char_signed b = (if char_signed then sint b else uint b)"

definition table_index :: "bool \<Rightarrow> 16 word \<Rightarrow> 8 word \<Rightarrow> int" where
  "table_index char_signed crc b =
     Bit_Operations.xor (char_to_int char_signed b) (Bit_Operations.and (drop_bit 8 (uint crc)) 0xff)"

text \<open>The loop over \<open>length\<close> bytes; \<open>None\<close> is a read outside the table or the data.\<close>

fun do_crc16 :: "bool \<Rightarrow> 16 word \<Rightarrow> 8 word list \<Rightarrow> nat \<Rightarrow> 16 word option" where
  "do_crc16 char_signed crc pData 0 = Some crc"
| "do_crc16 char_signed crc (b # pData) (Suc len) =
     (let i = table_index char_signed crc b in
      if 0 \<le> i \<and> i < 256
      then do_crc16 char_signed (Bit_Operations.xor (push_bit 8 crc) (CRC16_TABLE ! nat i)) pData len
      else None)"
| "do_crc16 char_signed crc [] (Suc len) = None"

definition get_crc16 :: "bool \<Rightarrow> 8 word list \<Rightarrow> nat \<Rightarrow> 16 word option" where
  "get_crc16 char_signed pData len = do_crc16 char_signed 0xFFFF pData len"

section \<open>The polynomial, bit by bit\<close>

definition crc_bit :: "16 word \<Rightarrow> 16 word" where
  "crc_bit x = Bit_Operations.xor (push_bit 1 x) (if bit x 15 then 0x1021 else 0)"

definition crc_byte :: "16 word \<Rightarrow> 8 word \<Rightarrow> 16 word" where
  "crc_byte crc b = (crc_bit ^^ 8) (Bit_Operations.xor crc (push_bit 8 (ucast b)))"

text \<open>
  The same step on integers, and the table in pairs: an entry at an even place is one step from
  the entry at half the place, and its neighbour differs by the polynomial.
\<close>

definition crc_int :: "int \<Rightarrow> int" where
  "crc_int x = (if x \<ge> 32768 then Bit_Operations.xor (2 * x - 65536) 0x1021 else 2 * x)"

lemma values_in_pairs:
  "CRC16_VALUES = concat (map (\<lambda>x. [crc_int x, Bit_Operations.xor (crc_int x) 0x1021]) (take 128 CRC16_VALUES))"
  by code_simp

lemma values_range: "list_all (\<lambda>x. 0 \<le> x \<and> x < 65536) CRC16_VALUES" "length CRC16_VALUES = 256"
  by code_simp+

section \<open>The step is linear\<close>

lemma crc_bit_xor: "crc_bit (Bit_Operations.xor x y) = Bit_Operations.xor (crc_bit x) (crc_bit y)"
  by (auto simp: crc_bit_def push_bit_xor bit_xor_iff ac_simps)

lemma crc_bits_xor:
  "(crc_bit ^^ n) (Bit_Operations.xor x y) = Bit_Operations.xor ((crc_bit ^^ n) x) ((crc_bit ^^ n) y)"
  by (induction n) (simp_all add: crc_bit_xor)

lemma top_bit:
  assumes "0 \<le> x" "x < 65536"
  shows "bit (word_of_int x :: 16 word) 15 \<longleftrightarrow> x \<ge> 32768"
proof -
  have "x div 32768 = (if x \<ge> 32768 then 1 else 0)"
    using assms int_div_pos_eq[of x 32768 1 "x - 32768"] by auto
  then have "bit x 15 \<longleftrightarrow> x \<ge> 32768" by (auto simp: bit_iff_odd)
  then show ?thesis by (simp add: bit_word_of_int_iff)
qed

lemma crc_bit_int:
  assumes "0 \<le> x" "x < 65536"
  shows "crc_bit (word_of_int x) = word_of_int (crc_int x)"
proof -
  have d: "push_bit 1 (word_of_int x) = (word_of_int (2 * x) :: 16 word)"
    by (simp add: push_bit_eq_mult mult.commute)
  have "word_of_int (2 * x - 65536) = (word_of_int (2 * x) :: 16 word)"
    by (simp only: word_of_int_eq_iff take_bit_eq_mod) simp
  then show ?thesis
    by (simp only: crc_bit_def crc_int_def d top_bit[OF assms] of_int_xor_eq if_distrib[of word_of_int]) simp
qed

lemma concat_pairs_nth:
  "n < length xs \<Longrightarrow> concat (map (\<lambda>x. [f x, g x]) xs) ! (2 * n) = f (xs ! n) \<and>
   concat (map (\<lambda>x. [f x, g x]) xs) ! (2 * n + 1) = g (xs ! n)"
proof (induction xs arbitrary: n)
  case (Cons x xs)
  then show ?case by (cases n) auto
qed simp

lemma table_double:
  assumes "n < 128"
  shows "CRC16_TABLE ! (2 * n) = crc_bit (CRC16_TABLE ! n)"
    "CRC16_TABLE ! (2 * n + 1) = Bit_Operations.xor (crc_bit (CRC16_TABLE ! n)) 0x1021"
proof -
  let ?v = "CRC16_VALUES ! n"
  have v: "0 \<le> ?v" "?v < 65536" using values_range assms by (auto simp: list_all_length)
  have p: "CRC16_VALUES ! (2 * n) = crc_int ?v" "CRC16_VALUES ! (2 * n + 1) = Bit_Operations.xor (crc_int ?v) 0x1021"
    using concat_pairs_nth[of n "take 128 CRC16_VALUES" crc_int "\<lambda>x. Bit_Operations.xor (crc_int x) 0x1021"]
      values_range(2) assms by (simp_all add: values_in_pairs[symmetric])
  show "CRC16_TABLE ! (2 * n) = crc_bit (CRC16_TABLE ! n)"
    using p(1) v values_range(2) assms by (simp add: CRC16_TABLE_def crc_bit_int)
  show "CRC16_TABLE ! (2 * n + 1) = Bit_Operations.xor (crc_bit (CRC16_TABLE ! n)) 0x1021"
    using p(2) v values_range(2) assms
    by (simp add: CRC16_TABLE_def crc_bit_int of_int_xor_eq)
qed

lemma table_entry: "n < 256 \<Longrightarrow> CRC16_TABLE ! n = (crc_bit ^^ 8) (push_bit 8 (of_nat n))"
proof (induction n rule: less_induct)
  case (less n)
  show ?case
  proof (cases "n = 0")
    case True
    have "CRC16_TABLE ! 0 = (crc_bit ^^ 8) (push_bit 8 (of_nat 0))" by code_simp
    then show ?thesis using True by (simp only:)
  next
    case False
    define m where "m = n div 2"
    have m: "m < 128" "m < n" using less.prems False by (auto simp: m_def)
    have "push_bit 8 (of_nat m) = (word_of_int (256 * int m) :: 16 word)"
      by (simp add: push_bit_eq_mult)
    then have "\<not> bit (push_bit 8 (of_nat m) :: 16 word) 15"
      using m(1) top_bit[of "256 * int m"] by simp
    then have d: "push_bit 8 (of_nat (2 * m)) = crc_bit (push_bit 8 (of_nat m))"
      by (simp add: crc_bit_def push_bit_eq_mult)
    have e: "(crc_bit ^^ 8) (push_bit 8 (of_nat (2 * m))) = crc_bit (CRC16_TABLE ! m)"
    proof -
      have "CRC16_TABLE ! m = (crc_bit ^^ 8) (push_bit 8 (of_nat m))" using less.IH[OF m(2)] m(1) by simp
      then show ?thesis by (simp only: d funpow_swap1)
    qed
    show ?thesis
    proof (cases "even n")
      case True
      then have "n = 2 * m" by (simp add: m_def)
      then show ?thesis using e table_double(1)[OF m(1)] by simp
    next
      case False
      then have n: "n = 2 * m + 1" by (simp add: m_def)
      have "push_bit 8 (of_nat n) = Bit_Operations.xor (push_bit 8 (of_nat (2 * m))) (0x100 :: 16 word)"
      proof -
        have "Bit_Operations.xor (2 * m) 1 = n" using n by (simp add: xor_one_eq del: One_nat_def)
        then have "(of_nat n :: 16 word) = Bit_Operations.xor (of_nat (2 * m)) 1"
          by (metis of_nat_1 of_nat_xor_eq)
        then have "push_bit 8 (of_nat n) =
            Bit_Operations.xor (push_bit 8 (of_nat (2 * m))) (push_bit 8 (1 :: 16 word))"
          by (simp only: push_bit_xor)
        moreover have "push_bit 8 1 = (0x100 :: 16 word)" by simp
        ultimately show ?thesis by (simp only:)
      qed
      moreover have "(crc_bit ^^ 8) 0x100 = 0x1021" by code_simp
      ultimately show ?thesis using e n table_double(2)[OF m(1)] by (simp add: crc_bits_xor)
    qed
  qed
qed

section \<open>The routine is the polynomial\<close>

lemma crc_bits_small:
  "k \<le> 8 \<Longrightarrow> (crc_bit ^^ k) (take_bit 8 x) = push_bit k (take_bit 8 x)"
proof (induction k)
  case (Suc k)
  have "\<not> bit (push_bit k (take_bit 8 x)) 15" using Suc.prems by (auto simp: bit_push_bit_iff bit_take_bit_iff)
  then have "crc_bit (push_bit k (take_bit 8 x)) = push_bit (Suc k) (take_bit 8 x)"
    by (simp add: crc_bit_def)
  then show ?case using Suc by simp
qed simp

text \<open>One byte through the table, for an index that stays in the table.\<close>

lemma table_byte:
  "Bit_Operations.xor (push_bit 8 crc)
     (CRC16_TABLE ! nat (Bit_Operations.xor (uint b) (Bit_Operations.and (drop_bit 8 (uint crc)) 0xff))) =
   crc_byte crc b"
proof -
  let ?i = "Bit_Operations.xor (uint b) (Bit_Operations.and (drop_bit 8 (uint crc)) 0xff)"
  have a: "Bit_Operations.and (drop_bit 8 (uint crc)) 0xff = take_bit 8 (drop_bit 8 (uint crc))"
    by (simp add: take_bit_eq_mask mask_numeral)
  have b: "uint b = take_bit 8 (uint b)" using take_bit_int_eq_self[of "uint b" 8] unsigned_less[where ?'a = int, of b] by simp
  have i: "?i = take_bit 8 (Bit_Operations.xor (uint b) (drop_bit 8 (uint crc)))"
    using a b by (metis take_bit_xor)
  have "0 \<le> ?i" "?i < 2 ^ 8"
    unfolding i by (rule take_bit_nonnegative, rule take_bit_int_less_exp)
  then have n: "0 \<le> ?i" "nat ?i < 256" by auto
  have d: "uint (drop_bit 8 crc) = Bit_Operations.and (drop_bit 8 (uint crc)) 0xff"
  proof -
    have u: "uint crc < 65536" using unsigned_less[where ?'a = int, of crc] by simp
    have "uint crc div 256 < 256" using u by linarith
    moreover have "0 \<le> uint crc div 256" by (rule div_int_pos_iff[THEN iffD2]) simp
    ultimately have "drop_bit 8 (uint crc) = take_bit 8 (drop_bit 8 (uint crc))"
      using take_bit_int_eq_self[of "drop_bit 8 (uint crc)" 8] by (simp add: drop_bit_eq_div)
    then show ?thesis using a using take_bit_int_eq_self[of "uint crc" 16] u by (simp add: unsigned_drop_bit_eq)
  qed
  have "?i = Bit_Operations.xor (uint b) (uint (drop_bit 8 crc))" by (simp only: d)
  then have "word_of_int ?i = Bit_Operations.xor (ucast b) (drop_bit 8 crc)"
    by (simp only: of_int_xor_eq) simp
  moreover have "(of_nat (nat ?i) :: 16 word) = word_of_int ?i" using n(1) by simp
  ultimately have w: "(of_nat (nat ?i) :: 16 word) = Bit_Operations.xor (ucast b) (drop_bit 8 crc)" by simp
  have "Bit_Operations.xor crc (push_bit 8 (ucast b)) =
      Bit_Operations.xor (take_bit 8 crc) (push_bit 8 (Bit_Operations.xor (ucast b) (drop_bit 8 crc)))"
    by (rule bit_word_eqI) (auto simp: bit_simps)
  then have "crc_byte crc b = Bit_Operations.xor ((crc_bit ^^ 8) (take_bit 8 crc))
      ((crc_bit ^^ 8) (push_bit 8 (Bit_Operations.xor (ucast b) (drop_bit 8 crc))))"
    by (simp add: crc_byte_def crc_bits_xor)
  also have "(crc_bit ^^ 8) (take_bit 8 crc) = push_bit 8 crc"
  proof -
    have "push_bit 8 (take_bit 8 crc) = push_bit 8 crc" by (rule bit_word_eqI) (auto simp: bit_simps)
    then show ?thesis by (simp add: crc_bits_small)
  qed
  finally show ?thesis using table_entry[OF n(2)] w by simp
qed

lemma high_bit: "bit (b :: 8 word) 7 \<longleftrightarrow> 128 \<le> b"
proof -
  have "0 \<le> uint b" "uint b < 256" using unsigned_less[where ?'a = int, of b] by simp_all
  then have "uint b div 128 = (if uint b \<ge> 128 then 1 else 0)"
    using int_div_pos_eq[of "uint b" 128 1 "uint b - 128"] by auto
  then have "bit (uint b) 7 \<longleftrightarrow> uint b \<ge> 128" by (auto simp: bit_iff_odd)
  then show ?thesis by (simp add: bit_uint_iff word_le_def)
qed

lemma char_to_int_unsigned:
  assumes "\<not> (cs \<and> 128 \<le> b)"
  shows "char_to_int cs b = uint b"
proof (cases cs)
  case True
  then have "\<not> bit (uint b) 7" "uint b < 128"
    using assms high_bit[of b] by (auto simp: bit_uint_iff word_le_def)
  then show ?thesis
    using take_bit_int_eq_self[of "uint b" 7]
    by (simp add: char_to_int_def sint_uint signed_take_bit_eq_if_positive)
qed (simp add: char_to_int_def)

lemma index_in_table:
  assumes "\<not> (cs \<and> 128 \<le> b)"
  shows "0 \<le> table_index cs crc b \<and> table_index cs crc b < 256"
proof -
  have "table_index cs crc b = Bit_Operations.xor (take_bit 8 (uint b)) (take_bit 8 (drop_bit 8 (uint crc)))"
    using take_bit_int_eq_self[of "uint b" 8] unsigned_less[where ?'a = int, of b]
    by (simp add: table_index_def char_to_int_unsigned[OF assms] take_bit_eq_mask mask_numeral)
  then have "table_index cs crc b = take_bit 8 (Bit_Operations.xor (uint b) (drop_bit 8 (uint crc)))"
    by (simp only: take_bit_xor)
  then show ?thesis
    using take_bit_int_less_exp[of 8 "Bit_Operations.xor (uint b) (drop_bit 8 (uint crc))"]
      take_bit_nonnegative[of 8 "Bit_Operations.xor (uint b) (drop_bit 8 (uint crc))"]
    by (simp only:) simp
qed

lemma index_before_table: "128 \<le> b \<Longrightarrow> table_index True crc b < 0"
  using bit_last_iff[of b] by (simp add: table_index_def char_to_int_def high_bit)

lemma do_crc16_eq:
  "len \<le> length pData \<Longrightarrow> do_crc16 cs crc pData len =
    (if cs \<and> list_ex (\<lambda>b. 128 \<le> b) (take len pData) then None
     else Some (foldl crc_byte crc (take len pData)))"
proof (induction cs crc pData len rule: do_crc16.induct)
  case (2 cs crc b pData len)
  show ?case
  proof (cases "cs \<and> 128 \<le> b")
    case True
    then show ?thesis using index_before_table[of b crc] by simp
  next
    case False
    have "Bit_Operations.xor (push_bit 8 crc) (CRC16_TABLE ! nat (table_index cs crc b)) = crc_byte crc b"
      using table_byte[of crc b] by (simp only: table_index_def char_to_int_unsigned[OF False])
    then show ?thesis using 2 index_in_table[OF False, of crc] False by (auto simp: Let_def)
  qed
qed simp_all

section \<open>Properties\<close>

text \<open>
  C36. The table-driven routine computes the CRC16-CCITT: reading a number of bytes of the data, it
  returns the bit-by-bit checksum of the polynomial 0x1021 over these bytes. Where a character is
  signed it does so for bytes below 0x80 only: any byte from 0x80 on is a negative index, and
  the read is outside the table.
\<close>

theorem crc_table_is_bitwise:
  assumes "len \<le> length pData"
  shows "get_crc16 cs pData len =
    (if cs \<and> list_ex (\<lambda>b. 128 \<le> b) (take len pData) then None
     else Some (foldl crc_byte 0xFFFF (take len pData)))"
  using do_crc16_eq[OF assms] by (simp add: get_crc16_def)

theorem crc_table_is_bitwise_witness:
  "get_crc16 False [0x31, 0x32, 0x33] 3 = Some (foldl crc_byte 0xFFFF [0x31, 0x32, 0x33]) \<and>
   get_crc16 True [0x31, 0x80] 2 = None"
  using crc_table_is_bitwise[of 3 "[0x31, 0x32, 0x33]" False] crc_table_is_bitwise[of 2 "[0x31, 0x80]" True]
  by simp_all

end
