(* ===== verification/C_Text.thy ===== *)
theory C_Text
  imports Sanji_Prelude
begin

text \<open>
  The string helpers of \<open>lib/strext.c\<close> and \<open>lib/text_util.c\<close>. They work in place, so they
  are functions on the bytes of the buffer, written cell by cell as the code writes them; the
  lemmas say what the C string in the buffer is afterwards. A buffer is assumed to hold a
  terminator (\<open>NUL \<in> set buf\<close>), as \<open>strlen\<close> does. A pointer that may be null is an option.
\<close>

section \<open>Trimming\<close>

definition strchr :: "string \<Rightarrow> char \<Rightarrow> bool" where
  "strchr s c \<longleftrightarrow> c \<in> set s \<or> c = NUL"

definition xstrdup :: "heap \<Rightarrow> string option \<Rightarrow> heap \<times> string option" where
  "xstrdup m str =
     (case str of None \<Rightarrow> (m, None)
      | Some s \<Rightarrow> let (ok, m1) = malloc m in (m1, if ok then Some s else None))"

text \<open>
  \<open>while (end-- > str)\<close>: the loop looks at the cell before \<open>end\<close>, from the terminator down.
\<close>

fun rtrim_loop :: "string \<Rightarrow> nat \<Rightarrow> char list \<Rightarrow> char list" where
  "rtrim_loop trim 0 buf = buf"
| "rtrim_loop trim (Suc e) buf =
     (if \<not> strchr trim (buf ! e) then buf else rtrim_loop trim e (buf[e := NUL]))"

definition strrtrim :: "char list option \<Rightarrow> string option \<Rightarrow> char list option" where
  "strrtrim str trim =
     (case str of None \<Rightarrow> None
      | Some buf \<Rightarrow>
          let trim = (case trim of None \<Rightarrow> '' '' @ [CHR 0x09, CHR 0x0A, CHR 0x0D] | Some t \<Rightarrow> t)
          in Some (rtrim_loop trim (length (cstr buf)) buf))"

text \<open>\<open>memmove(head, str, strlen(str) + 1)\<close>, where \<open>str\<close> is \<open>i\<close> bytes behind \<open>head\<close>.\<close>

definition move_string :: "nat \<Rightarrow> char list \<Rightarrow> char list" where
  "move_string i buf = (let s = cstr (drop i buf) in s @ NUL # drop (length s + 1) buf)"

function ltrim_loop :: "string \<Rightarrow> nat \<Rightarrow> char list \<Rightarrow> char list" where
  "ltrim_loop trim i buf =
     (if i < length buf \<and> buf ! i \<noteq> NUL
      then if \<not> strchr trim (buf ! i) then move_string i buf
           else ltrim_loop trim (i + 1) (buf[i := NUL])
      else buf)"
  by pat_completeness auto
termination by (relation "measure (\<lambda>(_, i, buf). length buf - i)") auto

declare ltrim_loop.simps [simp del]

definition strltrim :: "char list option \<Rightarrow> string option \<Rightarrow> char list option" where
  "strltrim str trim =
     (case str of None \<Rightarrow> None
      | Some buf \<Rightarrow>
          let trim = (case trim of None \<Rightarrow> '' '' @ [CHR 0x09, CHR 0x0D, CHR 0x0A] | Some t \<Rightarrow> t)
          in Some (ltrim_loop trim 0 buf))"

definition strtrim :: "char list option \<Rightarrow> string option \<Rightarrow> char list option" where
  "strtrim str trim = strltrim (strrtrim str trim) trim"

section \<open>Case conversion\<close>

text \<open>\<open>while ((*str = (char)tolower(*str))) ++str;\<close>, the cells from \<open>str\<close> on.\<close>

fun case_loop :: "(char \<Rightarrow> char) \<Rightarrow> char list \<Rightarrow> char list" where
  "case_loop f [] = []"
| "case_loop f (c # cs) = (if f c \<noteq> NUL then f c # case_loop f cs else f c # cs)"

definition strlwr :: "char list option \<Rightarrow> char list option" where
  "strlwr str = map_option (case_loop tolower) str"

definition strupr :: "char list option \<Rightarrow> char list option" where
  "strupr str = map_option (case_loop toupper) str"

section \<open>Removing characters\<close>

fun trailing_loop :: "nat \<Rightarrow> char list \<Rightarrow> char list" where
  "trailing_loop 0 buf = buf"
| "trailing_loop (Suc i) buf =
     (if buf ! i \<noteq> CHR '' '' then buf else trailing_loop i (buf[i := NUL]))"

definition remove_trailing_spaces :: "char list option \<Rightarrow> char list option" where
  "remove_trailing_spaces str = map_option (\<lambda>buf. trailing_loop (length (cstr buf)) buf) str"

text \<open>
  The two pointers of \<open>remove_chars\<close>: \<open>j\<close> reads, \<open>i\<close> writes, and \<open>i\<close> stays where the copied
  byte is to be dropped.
\<close>

function remove_loop :: "char \<Rightarrow> nat \<Rightarrow> nat \<Rightarrow> char list \<Rightarrow> char list" where
  "remove_loop c i j buf =
     (if j < length buf \<and> buf ! j \<noteq> NUL
      then let buf1 = buf[i := buf ! j]
           in remove_loop c (if buf1 ! i \<noteq> c then i + 1 else i) (j + 1) buf1
      else buf[i := NUL])"
  by pat_completeness auto
termination by (relation "measure (\<lambda>(_, _, j, buf). length buf - j)") (auto simp: Let_def)

declare remove_loop.simps [simp del]

definition remove_chars :: "char list \<Rightarrow> char \<Rightarrow> char list" where
  "remove_chars str remove_char = remove_loop remove_char 0 0 str"

definition remove_spaces :: "char list \<Rightarrow> char list" where
  "remove_spaces str = remove_chars str (CHR '' '')"

definition remove_newlines :: "char list \<Rightarrow> char list" where
  "remove_newlines str = remove_chars str (CHR 0x0A)"

definition remove_quotations :: "char list \<Rightarrow> char list" where
  "remove_quotations str = remove_chars str (CHR 0x22)"

section \<open>Hexadecimal text\<close>

definition HEX2INT :: "char \<Rightarrow> 8 word" where
  "HEX2INT x =
     (let n = of_char x :: nat in
      if 48 \<le> n \<and> n \<le> 57 then of_nat (n - 48)
      else if 65 \<le> n \<and> n \<le> 70 then of_nat (n - 65 + 10)
      else if 97 \<le> n \<and> n \<le> 102 then of_nat (n - 97 + 10)
      else 0)"

text \<open>The loop of \<open>hex2bin\<close>: the bytes written for \<open>len\<close> pairs of digits, \<open>None\<close> beyond the text.\<close>

fun hex2bin :: "char list \<Rightarrow> nat \<Rightarrow> 8 word list option" where
  "hex2bin s 0 = Some []"
| "hex2bin (s0 # s1 # s) (Suc len) =
     map_option (Cons (push_bit 4 (HEX2INT s0) + HEX2INT s1)) (hex2bin s len)"
| "hex2bin _ (Suc len) = None"

definition HexNumbers :: string where "HexNumbers = ''0123456789ABCDEF''"

fun bin2hex :: "8 word list \<Rightarrow> nat \<Rightarrow> char list option" where
  "bin2hex s 0 = Some []"
| "bin2hex (b # s) (Suc len) =
     map_option (\<lambda>p. HexNumbers ! unat (drop_bit 4 b) # HexNumbers ! unat (Bit_Operations.and b 0x0F) # p)
       (bin2hex s len)"
| "bin2hex [] (Suc len) = None"

section \<open>What the loops leave in the buffer\<close>

lemma terminated_split:
  assumes "NUL \<in> set buf"
  obtains r where "buf = cstr buf @ NUL # r"
proof -
  have "\<exists>r. buf = cstr buf @ NUL # r" using assms by (induction buf) (auto simp: cstr_def)
  then show ?thesis using that by blast
qed

lemma rtrim_loop_shape:
  "NUL \<notin> set s \<Longrightarrow> \<exists>r'. rtrim_loop t (length s) (s @ NUL # r) =
     rev (dropWhile (\<lambda>c. c \<in> set t) (rev s)) @ NUL # r' \<and>
     length (rev (dropWhile (\<lambda>c. c \<in> set t) (rev s))) + length r' = length s + length r"
proof (induction s arbitrary: r rule: rev_induct)
  case (snoc x s)
  show ?case
  proof (cases "x \<in> set t")
    case True
    have "(s @ [x] @ NUL # r)[length s := NUL] = s @ NUL # NUL # r" by (simp add: list_update_append)
    then show ?thesis
      using snoc.IH[of "NUL # r"] snoc.prems True by (auto simp: strchr_def nth_append)
  next
    case False
    then show ?thesis using snoc.prems by (auto simp: strchr_def nth_append)
  qed
qed simp

lemma ltrim_loop_shape:
  "NUL \<notin> set s \<Longrightarrow> \<exists>r'. ltrim_loop t i (replicate i NUL @ s @ NUL # r) =
     dropWhile (\<lambda>c. c \<in> set t) s @ NUL # r' \<and>
     length (dropWhile (\<lambda>c. c \<in> set t) s) + length r' = i + length s + length r"
proof (induction s arbitrary: i)
  case Nil
  have "replicate i NUL @ NUL # r = NUL # replicate i NUL @ r" by (simp add: replicate_app_Cons_same)
  then show ?case
    by (subst ltrim_loop.simps) (simp add: nth_append exI[of _ "replicate i NUL @ r"])
next
  case (Cons x s)
  show ?case
  proof (cases "x \<in> set t")
    case True
    have "(replicate i NUL @ (x # s) @ NUL # r)[i := NUL] = replicate (Suc i) NUL @ s @ NUL # r"
      by (simp add: list_update_append replicate_app_Cons_same)
    then show ?thesis
      using Cons.IH[of "Suc i"] Cons.prems True
      by (subst ltrim_loop.simps) (auto simp: strchr_def nth_append)
  next
    case False
    have m: "move_string i (replicate i NUL @ (x # s) @ NUL # r) =
        (x # s) @ NUL # drop (Suc (length (x # s))) (replicate i NUL @ (x # s) @ NUL # r)"
      using cstr_append_NUL[of "x # s" r] Cons.prems by (simp add: move_string_def Let_def)
    show ?thesis
      using Cons.prems False m
      by (subst ltrim_loop.simps) (auto simp: strchr_def nth_append)
  qed
qed

lemma trailing_loop_is_rtrim:
  "NUL \<notin> set s \<Longrightarrow> trailing_loop (length s) (s @ NUL # r) = rtrim_loop '' '' (length s) (s @ NUL # r)"
proof (induction s arbitrary: r rule: rev_induct)
  case (snoc x s)
  have "(s @ [x] @ NUL # r)[length s := NUL] = s @ NUL # NUL # r" by (simp add: list_update_append)
  then show ?case using snoc.IH[of "NUL # r"] snoc.prems by (auto simp: strchr_def nth_append)
qed simp

lemma remove_loop_shape:
  "NUL \<notin> set s \<Longrightarrow> i = length a \<Longrightarrow> c \<noteq> NUL \<Longrightarrow> \<exists>r'.
   remove_loop c i (length a + length g) (a @ g @ s @ NUL # r) = a @ filter (\<lambda>x. x \<noteq> c) s @ NUL # r'"
proof (induction s arbitrary: i a g)
  case Nil
  have "remove_loop c i (length a + length g) (a @ g @ [] @ NUL # r) = (a @ g @ NUL # r)[i := NUL]"
    by (subst remove_loop.simps) (simp add: nth_append)
  then show ?case using Nil by (cases g) (auto simp: list_update_append)
next
  case (Cons x s)
  let ?buf = "a @ g @ (x # s) @ NUL # r"
  have x: "?buf ! (length a + length g) = x" by (simp add: nth_append)
  obtain g' where g': "?buf[length a := x] = a @ x # g' @ s @ NUL # r" "length g' = length g"
    by (cases g) (auto simp: list_update_append)
  have x0: "x \<noteq> NUL" using Cons.prems by auto
  have st: "remove_loop c i (length a + length g) ?buf =
      remove_loop c (if x \<noteq> c then i + 1 else i) (length a + length g + 1) (a @ x # g' @ s @ NUL # r)"
    using Cons.prems(2) x x0 g'(1) by (subst remove_loop.simps) (simp add: Let_def nth_append)
  show ?case
  proof (cases "x = c")
    case True
    then show ?thesis using st Cons.IH[of i a "x # g'"] Cons.prems g' by simp
  next
    case False
    then show ?thesis using st Cons.IH[of "i + 1" "a @ [x]" g'] Cons.prems g' by simp
  qed
qed


lemma case_loop_cstr:
  assumes "\<And>c. f c = NUL \<longleftrightarrow> c = NUL"
  shows "cstr (case_loop f buf) = map f (cstr buf)"
  using assms by (induction buf) (auto simp: cstr_def)

text \<open>A string without the characters of \<open>t\<close> at its ends.\<close>

definition trimmed :: "char set \<Rightarrow> string \<Rightarrow> string" where
  "trimmed t s = dropWhile (\<lambda>c. c \<in> t) (rev (dropWhile (\<lambda>c. c \<in> t) (rev s)))"

lemma trimmed_split:
  "\<exists>a b. s = a @ trimmed t s @ b \<and> set a \<subseteq> t \<and> set b \<subseteq> t"
proof -
  let ?r = "rev (dropWhile (\<lambda>c. c \<in> t) (rev s))"
  have "?r = takeWhile (\<lambda>c. c \<in> t) ?r @ trimmed t s" by (simp add: trimmed_def)
  moreover have "s = ?r @ rev (takeWhile (\<lambda>c. c \<in> t) (rev s))"
    by (metis rev_append rev_rev_ident takeWhile_dropWhile_id)
  ultimately have "s = takeWhile (\<lambda>c. c \<in> t) ?r @ trimmed t s @ rev (takeWhile (\<lambda>c. c \<in> t) (rev s))"
    by (metis append.assoc)
  moreover have "set (takeWhile (\<lambda>c. c \<in> t) ?r) \<subseteq> t" "set (rev (takeWhile (\<lambda>c. c \<in> t) (rev s))) \<subseteq> t"
    by (auto dest: set_takeWhileD)
  ultimately show ?thesis by blast
qed

lemma hd_trimmed: "trimmed t s \<noteq> [] \<Longrightarrow> hd (trimmed t s) \<notin> t"
  using hd_dropWhile[of "\<lambda>c. c \<in> t"] by (simp add: trimmed_def)

lemma last_trimmed: "trimmed t s \<noteq> [] \<Longrightarrow> last (trimmed t s) \<notin> t"
proof -
  let ?r = "rev (dropWhile (\<lambda>c. c \<in> t) (rev s))"
  assume n: "trimmed t s \<noteq> []"
  then have r: "?r \<noteq> []" by (metis dropWhile.simps(1) trimmed_def)
  have "?r = takeWhile (\<lambda>c. c \<in> t) ?r @ trimmed t s" by (simp add: trimmed_def)
  then have "last ?r = last (trimmed t s)" using n by (metis last_appendR)
  moreover have "last ?r \<notin> t" using r hd_dropWhile[of "\<lambda>c. c \<in> t" "rev s"] by (simp add: last_rev)
  ultimately show ?thesis by simp
qed

lemma trimmed_id:
  assumes "s = [] \<or> hd s \<notin> t \<and> last s \<notin> t"
  shows "trimmed t s = s"
proof -
  have "dropWhile (\<lambda>c. c \<in> t) (rev s) = rev s" using assms by (cases s rule: rev_cases) auto
  then have "trimmed t s = dropWhile (\<lambda>c. c \<in> t) s" by (simp add: trimmed_def)
  then show ?thesis using assms by (cases s) auto
qed

lemma NUL_trimmed: "NUL \<notin> set s \<Longrightarrow> NUL \<notin> set (trimmed t s)"
  using trimmed_split[of s t] by (metis Un_iff set_append)

lemma length_trimmed: "length (trimmed t s) \<le> length s"
  using trimmed_split[of s t] by (metis le_add1 le_add2 le_trans length_append)

lemma set_default_trim:
  "(case trim of None \<Rightarrow> {CHR '' '', CHR 0x09, CHR 0x0A, CHR 0x0D} | Some t \<Rightarrow> set t) =
     set (case trim of None \<Rightarrow> '' '' @ [CHR 0x09, CHR 0x0A, CHR 0x0D] | Some t \<Rightarrow> t)"
  "set (case trim of None \<Rightarrow> '' '' @ [CHR 0x09, CHR 0x0D, CHR 0x0A] | Some t \<Rightarrow> t) =
     set (case trim of None \<Rightarrow> '' '' @ [CHR 0x09, CHR 0x0A, CHR 0x0D] | Some t \<Rightarrow> t)"
  by (auto split: option.splits)

definition trim_set :: "string option \<Rightarrow> char set" where
  "trim_set trim = (case trim of None \<Rightarrow> {CHR '' '', CHR 0x09, CHR 0x0A, CHR 0x0D} | Some t \<Rightarrow> set t)"

lemma strtrim_shape:
  assumes "NUL \<in> set buf"
  shows "\<exists>r. strtrim (Some buf) trim = Some (trimmed (trim_set trim) (cstr buf) @ NUL # r) \<and>
    length (trimmed (trim_set trim) (cstr buf)) + length r + 1 = length buf"
proof -
  let ?t = "case trim of None \<Rightarrow> '' '' @ [CHR 0x09, CHR 0x0A, CHR 0x0D] | Some t \<Rightarrow> t"
  let ?t' = "case trim of None \<Rightarrow> '' '' @ [CHR 0x09, CHR 0x0D, CHR 0x0A] | Some t \<Rightarrow> t"
  let ?s = "rev (dropWhile (\<lambda>c. c \<in> set ?t) (rev (cstr buf)))"
  obtain r where r: "buf = cstr buf @ NUL # r" using terminated_split[OF assms] .
  obtain r1 where r1: "rtrim_loop ?t (length (cstr buf)) buf = ?s @ NUL # r1"
    "length ?s + length r1 = length (cstr buf) + length r"
    using rtrim_loop_shape[OF cstr_no_NUL, of ?t buf r] r by metis
  have "NUL \<notin> set ?s" using cstr_no_NUL[of buf] by (metis set_dropWhileD set_rev)
  then obtain r2 where "ltrim_loop ?t' 0 (?s @ NUL # r1) = dropWhile (\<lambda>c. c \<in> set ?t') ?s @ NUL # r2"
    "length (dropWhile (\<lambda>c. c \<in> set ?t') ?s) + length r2 = length ?s + length r1"
    using ltrim_loop_shape[of ?s ?t' 0 r1] by auto
  moreover have "length buf = length (cstr buf) + length r + 1" using r by (metis length_append add.assoc length_Cons Suc_eq_plus1)
  ultimately show ?thesis
    using r1 by (simp add: strtrim_def strrtrim_def strltrim_def Let_def trimmed_def trim_set_def
        set_default_trim)
qed

lemma HEX2INT_digit: "w < 16 \<Longrightarrow> HEX2INT (HexNumbers ! unat w) = w"
proof -
  have "\<forall>n < 16. HEX2INT (HexNumbers ! n) = of_nat n" by code_simp
  moreover assume "w < 16"
  then have "unat w < 16" by (simp add: word_less_nat_alt)
  ultimately show ?thesis by simp
qed

lemma nibbles: "push_bit 4 (drop_bit 4 b) + Bit_Operations.and b 0x0F = (b :: 8 word)"
proof -
  have "Bit_Operations.and b 0x0F = take_bit 4 b" by (simp add: take_bit_eq_mask mask_numeral)
  then show ?thesis using bits_ident[of 4 b] by simp
qed

lemma nibble_bounds: "drop_bit 4 b < (16 :: 8 word)" "Bit_Operations.and b 0x0F < (16 :: 8 word)"
proof -
  have "unat (drop_bit 4 b) = unat b div 16" by (simp add: drop_bit_eq_div unat_div)
  moreover have "unat b < 256" using unsigned_less[of b] by simp
  ultimately show "drop_bit 4 b < (16 :: 8 word)" by (simp add: word_less_nat_alt)
  have "Bit_Operations.and b 0x0F = take_bit 4 b" by (simp add: take_bit_eq_mask mask_numeral)
  then show "Bit_Operations.and b 0x0F < (16 :: 8 word)"
    by (simp add: word_less_nat_alt take_bit_eq_mod unat_mod)
qed

lemma hex2bin_bin2hex:
  "\<exists>h. bin2hex bs (length bs) = Some h \<and> length h = 2 * length bs \<and> hex2bin h (length bs) = Some bs"
proof (induction bs)
  case (Cons b bs)
  then show ?case using HEX2INT_digit[OF nibble_bounds(1)[of b]] HEX2INT_digit[OF nibble_bounds(2)[of b]]
    by (auto simp: nibbles)
qed simp

lemma hex_digit_toupper:
  assumes "c \<in> set ''0123456789abcdefABCDEF''"
  shows "HexNumbers ! unat (HEX2INT c) = toupper c \<and> HEX2INT c < 16"
proof -
  have "list_all (\<lambda>c. HexNumbers ! unat (HEX2INT c) = toupper c \<and> HEX2INT c < 16) ''0123456789abcdefABCDEF''"
    by code_simp
  then show ?thesis using assms by (simp only: list_all_iff)
qed

lemma join_nibbles:
  assumes "h < 16" "l < (16 :: 8 word)"
  shows "drop_bit 4 (push_bit 4 h + l) = h \<and> Bit_Operations.and (push_bit 4 h + l) 0x0F = l"
proof -
  have u: "unat h < 16" "unat l < 16" using assms by (simp_all add: word_less_nat_alt)
  have s: "unat (push_bit 4 h + l) = 16 * unat h + unat l"
    using u by (simp add: unat_word_ariths push_bit_eq_mult)
  have "unat (drop_bit 4 (push_bit 4 h + l)) = unat h" using s u by (simp add: drop_bit_eq_div unat_div)
  moreover have "Bit_Operations.and (push_bit 4 h + l) 0x0F = take_bit 4 (push_bit 4 h + l)"
    by (simp add: take_bit_eq_mask mask_numeral)
  then have "unat (Bit_Operations.and (push_bit 4 h + l) 0x0F) = unat l"
    using s u by (simp add: take_bit_eq_mod unat_mod)
  ultimately show ?thesis by (simp add: word_unat_eq_iff)
qed

lemma bin2hex_hex2bin:
  "set s \<subseteq> set ''0123456789abcdefABCDEF'' \<Longrightarrow> length s = 2 * n \<Longrightarrow>
   \<exists>bs. hex2bin s n = Some bs \<and> bin2hex bs n = Some (map toupper s)"
proof (induction s n rule: hex2bin.induct)
  case (2 s0 s1 s len)
  have d: "s0 \<in> set ''0123456789abcdefABCDEF''" "s1 \<in> set ''0123456789abcdefABCDEF''"
    "set s \<subseteq> set ''0123456789abcdefABCDEF''"
    using "2.prems"(1) by (simp_all only: set_simps(2)[of s0] set_simps(2)[of s1] insert_subset)
  obtain bs where bs: "hex2bin s len = Some bs" "bin2hex bs len = Some (map toupper s)"
    using "2.IH"[OF d(3)] "2.prems"(2) by auto
  show ?case
    using hex_digit_toupper[OF d(1)] hex_digit_toupper[OF d(2)]
      join_nibbles[of "HEX2INT s0" "HEX2INT s1"] bs by simp
qed auto

section \<open>Cases and trailing spaces\<close>

lemma toupper_NUL: "toupper c = NUL \<longleftrightarrow> c = NUL"
proof -
  have "char_of (of_char c - 32 :: nat) \<noteq> NUL" if "97 \<le> (of_char c :: nat)" "of_char c \<le> (122::nat)"
    using that by (auto simp: char_of_eq_iff take_bit_nat_eq_self)
  then show ?thesis by (auto simp: toupper_def Let_def)
qed

lemma tolower_NUL: "tolower c = NUL \<longleftrightarrow> c = NUL"
proof -
  have "char_of (of_char c + 32 :: nat) \<noteq> NUL" if "65 \<le> (of_char c :: nat)" "of_char c \<le> (90::nat)"
    using that by (auto simp: char_of_eq_iff take_bit_nat_eq_self)
  then show ?thesis by (auto simp: tolower_def Let_def)
qed

lemma strlwr_cstr: "map_option cstr (strlwr (Some buf)) = Some (map tolower (cstr buf))"
  by (simp add: strlwr_def case_loop_cstr tolower_NUL)

lemma strupr_cstr: "map_option cstr (strupr (Some buf)) = Some (map toupper (cstr buf))"
  by (simp add: strupr_def case_loop_cstr toupper_NUL)

lemma remove_trailing_spaces_cstr:
  assumes "NUL \<in> set buf"
  shows "map_option cstr (remove_trailing_spaces (Some buf)) =
    Some (rev (dropWhile (\<lambda>c. c = CHR '' '') (rev (cstr buf))))"
proof -
  obtain r where r: "buf = cstr buf @ NUL # r" using terminated_split[OF assms] .
  have "NUL \<notin> set (rev (dropWhile (\<lambda>c. c = CHR '' '') (rev (cstr buf))))"
    using cstr_no_NUL[of buf] by (metis set_dropWhileD set_rev)
  then have "cstr (trailing_loop (length (cstr buf)) (cstr buf @ NUL # r)) =
      rev (dropWhile (\<lambda>c. c = CHR '' '') (rev (cstr buf)))"
    using trailing_loop_is_rtrim[OF cstr_no_NUL, of buf r] rtrim_loop_shape[OF cstr_no_NUL, of "'' ''" buf r]
    by auto
  then show ?thesis using r by (simp add: remove_trailing_spaces_def)
qed

section \<open>Properties\<close>

text \<open>
  Trimming in place is trimming: for a terminated buffer the string left is the old one
  without a prefix and a suffix of characters to be trimmed (space, tab and line ends when no
  set is given), neither end of what is left is such a character, trimming again changes
  nothing, and the buffer keeps its length and its terminator.
\<close>

lemma strtrim_trims:
  assumes "NUL \<in> set buf"
  shows "\<exists>buf' a b. strtrim (Some buf) trim = Some buf' \<and> cstr buf = a @ cstr buf' @ b \<and>
    set a \<subseteq> trim_set trim \<and> set b \<subseteq> trim_set trim \<and>
    (cstr buf' = [] \<or> hd (cstr buf') \<notin> trim_set trim \<and> last (cstr buf') \<notin> trim_set trim) \<and>
    length buf' = length buf \<and> NUL \<in> set buf' \<and>
    map_option cstr (strtrim (Some buf') trim) = Some (cstr buf')"
proof -
  let ?s = "trimmed (trim_set trim) (cstr buf)"
  obtain r where r: "strtrim (Some buf) trim = Some (?s @ NUL # r)" "length ?s + length r + 1 = length buf"
    using strtrim_shape[OF assms] by blast
  have c: "cstr (?s @ NUL # r) = ?s" by (simp add: NUL_trimmed)
  have e: "?s = [] \<or> hd ?s \<notin> trim_set trim \<and> last ?s \<notin> trim_set trim"
    using hd_trimmed last_trimmed by blast
  obtain r' where "strtrim (Some (?s @ NUL # r)) trim = Some (trimmed (trim_set trim) ?s @ NUL # r')"
    using strtrim_shape[of "?s @ NUL # r"] c by auto
  then have "map_option cstr (strtrim (Some (?s @ NUL # r)) trim) = Some ?s"
    using trimmed_id[OF e] by (simp add: NUL_trimmed)
  then show ?thesis using r c e trimmed_split[of "cstr buf" "trim_set trim"] by fastforce
qed

lemma strtrim_trims_witness:
  "\<exists>buf'. strtrim (Some ('' ab '' @ [NUL])) None = Some buf' \<and> length buf' = 5"
  using strtrim_trims[of "'' ab '' @ [NUL]" None] by auto

text \<open>
  Removing a character in place removes exactly its occurrences: the two pointers leave the
  string without them, in the old order.
\<close>

lemma remove_chars_filters:
  assumes "NUL \<in> set str" "remove_char \<noteq> NUL"
  shows "cstr (remove_chars str remove_char) = filter (\<lambda>c. c \<noteq> remove_char) (cstr str)"
proof -
  obtain r where "str = cstr str @ NUL # r" using terminated_split[OF assms(1)] .
  then obtain r' where "remove_chars str remove_char = filter (\<lambda>c. c \<noteq> remove_char) (cstr str) @ NUL # r'"
    using remove_loop_shape[OF cstr_no_NUL[of str], of 0 "[]" remove_char "[]" r] assms(2)
    by (auto simp: remove_chars_def)
  then show ?thesis by simp
qed

lemma remove_chars_filters_witness: "cstr (remove_chars ([CHR 0x22] @ ''ab'' @ [CHR 0x22, NUL]) (CHR 0x22)) = ''ab''"
  using remove_chars_filters[of "[CHR 0x22] @ ''ab'' @ [CHR 0x22, NUL]" "CHR 0x22"] by (simp add: cstr_def)

text \<open>
  Binary data survives the way through its hexadecimal text, which has two digits for each
  byte; and a text of hexadecimal digits comes back with its letters in upper case.
\<close>

lemma hex_roundtrip:
  "(\<exists>h. bin2hex bs (length bs) = Some h \<and> length h = 2 * length bs \<and> hex2bin h (length bs) = Some bs) \<and>
   (set s \<subseteq> set ''0123456789abcdefABCDEF'' \<and> length s = 2 * n \<longrightarrow>
    (\<exists>bs. hex2bin s n = Some bs \<and> bin2hex bs n = Some (map toupper s)))"
  using hex2bin_bin2hex bin2hex_hex2bin by blast

lemma hex_roundtrip_witness:
  "\<exists>bs. hex2bin ''0aFf'' 2 = Some bs \<and> bin2hex bs 2 = Some (map toupper ''0aFf'')"
  using hex_roundtrip[of "[]" "''0aFf''" 2] by simp


end
