(* ===== verification/Ini.thy ===== *)
theory Ini
  imports C_Text
begin

text \<open>
  The configuration reader \<open>ini.c\<close>: the store of keys and values (\<open>ini_alloc\<close>, \<open>ini_find\<close>,
  \<open>ini_set\<close>, \<open>ini_get\<close>), the line parser with its \<open>sscanf\<close> patterns, the reading loop over
  \<open>fgets\<close> with its continuation lines, and the look-up by section and key.

  The three arrays of the store are lists, or \<open>None\<close> once an extension has failed and left a
  null pointer. A result \<open>None\<close> is undefined behaviour: a null pointer read, a read before the
  line buffer or of the uninitialised section buffer. The reading loop is a partial function,
  so that its outer \<open>None\<close> is a loop that does not end.
\<close>

section \<open>The store\<close>

abbreviation (input) INI_MINSIZE :: int where "INI_MINSIZE \<equiv> 64"
abbreviation (input) MAX_PATH :: nat where "MAX_PATH \<equiv> 260"

record ini_t =
  ini_num :: int
  ini_size :: int
  ini_key :: "string option list option"
  ini_val :: "string option list option"
  ini_hashes :: "32 word list option"

text \<open>\<open>_extend_mem\<close>: the old array is copied to a zeroed larger one.\<close>

definition extend_mem ::
    "heap \<Rightarrow> 'a list option \<Rightarrow> int \<Rightarrow> int \<Rightarrow> 'a \<Rightarrow> (heap \<times> 'a list option) option" where
  "extend_mem m obj current_size extend_size zero =
     (let (ok, m1) = malloc m in
      if \<not> ok then Some (m1, None)
      else case obj of
        Some xs \<Rightarrow> Some (m1, Some (take (nat current_size) xs @ replicate (nat (extend_size - current_size)) zero))
      | None \<Rightarrow> if current_size \<le> 0 then Some (m1, Some (replicate (nat extend_size) zero)) else None)"

definition ini_alloc :: "heap \<Rightarrow> ini_t \<Rightarrow> (heap \<times> ini_t \<times> int) option" where
  "ini_alloc m this =
     (let size = ini_size this + INI_MINSIZE in
      Option.bind (extend_mem m (ini_key this) (ini_size this) size None) (\<lambda>(m1, key).
      Option.bind (extend_mem m1 (ini_val this) (ini_size this) size None) (\<lambda>(m2, val).
      Option.bind (extend_mem m2 (ini_hashes this) (ini_size this) size 0) (\<lambda>(m3, hash).
        let this1 = this\<lparr>ini_key := key, ini_val := val, ini_hashes := hash\<rparr> in
        Some (if key = None \<or> val = None \<or> hash = None then (m3, this1, 1)
              else (m3, this1\<lparr>ini_size := size\<rparr>, 0))))))"

text \<open>The hash of a key, on 32-bit words; a \<open>char\<close> is sign-extended.\<close>

definition hash_char :: "32 word \<Rightarrow> char \<Rightarrow> 32 word" where
  "hash_char hash c =
     (let h1 = hash + scast (of_nat (of_char c) :: 8 word);
          h2 = h1 + push_bit 10 h1
      in Bit_Operations.xor h2 (drop_bit 6 h2))"

definition ini_hash :: "string \<Rightarrow> 32 word" where
  "ini_hash key =
     (let h = foldl hash_char 0 key;
          h1 = h + push_bit 3 h;
          h2 = Bit_Operations.xor h1 (drop_bit 11 h1)
      in h2 + push_bit 15 h2)"

text \<open>
  The scan over the slots that \<open>ini_find\<close> and \<open>ini_get\<close> share: the first slot whose key is
  set and has the hash and the name; \<open>-1\<close> when there is none.
\<close>

definition ini_scan :: "ini_t \<Rightarrow> string \<Rightarrow> int option" where
  "ini_scan this key =
     (let hash = ini_hash key; n = nat (ini_size this) in
      case ini_key this of None \<Rightarrow> if n = 0 then Some (-1) else None
      | Some ks \<Rightarrow>
          (case ini_hashes this of
             None \<Rightarrow> if list_all (\<lambda>i. ks ! i = None) [0..<n] then Some (-1) else None
           | Some hs \<Rightarrow>
               Some (case find (\<lambda>i. case ks ! i of None \<Rightarrow> False | Some k \<Rightarrow> hash = hs ! i \<and> key = k) [0..<n]
                     of None \<Rightarrow> -1 | Some i \<Rightarrow> int i)))"

definition ini_find :: "ini_t option \<Rightarrow> string option \<Rightarrow> int option" where
  "ini_find this key =
     (case (this, key) of
        (Some t, Some k) \<Rightarrow> if ini_num t \<le> 0 then Some (-1) else ini_scan t k
      | _ \<Rightarrow> Some (-1))"

text \<open>Writing a slot of an array; \<open>None\<close> for a null array or an index outside it.\<close>

definition write_slot :: "'a list option \<Rightarrow> nat \<Rightarrow> 'a \<Rightarrow> 'a list option" where
  "write_slot arr i x =
     (case arr of None \<Rightarrow> None | Some xs \<Rightarrow> if i < length xs then Some (xs[i := x]) else None)"

definition ini_add :: "heap \<Rightarrow> ini_t \<Rightarrow> string \<Rightarrow> string option \<Rightarrow> (heap \<times> ini_t \<times> int) option" where
  "ini_add m this key value =
     (case ini_key this of
        None \<Rightarrow> None
      | Some ks \<Rightarrow>
          let n = nat (ini_size this);
              i = (case find (\<lambda>i. ks ! i = None) [0..<n] of None \<Rightarrow> n | Some i \<Rightarrow> i);
              (m1, k) = xstrdup m (Some key);
              (m2, v) = xstrdup m1 value
          in Option.bind (write_slot (Some ks) i k) (\<lambda>ks1.
             Option.bind (write_slot (ini_val this) i v) (\<lambda>vs1.
             Option.bind (write_slot (ini_hashes this) i (ini_hash key)) (\<lambda>hs1.
               Some (m2, this\<lparr>ini_key := Some ks1, ini_val := Some vs1, ini_hashes := Some hs1,
                              ini_num := ini_num this + 1\<rparr>, 0)))))"

definition ini_set ::
    "heap \<Rightarrow> ini_t option \<Rightarrow> string option \<Rightarrow> string option \<Rightarrow> (heap \<times> ini_t option \<times> int) option" where
  "ini_set m this key value =
     (case (this, key) of
        (Some t, Some k) \<Rightarrow>
          Option.bind (ini_find this key) (\<lambda>i.
            if i \<ge> 0 then
              let (m1, v) = xstrdup m value in
              map_option (\<lambda>vs. (m1, Some (t\<lparr>ini_val := Some vs\<rparr>), 0)) (write_slot (ini_val t) (nat i) v)
            else
              Option.bind (if ini_num t = ini_size t then ini_alloc m t else Some (m, t, 0))
                (\<lambda>(m1, t1, ret).
                   if ret \<noteq> 0 then Some (m1, Some t1, 1)
                   else map_option (\<lambda>(m2, t2, r). (m2, Some t2, r)) (ini_add m1 t1 k value)))
      | _ \<Rightarrow> Some (m, this, 1))"

text \<open>The value of a key: \<open>None\<close> is undefined, \<open>Some None\<close> the null pointer.\<close>

definition ini_get :: "ini_t option \<Rightarrow> string option \<Rightarrow> string option option" where
  "ini_get this key =
     (case (this, key) of
        (Some t, Some k) \<Rightarrow>
          Option.bind (ini_scan t k) (\<lambda>i.
            if i < 0 then Some None
            else Option.bind (ini_val t) (\<lambda>vs. if nat i < length vs then Some (vs ! nat i) else None))
      | _ \<Rightarrow> Some None)"

text \<open>\<open>ini_release\<close> only frees; what it reads on the way must not be null.\<close>

definition ini_release :: "ini_t option \<Rightarrow> unit option" where
  "ini_release this =
     (case this of None \<Rightarrow> Some ()
      | Some t \<Rightarrow> if 0 < ini_size t \<and> 0 < ini_num t \<and> (ini_key t = None \<or> ini_val t = None)
                 then None else Some ())"

section \<open>Lines\<close>

text \<open>The conversions of \<open>sscanf\<close> in the patterns, and the fields assigned, in order.\<close>

datatype directive = Lit char | Space | Scan "char \<Rightarrow> bool"

fun sscanf :: "string \<Rightarrow> directive list \<Rightarrow> string list" where
  "sscanf s [] = []"
| "sscanf s (Lit c # ds) = (case s of [] \<Rightarrow> [] | x # xs \<Rightarrow> if x = c then sscanf xs ds else [])"
| "sscanf s (Space # ds) = sscanf (dropWhile isspace s) ds"
| "sscanf s (Scan p # ds) =
     (let t = takeWhile p s in if t = [] then [] else t # sscanf (drop (length t) s) ds)"

definition strip :: "string \<Rightarrow> string" where
  "strip s = cstr (the (strtrim (Some (s @ [NUL])) None))"

text \<open>
  The line statuses with what they leave behind: the section buffer, or the key and the value.
  Whenever the status is a value, both buffers have just been written, so what an earlier line
  left in them is never read.
\<close>

datatype ini_line =
  INI_LINE_EMPTY
| INI_LINE_COMMENT
| INI_LINE_SECTION string
| INI_LINE_VALUE string string
| INI_LINE_ERROR

definition key_value_patterns :: "directive list list" where
  "key_value_patterns =
     [[Scan (\<lambda>c. c \<noteq> CHR ''=''), Space, Lit CHR ''='', Space, Lit (CHR 0x22),
       Scan (\<lambda>c. c \<noteq> CHR 0x22), Lit (CHR 0x22)],
      [Scan (\<lambda>c. c \<noteq> CHR ''=''), Space, Lit CHR ''='', Space, Lit (CHR 0x27),
       Scan (\<lambda>c. c \<noteq> CHR 0x27), Lit (CHR 0x27)],
      [Scan (\<lambda>c. c \<noteq> CHR ''=''), Space, Lit CHR ''='', Space,
       Scan (\<lambda>c. c \<noteq> CHR '';'' \<and> c \<noteq> CHR ''#'')]]"

definition key_only_patterns :: "directive list list" where
  "key_only_patterns =
     [[Scan (\<lambda>c. c \<noteq> CHR ''=''), Space, Lit CHR ''='', Space,
       Scan (\<lambda>c. c = CHR '';'' \<or> c = CHR ''#'')],
      [Scan (\<lambda>c. c \<noteq> CHR ''=''), Space, Scan (\<lambda>c. c = CHR ''='')]]"

text \<open>The first pattern with two fields, as the \<open>||\<close> of the conditions tries them.\<close>

definition first_scan :: "string \<Rightarrow> directive list list \<Rightarrow> (string \<times> string) option" where
  "first_scan s pats =
     map_option (\<lambda>p. (sscanf s p ! 0, sscanf s p ! 1)) (find (\<lambda>p. length (sscanf s p) = 2) pats)"

text \<open>\<open>section\<close> is the section buffer before the line, \<open>None\<close> while it is not initialised.\<close>

definition ini_parse_line :: "string \<Rightarrow> string option \<Rightarrow> ini_line option" where
  "ini_parse_line line section =
     (let line = strip line; len = length (take MAX_PATH line) in
      if len < 1 then Some INI_LINE_EMPTY
      else if line ! 0 = CHR ''#'' \<or> line ! 0 = CHR '';'' then Some INI_LINE_COMMENT
      else if line ! 0 = CHR ''['' \<and> line ! (len - 1) = CHR '']'' then
        (case sscanf line [Lit CHR ''['', Scan (\<lambda>c. c \<noteq> CHR '']'')] of
           s # _ \<Rightarrow> Some (INI_LINE_SECTION (strip s))
         | [] \<Rightarrow> map_option (\<lambda>s. INI_LINE_SECTION (strip s)) section)
      else case first_scan line key_value_patterns of
        Some (k, v) \<Rightarrow>
          let v = strip v in
          Some (INI_LINE_VALUE (strip k) (if v = [CHR 0x22, CHR 0x22] \<or> v = [CHR 0x27, CHR 0x27] then [] else v))
      | None \<Rightarrow>
          (case first_scan line key_only_patterns of
             Some (k, _) \<Rightarrow> Some (INI_LINE_VALUE (strip k) [])
           | None \<Rightarrow> Some INI_LINE_ERROR))"

section \<open>The reading loop\<close>

text \<open>\<open>fgets\<close> into \<open>n\<close> bytes: what is read, and the rest of the file; \<open>None\<close> at its end.\<close>

definition fgets :: "nat \<Rightarrow> string \<Rightarrow> (string \<times> string) option" where
  "fgets n inp =
     (if n \<le> 1 then (if n = 1 then Some ([], inp) else None)
      else if inp = [] then None
      else let t = takeWhile (\<lambda>c. c \<noteq> CHR 0x0A) inp;
               l = take (n - 1) (t @ (if length t < length inp then [CHR 0x0A] else []))
           in Some (l, drop (length l) inp))"

text \<open>The loop that strips the end of the line: the index of the last character kept.\<close>

fun line_end :: "nat \<Rightarrow> string \<Rightarrow> nat" where
  "line_end 0 line = 0"
| "line_end (Suc len) line =
     (if line ! Suc len = CHR 0x0A \<or> isspace (line ! Suc len) then line_end len line else Suc len)"

text \<open>What a parsed line does to the store; the result code 1 ends the loop.\<close>

definition ini_apply ::
    "heap \<Rightarrow> ini_t option \<Rightarrow> string option \<Rightarrow> ini_line \<Rightarrow> (heap \<times> ini_t option \<times> string option \<times> int) option" where
  "ini_apply m this section l =
     (case l of
        INI_LINE_SECTION s \<Rightarrow>
          map_option (\<lambda>(m1, t, ret). (m1, t, Some s, ret)) (ini_set m this (Some s) None)
      | INI_LINE_VALUE k v \<Rightarrow>
          Option.bind section (\<lambda>s.
            map_option (\<lambda>(m1, t, ret). (m1, t, section, ret))
              (ini_set m this (Some (take (MAX_PATH - 1) (s @ '':'' @ k))) (Some v)))
      | _ \<Rightarrow> Some (m, this, section, 0))"

partial_function (option) ini_read_loop ::
    "string \<Rightarrow> nat \<Rightarrow> string \<Rightarrow> string option \<Rightarrow> heap \<Rightarrow> ini_t option \<Rightarrow>
     (heap \<times> ini_t option \<times> int) option option" where
  "ini_read_loop inp last_len line section m this =
     (case fgets (MAX_PATH - last_len) inp of
        None \<Rightarrow> Some (Some (m, this, 0))
      | Some (got, rest) \<Rightarrow>
          let line = cstr (take last_len line @ got) in
          if length line = 1 then ini_read_loop rest last_len line section m this
          else if line = [] then Some None
          else
            let len = line_end (length line - 1) line;
                line = take (len + 1) line
            in if line ! len = CHR 0x5C then ini_read_loop rest len line section m this
               else
                 (case Option.bind (ini_parse_line line section) (ini_apply m this section) of
                    None \<Rightarrow> Some None
                  | Some (m1, this1, section1, ret) \<Rightarrow>
                      if ret \<noteq> 0 then Some (Some (m1, this1, 1))
                      else ini_read_loop rest 0 [] section1 m1 this1))"

declare ini_read_loop.simps [code]

text \<open>The file system is a parameter: the contents of the files that can be opened.\<close>

definition ini_parse_file ::
    "(string \<Rightarrow> string option) \<Rightarrow> heap \<Rightarrow> ini_t option \<Rightarrow> string option \<Rightarrow>
     (heap \<times> ini_t option \<times> int) option option" where
  "ini_parse_file fopen m this file =
     (case (this, Option.bind file fopen) of
        (Some _, Some inp) \<Rightarrow> ini_read_loop inp 0 [] None m this
      | _ \<Rightarrow> Some (Some (m, this, 1)))"

definition ini_init ::
    "(string \<Rightarrow> string option) \<Rightarrow> heap \<Rightarrow> string option \<Rightarrow> (heap \<times> ini_t option) option option" where
  "ini_init fopen m file =
     (let (ok, m1) = malloc m in
      if \<not> ok then Some (Some (m1, None))
      else let this = \<lparr>ini_num = 0, ini_size = 0, ini_key = None, ini_val = None, ini_hashes = None\<rparr> in
        case ini_alloc m1 this of
          None \<Rightarrow> Some None
        | Some (m2, this1, ret) \<Rightarrow>
            if ret \<noteq> 0 then Some (map_option (\<lambda>_. (m2, None)) (ini_release (Some this1)))
            else
              Option.bind (ini_parse_file fopen m2 (Some this1) file) (\<lambda>r.
                Some (Option.bind r (\<lambda>(m3, this2, ret).
                  if ret \<noteq> 0 then map_option (\<lambda>_. (m3, None)) (ini_release this2)
                  else Some (m3, this2)))))"

text \<open>
  The look-up by section and key, into a buffer of \<open>size\<close> bytes: \<open>strncpy\<close> fills the buffer
  up with terminators, and leaves it without one when the value is too long.
\<close>

definition ini_findkey ::
    "ini_t option \<Rightarrow> string option \<Rightarrow> string option \<Rightarrow> char list \<Rightarrow> nat \<Rightarrow> (int \<times> char list) option" where
  "ini_findkey this section key result sz =
     (case (this, section, key) of
        (Some _, Some s, Some k) \<Rightarrow>
          let tmp = strip (take 1023 (s @ '':'' @ k)) in
          map_option (\<lambda>value.
              case value of None \<Rightarrow> (1, replicate sz NUL @ drop sz result)
              | Some v \<Rightarrow> (0, take sz (v @ replicate sz NUL) @ drop sz result))
            (ini_get this (Some tmp))
      | _ \<Rightarrow> Some (-1, result))"

end
