(* ===== verification/Ini_Facts.thy ===== *)
theory Ini_Facts
  imports Ini
begin

text \<open>
  The store of \<open>Ini\<close> is correct: under any sequence of allocation failures it implements a
  finite map from keys to values. Setting a key either updates the map, adds the key without
  a value, or changes nothing. The locale \<open>key_store\<close> states that contract.
\<close>

section \<open>The store as a map\<close>

definition ini_ok :: "ini_t \<Rightarrow> bool" where
  "ini_ok t \<longleftrightarrow>
     (case (ini_key t, ini_val t, ini_hashes t) of
        (Some ks, Some vs, Some hs) \<Rightarrow>
          int (length ks) = ini_size t \<and> length vs = length ks \<and> length hs = length ks \<and>
          int (length (filter (\<lambda>k. k \<noteq> None) ks)) \<le> ini_num t \<and> ini_num t \<le> ini_size t \<and>
          list_all (\<lambda>i. case ks ! i of None \<Rightarrow> True | Some k \<Rightarrow> hs ! i = ini_hash k) [0..<length ks]
      | _ \<Rightarrow> False)"

definition slot_of :: "string option list \<Rightarrow> string \<Rightarrow> nat option" where
  "slot_of ks k = find (\<lambda>i. ks ! i = Some k) [0..<length ks]"

definition ini_view :: "ini_t \<Rightarrow> string \<Rightarrow> string option option" where
  "ini_view t k =
     (case (ini_key t, ini_val t) of
        (Some ks, Some vs) \<Rightarrow> map_option ((!) vs) (slot_of ks k)
      | _ \<Rightarrow> None)"

lemma ini_okE:
  assumes "ini_ok t"
  obtains ks vs hs where "ini_key t = Some ks" "ini_val t = Some vs" "ini_hashes t = Some hs"
    "nat (ini_size t) = length ks" "ini_size t = int (length ks)" "length vs = length ks" "length hs = length ks"
    "int (length (filter (\<lambda>k. k \<noteq> None) ks)) \<le> ini_num t" "ini_num t \<le> ini_size t"
    "\<And>i k. i < length ks \<Longrightarrow> ks ! i = Some k \<Longrightarrow> hs ! i = ini_hash k"
  using assms
  by (auto simp: ini_ok_def list_all_iff split: option.splits prod.splits)

lemma find_upt_cong: "(\<And>i. i < n \<Longrightarrow> P i = Q i) \<Longrightarrow> find P [0..<n] = find Q [0..<n]"
  by (rule find_cong) auto

lemma find_upt_Some: "find P [0..<n] = Some i \<Longrightarrow> i < n \<and> P i"
  using find_Some_mem[of P "[0..<n]" i] by simp

lemma find_upt_None: "find P [0..<n] = None \<longleftrightarrow> (\<forall>i < n. \<not> P i)"
  by (auto simp: find_None_iff_all)

lemma find_upt_unique: "i < n \<Longrightarrow> (\<And>j. j < n \<Longrightarrow> P j \<longleftrightarrow> j = i) \<Longrightarrow> find P [0..<n] = Some i"
  by (cases "find P [0..<n]") (auto simp: find_upt_None dest: find_upt_Some)

lemma ini_scan_ok:
  assumes "ini_ok t" "ini_key t = Some ks"
  shows "ini_scan t k = Some (case slot_of ks k of None \<Rightarrow> -1 | Some i \<Rightarrow> int i)"
proof -
  obtain vs hs where t: "ini_hashes t = Some hs" "nat (ini_size t) = length ks"
    "\<And>i k. i < length ks \<Longrightarrow> ks ! i = Some k \<Longrightarrow> hs ! i = ini_hash k"
    using assms by (auto elim!: ini_okE)
  have "find (\<lambda>i. case ks ! i of None \<Rightarrow> False | Some k' \<Rightarrow> ini_hash k = hs ! i \<and> k = k') [0..<length ks] =
      slot_of ks k"
    unfolding slot_of_def by (rule find_upt_cong) (auto split: option.splits dest: t(3))
  then show ?thesis using t assms(2) by (simp add: ini_scan_def Let_def)
qed

lemma ini_get_view:
  assumes "ini_ok t"
  shows "ini_get (Some t) (Some k) = Some (case ini_view t k of None \<Rightarrow> None | Some v \<Rightarrow> v)"
proof -
  obtain ks vs where t: "ini_key t = Some ks" "ini_val t = Some vs" "length vs = length ks"
    using assms by (auto elim!: ini_okE)
  show ?thesis
    using t ini_scan_ok[OF assms t(1)]
    by (auto simp: ini_get_def ini_view_def slot_of_def split: option.splits dest: find_upt_Some)
qed

lemma used_update:
  "i < length ks \<Longrightarrow> ks ! i = None \<Longrightarrow>
   length (filter (\<lambda>k. k \<noteq> None) (ks[i := Some k])) = Suc (length (filter (\<lambda>k. k \<noteq> None) ks))"
  by (induction ks arbitrary: i) (auto split: nat.splits simp: nth_Cons')

lemma free_slot:
  assumes "length (filter (\<lambda>k. k \<noteq> None) ks) < length ks"
  shows "\<exists>i. find (\<lambda>i. ks ! i = None) [0..<length ks] = Some i \<and> i < length ks \<and> ks ! i = None"
proof (cases "find (\<lambda>i. ks ! i = None) [0..<length ks]")
  case None
  then have "filter (\<lambda>k. k \<noteq> None) ks = ks" by (intro filter_True) (auto simp: find_upt_None in_set_conv_nth)
  then show ?thesis using assms by simp
qed (auto dest: find_upt_Some)

lemma xstrdup_Nil [simp]: "xstrdup [] s = ([], s)"
  by (simp add: xstrdup_def split: option.splits)

lemma xstrdup_result: "snd (xstrdup m s) = s \<or> m \<noteq> [] \<and> snd (xstrdup m s) = None"
  by (cases m) (auto simp: xstrdup_def split: option.splits prod.splits)

lemma slot_of_add:
  assumes "i < length ks" "ks ! i = None"
  shows "slot_of (ks[i := Some k]) k' =
    (if k' = k \<and> slot_of ks k = None then Some i else if k' = k then slot_of (ks[i := Some k]) k else slot_of ks k')"
proof -
  have "slot_of (ks[i := Some k]) k = Some i" if "slot_of ks k = None"
    unfolding slot_of_def
    by (rule find_upt_unique) (use assms that in \<open>auto simp: slot_of_def find_upt_None nth_list_update\<close>)
  moreover have "slot_of (ks[i := Some k]) k' = slot_of ks k'" if "k' \<noteq> k"
    unfolding slot_of_def length_list_update
    by (rule find_upt_cong) (use assms that in \<open>auto simp: nth_list_update\<close>)
  ultimately show ?thesis by simp
qed

lemma slot_of_Some: "slot_of ks k = Some i \<Longrightarrow> i < length ks \<and> ks ! i = Some k"
  unfolding slot_of_def by (rule find_upt_Some)

text \<open>What a set does to the map: the key gets its value, or a copy of one of them failed.\<close>

definition sets_to :: "ini_t \<Rightarrow> ini_t \<Rightarrow> heap \<Rightarrow> string \<Rightarrow> string option \<Rightarrow> bool" where
  "sets_to t t' m k v \<longleftrightarrow>
     ini_ok t' \<and> (\<forall>k'. k' \<noteq> k \<longrightarrow> ini_view t' k' = ini_view t k') \<and>
     (ini_view t' k = Some v \<or> m \<noteq> [] \<and> (ini_view t' k = Some None \<or> ini_view t' k = None))"

lemma ini_add_ok:
  assumes ok: "ini_ok t" and free: "ini_num t < ini_size t" and new: "ini_view t k = None"
  shows "\<exists>m' t'. ini_add m t k v = Some (m', t', 0) \<and> sets_to t t' m k v \<and> (m = [] \<longrightarrow> m' = [])"
proof -
  obtain ks vs hs where t: "ini_key t = Some ks" "ini_val t = Some vs" "ini_hashes t = Some hs"
    "nat (ini_size t) = length ks" "ini_size t = int (length ks)" "length vs = length ks" "length hs = length ks"
    "int (length (filter (\<lambda>k. k \<noteq> None) ks)) \<le> ini_num t" "ini_num t \<le> ini_size t"
    "\<And>i k. i < length ks \<Longrightarrow> ks ! i = Some k \<Longrightarrow> hs ! i = ini_hash k"
    by (rule ini_okE[OF ok]) (rule that)
  obtain i where i: "find (\<lambda>i. ks ! i = None) [0..<length ks] = Some i" "i < length ks" "ks ! i = None"
    using free_slot[of ks] t(5,8) free by auto
  obtain m1 k1 where k1: "xstrdup m (Some k) = (m1, k1)" by (metis surj_pair)
  obtain m2 v1 where v1: "xstrdup m1 v = (m2, v1)" by (metis surj_pair)
  have k1': "k1 = Some k \<or> m \<noteq> [] \<and> k1 = None" using xstrdup_result[of m "Some k"] k1 by auto
  have m1: "m1 = []" if "m = []" using that k1 by simp
  have v1': "v1 = v \<or> m \<noteq> [] \<and> v1 = None" using xstrdup_result[of m1 v] v1 m1 by auto
  define t' where "t' = t\<lparr>ini_key := Some (ks[i := k1]), ini_val := Some (vs[i := v1]),
    ini_hashes := Some (hs[i := ini_hash k]), ini_num := ini_num t + 1\<rparr>"
  have add: "ini_add m t k v = Some (m2, t', 0)"
    using t i k1 v1 by (simp add: ini_add_def write_slot_def Let_def t'_def)
  have old: "slot_of ks k = None" using new t by (simp add: ini_view_def)
  have len: "length (filter (\<lambda>k. k \<noteq> None) (ks[i := k1])) \<le> Suc (length (filter (\<lambda>k. k \<noteq> None) ks))"
    using used_update[OF i(2,3), of k] i(3) k1' by (auto simp: list_update_same_conv[OF i(2), THEN iffD2])
  have "ini_ok t'"
    using t len free k1' i
    by (auto simp: t'_def ini_ok_def list_all_iff nth_list_update split: option.splits)
  moreover have "ini_view t' k' = ini_view t k'" if "k' \<noteq> k" for k'
  proof (cases k1)
    case None
    then have "ks[i := k1] = ks" using i(3) by (metis list_update_id)
    then show ?thesis using t i(3)
      by (auto simp: ini_view_def t'_def map_option_case split: option.splits dest!: slot_of_Some intro!: nth_list_update_neq)
  next
    case (Some s)
    then have "slot_of (ks[i := k1]) k' = slot_of ks k'" using slot_of_add[OF i(2,3), of k k'] k1' that by auto
    then show ?thesis using t i(3)
      by (auto simp: ini_view_def t'_def map_option_case split: option.splits dest!: slot_of_Some intro!: nth_list_update_neq)
  qed
  moreover have "ini_view t' k = Some v \<or> m \<noteq> [] \<and> (ini_view t' k = Some None \<or> ini_view t' k = None)"
  proof (cases k1)
    case None
    then have "ks[i := k1] = ks" using i(3) by (metis list_update_id)
    then show ?thesis using t old k1' None by (simp add: ini_view_def t'_def)
  next
    case (Some s)
    then have "slot_of (ks[i := k1]) k = Some i" using slot_of_add[OF i(2,3), of k k] k1' old by auto
    then show ?thesis using t i(2) v1' by (auto simp: ini_view_def t'_def)
  qed
  ultimately show ?thesis using add m1 v1 by (auto simp: sets_to_def)
qed

lemma malloc_result: "fst (malloc m) \<or> m \<noteq> []" "m = [] \<Longrightarrow> snd (malloc m) = []"
  by (auto simp: malloc_def)

lemma extend_mem_Some:
  "\<exists>m' r. extend_mem m (Some xs) c e z = Some (m', r) \<and>
     (r = Some (take (nat c) xs @ replicate (nat (e - c)) z) \<or> m \<noteq> [] \<and> r = None) \<and> (m = [] \<longrightarrow> m' = [])"
  using malloc_result[of m] by (cases "malloc m") (auto simp: extend_mem_def)

lemma slot_of_extend: "slot_of (ks @ replicate n None) k = slot_of ks k"
proof -
  let ?P = "\<lambda>i. (ks @ replicate n None) ! i = Some k"
  have "find ?P [0..<length ks] = slot_of ks k"
    unfolding slot_of_def by (rule find_upt_cong) (simp add: nth_append)
  moreover have "find ?P [length ks..<length ks + n] = None"
    by (auto simp: find_None_iff_all nth_append)
  moreover have "[0..<length (ks @ replicate n None)] = [0..<length ks] @ [length ks..<length ks + n]"
    by (simp add: upt_add_eq_append[of 0, simplified])
  ultimately show ?thesis by (simp add: slot_of_def find_append split: option.splits)
qed

lemma ini_alloc_ok:
  assumes ok: "ini_ok t"
  shows "\<exists>m' t' ret. ini_alloc m t = Some (m', t', ret) \<and>
    (ret = 0 \<longrightarrow> ini_ok t' \<and> ini_view t' = ini_view t \<and> ini_num t' = ini_num t \<and> ini_size t' = ini_size t + 64) \<and>
    (ret \<noteq> 0 \<longrightarrow> ret = 1 \<and> m \<noteq> []) \<and> (m = [] \<longrightarrow> m' = [])"
proof -
  obtain ks vs hs where t: "ini_key t = Some ks" "ini_val t = Some vs" "ini_hashes t = Some hs"
    "nat (ini_size t) = length ks" "ini_size t = int (length ks)" "length vs = length ks" "length hs = length ks"
    "int (length (filter (\<lambda>k. k \<noteq> None) ks)) \<le> ini_num t" "ini_num t \<le> ini_size t"
    "\<And>i k. i < length ks \<Longrightarrow> ks ! i = Some k \<Longrightarrow> hs ! i = ini_hash k"
    by (rule ini_okE[OF ok]) (rule that)
  let ?n = "ini_size t + 64"
  obtain m1 k1 where k1: "extend_mem m (Some ks) (ini_size t) ?n None = Some (m1, k1)"
    "k1 = Some (ks @ replicate 64 None) \<or> m \<noteq> [] \<and> k1 = None" "m = [] \<longrightarrow> m1 = []"
    using extend_mem_Some[of m ks "ini_size t" ?n None] t(4) by auto
  obtain m2 v1 where v1: "extend_mem m1 (Some vs) (ini_size t) ?n None = Some (m2, v1)"
    "v1 = Some (vs @ replicate 64 None) \<or> m1 \<noteq> [] \<and> v1 = None" "m1 = [] \<longrightarrow> m2 = []"
    using extend_mem_Some[of m1 vs "ini_size t" ?n None] t(4,6) by auto
  obtain m3 h1 where h1: "extend_mem m2 (Some hs) (ini_size t) ?n 0 = Some (m3, h1)"
    "h1 = Some (hs @ replicate 64 0) \<or> m2 \<noteq> [] \<and> h1 = None" "m2 = [] \<longrightarrow> m3 = []"
    using extend_mem_Some[of m2 hs "ini_size t" ?n 0] t(4,7) by auto
  show ?thesis
  proof (cases "k1 = None \<or> v1 = None \<or> h1 = None")
    case True
    then show ?thesis using t k1 v1 h1 by (auto simp: ini_alloc_def Let_def)
  next
    case False
    define t' where "t' = t\<lparr>ini_key := k1, ini_val := v1, ini_hashes := h1, ini_size := ?n\<rparr>"
    have k': "k1 = Some (ks @ replicate 64 None)" "v1 = Some (vs @ replicate 64 None)" "h1 = Some (hs @ replicate 64 0)"
      using False k1 v1 h1 by auto
    have a: "ini_alloc m t = Some (m3, t', 0)" using False t k1(1) v1(1) h1(1) by (auto simp: ini_alloc_def Let_def t'_def)
    have "slot_of (ks @ replicate 64 None) k = slot_of ks k" for k by (rule slot_of_extend)
    then have "ini_view t' = ini_view t" using k' t
      by (auto simp: fun_eq_iff ini_view_def t'_def map_option_case nth_append split: option.splits dest: slot_of_Some)
    moreover have "ini_ok t'" using k' t
      by (auto simp: ini_ok_def t'_def list_all_iff nth_append split: option.splits)
    ultimately show ?thesis using a k1(3) v1(3) h1(3) by (auto simp: t'_def)
  qed
qed

lemma ini_find_ok:
  assumes "ini_ok t" "ini_key t = Some ks"
  shows "ini_find (Some t) (Some k) = Some (case slot_of ks k of None \<Rightarrow> -1 | Some i \<Rightarrow> int i)"
proof (cases "ini_num t \<le> 0")
  case True
  have "int (length (filter (\<lambda>k. k \<noteq> None) ks)) \<le> ini_num t"
    by (rule ini_okE[OF assms(1)]) (use assms(2) in simp)
  then have "length (filter (\<lambda>k. k \<noteq> None) ks) = 0" using True by linarith
  then have "filter (\<lambda>k. k \<noteq> None) ks = []" by (simp only: length_0_conv)
  then have "slot_of ks k = None"
    by (auto simp: slot_of_def find_upt_None filter_empty_conv) (metis nth_mem option.discI)
  then show ?thesis using True by (simp add: ini_find_def)
next
  case False
  then show ?thesis using ini_scan_ok[OF assms] by (simp add: ini_find_def)
qed

lemma ini_set_ok:
  assumes ok: "ini_ok t"
  shows "\<exists>m' t' ret. ini_set m (Some t) (Some k) v = Some (m', Some t', ret) \<and>
    (ret = 0 \<longrightarrow> sets_to t t' m k v) \<and> (ret \<noteq> 0 \<longrightarrow> ret = 1 \<and> m \<noteq> []) \<and> (m = [] \<longrightarrow> m' = [])"
proof -
  obtain ks vs hs where t: "ini_key t = Some ks" "ini_val t = Some vs" "ini_hashes t = Some hs"
    "nat (ini_size t) = length ks" "ini_size t = int (length ks)" "length vs = length ks" "length hs = length ks"
    "int (length (filter (\<lambda>k. k \<noteq> None) ks)) \<le> ini_num t" "ini_num t \<le> ini_size t"
    "\<And>i k. i < length ks \<Longrightarrow> ks ! i = Some k \<Longrightarrow> hs ! i = ini_hash k"
    by (rule ini_okE[OF ok]) (rule that)
  have f: "ini_find (Some t) (Some k) = Some (case slot_of ks k of None \<Rightarrow> -1 | Some i \<Rightarrow> int i)"
    by (rule ini_find_ok[OF ok t(1)])
  show ?thesis
  proof (cases "slot_of ks k")
    case (Some i)
    note i = slot_of_Some[OF Some]
    obtain m1 v1 where v1: "xstrdup m v = (m1, v1)" by (metis surj_pair)
    have v1': "v1 = v \<or> m \<noteq> [] \<and> v1 = None" "m = [] \<longrightarrow> m1 = []"
      using xstrdup_result[of m v] v1 by auto
    define t' where "t' = t\<lparr>ini_val := Some (vs[i := v1])\<rparr>"
    have "ini_ok t'" using t by (auto simp: t'_def ini_ok_def list_all_iff split: option.splits)
    moreover have "ini_view t' k' = ini_view t k'" if "k' \<noteq> k" for k'
      using t that i
      by (auto simp: ini_view_def t'_def map_option_case split: option.splits dest!: slot_of_Some intro!: nth_list_update_neq)
    moreover have "ini_view t' k = Some v1" using t i Some by (simp add: ini_view_def t'_def)
    ultimately have "sets_to t t' m k v" using v1'(1) by (auto simp: sets_to_def)
    moreover have "ini_set m (Some t) (Some k) v = Some (m1, Some t', 0)"
      using f Some v1 t i by (simp add: ini_set_def write_slot_def t'_def)
    ultimately show ?thesis using v1'(2) by auto
  next
    case None
    have new: "ini_view t k = None" using None t by (simp add: ini_view_def)
    show ?thesis
    proof (cases "ini_num t = ini_size t")
      case full: True
      obtain m1 t1 ret where a: "ini_alloc m t = Some (m1, t1, ret)"
        "ret = 0 \<longrightarrow> ini_ok t1 \<and> ini_view t1 = ini_view t \<and> ini_num t1 = ini_num t \<and> ini_size t1 = ini_size t + 64"
        "ret \<noteq> 0 \<longrightarrow> ret = 1 \<and> m \<noteq> []" "m = [] \<longrightarrow> m1 = []"
        using ini_alloc_ok[OF ok, of m] by blast
      show ?thesis
      proof (cases "ret = 0")
        case True
        then have t1: "ini_ok t1" "ini_num t1 < ini_size t1" "ini_view t1 k = None" "ini_view t1 = ini_view t"
          using a(2) full new by auto
        obtain m2 t2 where "ini_add m1 t1 k v = Some (m2, t2, 0)" "sets_to t1 t2 m1 k v" "m1 = [] \<longrightarrow> m2 = []"
          using ini_add_ok[OF t1(1-3), of m1 v] by blast
        then show ?thesis using True a f None full t1(4) by (auto simp: ini_set_def sets_to_def)
      next
        case False
        then show ?thesis using a f None full by (auto simp: ini_set_def)
      qed
    next
      case room: False
      then have "ini_num t < ini_size t" using t(9) by simp
      then obtain m2 t2 where "ini_add m t k v = Some (m2, t2, 0)" "sets_to t t2 m k v" "m = [] \<longrightarrow> m2 = []"
        using ini_add_ok[OF ok _ new, of m v] by blast
      then show ?thesis using f None room by (auto simp: ini_set_def)
    qed
  qed
qed

section \<open>Stores of keys and values\<close>

text \<open>
  The interface the reading loop and the look-ups rely on: a store with a view as a map, an
  operation that puts a value for a key, and one that reads it.
\<close>

locale key_store =
  fixes ok :: "'s \<Rightarrow> bool"
    and view :: "'s \<Rightarrow> 'k \<Rightarrow> 'v option"
    and put :: "'k \<Rightarrow> 'v \<Rightarrow> 's \<Rightarrow> 's option"
    and look :: "'s \<Rightarrow> 'k \<Rightarrow> 'w"
    and shown :: "'v option \<Rightarrow> 'w"
  assumes put_ok: "ok s \<Longrightarrow> \<exists>s'. put k v s = Some s' \<and> ok s' \<and> view s' = (view s)(k \<mapsto> v)"
    and look_view: "ok s \<Longrightarrow> look s k = shown (view s k)"
begin

fun put_all :: "('k \<times> 'v) list \<Rightarrow> 's \<Rightarrow> 's option" where
  "put_all [] s = Some s"
| "put_all ((k, v) # kvs) s = Option.bind (put k v s) (put_all kvs)"

lemma put_all_ok:
  "ok s \<Longrightarrow> \<exists>s'. put_all kvs s = Some s' \<and> ok s' \<and> view s' = (view s) ++ map_of (rev kvs)"
proof (induction kvs arbitrary: s)
  case (Cons kv kvs)
  obtain k v where kv: "kv = (k, v)" by (cases kv)
  obtain s1 where s1: "put k v s = Some s1" "ok s1" "view s1 = (view s)(k \<mapsto> v)"
    using put_ok[OF Cons.prems] by blast
  have e: "view s1 ++ map_of (rev kvs) = view s ++ map_of (rev (kv # kvs))"
    unfolding s1(3) by (auto simp: kv map_add_def fun_eq_iff split: option.splits)
  obtain s' where "put_all kvs s1 = Some s'" "ok s'" "view s' = view s1 ++ map_of (rev kvs)"
    using Cons.IH[OF s1(2)] by blast
  then show ?case using s1(1) kv e by (simp del: rev.simps)
qed simp

text \<open>The last value put for a key is the one read.\<close>

lemma look_put_all:
  "ok s \<Longrightarrow> \<exists>s'. put_all kvs s = Some s' \<and> ok s' \<and>
     look s' k = shown (case map_of (rev kvs) k of None \<Rightarrow> view s k | Some v \<Rightarrow> Some v)"
  using put_all_ok[of s kvs] look_view by (fastforce simp: map_add_def)

end

text \<open>The configuration store, where memory does not run out.\<close>

definition ini_put :: "string \<Rightarrow> string option \<Rightarrow> ini_t \<Rightarrow> ini_t option" where
  "ini_put k v t =
     Option.bind (ini_set [] (Some t) (Some k) v) (\<lambda>(m, t', ret). if ret = 0 then t' else None)"

lemma ini_set_put:
  "ini_ok t \<Longrightarrow> \<exists>t'. ini_set [] (Some t) (Some k) v = Some ([], Some t', 0) \<and> ini_put k v t = Some t' \<and>
     ini_ok t' \<and> ini_view t' = (ini_view t)(k \<mapsto> v)"
proof -
  assume "ini_ok t"
  then obtain t' where t': "ini_set [] (Some t) (Some k) v = Some ([], Some t', 0)" "sets_to t t' [] k v"
    using ini_set_ok[of t "[]" k v] by auto
  then have "ini_view t' = (ini_view t)(k \<mapsto> v)" by (auto simp: sets_to_def fun_eq_iff)
  then show ?thesis using t' by (simp add: ini_put_def sets_to_def)
qed

interpretation ini_store: key_store ini_ok ini_view ini_put
  "\<lambda>t k. ini_get (Some t) (Some k)" "\<lambda>v. Some (case v of None \<Rightarrow> None | Some v \<Rightarrow> v)"
  by unfold_locales (use ini_set_put ini_get_view in \<open>blast+\<close>)

end
