(* ===== verification/Ini_Reading.thy ===== *)
theory Ini_Reading
  imports Ini_Facts
begin

text \<open>
  The reading loop of \<open>ini_parse_file\<close>: it ends on every file, and a text of sections and
  assignments is read back as the assignments, in their order.
\<close>

section \<open>Reading a line\<close>

lemma prefix_again:
  assumes "inp = l @ r"
  shows "inp = take k l @ drop (length (take k l)) inp"
proof -
  have i: "inp = take k l @ (drop k l @ r)" using assms by simp
  then have "drop (length (take k l)) inp = drop k l @ r" by (metis append_eq_conv_conj)
  then show ?thesis using i by simp
qed

lemma fgets_Some:
  assumes "2 \<le> n" "inp \<noteq> []"
  obtains got rest where "fgets n inp = Some (got, rest)" "got \<noteq> []" "inp = got @ rest" "length got \<le> n - 1"
proof -
  let ?t = "takeWhile (\<lambda>c. c \<noteq> CHR 0x0A) inp"
  let ?l = "?t @ (if length ?t < length inp then [CHR 0x0A] else [])"
  have p: "\<exists>r. inp = ?l @ r"
  proof (cases "dropWhile (\<lambda>c. c \<noteq> CHR 0x0A) inp")
    case Nil
    then have "?t = inp" by (metis append_Nil2 takeWhile_dropWhile_id)
    then show ?thesis by (simp only: less_irrefl if_False append_Nil2) simp
  next
    case (Cons x xs)
    then have "x = CHR 0x0A" using hd_dropWhile[of "\<lambda>c. c \<noteq> CHR 0x0A" inp] by simp
    then have i: "inp = ?t @ CHR 0x0A # xs" using Cons by (metis takeWhile_dropWhile_id)
    then have "length ?t < length inp" by (metis length_append length_Cons less_add_Suc1 add_Suc_right)
    then have "inp = ?l @ xs" using i by (simp only: if_True append.assoc append_Cons append_Nil)
    then show ?thesis ..
  qed
  then obtain r where r: "inp = ?l @ r" ..
  have ne: "?l \<noteq> []" using assms(2) by (cases inp) auto
  have g: "fgets n inp = Some (take (n - 1) ?l, drop (length (take (n - 1) ?l)) inp)"
    using assms by (simp add: fgets_def Let_def del: length_take)
  have "take (n - 1) ?l \<noteq> []" using ne assms(1) by (simp only: take_eq_Nil) simp
  then show ?thesis using that[OF g _ prefix_again[OF r]] assms(1) by (simp only: length_take) simp
qed

lemma fgets_end [simp]: "2 \<le> n \<Longrightarrow> fgets n [] = None"
  by (simp add: fgets_def)

lemma line_end_le: "line_end n line \<le> n"
  by (induction n line rule: line_end.induct) (auto intro: le_SucI)

lemma length_cstr: "length (cstr b) \<le> length b"
  by (simp add: cstr_def length_takeWhile_le)

text \<open>The loop ends: each turn takes something from the file, for there is always room to read.\<close>

lemma read_loop_ends:
  "last_len \<le> 258 \<Longrightarrow> \<exists>r. ini_read_loop inp last_len line sect m this = Some r"
proof (induction "length inp" arbitrary: inp last_len line sect m this rule: less_induct)
  case less
  show ?case
  proof (cases "inp = []")
    case True
    then show ?thesis using less.prems by (subst ini_read_loop.simps) simp
  next
    case False
    obtain got rest where g: "fgets (260 - last_len) inp = Some (got, rest)" "got \<noteq> []" "inp = got @ rest"
      "length got \<le> 260 - last_len - 1"
    proof (rule fgets_Some[OF _ False])
      show "2 \<le> 260 - last_len" using less.prems by linarith
    qed (rule that)
    have IH: "\<And>l li s m t. l \<le> 258 \<Longrightarrow> \<exists>r. ini_read_loop rest l li s m t = Some r"
      using less.hyps g(2,3) by simp
    let ?line = "cstr (take last_len line @ got)"
    have "length ?line \<le> 259" using length_cstr[of "take last_len line @ got"] g(4) less.prems by simp
    then have "line_end (length ?line - 1) ?line \<le> 258" using line_end_le[of "length ?line - 1" ?line] by linarith
    then show ?thesis
      using g(1) IH less.prems by (subst ini_read_loop.simps) (auto simp: Let_def split: option.splits prod.splits)
  qed
qed

lemma parse_file_ends: "\<exists>r. ini_parse_file fopen m this file = Some r"
  using read_loop_ends[of 0] by (auto simp: ini_parse_file_def split: option.splits)

lemma init_ends: "\<exists>r. ini_init fopen m file = Some r"
  using parse_file_ends
  by (auto simp: ini_init_def Let_def bind_eq_Some_conv split: prod.splits option.splits if_splits)

section \<open>Texts of sections and assignments\<close>

text \<open>
  A configuration: sections with their keys and values, in the order of the text; a value may
  stand between quotes of its own.
\<close>

type_synonym assignment = "string \<times> char option \<times> string"
type_synonym ini_doc = "(string \<times> assignment list) list"

definition section_line :: "string \<Rightarrow> string" where
  "section_line s = CHR ''['' # s @ '']''"

definition value_text :: "char option \<Rightarrow> string \<Rightarrow> string" where
  "value_text q v = (case q of None \<Rightarrow> v | Some c \<Rightarrow> c # v @ [c])"

definition value_line :: "assignment \<Rightarrow> string" where
  "value_line a = (let (k, q, v) = a in k @ '' = '' @ value_text q v)"

definition lines_text :: "string list \<Rightarrow> string" where
  "lines_text ls = concat (map (\<lambda>l. l @ [CHR 0x0A]) ls)"

definition ini_text :: "ini_doc \<Rightarrow> string" where
  "ini_text doc = lines_text (concat (map (\<lambda>(s, kvs). section_line s # map value_line kvs) doc))"

text \<open>The keys and values in the store: a section is a key without a value.\<close>

definition section_entries :: "string \<Rightarrow> assignment list \<Rightarrow> (string \<times> string option) list" where
  "section_entries s kvs = map (\<lambda>(k, q, v). (s @ '':'' @ k, Some v)) kvs"

definition ini_entries :: "ini_doc \<Rightarrow> (string \<times> string option) list" where
  "ini_entries doc = concat (map (\<lambda>(s, kvs). (s, None) # section_entries s kvs) doc)"

text \<open>Words that stand for themselves: not empty, without line ends and spaces at the ends.\<close>

definition word_ok :: "string \<Rightarrow> bool" where
  "word_ok s \<longleftrightarrow> s \<noteq> [] \<and> NUL \<notin> set s \<and> CHR 0x0A \<notin> set s \<and> \<not> isspace (hd s) \<and> \<not> isspace (last s)"

definition section_ok :: "string \<Rightarrow> bool" where
  "section_ok s \<longleftrightarrow> word_ok s \<and> CHR '']'' \<notin> set s \<and> length s \<le> 256"

definition key_ok :: "string \<Rightarrow> bool" where
  "key_ok k \<longleftrightarrow> word_ok k \<and> CHR ''='' \<notin> set k \<and> hd k \<notin> set ''#;[''"

definition value_ok :: "char option \<Rightarrow> string \<Rightarrow> bool" where
  "value_ok q v \<longleftrightarrow> word_ok v \<and>
     (case q of
        None \<Rightarrow> CHR '';'' \<notin> set v \<and> CHR ''#'' \<notin> set v \<and> hd v \<notin> set [CHR 0x22, CHR 0x27] \<and> last v \<noteq> CHR 0x5C
      | Some c \<Rightarrow> c \<in> set [CHR 0x22, CHR 0x27] \<and> c \<notin> set v \<and>
                  v \<noteq> [CHR 0x22, CHR 0x22] \<and> v \<noteq> [CHR 0x27, CHR 0x27])"

definition pair_ok :: "string \<Rightarrow> assignment \<Rightarrow> bool" where
  "pair_ok s a \<longleftrightarrow>
     (let (k, q, v) = a in key_ok k \<and> value_ok q v \<and>
        length k + length (value_text q v) \<le> 255 \<and> length s + length k \<le> 258)"

definition doc_ok :: "ini_doc \<Rightarrow> bool" where
  "doc_ok doc \<longleftrightarrow> list_all (\<lambda>(s, kvs). section_ok s \<and> list_all (pair_ok s) kvs) doc"

lemma trim_set_spaces: "c \<in> trim_set None \<Longrightarrow> isspace c"
  by (auto simp: trim_set_def isspace_def)

lemma strip_trimmed: "NUL \<notin> set s \<Longrightarrow> strip s = trimmed (trim_set None) s"
  using strtrim_shape[of "s @ [NUL]" None] by (auto simp: strip_def NUL_trimmed)

lemma strip_id: "NUL \<notin> set s \<Longrightarrow> s = [] \<or> \<not> isspace (hd s) \<and> \<not> isspace (last s) \<Longrightarrow> strip s = s"
  using trim_set_spaces by (auto simp: strip_trimmed intro!: trimmed_id)

lemma strip_word: "word_ok s \<Longrightarrow> strip s = s"
  by (simp add: strip_id word_ok_def)

lemma strip_word_space:
  assumes "word_ok s"
  shows "strip (s @ '' '') = s"
proof -
  have "strip (s @ '' '') = trimmed (trim_set None) (s @ '' '')"
    using assms by (intro strip_trimmed) (simp add: word_ok_def)
  also have "\<dots> = trimmed (trim_set None) s" by (simp add: trimmed_def trim_set_def)
  also have "\<dots> = s" using strip_word[OF assms] assms by (simp add: strip_trimmed word_ok_def)
  finally show ?thesis .
qed

lemma takeWhile_all: "(\<And>x. x \<in> set s \<Longrightarrow> P x) \<Longrightarrow> takeWhile P s = s"
  by (simp add: takeWhile_eq_all_conv)

lemma parse_section_line:
  assumes "section_ok s"
  shows "ini_parse_line (section_line s) sect = Some (INI_LINE_SECTION s)"
proof -
  have w: "word_ok s" "CHR '']'' \<notin> set s" "length s \<le> 256" using assms by (simp_all add: section_ok_def)
  have l: "strip (section_line s) = section_line s"
    using w(1) by (intro strip_id) (auto simp: section_line_def word_ok_def isspace_def)
  have "takeWhile (\<lambda>c. c \<noteq> CHR '']'') (s @ '']'') = s"
    using w(2) by (subst takeWhile_append2) auto
  then have sc: "sscanf (section_line s) [Lit CHR ''['', Scan (\<lambda>c. c \<noteq> CHR '']'')] = [s]"
    using w(1) by (simp add: section_line_def word_ok_def)
  have n: "length (section_line s) = length s + 2" "section_line s ! (length s + 1) = CHR '']''"
    "section_line s ! 0 = CHR ''[''" by (simp_all add: section_line_def nth_append)
  show ?thesis
    unfolding ini_parse_line_def l Let_def using sc n w(3) strip_word[OF w(1)] by simp
qed

lemma value_text_word:
  "value_ok q v \<Longrightarrow> word_ok (value_text q v) \<and> last (value_text q v) \<noteq> CHR 0x5C"
  by (cases q) (auto simp: value_ok_def value_text_def word_ok_def isspace_def)

lemma scan_key:
  assumes "key_ok k" "word_ok (value_text q v)"
  shows "sscanf (value_line (k, q, v)) (Scan (\<lambda>c. c \<noteq> CHR ''='') # Space # Lit CHR ''='' # Space # ds) =
    (k @ '' '') # sscanf (value_text q v) ds"
proof -
  let ?t = "value_text q v"
  have "takeWhile (\<lambda>c. c \<noteq> CHR ''='') (value_line (k, q, v)) = k @ '' ''"
    using assms(1) by (simp add: value_line_def key_ok_def) (subst takeWhile_append2; auto)
  moreover have "drop (length (k @ '' '')) (value_line (k, q, v)) = ''= '' @ ?t" by (simp add: value_line_def)
  moreover have "dropWhile isspace ('' '' @ ?t) = ?t"
    using assms(2) by (cases ?t) (auto simp: word_ok_def isspace_def)
  ultimately show ?thesis by (simp add: isspace_def)
qed

text \<open>The value patterns on a value: bare, or between quotes of either kind.\<close>

abbreviation quote_scan :: "char \<Rightarrow> directive list" where
  "quote_scan c \<equiv> [Lit c, Scan (\<lambda>x. x \<noteq> c), Lit c]"

abbreviation bare_scan :: "directive list" where
  "bare_scan \<equiv> [Scan (\<lambda>c. c \<noteq> CHR '';'' \<and> c \<noteq> CHR ''#'')]"

lemma scan_other_quote: "s \<noteq> [] \<Longrightarrow> hd s \<noteq> c \<Longrightarrow> sscanf s (quote_scan c) = []"
  by (cases s) simp_all

lemma scan_quoted:
  assumes "c \<notin> set v" "v \<noteq> []"
  shows "sscanf (c # v @ [c]) (quote_scan c) = [v]"
proof -
  have "takeWhile (\<lambda>x. x \<noteq> c) (v @ [c]) = v" using assms(1) by (subst takeWhile_append2) auto
  then show ?thesis using assms(2) by simp
qed

lemma scan_bare: "v \<noteq> [] \<Longrightarrow> CHR '';'' \<notin> set v \<Longrightarrow> CHR ''#'' \<notin> set v \<Longrightarrow> sscanf v bare_scan = [v]"
proof -
  assume v: "v \<noteq> []" "CHR '';'' \<notin> set v" "CHR ''#'' \<notin> set v"
  have "takeWhile (\<lambda>c. c \<noteq> CHR '';'' \<and> c \<noteq> CHR ''#'') v = v" by (rule takeWhile_all) (use v in auto)
  then show ?thesis using v(1) by (simp only: sscanf.simps Let_def if_False)
qed

lemma first_scan_value:
  assumes "key_ok k" "value_ok q v"
  shows "first_scan (value_line (k, q, v)) key_value_patterns = Some (k @ '' '', v)"
proof -
  let ?t = "value_text q v"
  note w = value_text_word[OF assms(2)]
  have n: "v \<noteq> []" using assms(2) by (simp add: value_ok_def word_ok_def)
  consider (bare) "sscanf ?t (quote_scan (CHR 0x22)) = []" "sscanf ?t (quote_scan (CHR 0x27)) = []" "sscanf ?t bare_scan = [v]"
    | (double) "sscanf ?t (quote_scan (CHR 0x22)) = [v]"
    | (single) "sscanf ?t (quote_scan (CHR 0x22)) = []" "sscanf ?t (quote_scan (CHR 0x27)) = [v]"
  proof (cases q)
    case None
    have "hd v \<noteq> CHR 0x22" "hd v \<noteq> CHR 0x27" "CHR '';'' \<notin> set v" "CHR ''#'' \<notin> set v"
      using assms(2) None by (auto simp: value_ok_def)
    then show ?thesis
      using None n by (intro bare) (simp_all add: value_text_def scan_other_quote scan_bare del: sscanf.simps)
  next
    case (Some c)
    then have c: "c = CHR 0x22 \<or> c = CHR 0x27" "c \<notin> set v" using assms(2) by (auto simp: value_ok_def)
    from c(1) show ?thesis
    proof
      assume "c = CHR 0x22"
      then show ?thesis using Some n c(2) by (intro double) (simp add: value_text_def scan_quoted del: sscanf.simps)
    next
      assume "c = CHR 0x27"
      then show ?thesis
        using Some n c(2) by (intro single) (simp_all add: value_text_def scan_quoted scan_other_quote del: sscanf.simps)
    qed
  qed
  then show ?thesis
    by cases (simp_all add: first_scan_def key_value_patterns_def scan_key[OF assms(1) conjunct1[OF w]]
        del: sscanf.simps)
qed

lemma parse_value_line:
  assumes "pair_ok s (k, q, v)"
  shows "ini_parse_line (value_line (k, q, v)) sect = Some (INI_LINE_VALUE k v)"
proof -
  have k: "key_ok k" "word_ok k" and v: "value_ok q v" "word_ok v" and len: "length k + length (value_text q v) \<le> 255"
    using assms by (simp_all add: pair_ok_def key_ok_def value_ok_def)
  have l: "strip (value_line (k, q, v)) = value_line (k, q, v)"
    using k(2) value_text_word[OF v(1)] by (intro strip_id) (auto simp: value_line_def word_ok_def)
  have ne: "v \<noteq> [CHR 0x22, CHR 0x22]" "v \<noteq> [CHR 0x27, CHR 0x27]"
    using v(1) by (auto simp: value_ok_def split: option.splits)
  have "value_line (k, q, v) \<noteq> []" "value_line (k, q, v) ! 0 = hd k"
    using k(2) by (simp_all add: value_line_def word_ok_def nth_append hd_conv_nth)
  then show ?thesis
    using k v ne len first_scan_value[OF k(1) v(1)] strip_word_space[OF k(2)] strip_word[OF v(2)]
    unfolding ini_parse_line_def l Let_def by (auto simp: key_ok_def)
qed

text \<open>One line of the text is one turn of the loop.\<close>

definition line_ok :: "string \<Rightarrow> bool" where
  "line_ok l \<longleftrightarrow> l \<noteq> [] \<and> NUL \<notin> set l \<and> CHR 0x0A \<notin> set l \<and> \<not> isspace (last l) \<and>
     last l \<noteq> CHR 0x5C \<and> length l \<le> 258"

lemma read_line:
  assumes "line_ok l"
  shows "ini_read_loop ((l @ [CHR 0x0A]) @ rest) 0 [] sect m this =
    (case Option.bind (ini_parse_line l sect) (ini_apply m this sect) of
       None \<Rightarrow> Some None
     | Some (m1, this1, sect1, ret) \<Rightarrow>
         if ret \<noteq> 0 then Some (Some (m1, this1, 1)) else ini_read_loop rest 0 [] sect1 m1 this1)"
proof -
  let ?l = "l @ [CHR 0x0A]"
  have l: "l \<noteq> []" "NUL \<notin> set l" "CHR 0x0A \<notin> set l" "\<not> isspace (last l)" "last l \<noteq> CHR 0x5C" "length l \<le> 258"
    using assms by (simp_all add: line_ok_def)
  have "takeWhile (\<lambda>c. c \<noteq> CHR 0x0A) (?l @ rest) = l" using l(3) by (simp add: takeWhile_append2) (subst takeWhile_append2; auto)
  then have f: "fgets 260 (?l @ rest) = Some (?l, rest)" using l(6) by (simp add: fgets_def Let_def)
  have c: "cstr ?l = ?l" unfolding cstr_def by (rule takeWhile_all) (use l(2) in auto)
  obtain n where n: "length l = Suc n" using l(1) by (cases "length l") auto
  have ln: "l ! n = last l" using l(1) n by (simp add: last_conv_nth)
  have e: "line_end n ?l = n" using ln l(3,4) n nth_mem[of n l] by (cases n) (auto simp: nth_append)
  show ?thesis
    using l(1,5) n ln by (subst ini_read_loop.simps) (simp add: f[simplified] c e Let_def nth_append)
qed

lemma section_line_ok: "section_ok s \<Longrightarrow> line_ok (section_line s)"
  by (auto simp: section_ok_def word_ok_def section_line_def line_ok_def isspace_def)

lemma value_line_ok: "pair_ok s kv \<Longrightarrow> line_ok (value_line kv)"
proof -
  assume p: "pair_ok s kv"
  obtain k q v where kv: "kv = (k, q, v)" by (cases kv)
  show ?thesis
    using p value_text_word[of q v] unfolding kv
    by (auto simp: pair_ok_def key_ok_def word_ok_def value_line_def line_ok_def)
qed

lemma read_values:
  assumes "list_all (pair_ok s) kvs" "ini_ok t" "ini_store.put_all (section_entries s kvs) t = Some t'"
  shows "ini_read_loop (lines_text (map value_line kvs) @ rest) 0 [] (Some s) [] (Some t) =
    ini_read_loop rest 0 [] (Some s) [] (Some t')"
  using assms
proof (induction kvs arbitrary: t)
  case Nil
  then show ?case by (simp add: lines_text_def section_entries_def)
next
  case (Cons kv kvs)
  obtain k q v where kv: "kv = (k, q, v)" by (cases kv)
  have p: "pair_ok s (k, q, v)" using Cons.prems(1) kv by simp
  then have "length (s @ '':'' @ k) \<le> 259" by (simp add: pair_ok_def)
  then have "take 259 (s @ '':'' @ k) = s @ '':'' @ k" by (rule take_all)
  moreover obtain t1 where t1: "ini_set [] (Some t) (Some (s @ '':'' @ k)) (Some v) = Some ([], Some t1, 0)"
    "ini_put (s @ '':'' @ k) (Some v) t = Some t1" "ini_ok t1"
    using ini_set_put[OF Cons.prems(2)] by blast
  ultimately have a: "ini_apply [] (Some t) (Some s) (INI_LINE_VALUE k v) = Some ([], Some t1, Some s, 0)"
    by (simp add: ini_apply_def)
  have "lines_text (map value_line (kv # kvs)) @ rest =
      (value_line (k, q, v) @ [CHR 0x0A]) @ lines_text (map value_line kvs) @ rest"
    by (simp add: lines_text_def kv)
  then have "ini_read_loop (lines_text (map value_line (kv # kvs)) @ rest) 0 [] (Some s) [] (Some t) =
      ini_read_loop (lines_text (map value_line kvs) @ rest) 0 [] (Some s) [] (Some t1)"
    by (simp only: read_line[OF value_line_ok[OF p]] parse_value_line[OF p] a option.case Option.bind.simps prod.case) simp
  then show ?case
    using Cons.IH[of t1] Cons.prems t1 by (simp add: section_entries_def kv)
qed

lemma put_all_append:
  "ini_store.put_all (xs @ ys) t = Option.bind (ini_store.put_all xs t) (ini_store.put_all ys)"
proof (induction xs arbitrary: t)
  case (Cons kv xs)
  then show ?case by (cases kv, cases "ini_put (fst kv) (snd kv) t") simp_all
qed simp

lemma read_doc:
  "doc_ok doc \<Longrightarrow> ini_ok t \<Longrightarrow>
   \<exists>t'. ini_store.put_all (ini_entries doc) t = Some t' \<and>
     ini_read_loop (ini_text doc) 0 [] sect [] (Some t) = Some (Some ([], Some t', 0))"
proof (induction doc arbitrary: t sect)
  case Nil
  then show ?case by (subst ini_read_loop.simps) (simp add: ini_text_def lines_text_def ini_entries_def)
next
  case (Cons d doc)
  obtain s kvs where d: "d = (s, kvs)" by (cases d)
  have ok: "section_ok s" "list_all (pair_ok s) kvs" "doc_ok doc" using Cons.prems(1) d by (simp_all add: doc_ok_def)
  obtain t1 where t1: "ini_set [] (Some t) (Some s) None = Some ([], Some t1, 0)" "ini_put s None t = Some t1" "ini_ok t1"
    using ini_set_put[OF Cons.prems(2)] by blast
  obtain t2 where t2: "ini_store.put_all (section_entries s kvs) t1 = Some t2" "ini_ok t2"
    using ini_store.put_all_ok[OF t1(3)] by blast
  obtain t' where t': "ini_store.put_all (ini_entries doc) t2 = Some t'"
    "ini_read_loop (ini_text doc) 0 [] (Some s) [] (Some t2) = Some (Some ([], Some t', 0))"
    using Cons.IH[OF ok(3) t2(2)] by blast
  have "ini_text (d # doc) = (section_line s @ [CHR 0x0A]) @ lines_text (map value_line kvs) @ ini_text doc"
    by (simp add: ini_text_def lines_text_def d)
  moreover have "ini_apply [] (Some t) sect (INI_LINE_SECTION s) = Some ([], Some t1, Some s, 0)"
    using t1 by (simp add: ini_apply_def)
  ultimately have "ini_read_loop (ini_text (d # doc)) 0 [] sect [] (Some t) =
      ini_read_loop (lines_text (map value_line kvs) @ ini_text doc) 0 [] (Some s) [] (Some t1)"
    by (simp only: read_line[OF section_line_ok[OF ok(1)]] parse_section_line[OF ok(1)] option.case Option.bind.simps prod.case) simp
  moreover have "ini_store.put_all (ini_entries (d # doc)) t = Some t'"
    using t1 t2 t' by (simp add: ini_entries_def d put_all_append)
  ultimately show ?case using read_values[OF ok(2) t1(3) t2(1), of "ini_text doc"] t'(2) by simp
qed

definition empty_ini :: ini_t where
  "empty_ini = \<lparr>ini_num = 0, ini_size = 64, ini_key = Some (replicate 64 None),
     ini_val = Some (replicate 64 None), ini_hashes = Some (replicate 64 0)\<rparr>"

lemma first_alloc:
  "ini_alloc [] \<lparr>ini_num = 0, ini_size = 0, ini_key = None, ini_val = None, ini_hashes = None\<rparr> =
     Some ([], empty_ini, 0)"
  by (simp add: ini_alloc_def extend_mem_def empty_ini_def Let_def)

lemma empty_ini_ok: "ini_ok empty_ini" "ini_view empty_ini = Map.empty"
  by (auto simp: ini_ok_def empty_ini_def list_all_iff ini_view_def slot_of_def find_upt_None fun_eq_iff)

lemma init_text:
  assumes "doc_ok doc" "fopen f = Some (ini_text doc)"
  shows "\<exists>t. ini_init fopen [] (Some f) = Some (Some ([], Some t)) \<and> ini_ok t \<and>
    ini_view t = map_of (rev (ini_entries doc))"
proof -
  obtain t where t: "ini_store.put_all (ini_entries doc) empty_ini = Some t"
    "ini_read_loop (ini_text doc) 0 [] None [] (Some empty_ini) = Some (Some ([], Some t, 0))"
    using read_doc[OF assms(1) empty_ini_ok(1)] by blast
  have "ini_ok t \<and> ini_view t = map_of (rev (ini_entries doc))"
    using ini_store.put_all_ok[OF empty_ini_ok(1), of "ini_entries doc"] t(1) empty_ini_ok(2) by auto
  then show ?thesis
    using assms(2) t(2) by (simp add: ini_init_def ini_parse_file_def first_alloc)
qed

text \<open>The name a section and a key are looked up by.\<close>

lemma lookup_name:
  assumes "word_ok s" "word_ok k" "length s + length k \<le> 1022"
  shows "strip (take 1023 (s @ '':'' @ k)) = s @ '':'' @ k"
proof -
  have "length (s @ '':'' @ k) \<le> 1023" using assms(3) by simp
  then have "take 1023 (s @ '':'' @ k) = s @ '':'' @ k" by (rule take_all)
  then show ?thesis using assms(1,2) by (simp add: word_ok_def) (subst strip_id; auto)
qed

lemma findkey_view:
  assumes "ini_ok t" "word_ok s" "word_ok k" "length s + length k \<le> 1022"
  shows "ini_findkey (Some t) (Some s) (Some k) result sz =
    Some (case ini_view t (s @ '':'' @ k) of
            Some (Some v) \<Rightarrow> (0, take sz (v @ replicate sz NUL) @ drop sz result)
          | _ \<Rightarrow> (1, replicate sz NUL @ drop sz result))"
  using assms(1) lookup_name[OF assms(2-4)]
  by (auto simp: ini_findkey_def ini_get_view Let_def split: option.splits)

text \<open>Reading a key before the first section uses the uninitialised section buffer.\<close>

lemma key_before_section_undefined:
  assumes "pair_ok [] kv" "fopen f = Some (lines_text (value_line kv # ls))"
  shows "ini_init fopen [] (Some f) = Some None"
proof -
  obtain k q v where kv: "kv = (k, q, v)" by (cases kv)
  have "ini_read_loop (lines_text (value_line kv # ls)) 0 [] None [] (Some empty_ini) = Some None"
    using read_line[OF value_line_ok[OF assms(1)], of "lines_text ls" None "[]" "Some empty_ini"]
      parse_value_line[of "[]" k q v None] assms(1)
    by (simp add: kv lines_text_def ini_apply_def)
  then show ?thesis using assms(2) by (simp add: ini_init_def ini_parse_file_def first_alloc)
qed

section \<open>Properties\<close>

text \<open>
  C27. Setting a key updates the store as a map, whatever allocations fail: the call is always
  defined; when it succeeds the store is well formed (the arrays are as long as the size says,
  the counter covers the slots in use, every hash is its key's), every other key keeps its
  value, and the key has the new value unless copying it or the key ran out of memory. With
  enough memory the call succeeds and the store is exactly the updated map, which
  is the one that is read.
\<close>

theorem ini_set_refines_update:
  assumes "ini_ok t"
  shows "\<exists>m' t' ret. ini_set m (Some t) (Some k) v = Some (m', Some t', ret) \<and>
    (ret \<noteq> 0 \<longrightarrow> ret = 1 \<and> m \<noteq> []) \<and>
    (ret = 0 \<longrightarrow> ini_ok t' \<and> (\<forall>k'. k' \<noteq> k \<longrightarrow> ini_view t' k' = ini_view t k') \<and>
       ini_view t' k \<in> {Some v, Some None, None}) \<and>
    (m = [] \<longrightarrow> ret = 0 \<and> ini_view t' = (ini_view t)(k \<mapsto> v) \<and>
       (\<forall>k'. ini_get (Some t') (Some k') =
          Some (if k' = k then v else case ini_view t k' of None \<Rightarrow> None | Some v' \<Rightarrow> v')))"
proof -
  obtain m' t' ret where s: "ini_set m (Some t) (Some k) v = Some (m', Some t', ret)"
    "ret = 0 \<longrightarrow> sets_to t t' m k v" "ret \<noteq> 0 \<longrightarrow> ret = 1 \<and> m \<noteq> []"
    using ini_set_ok[OF assms, of m k v] by blast
  have "ret = 0 \<and> ini_ok t' \<and> ini_view t' = (ini_view t)(k \<mapsto> v)" if "m = []"
    using s that by (auto simp: sets_to_def fun_eq_iff)
  then show ?thesis using s by (auto simp: sets_to_def ini_get_view)
qed

theorem ini_set_refines_update_witness:
  "\<exists>t'. ini_set [] (Some empty_ini) (Some ''a:b'') (Some ''1'') = Some ([], Some t', 0) \<and>
     ini_get (Some t') (Some ''a:b'') = Some (Some ''1'')"
  using ini_set_refines_update[OF empty_ini_ok(1), of "[]" "''a:b''" "Some ''1''"]
    ini_set_put[OF empty_ini_ok(1), of "''a:b''" "Some ''1''"] by auto

text \<open>
  C28. Reading a configuration always ends: on every file, however its lines are continued and
  whatever allocations fail, the reading loop comes to its end, for every turn finds room in
  the line buffer and takes something from the file.
\<close>

theorem ini_reading_ends:
  "\<exists>r. ini_init fopen m file = Some r"
  by (rule init_ends)

text \<open>
  C26. A configuration text is read back as what it says: from the text of sections and
  assignments (values bare or between quotes) the reader builds the store of its entries, and looking up a section and a key
  copies the value assigned last, filled up with terminators to the size of the buffer, or
  reports that there is none.
\<close>

theorem ini_text_roundtrip:
  assumes "doc_ok doc" "fopen f = Some (ini_text doc)"
  shows "\<exists>t. ini_init fopen [] (Some f) = Some (Some ([], Some t)) \<and>
    (\<forall>s k result sz. word_ok s \<and> word_ok k \<and> length s + length k \<le> 1022 \<longrightarrow>
       ini_findkey (Some t) (Some s) (Some k) result sz =
         Some (case map_of (rev (ini_entries doc)) (s @ '':'' @ k) of
                 Some (Some v) \<Rightarrow> (0, take sz (v @ replicate sz NUL) @ drop sz result)
               | _ \<Rightarrow> (1, replicate sz NUL @ drop sz result)))"
proof -
  obtain t where t: "ini_init fopen [] (Some f) = Some (Some ([], Some t))" "ini_ok t"
    "ini_view t = map_of (rev (ini_entries doc))"
    using init_text[of doc fopen f] assms by blast
  show ?thesis using t findkey_view[OF t(2)] by (intro exI[of _ t]) auto
qed

definition sample_doc :: ini_doc where
  "sample_doc = [(''global'', [(''host'', Some (CHR 0x27), ''10.0.0.1''), (''port'', None, ''1884'')])]"

theorem ini_text_roundtrip_witness:
  "\<exists>t. ini_init (\<lambda>_. Some (ini_text sample_doc)) [] (Some ''f'') = Some (Some ([], Some t)) \<and>
     ini_findkey (Some t) (Some ''global'') (Some ''port'') [] 6 = Some (0, ''1884'' @ [NUL, NUL])"
proof -
  have d: "doc_ok sample_doc" by code_simp
  have e: "map_of (rev (ini_entries sample_doc)) (''global'' @ '':'' @ ''port'') = Some (Some ''1884'')"
    by code_simp
  have w: "word_ok ''global''" "word_ok ''port''" by code_simp+
  show ?thesis
    using ini_text_roundtrip[OF d, of "\<lambda>_. Some (ini_text sample_doc)" "''f''"] w e
    by (auto simp: numeral_eq_Suc)
qed

end
