(* ===== verification/Config.thy ===== *)
theory Config
  imports Ini_Reading World
begin

text \<open>
  The configuration of the controller and the start of \<open>main\<close>: the defaults
  (\<open>sanji_config_init\<close>), the command line, the configuration file, the validation, the user
  data made from them, and the loop that connects to the broker.

  \<open>getopt\<close> is a parameter, by the list of the options it returns with their arguments; the
  constants of the client library are parameters as well. A result \<open>None\<close> is undefined
  behaviour: a string copied to the result of an allocation that failed and was not tested, a
  copy beyond a buffer, or reading a value that has no terminator.
\<close>

section \<open>The configuration\<close>

abbreviation (input) SANJI_IP_LEN :: nat where "SANJI_IP_LEN \<equiv> 16"
abbreviation (input) SANJI_INI_VALUE_LEN :: nat where "SANJI_INI_VALUE_LEN \<equiv> 128"
abbreviation (input) SANJI_TOPIC_MAX_LEN :: nat where "SANJI_TOPIC_MAX_LEN \<equiv> 256"
abbreviation SANJI_DEFAULT_CONFIG_FILE :: string where
  "SANJI_DEFAULT_CONFIG_FILE \<equiv> ''/etc/sanji_controller.conf''"

record sanji_config =
  c_host :: string
  c_port :: int
  c_retry :: int
  c_keepalive :: int
  c_clean_session :: bool
  c_sub_qos :: int
  c_pub_qos :: int
  c_client_id :: "string option"
  c_username :: "string option"
  c_password :: "string option"
  c_refresh_interval :: int
  c_local_id :: "string option"
  c_config_file :: string
  c_foreground :: bool
  c_mosq_debug :: bool

text \<open>\<open>calloc(strlen(s) + 1, 1)\<close> and \<open>strcpy\<close> without a test in between.\<close>

definition copy_unchecked :: "heap \<Rightarrow> string \<Rightarrow> (heap \<times> string) option" where
  "copy_unchecked m s = (let (ok, m1) = malloc m in if ok then Some (m1, s) else None)"

text \<open>
  \<open>atoi\<close>: the digits after spaces and a sign. Its result is not defined beyond \<open>int\<close>; here it
  is that of a 64-bit \<open>strtol\<close> that saturates, cut to 32 bits.
\<close>

definition is_digit :: "char \<Rightarrow> bool" where
  "is_digit c \<longleftrightarrow> c \<in> set ''0123456789''"

definition digits_value :: "string \<Rightarrow> int" where
  "digits_value ds = foldl (\<lambda>n c. 10 * n + (of_char c - 48)) 0 ds"

definition strtol :: "string \<Rightarrow> int" where
  "strtol s =
     (let s = dropWhile isspace s;
          neg = (s \<noteq> [] \<and> hd s = CHR ''-'');
          ds = takeWhile is_digit (if s \<noteq> [] \<and> (hd s = CHR ''-'' \<or> hd s = CHR ''+'') then tl s else s);
          n = digits_value ds
      in max (- (2 ^ 63)) (min (2 ^ 63 - 1) (if neg then - n else n)))"

definition atoi :: "string \<Rightarrow> int" where
  "atoi s = signed_take_bit 31 (strtol s)"

section \<open>Defaults, options, file\<close>

definition sanji_config_init :: "heap \<Rightarrow> (heap \<times> sanji_config option) option" where
  "sanji_config_init m =
     (let (ok, m1) = malloc m in
      if \<not> ok then Some (m1, None)
      else map_option (\<lambda>(m2, file).
        (m2, Some \<lparr>c_host = ''127.0.0.1'', c_port = 1883, c_retry = -1, c_keepalive = 600,
          c_clean_session = True, c_sub_qos = 2, c_pub_qos = 1, c_client_id = None,
          c_username = None, c_password = None, c_refresh_interval = 1000, c_local_id = None,
          c_config_file = file, c_foreground = False, c_mosq_debug = False\<rparr>))
        (copy_unchecked m1 SANJI_DEFAULT_CONFIG_FILE))"

text \<open>One option: the new configuration, or \<open>Inl\<close> the exit of the loop with result 1.\<close>

definition cmdline_option ::
    "heap \<Rightarrow> sanji_config \<Rightarrow> char \<times> string \<Rightarrow> (heap \<times> (sanji_config + sanji_config)) option" where
  "cmdline_option m c opt =
     (let (o1, optarg) = opt;
          copied = (\<lambda>f. map_option (\<lambda>(m1, s). (m1, Inr (f s))) (copy_unchecked m optarg))
      in
      if o1 = CHR ''H'' then
        (if length optarg \<ge> SANJI_IP_LEN then Some (m, Inl c) else Some (m, Inr (c\<lparr>c_host := optarg\<rparr>)))
      else if o1 = CHR ''p'' then Some (m, Inr (c\<lparr>c_port := atoi optarg\<rparr>))
      else if o1 = CHR ''r'' then Some (m, Inr (c\<lparr>c_retry := atoi optarg\<rparr>))
      else if o1 = CHR ''k'' then Some (m, Inr (c\<lparr>c_keepalive := atoi optarg\<rparr>))
      else if o1 = CHR ''C'' then Some (m, Inr (c\<lparr>c_clean_session := False\<rparr>))
      else if o1 = CHR ''q'' then Some (m, Inr (c\<lparr>c_sub_qos := atoi optarg\<rparr>))
      else if o1 = CHR ''Q'' then Some (m, Inr (c\<lparr>c_pub_qos := atoi optarg\<rparr>))
      else if o1 = CHR ''I'' then copied (\<lambda>s. c\<lparr>c_client_id := Some s\<rparr>)
      else if o1 = CHR ''u'' then copied (\<lambda>s. c\<lparr>c_username := Some s\<rparr>)
      else if o1 = CHR ''P'' then copied (\<lambda>s. c\<lparr>c_password := Some s\<rparr>)
      else if o1 = CHR ''i'' then Some (m, Inr (c\<lparr>c_refresh_interval := atoi optarg\<rparr>))
      else if o1 = CHR ''c'' then copied (\<lambda>s. c\<lparr>c_config_file := s\<rparr>)
      else if o1 = CHR ''L'' then copied (\<lambda>s. c\<lparr>c_local_id := Some s\<rparr>)
      else if o1 = CHR ''f'' then Some (m, Inr (c\<lparr>c_foreground := True\<rparr>))
      else if o1 = CHR ''d'' then Some (m, Inr (c\<lparr>c_mosq_debug := True\<rparr>))
      else Some (m, Inl c))"

text \<open>The loop over the options.\<close>

fun sanji_get_cmdline_options ::
    "heap \<Rightarrow> (char \<times> string) list \<Rightarrow> sanji_config \<Rightarrow> (heap \<times> sanji_config \<times> int) option" where
  "sanji_get_cmdline_options m [] c = Some (m, c, 0)"
| "sanji_get_cmdline_options m (opt # opts) c =
     Option.bind (cmdline_option m c opt) (\<lambda>(m1, r).
       case r of Inl c1 \<Rightarrow> Some (m1, c1, 1)
       | Inr c1 \<Rightarrow> sanji_get_cmdline_options m1 opts c1)"

text \<open>
  A block \<open>if (!ini_findkey(ini, "global", key, value, 128))\<close>: the buffer is read as a string
  when the key was found, which needs a terminator.
\<close>

definition with_key ::
    "ini_t \<Rightarrow> string \<Rightarrow> (string \<Rightarrow> heap \<times> sanji_config \<Rightarrow> (heap \<times> sanji_config) option) \<Rightarrow>
     heap \<times> sanji_config \<Rightarrow> (heap \<times> sanji_config) option" where
  "with_key ini key f mc =
     Option.bind (ini_findkey (Some ini) (Some ''global'') (Some key) [] SANJI_INI_VALUE_LEN)
       (\<lambda>(ret, value).
          if ret \<noteq> 0 then Some mc
          else if NUL \<notin> set value then None
          else f (cstr value) mc)"

definition set_field :: "(string \<Rightarrow> sanji_config \<Rightarrow> sanji_config) \<Rightarrow> string \<Rightarrow> heap \<times> sanji_config \<Rightarrow>
    (heap \<times> sanji_config) option" where
  "set_field f v mc = Some (fst mc, f v (snd mc))"

definition copy_field :: "(string \<Rightarrow> sanji_config \<Rightarrow> sanji_config) \<Rightarrow> string \<Rightarrow> heap \<times> sanji_config \<Rightarrow>
    (heap \<times> sanji_config) option" where
  "copy_field f v mc =
     (if length v > 0 then map_option (\<lambda>(m1, s). (m1, f s (snd mc))) (copy_unchecked (fst mc) v)
      else Some mc)"

definition host_field :: "string \<Rightarrow> sanji_config \<Rightarrow> sanji_config" where
  "host_field v c = (if length v \<ge> SANJI_IP_LEN then c else c\<lparr>c_host := take (SANJI_IP_LEN - 1) v\<rparr>)"

text \<open>The blocks of \<open>sanji_load_config_file\<close>, in their order.\<close>

definition config_keys ::
    "(string \<times> (string \<Rightarrow> heap \<times> sanji_config \<Rightarrow> (heap \<times> sanji_config) option)) list" where
  "config_keys =
     [(''host'', set_field host_field),
      (''port'', set_field (\<lambda>v. c_port_update (\<lambda>_. atoi v))),
      (''retry'', set_field (\<lambda>v. c_retry_update (\<lambda>_. atoi v))),
      (''keepalive'', set_field (\<lambda>v. c_keepalive_update (\<lambda>_. atoi v))),
      (''clean_session'', set_field (\<lambda>v. c_clean_session_update (\<lambda>_. v = ''true''))),
      (''sub_qos'', set_field (\<lambda>v. c_sub_qos_update (\<lambda>_. atoi v))),
      (''pub_qos'', set_field (\<lambda>v. c_pub_qos_update (\<lambda>_. atoi v))),
      (''client_id'', copy_field (\<lambda>v. c_client_id_update (\<lambda>_. Some v))),
      (''username'', copy_field (\<lambda>v. c_username_update (\<lambda>_. Some v))),
      (''password'', copy_field (\<lambda>v. c_password_update (\<lambda>_. Some v))),
      (''refresh_interval'', set_field (\<lambda>v. c_refresh_interval_update (\<lambda>_. atoi v))),
      (''local_id'', copy_field (\<lambda>v. c_local_id_update (\<lambda>_. Some v))),
      (''mosq_debug'', set_field (\<lambda>v. c_mosq_debug_update (\<lambda>_. v = ''true'')))]"

fun load_keys ::
    "ini_t \<Rightarrow> (string \<times> (string \<Rightarrow> heap \<times> sanji_config \<Rightarrow> (heap \<times> sanji_config) option)) list \<Rightarrow>
     heap \<times> sanji_config \<Rightarrow> (heap \<times> sanji_config) option" where
  "load_keys ini [] mc = Some mc"
| "load_keys ini ((key, f) # ks) mc = Option.bind (with_key ini key f mc) (load_keys ini ks)"

text \<open>The outer option is the reading loop's, which always ends.\<close>

definition sanji_load_config_file ::
    "(string \<Rightarrow> string option) \<Rightarrow> heap \<Rightarrow> sanji_config \<Rightarrow> (heap \<times> sanji_config \<times> int) option option" where
  "sanji_load_config_file fopen m c =
     map_option (\<lambda>r. Option.bind r (\<lambda>(m1, ini).
       case ini of
         None \<Rightarrow> Some (m1, c, 1)
       | Some t \<Rightarrow>
           Option.bind (load_keys t config_keys (m1, c)) (\<lambda>(m2, c1).
             map_option (\<lambda>_. (m2, c1, 0)) (ini_release (Some t)))))
     (ini_init fopen m (Some (c_config_file c)))"

section \<open>Validation and user data\<close>

definition sanji_validate_configs :: "nat \<Rightarrow> sanji_config \<Rightarrow> int" where
  "sanji_validate_configs id_max c =
     (if c_port c < 1 \<or> c_port c > 65535 then 1
      else if c_retry c > 65535 then 1
      else if c_keepalive c > 65535 then 1
      else if c_sub_qos c < 0 \<or> c_sub_qos c > 2 then 1
      else if c_pub_qos c < 0 \<or> c_pub_qos c > 2 then 1
      else if c_refresh_interval c < 0 \<or> c_refresh_interval c > 65535 then 1
      else if (case c_local_id c of None \<Rightarrow> False | Some l \<Rightarrow> length l > id_max) then 1
      else 0)"

text \<open>The user data of \<open>World\<close>, with the members that only the connection uses.\<close>

record main_userdata = userdata +
  ud_client_id :: string
  ud_topics :: "string list"
  ud_sub_qos :: int

text \<open>\<open>sprintf\<close> of a string into a buffer of \<open>n\<close> bytes: defined when it fits.\<close>

definition sprintf_into :: "nat \<Rightarrow> string \<Rightarrow> string option" where
  "sprintf_into n s = (if length s < n then Some s else None)"

text \<open>
  The topics, each after a \<open>realloc\<close> that is not tested; the topic of the local id is printed
  after its \<open>realloc\<close>, which makes no difference, since the failure of either is undefined.
\<close>

definition push_topic :: "string \<Rightarrow> heap \<times> string list \<Rightarrow> (heap \<times> string list) option" where
  "push_topic t mt = (let (ok, m1) = malloc (fst mt) in if ok then Some (m1, snd mt @ [t]) else None)"

definition sanji_userdata_init :: "nat \<Rightarrow> heap \<Rightarrow> sanji_config \<Rightarrow> (heap \<times> main_userdata option) option" where
  "sanji_userdata_init id_max m c =
     (let (ok, m1) = malloc m in
      if \<not> ok then Some (m1, None)
      else
        Option.bind (sprintf_into (id_max + 1) (case c_client_id c of Some i \<Rightarrow> i | None \<Rightarrow> ''controller'')) (\<lambda>id1.
        Option.bind (push_topic ''/controller'' (m1, [])) (\<lambda>mt1.
        Option.bind
          (case c_local_id c of None \<Rightarrow> Some (id1, [], mt1)
           | Some l \<Rightarrow>
               Option.bind (if c_client_id c = None then sprintf_into (id_max + 1) l else Some id1) (\<lambda>id2.
               Option.bind (sprintf_into SANJI_TOPIC_MAX_LEN (''/'' @ l @ ''/controller'')) (\<lambda>topic.
               map_option (\<lambda>mt2. (id2, topic, mt2)) (push_topic topic mt1))))
          (\<lambda>(id2, topic, mt2).
        Option.bind (push_topic ''/controller/registration'' mt2) (\<lambda>mt3.
        map_option (\<lambda>mt4.
            (snd (malloc (fst mt4)),
             Some \<lparr>ud_local_id_topic = topic, ud_pub_qos = c_pub_qos c, ud_retain_sent = 0,
                   ud_client_id = id2, ud_topics = snd mt4, ud_sub_qos = c_sub_qos c\<rparr>))
          (push_topic ''/controller/resource/dependency'' mt3))))))"

section \<open>Starting and connecting\<close>

text \<open>\<open>main\<close> up to the signal handlers: the exit code, or the configuration and the user data.\<close>

definition sanji_start ::
    "nat \<Rightarrow> (string \<Rightarrow> string option) \<Rightarrow> (char \<times> string) list \<Rightarrow> heap \<Rightarrow>
     (heap \<times> (int + sanji_config \<times> main_userdata)) option option" where
  "sanji_start id_max fopen opts m =
     (case sanji_config_init m of
        None \<Rightarrow> Some None
      | Some (m1, None) \<Rightarrow> Some (Some (m1, Inl 1))
      | Some (m1, Some c) \<Rightarrow>
          (case sanji_get_cmdline_options m1 opts c of
             None \<Rightarrow> Some None
           | Some (m2, c1, ret) \<Rightarrow>
               if ret \<noteq> 0 then Some (Some (m2, Inl 1))
               else map_option (\<lambda>r. Option.bind r (\<lambda>(m3, c2, _).
                 if sanji_validate_configs id_max c2 \<noteq> 0 then Some (m3, Inl 1)
                 else map_option (\<lambda>(m4, ud). (m4, case ud of None \<Rightarrow> Inl 1 | Some u \<Rightarrow> Inr (c2, u)))
                        (sanji_userdata_init id_max m3 c2)))
                 (sanji_load_config_file fopen m2 c1)))"

text \<open>The flags the signal handlers set.\<close>

record flags =
  sanji_run :: bool
  sanji_dump :: bool

definition sanji_signal_quit :: "flags \<Rightarrow> flags" where
  "sanji_signal_quit f = f\<lparr>sanji_run := False\<rparr>"

definition sanji_signal_dump :: "flags \<Rightarrow> flags" where
  "sanji_signal_dump f = f\<lparr>sanji_dump := True\<rparr>"

text \<open>
  The loop that connects. The answers of \<open>mosquitto_connect\<close> are a parameter, by their number:
  the result code, and whether \<open>errno\<close> is \<open>EINVAL\<close>; so are the signals taken during each turn.
  The result is the last code, the number of attempts and the retries left.
\<close>

datatype signal = Sig_quit | Sig_dump

definition handle :: "signal list \<Rightarrow> flags \<Rightarrow> flags" where
  "handle ss f = foldl (\<lambda>f s. case s of Sig_quit \<Rightarrow> sanji_signal_quit f | Sig_dump \<Rightarrow> sanji_signal_dump f) f ss"

partial_function (option) connect_loop ::
    "int \<Rightarrow> (nat \<Rightarrow> int \<times> bool) \<Rightarrow> (nat \<Rightarrow> signal list) \<Rightarrow> nat \<Rightarrow> flags \<Rightarrow> int \<Rightarrow>
     (int \<times> nat \<times> flags \<times> int) option" where
  "connect_loop err_inval answer signals n fl retry =
     (let (rc, einval) = answer n; fl1 = handle (signals n) fl in
      if rc \<noteq> 0 then
        let fl2 = (if rc = err_inval \<or> einval then fl1\<lparr>sanji_run := False\<rparr> else fl1);
            retry1 = (if retry > 0 then retry - 1 else retry)
        in if sanji_run fl2 \<and> (retry1 > 0 \<or> retry1 < 0)
           then connect_loop err_inval answer signals (n + 1) fl2 retry1
           else Some (rc, n + 1, fl2, retry1)
      else Some (rc, n + 1, fl1, retry))"

declare connect_loop.simps [code]

end
