(* ===== verification/Datetime.thy ===== *)
theory Datetime
  imports Sanji_Prelude
begin

text \<open>
  The date and time conversions of \<open>lib/dt.c\<close>: binary-coded decimal, the packed \<open>DATETIME\<close>,
  and its textual form. The members of \<open>struct tm\<close> are integers; a \<open>BCD\<close> is an 8-bit word
  and the arithmetic on it is done in \<open>int\<close>.
\<close>

record DATETIME =
  dt_yr :: "8 word"
  dt_mon :: "8 word"
  dt_mday :: "8 word"
  dt_hr :: "8 word"
  dt_min :: "8 word"
  dt_sec :: "8 word"

record tm =
  tm_year :: int
  tm_mon :: int
  tm_mday :: int
  tm_hour :: int
  tm_min :: int
  tm_sec :: int

text \<open>The arguments and results of type \<open>unsigned short\<close> are 16-bit words.\<close>

definition bcd2int :: "8 word \<Rightarrow> 16 word" where
  "bcd2int b = word_of_int (drop_bit 4 (uint b) * 10 + Bit_Operations.and (uint b) 0xF)"

definition int2bcd :: "16 word \<Rightarrow> 8 word" where
  "int2bcd d = word_of_int (Bit_Operations.or (push_bit 4 (uint d div 10)) (uint d mod 10))"

text \<open>C's remainder, with the sign of the dividend.\<close>

definition c_mod :: "int \<Rightarrow> int \<Rightarrow> int" where
  "c_mod a b = (if a < 0 then - (- a mod b) else a mod b)"

definition tm2dt :: "tm \<Rightarrow> DATETIME" where
  "tm2dt t =
     (let yr = word_of_int (c_mod (tm_year t + 1900) 100) in
      \<lparr>dt_yr = int2bcd yr,
       dt_mon = int2bcd (word_of_int (tm_mon t + 1)),
       dt_mday = int2bcd (word_of_int (tm_mday t)),
       dt_hr = int2bcd (word_of_int (tm_hour t)),
       dt_min = int2bcd (word_of_int (tm_min t)),
       dt_sec = int2bcd (word_of_int (tm_sec t))\<rparr>)"

definition dt2tm :: "DATETIME \<Rightarrow> tm" where
  "dt2tm dt =
     \<lparr>tm_year = uint (bcd2int (dt_yr dt)) + 2000 - 1900,
      tm_mon = uint (bcd2int (dt_mon dt)) - 1,
      tm_mday = uint (bcd2int (dt_mday dt)),
      tm_hour = uint (bcd2int (dt_hr dt)),
      tm_min = uint (bcd2int (dt_min dt)),
      tm_sec = uint (bcd2int (dt_sec dt))\<rparr>"

text \<open>The conversion \<open>%0wd\<close> of \<open>printf\<close>.\<close>

definition pad :: "nat \<Rightarrow> string \<Rightarrow> string" where
  "pad w s = replicate (w - length s) (CHR ''0'') @ s"

definition print_0d :: "nat \<Rightarrow> int \<Rightarrow> string" where
  "print_0d w i = (if i < 0 then CHR ''-'' # pad (w - 1) (decimal (nat (- i))) else pad w (decimal (nat i)))"

definition dt2str :: "DATETIME \<Rightarrow> string" where
  "dt2str dt =
     print_0d 4 (uint (bcd2int (dt_yr dt)) + 2000) @ print_0d 2 (uint (bcd2int (dt_mon dt))) @
     print_0d 2 (uint (bcd2int (dt_mday dt))) @ print_0d 2 (uint (bcd2int (dt_hr dt))) @
     print_0d 2 (uint (bcd2int (dt_min dt))) @ print_0d 2 (uint (bcd2int (dt_sec dt)))"

definition tm2str :: "tm \<Rightarrow> string" where
  "tm2str t =
     print_0d 4 (tm_year t + 1900) @ print_0d 2 (tm_mon t + 1) @ print_0d 2 (tm_mday t) @
     print_0d 2 (tm_hour t) @ print_0d 2 (tm_min t) @ print_0d 2 (tm_sec t)"

section \<open>Binary-coded decimal\<close>

lemma bcd_table: "list_all (\<lambda>n. bcd2int (int2bcd (of_nat n)) = of_nat n) [0..<100]"
  by code_simp

lemma bcd_inverse:
  assumes "0 \<le> i" "i < 100"
  shows "uint (bcd2int (int2bcd (word_of_int i))) = i"
proof -
  obtain n where n: "i = int n" "n < 100" using assms by (metis nonneg_int_cases of_nat_less_numeral_iff)
  have "bcd2int (int2bcd (of_nat n)) = of_nat n" using bcd_table n(2) by (simp only: list_all_iff) simp
  then have "bcd2int (int2bcd (word_of_int i)) = word_of_int i" by (simp add: n(1))
  then show ?thesis using assms by (simp add: unsigned_of_int take_bit_int_eq_self)
qed

text \<open>The members that are printed with two digits.\<close>

definition tm_fields :: "tm \<Rightarrow> int list" where
  "tm_fields t = [tm_mon t + 1, tm_mday t, tm_hour t, tm_min t, tm_sec t]"

lemma dt2tm_tm2dt:
  assumes "0 \<le> tm_year t + 1900" "list_all (\<lambda>i. 0 \<le> i \<and> i < 100) (tm_fields t)"
  shows "dt2tm (tm2dt t) = t\<lparr>tm_year := (tm_year t + 1900) mod 100 + 100\<rparr>"
proof -
  have "uint (bcd2int (int2bcd (word_of_int ((tm_year t + 1900) mod 100)))) = (tm_year t + 1900) mod 100"
    by (rule bcd_inverse) auto
  then show ?thesis
    using assms by (cases t)
      (simp add: dt2tm_def tm2dt_def tm_fields_def c_mod_def Let_def bcd_inverse del: of_int_add)
qed

lemma dt2str_dt2tm: "dt2str dt = tm2str (dt2tm dt)"
  by (simp add: dt2str_def tm2str_def dt2tm_def add.commute)

lemma length_digits: "n < 10 ^ Suc k \<Longrightarrow> length (decimal n) \<le> Suc k"
proof (induction k arbitrary: n)
  case 0
  then show ?case by (subst decimal.simps) simp
next
  case (Suc k)
  then have "n div 10 < 10 ^ Suc k" by (simp add: div_less_iff_less_mult)
  then show ?case using Suc.IH[of "n div 10"] by (subst decimal.simps) simp
qed

lemma length_print: "0 \<le> i \<Longrightarrow> i < 10 ^ Suc k \<Longrightarrow> length (print_0d (Suc k) i) = Suc k"
  using length_digits[of "nat i" k] by (simp add: print_0d_def pad_def nat_less_iff)

lemma length_two_digits: "0 \<le> i \<Longrightarrow> i < 100 \<Longrightarrow> length (print_0d 2 i) = 2"
  using length_print[of i 1] by (simp add: numeral_2_eq_2)

lemma length_four_digits: "0 \<le> i \<Longrightarrow> i < 10000 \<Longrightarrow> length (print_0d 4 i) = 4"
  using length_print[of i 3] by simp

section \<open>Properties\<close>

text \<open>
  A time packed into binary-coded decimal comes back: with every member in its range, the
  time read back from the packed form is the same up to the century, which is taken to be the
  21st; so a time of the years 2000 to 2099 is the same again, the packed form prints as the
  time itself does, and the text has the 14 digits its buffers are made for.
\<close>

lemma datetime_roundtrip:
  assumes "0 \<le> tm_year t + 1900" "list_all (\<lambda>i. 0 \<le> i \<and> i < 100) (tm_fields t)"
  shows "dt2tm (tm2dt t) = t\<lparr>tm_year := (tm_year t + 1900) mod 100 + 100\<rparr> \<and>
    (100 \<le> tm_year t \<and> tm_year t < 200 \<longrightarrow>
       dt2tm (tm2dt t) = t \<and> dt2str (tm2dt t) = tm2str t \<and> length (tm2str t) = 14)"
proof -
  have y: "(tm_year t + 1900) mod 100 + 100 = tm_year t" if "100 \<le> tm_year t" "tm_year t < 200"
  proof -
    have "tm_year t + 1900 = tm_year t - 100 + 20 * 100" by simp
    then have "(tm_year t + 1900) mod 100 = (tm_year t - 100) mod 100" by (metis mod_mult_self1)
    moreover have "(tm_year t - 100) mod 100 = tm_year t - 100" using that by (intro mod_pos_pos_trivial) auto
    ultimately show ?thesis by linarith
  qed
  have "length (tm2str t) = 14" if "100 \<le> tm_year t" "tm_year t < 200"
    using that assms(2) by (simp add: tm2str_def tm_fields_def length_two_digits length_four_digits)
  then show ?thesis using dt2tm_tm2dt[OF assms] dt2str_dt2tm[of "tm2dt t"] y by auto
qed

definition sample_tm :: tm where
  "sample_tm = \<lparr>tm_year = 114, tm_mon = 7, tm_mday = 28, tm_hour = 9, tm_min = 5, tm_sec = 59\<rparr>"

lemma datetime_roundtrip_witness:
  "dt2tm (tm2dt sample_tm) = sample_tm \<and> dt2str (tm2dt sample_tm) = tm2str sample_tm"
  using datetime_roundtrip[of sample_tm] by (simp add: sample_tm_def tm_fields_def)

end
