(* ===== verification/Process_Util.thy ===== *)
theory Process_Util
  imports Config Datetime
begin

text \<open>
  The helpers around system calls in \<open>lib\<close>: \<open>random_util.c\<close>, \<open>time_util.c\<close>, \<open>pid.c\<close>,
  \<open>lock.c\<close> and \<open>daemonize.c\<close>. What the system answers (the clock, the source of random bytes,
  whether a call succeeds, the process identifiers that \<open>fork\<close> hands out) is an argument.
\<close>

section \<open>Random numbers\<close>

text \<open>
  \<open>num\<close> is the static counter; \<open>rand_of seed\<close> is the first \<open>rand()\<close> after \<open>srand(seed)\<close>;
  \<open>urandom\<close> is what the four bytes read from \<open>/dev/urandom\<close> are, \<open>None\<close> when it cannot be
  opened. A result \<open>None\<close> is the signed overflow of \<open>num++\<close>.
\<close>

abbreviation (input) RAND_MODE_SEQ :: int where "RAND_MODE_SEQ \<equiv> 0"
abbreviation (input) RAND_MODE_RANDOM :: int where "RAND_MODE_RANDOM \<equiv> 1"
abbreviation (input) INT_MAX :: int where "INT_MAX \<equiv> 2147483647"

definition generate_random ::
    "int \<Rightarrow> (32 word \<Rightarrow> int) \<Rightarrow> 32 word option \<Rightarrow> 32 word \<Rightarrow> int \<Rightarrow> int \<Rightarrow> (int \<times> int) option" where
  "generate_random rand_max rand_of urandom now mode num =
     (if mode = RAND_MODE_SEQ then
        (if num = INT_MAX then None
         else let num1 = (if num = rand_max then 0 else num + 1) in Some (num1, num1))
      else let seed = (case urandom of Some b \<Rightarrow> b | None \<Rightarrow> now) in Some (rand_of seed, num))"

text \<open>The numbers of \<open>n\<close> calls in a row in the sequential mode.\<close>

fun sequence :: "int \<Rightarrow> nat \<Rightarrow> int \<Rightarrow> int list option" where
  "sequence rand_max 0 num = Some []"
| "sequence rand_max (Suc n) num =
     Option.bind (generate_random rand_max (\<lambda>_. 0) None 0 RAND_MODE_SEQ num)
       (\<lambda>(r, num1). map_option ((#) r) (sequence rand_max n num1))"

lemma sequence_counts:
  assumes "int n \<le> rand_max - num" "rand_max \<le> INT_MAX"
  shows "sequence rand_max n num = Some (map (\<lambda>i. num + 1 + int i) [0..<n])"
  using assms
proof (induction n arbitrary: num)
  case (Suc n)
  have "map (\<lambda>i. num + 1 + int i) [0..<Suc n] = (num + 1) # map (\<lambda>i. num + 1 + 1 + int i) [0..<n]"
    by (simp add: map_upt_Suc add.commute del: upt_Suc)
  then show ?case using Suc.IH[of "num + 1"] Suc.prems by (simp add: generate_random_def Let_def del: upt_Suc)
qed simp

text \<open>
  Where \<open>RAND_MAX\<close> is the largest \<open>int\<close>, as in the GNU library, the counter overflows in the
  call that is meant to start again from 0.
\<close>

lemma sequence_overflows: "generate_random INT_MAX r u t RAND_MODE_SEQ INT_MAX = None"
  by (simp add: generate_random_def)

lemma sequence_restarts:
  "rand_max < INT_MAX \<Longrightarrow> generate_random rand_max r u t RAND_MODE_SEQ rand_max = Some (0, 0)"
  by (simp add: generate_random_def)

section \<open>Timestamps\<close>

abbreviation (input) TIMESTAMP_LEN :: nat where "TIMESTAMP_LEN \<equiv> 32"
abbreviation (input) TIMESTAMP_MODE_MONOTONIC :: int where "TIMESTAMP_MODE_MONOTONIC \<equiv> 0"
abbreviation (input) TIMESTAMP_MODE_UNIXTIME :: int where "TIMESTAMP_MODE_UNIXTIME \<equiv> 1"
abbreviation (input) TIMESTAMP_MODE_DATETIME :: int where "TIMESTAMP_MODE_DATETIME \<equiv> 2"

record clock =
  k_monotonic :: int
  k_time :: int
  k_local :: tm

text \<open>\<open>snprintf\<close> into a buffer of \<open>n\<close> zeroed bytes.\<close>

definition snprintf_zeroed :: "nat \<Rightarrow> string \<Rightarrow> string" where
  "snprintf_zeroed n s = (let t = take (n - 1) s in t @ replicate (n - length t) NUL)"

definition get_today :: "clock \<Rightarrow> int \<times> string option" where
  "get_today k =
     (if k_time k = -1 then (-1, None)
      else (0, Some (print_0d 4 (tm_year (k_local k) + 1900) @ print_0d 2 (tm_mon (k_local k) + 1) @
                     print_0d 2 (tm_mday (k_local k)))))"

text \<open>
  The buffer afterwards; \<open>None\<close> is a null pointer. The branch for the monotonic clock is that
  of a system that has one.
\<close>

definition get_timestamp :: "clock \<Rightarrow> int \<Rightarrow> string option \<Rightarrow> nat \<Rightarrow> string option" where
  "get_timestamp k mode timestamp len =
     (case timestamp of
        None \<Rightarrow> None
      | Some buf \<Rightarrow>
          if len < TIMESTAMP_LEN then Some buf
          else if mode = TIMESTAMP_MODE_MONOTONIC then Some (snprintf_zeroed len (sprintf_d (k_monotonic k)))
          else if mode = TIMESTAMP_MODE_UNIXTIME then Some (snprintf_zeroed len (sprintf_d (k_time k)))
          else Some (snprintf_zeroed len (tm2str (k_local k))))"

lemma cstr_snprintf: "0 < n \<Longrightarrow> NUL \<notin> set s \<Longrightarrow> cstr (snprintf_zeroed n s) = take (n - 1) s"
proof -
  assume n: "0 < n" "NUL \<notin> set s"
  obtain m where "n - length (take (n - 1) s) = Suc m" using n(1) by (cases "n - length (take (n - 1) s)") auto
  moreover have "NUL \<notin> set (take (n - 1) s)" using n(2) by (meson in_set_takeD)
  ultimately show ?thesis by (simp add: snprintf_zeroed_def Let_def)
qed

text \<open>Printing a number and reading it back.\<close>

definition digit_char :: "nat \<Rightarrow> char" where "digit_char n = char_of (48 + n)"

lemma digit_chars: "list_all (\<lambda>n. is_digit (digit_char n) \<and> (of_char (digit_char n) :: int) = 48 + int n \<and>
    \<not> isspace (digit_char n) \<and> digit_char n \<noteq> NUL \<and> digit_char n \<noteq> CHR ''-'' \<and> digit_char n \<noteq> CHR ''+'') [0..<10]"
  by code_simp

lemma digit_char_props:
  assumes "n < 10"
  shows "is_digit (digit_char n)" "(of_char (digit_char n) :: int) = 48 + int n"
    "\<not> isspace (digit_char n)" "digit_char n \<noteq> NUL" "digit_char n \<noteq> CHR ''-''" "digit_char n \<noteq> CHR ''+''"
  using digit_chars assms by (auto simp: list_all_iff)

lemma decimal_chars: "list_all (\<lambda>c. \<exists>k < 10. c = digit_char k) (decimal n)"
proof (induction n rule: decimal.induct)
  case (1 n)
  have "\<exists>k < 10. digit_char (n mod 10) = digit_char k" by (rule exI[of _ "n mod 10"]) simp
  then show ?case using 1 by (subst decimal.simps) (auto simp: digit_char_def[symmetric])
qed

lemma decimal_value: "digits_value (decimal n) = int n"
proof (induction n rule: decimal.induct)
  case (1 n)
  have "n mod 10 < 10" "10 * int (n div 10) + int (n mod 10) = int n" by (simp, presburger)
  then show ?case
    using 1 by (subst decimal.simps)
      (auto simp: digits_value_def digit_char_def[symmetric] digit_char_props)
qed

lemma decimal_nonempty: "decimal n \<noteq> []" "\<exists>k < 10. hd (decimal n) = digit_char k"
proof -
  show ne: "decimal n \<noteq> []" by (subst decimal.simps) simp
  then show "\<exists>k < 10. hd (decimal n) = digit_char k" using decimal_chars[of n] by (cases "decimal n") auto
qed

lemma decimal_digits: "takeWhile is_digit (decimal n) = decimal n"
  using decimal_chars[of n] by (auto simp: takeWhile_eq_all_conv list_all_iff digit_char_props)

lemma no_NUL_sprintf_d: "NUL \<notin> set (sprintf_d i)"
proof -
  have "c \<noteq> NUL" if "c \<in> set (decimal n)" for c n
    using decimal_chars[of n] that digit_char_props(4) unfolding list_all_iff by metis
  then show ?thesis by (auto simp: sprintf_d_def)
qed

lemma strtol_sprintf_d:
  assumes "- (2 ^ 63) \<le> i" "i < 2 ^ 63"
  shows "strtol (sprintf_d i) = i"
proof (cases "i < 0")
  case True
  have "dropWhile isspace (sprintf_d i) = sprintf_d i" using True by (simp add: sprintf_d_def isspace_def)
  then show ?thesis
    using True assms by (simp add: strtol_def sprintf_d_def decimal_digits decimal_value)
next
  case False
  obtain k where k: "k < 10" "hd (decimal (nat i)) = digit_char k" using decimal_nonempty(2) by blast
  have "dropWhile isspace (decimal (nat i)) = decimal (nat i)"
    using decimal_nonempty(1)[of "nat i"] k by (cases "decimal (nat i)") (auto simp: digit_char_props)
  then show ?thesis
    using False assms k by (simp add: strtol_def sprintf_d_def decimal_digits decimal_value digit_char_props)
qed


text \<open>
  What \<open>sanji_refresh_session\<close> reads with \<open>atol\<close> from the monotonic timestamp is the clock.
\<close>

lemma length_decimal: "n < 10 ^ Suc k \<Longrightarrow> length (decimal n) \<le> Suc k"
  by (rule length_digits)

lemma monotonic_timestamp_read:
  assumes "0 \<le> k_monotonic k" "k_monotonic k < 2 ^ 63"
  shows "\<exists>buf. get_timestamp k TIMESTAMP_MODE_MONOTONIC (Some old) TIMESTAMP_LEN = Some buf \<and>
    NUL \<in> set buf \<and> strtol (cstr buf) = k_monotonic k"
proof -
  have "nat (k_monotonic k) < 10 ^ Suc 18" using assms by (simp add: nat_less_iff)
  then have l: "length (sprintf_d (k_monotonic k)) \<le> 19"
    using length_decimal[of "nat (k_monotonic k)" 18] assms(1) by (simp add: sprintf_d_def)
  have "cstr (snprintf_zeroed 32 (sprintf_d (k_monotonic k))) = sprintf_d (k_monotonic k)"
    using l by (simp add: cstr_snprintf no_NUL_sprintf_d)
  moreover have "NUL \<in> set (snprintf_zeroed 32 (sprintf_d (k_monotonic k)))"
    using l by (simp add: snprintf_zeroed_def Let_def)
  ultimately show ?thesis
    using assms strtol_sprintf_d[of "k_monotonic k"] by (simp add: get_timestamp_def)
qed

section \<open>The file with the process identifier\<close>

text \<open>
  Files are a map from names to contents. The record holds whether \<open>unlink\<close>, \<open>open\<close> (beyond
  its test that the file does not exist) and \<open>fdopen\<close> are granted, and the result of \<open>getpid\<close>.
\<close>

record file_system =
  fs_files :: "string \<rightharpoonup> string"
  fs_unlink :: bool
  fs_open :: bool
  fs_fdopen :: bool
  fs_pid :: int

definition touch_pid :: "(string \<Rightarrow> int) \<Rightarrow> string \<Rightarrow> int" where
  "touch_pid utime pidfile = utime pidfile"

definition create_pid :: "string option \<Rightarrow> file_system \<Rightarrow> int \<times> file_system" where
  "create_pid pidfile fs =
     (case pidfile of
        None \<Rightarrow> (-1, fs)
      | Some file \<Rightarrow>
          let fs1 = (if fs_unlink fs then fs\<lparr>fs_files := (fs_files fs)(file := None)\<rparr> else fs) in
          if \<not> fs_open fs \<or> fs_files fs1 file \<noteq> None then (-1, fs1)
          else let fs2 = fs1\<lparr>fs_files := (fs_files fs1)(file \<mapsto> [])\<rparr> in
            if \<not> fs_fdopen fs then (-1, fs2)
            else (0, fs2\<lparr>fs_files := (fs_files fs2)(file \<mapsto> sprintf_d (fs_pid fs) @ [CHR 0x0A])\<rparr>))"

lemma strtol_line:
  assumes "- (2 ^ 63) \<le> i" "i < 2 ^ 63"
  shows "strtol (sprintf_d i @ [CHR 0x0A]) = i"
proof -
  have nl: "\<not> is_digit (CHR 0x0A)" by (simp add: is_digit_def)
  have t: "takeWhile is_digit (decimal n @ [CHR 0x0A]) = decimal n" for n
    using decimal_chars[of n] nl by (subst takeWhile_append2) (auto simp: list_all_iff digit_char_props)
  show ?thesis
  proof (cases "i < 0")
    case True
    then show ?thesis
      using assms by (simp add: strtol_def sprintf_d_def t decimal_value isspace_def)
  next
    case False
    obtain k ds where k: "k < 10" "decimal (nat i) = digit_char k # ds"
      using decimal_nonempty[of "nat i"] by (cases "decimal (nat i)") auto
    have "dropWhile isspace (decimal (nat i) @ [CHR 0x0A]) = decimal (nat i) @ [CHR 0x0A]"
      using k by (simp add: digit_char_props)
    then show ?thesis
      using False assms k t[of "nat i"]
      by (simp add: strtol_def sprintf_d_def decimal_value[of "nat i", simplified k] digit_char_props)
  qed
qed


text \<open>
  Creating the file succeeds exactly when it may be replaced, opened and written, and what it
  then holds reads back as the identifier; other files are left alone in every case.
\<close>

lemma create_pid_result:
  assumes "create_pid (Some file) fs = (ret, fs')" "0 < fs_pid fs" "fs_pid fs < 2 ^ 31"
  shows "(ret = 0 \<longleftrightarrow> (fs_unlink fs \<or> fs_files fs file = None) \<and> fs_open fs \<and> fs_fdopen fs) \<and>
    (ret = 0 \<longrightarrow> (\<exists>text. fs_files fs' file = Some text \<and> atoi text = fs_pid fs)) \<and>
    (\<forall>other. other \<noteq> file \<longrightarrow> fs_files fs' other = fs_files fs other)"
proof -
  have "signed_take_bit 31 (fs_pid fs) = fs_pid fs"
    using assms(2,3) by (intro signed_take_bit_int_eq_self) auto
  then have "atoi (sprintf_d (fs_pid fs) @ [CHR 0x0A]) = fs_pid fs"
    using strtol_line[of "fs_pid fs"] assms(2,3) by (simp add: atoi_def)
  then show ?thesis using assms(1) by (auto simp: create_pid_def Let_def split: if_splits)
qed

text \<open>When \<open>fdopen\<close> fails, an empty file is left behind.\<close>

lemma create_pid_leaves_empty_file:
  assumes "fs_unlink fs" "fs_open fs" "\<not> fs_fdopen fs"
  shows "fst (create_pid (Some file) fs) = -1 \<and> fs_files (snd (create_pid (Some file) fs)) file = Some []"
  using assms by (simp add: create_pid_def)

section \<open>Locks on a file\<close>

text \<open>\<open>fcntl\<close> takes the command and the record and returns its result and the record it left.\<close>

record flock =
  l_type :: int
  l_whence :: int
  l_start :: int
  l_len :: int
  l_pid :: int

definition lock_reg ::
    "(int \<Rightarrow> int \<Rightarrow> flock \<Rightarrow> int \<times> flock) \<Rightarrow> int \<Rightarrow> int \<Rightarrow> int \<Rightarrow> int \<Rightarrow> int \<Rightarrow> int \<Rightarrow> int \<Rightarrow> int" where
  "lock_reg fcntl pid fd cmd type offset whence len =
     fst (fcntl fd cmd \<lparr>l_type = type, l_whence = whence, l_start = offset, l_len = len, l_pid = pid\<rparr>)"

text \<open>\<open>old_pid\<close> is what the uninitialised member holds.\<close>

definition lock_test ::
    "(int \<Rightarrow> int \<Rightarrow> flock \<Rightarrow> int \<times> flock) \<Rightarrow> int \<Rightarrow> int \<Rightarrow> int \<Rightarrow> int \<Rightarrow> int \<Rightarrow> int \<Rightarrow> int \<Rightarrow> int \<Rightarrow> int" where
  "lock_test fcntl getlk unlck old_pid fd type offset whence len =
     (let (r, lk) = fcntl fd getlk
            \<lparr>l_type = type, l_whence = whence, l_start = offset, l_len = len, l_pid = old_pid\<rparr>
      in if r = -1 then -1 else if l_type lk = unlck then 0 else l_pid lk)"


text \<open>
  Where the system answers the query as documented (the type becomes \<open>F_UNLCK\<close> when nothing is
  in the way, and otherwise the type and the owner of a lock that is), the test is 0 when the
  range is free and the owner when it is not.
\<close>

lemma lock_test_owner:
  assumes "\<And>lk. fcntl fd getlk lk =
      (case blocker fd lk of None \<Rightarrow> (0, lk\<lparr>l_type := unlck\<rparr>)
       | Some (t, p) \<Rightarrow> (0, lk\<lparr>l_type := t, l_pid := p\<rparr>))"
    and "\<And>lk t p. blocker fd lk = Some (t, p) \<Longrightarrow> t \<noteq> unlck"
  shows "lock_test fcntl getlk unlck old_pid fd type offset whence len =
    (case blocker fd \<lparr>l_type = type, l_whence = whence, l_start = offset, l_len = len, l_pid = old_pid\<rparr> of
       None \<Rightarrow> 0 | Some (t, p) \<Rightarrow> p)"
  using assms by (auto simp: lock_test_def split: option.split)

section \<open>Becoming a daemon\<close>

text \<open>
  The process that goes on after each \<open>fork\<close>, with what the function changes of it. \<open>fork\<close> is an
  argument: it fails, or this is the parent, or the child with its new identifier. A process
  that leads its group is refused a new session, which is what the first \<open>fork\<close> is for.
\<close>

datatype job_signal = SIGHUP | SIGTSTP | SIGTTIN | SIGTTOU
datatype fork = Fork_failed | Fork_parent | Fork_child int

record process =
  ps_pid :: int
  ps_pgid :: int
  ps_sid :: int
  ps_cwd :: string
  ps_ignored :: "job_signal list"
  ps_fds :: "string option list"

definition setsid :: "process \<Rightarrow> int \<times> process" where
  "setsid p =
     (if ps_pid p = ps_pgid p then (-1, p)
      else (ps_pid p, p\<lparr>ps_sid := ps_pid p, ps_pgid := ps_pid p\<rparr>))"

definition close_fd :: "nat \<Rightarrow> process \<Rightarrow> process" where
  "close_fd n p = p\<lparr>ps_fds := (ps_fds p)[n := None]\<rparr>"

text \<open>\<open>open\<close> and \<open>dup\<close> take the lowest free descriptor.\<close>

fun lowest_free :: "string \<Rightarrow> string option list \<Rightarrow> string option list" where
  "lowest_free f [] = [Some f]"
| "lowest_free f (None # fds) = Some f # fds"
| "lowest_free f (Some g # fds) = Some g # lowest_free f fds"

definition open_fd :: "string \<Rightarrow> process \<Rightarrow> process" where
  "open_fd f p = p\<lparr>ps_fds := lowest_free f (ps_fds p)\<rparr>"

definition dup_fd :: "nat \<Rightarrow> process \<Rightarrow> process" where
  "dup_fd n p =
     (case ps_fds p ! n of
        Some f \<Rightarrow> if n < length (ps_fds p) then open_fd f p else p
      | None \<Rightarrow> p)"


text \<open>
  The result is \<open>Inl\<close> for \<open>exit(0)\<close>, else what is returned in the process that returns.
  Each signal is ignored under an \<open>#ifdef\<close> of its name: \<open>declared\<close> are the signals whose macros the
  headers of the file declare. It does not include \<open>signal.h\<close>, so with the headers of the GNU
  library there are none.
\<close>

definition ifdef_signals :: "job_signal list \<Rightarrow> job_signal list" where
  "ifdef_signals declared = filter (\<lambda>s. s \<in> set declared) [SIGHUP, SIGTSTP, SIGTTIN, SIGTTOU]"

definition daemonize_process ::
    "job_signal list \<Rightarrow> bool \<Rightarrow> fork \<Rightarrow> fork \<Rightarrow> bool \<Rightarrow> bool \<Rightarrow> process \<Rightarrow> unit + int \<times> process" where
  "daemonize_process declared enable_stdio fork1 fork2 chdir_ok open_ok p =
     (let p = p\<lparr>ps_ignored := ps_ignored p @ ifdef_signals declared\<rparr> in
      case fork1 of
        Fork_parent \<Rightarrow> Inl ()
      | Fork_failed \<Rightarrow> Inr (-1, p)
      | Fork_child pid1 \<Rightarrow>
          let (sid, p) = setsid (p\<lparr>ps_pid := pid1\<rparr>) in
          if sid = -1 then Inr (-1, p)
          else case fork2 of
            Fork_parent \<Rightarrow> Inl ()
          | Fork_failed \<Rightarrow> Inr (-1, p)
          | Fork_child pid2 \<Rightarrow>
              let p = p\<lparr>ps_pid := pid2\<rparr>;
                  p = (if chdir_ok then p\<lparr>ps_cwd := ''/''\<rparr> else p)
              in if enable_stdio then Inr (0, p)
                 else let p = close_fd 2 (close_fd 1 (close_fd 0 p));
                          p = (if open_ok then open_fd ''/dev/null'' p else p)
                      in Inr (0, dup_fd 0 (dup_fd 0 p)))"


lemma null_descriptors:
  assumes "3 \<le> length fds"
  shows "ps_fds (dup_fd 0 (dup_fd 0 (open_fd f (close_fd 2 (close_fd 1 (close_fd 0 (p\<lparr>ps_fds := fds\<rparr>))))))) =
    [Some f, Some f, Some f] @ drop 3 fds"
proof -
  obtain a b c rest where "fds = a # b # c # rest"
    using assms by (auto simp: numeral_3_eq_3 Suc_le_length_iff)
  then show ?thesis by (simp add: close_fd_def open_fd_def dup_fd_def numeral_2_eq_2)
qed

lemma descriptors_keep [simp]:
  "ps_pid (close_fd n p) = ps_pid p" "ps_sid (close_fd n p) = ps_sid p" "ps_pgid (close_fd n p) = ps_pgid p"
  "ps_cwd (close_fd n p) = ps_cwd p" "ps_ignored (close_fd n p) = ps_ignored p"
  "ps_pid (open_fd f p) = ps_pid p" "ps_sid (open_fd f p) = ps_sid p" "ps_pgid (open_fd f p) = ps_pgid p"
  "ps_cwd (open_fd f p) = ps_cwd p" "ps_ignored (open_fd f p) = ps_ignored p"
  "ps_pid (dup_fd n p) = ps_pid p" "ps_sid (dup_fd n p) = ps_sid p" "ps_pgid (dup_fd n p) = ps_pgid p"
  "ps_cwd (dup_fd n p) = ps_cwd p" "ps_ignored (dup_fd n p) = ps_ignored p"
  by (simp_all add: close_fd_def open_fd_def dup_fd_def split: option.split)

lemma daemonize_children:
  assumes "pid1 \<noteq> -1" "pid1 \<noteq> ps_pgid p"
  shows "\<exists>p'. daemonize_process declared io (Fork_child pid1) (Fork_child pid2) chdir_ok open_ok p = Inr (0, p') \<and>
    ps_pid p' = pid2 \<and> ps_sid p' = pid1 \<and> ps_pgid p' = pid1 \<and>
    ps_ignored p' = ps_ignored p @ ifdef_signals declared \<and>
    ps_cwd p' = (if chdir_ok then ''/'' else ps_cwd p) \<and>
    (io \<longrightarrow> ps_fds p' = ps_fds p) \<and>
    (\<not> io \<and> open_ok \<and> 3 \<le> length (ps_fds p) \<longrightarrow>
       ps_fds p' = replicate 3 (Some ''/dev/null'') @ drop 3 (ps_fds p))"
proof -
  define q where "q = p\<lparr>ps_ignored := ps_ignored p @ ifdef_signals declared,
    ps_sid := pid1, ps_pgid := pid1, ps_pid := pid2, ps_cwd := (if chdir_ok then ''/'' else ps_cwd p)\<rparr>"
  have d: "daemonize_process declared io (Fork_child pid1) (Fork_child pid2) chdir_ok open_ok p =
      Inr (0, if io then q else dup_fd 0 (dup_fd 0 (let p = close_fd 2 (close_fd 1 (close_fd 0 q))
                in if open_ok then open_fd ''/dev/null'' p else p)))"
    using assms by (cases chdir_ok) (simp_all add: daemonize_process_def setsid_def Let_def q_def)
  have "q\<lparr>ps_fds := ps_fds p\<rparr> = q" by (simp add: q_def)
  then have fds: "open_ok \<Longrightarrow> 3 \<le> length (ps_fds p) \<Longrightarrow>
      ps_fds (dup_fd 0 (dup_fd 0 (open_fd ''/dev/null'' (close_fd 2 (close_fd 1 (close_fd 0 q)))))) =
        replicate 3 (Some ''/dev/null'') @ drop 3 (ps_fds p)"
    using null_descriptors[of "ps_fds p" "''/dev/null''" q] by (simp add: numeral_3_eq_3)
  show ?thesis using fds by (auto simp: d Let_def q_def)
qed

lemma set_ifdef_signals: "set (ifdef_signals declared) = set declared"
proof (rule set_eqI)
  fix s
  show "s \<in> set (ifdef_signals declared) \<longleftrightarrow> s \<in> set declared"
    by (cases s) (simp_all add: ifdef_signals_def)
qed

text \<open>Without \<open>signal.h\<close> the daemon ignores no signal that it did not ignore before.\<close>

lemma daemon_ignores_nothing:
  "daemonize_process [] io fork1 fork2 chdir_ok open_ok p = Inr (ret, p') \<Longrightarrow> ps_ignored p' = ps_ignored p"
  by (auto simp: daemonize_process_def ifdef_signals_def setsid_def Let_def split: fork.splits if_splits)

text \<open>
  C40. Becoming a daemon detaches the process: it succeeds exactly in the grandchild, when both
  forks give a child and the first child leads no process group; that process is in a new
  session which it does not lead (so it never gets a controlling terminal), works in the root
  directory where it may, and has its three standard descriptors unchanged or on the null device,
  as asked. Beyond the signals ignored before, it ignores exactly those job control signals whose
  macros are declared where the file is compiled. The file does not include signal.h: where its
  headers declare none, as those of the GNU library, no signal is ignored.
\<close>

theorem daemon_detached:
  assumes "\<And>pid1 pid2. fork1 = Fork_child pid1 \<Longrightarrow> fork2 = Fork_child pid2 \<Longrightarrow> pid2 \<noteq> pid1"
    and "\<And>pid1. fork1 = Fork_child pid1 \<Longrightarrow> pid1 \<noteq> -1"
  shows "(\<exists>p'. daemonize_process declared io fork1 fork2 chdir_ok open_ok p = Inr (0, p')) \<longleftrightarrow>
      (\<exists>pid1 pid2. fork1 = Fork_child pid1 \<and> fork2 = Fork_child pid2 \<and> pid1 \<noteq> ps_pgid p) \<and>
    (\<forall>p'. daemonize_process declared io fork1 fork2 chdir_ok open_ok p = Inr (0, p') \<longrightarrow>
      ps_sid p' \<noteq> ps_pid p' \<and> ps_pgid p' = ps_sid p' \<and>
      set (ps_ignored p') = set (ps_ignored p) \<union> set declared \<and>
      (chdir_ok \<longrightarrow> ps_cwd p' = ''/'') \<and> (io \<longrightarrow> ps_fds p' = ps_fds p) \<and>
      (\<not> io \<and> open_ok \<and> 3 \<le> length (ps_fds p) \<longrightarrow>
         ps_fds p' = replicate 3 (Some ''/dev/null'') @ drop 3 (ps_fds p)))"
proof -
  have iff: "(\<exists>p'. daemonize_process declared io fork1 fork2 chdir_ok open_ok p = Inr (0, p')) \<longleftrightarrow>
      (\<exists>pid1 pid2. fork1 = Fork_child pid1 \<and> fork2 = Fork_child pid2 \<and> pid1 \<noteq> ps_pgid p)"
    (is "?l \<longleftrightarrow> ?r")
  proof
    assume ?l
    then show ?r
      by (auto simp: daemonize_process_def setsid_def Let_def split: fork.splits if_splits)
  next
    assume ?r
    then show ?l using daemonize_children[of _ p] assms(2) by blast
  qed
  have "ps_sid p' \<noteq> ps_pid p' \<and> ps_pgid p' = ps_sid p' \<and>
      set (ps_ignored p') = set (ps_ignored p) \<union> set declared \<and>
      (chdir_ok \<longrightarrow> ps_cwd p' = ''/'') \<and> (io \<longrightarrow> ps_fds p' = ps_fds p) \<and>
      (\<not> io \<and> open_ok \<and> 3 \<le> length (ps_fds p) \<longrightarrow>
         ps_fds p' = replicate 3 (Some ''/dev/null'') @ drop 3 (ps_fds p))"
    if d: "daemonize_process declared io fork1 fork2 chdir_ok open_ok p = Inr (0, p')" for p'
  proof -
    obtain pid1 pid2 where f: "fork1 = Fork_child pid1" "fork2 = Fork_child pid2" "pid1 \<noteq> ps_pgid p"
      using iff d by blast
    show ?thesis
      using daemonize_children[OF assms(2)[OF f(1)] f(3), of declared io pid2 chdir_ok open_ok] assms(1)[OF f(1,2)] d
      unfolding f by (auto simp: set_ifdef_signals)
  qed
  then show ?thesis using iff by blast
qed

definition sample_process :: process where
  "sample_process = \<lparr>ps_pid = 100, ps_pgid = 100, ps_sid = 50, ps_cwd = ''/home'', ps_ignored = [],
     ps_fds = [Some ''tty'', Some ''tty'', Some ''tty'', Some ''log'']\<rparr>"

theorem daemon_detached_witness:
  "\<exists>p'. daemonize_process [] False (Fork_child 101) (Fork_child 102) True True sample_process = Inr (0, p') \<and>
     ps_sid p' \<noteq> ps_pid p' \<and> ps_ignored p' = [] \<and>
     ps_fds p' = [Some ''/dev/null'', Some ''/dev/null'', Some ''/dev/null'', Some ''log'']"
proof -
  have s: "ps_pgid sample_process = 100" "ps_ignored sample_process = []" "length (ps_fds sample_process) = 4"
    "drop 3 (ps_fds sample_process) = [Some ''log'']"
    by (simp_all add: sample_process_def)
  have d: "(\<exists>p'. daemonize_process [] False (Fork_child 101) (Fork_child 102) True True sample_process = Inr (0, p')) \<and>
    (\<forall>p'. daemonize_process [] False (Fork_child 101) (Fork_child 102) True True sample_process = Inr (0, p') \<longrightarrow>
       ps_sid p' \<noteq> ps_pid p' \<and> ps_ignored p' = [] \<and>
       ps_fds p' = replicate 3 (Some ''/dev/null'') @ [Some ''log''])"
    using daemon_detached[of "Fork_child 101" "Fork_child 102" "[]" False True True sample_process]
    by (auto simp: s)
  then obtain p' where p': "daemonize_process [] False (Fork_child 101) (Fork_child 102) True True sample_process = Inr (0, p')" by blast
  then show ?thesis using d by (auto simp: numeral_3_eq_3)
qed

end
