(* ===== verification/Client_Options.thy ===== *)
theory Client_Options
  imports Process_Util
begin

text \<open>
  What the example clients \<open>tool/pub_example\<close> and \<open>tool/sub_example\<close> share: the loop of \<open>main\<close>
  over the command line, lines of input, the options both have, the checks after the loop, the client
  identifier, and the calls that set the client library up. The library, the process
  identifier and the host name are arguments.
\<close>

abbreviation (input) MQTT_IP_LEN :: nat where "MQTT_IP_LEN \<equiv> 16"
abbreviation (input) MQTT_BUFSIZE :: nat where "MQTT_BUFSIZE \<equiv> 1024"

section \<open>The loop over the command line\<close>

text \<open>
  An option is a flag, or takes the next argument as its value; the loop leaves \<open>main\<close> with an
  exit code (\<open>Inl\<close>) or changes the state. \<open>None\<close> is an option that does not return.
\<close>

datatype 's handler =
    Flag "'s \<Rightarrow> (int + 's) option"
  | Valued "string \<Rightarrow> 's \<Rightarrow> (int + 's) option"
  | Unknown

fun parse_args :: "(string \<Rightarrow> 's handler) \<Rightarrow> string list \<Rightarrow> 's \<Rightarrow> (int + 's) option" where
  "parse_args table [] s = Some (Inr s)"
| "parse_args table (a # args) s =
     (case table a of
        Flag f \<Rightarrow>
          (case f s of
             None \<Rightarrow> None | Some (Inl e) \<Rightarrow> Some (Inl e) | Some (Inr s') \<Rightarrow> parse_args table args s')
      | Valued f \<Rightarrow>
          (case args of
             [] \<Rightarrow> Some (Inl 1)
           | v # args' \<Rightarrow>
               (case f v s of
                  None \<Rightarrow> None | Some (Inl e) \<Rightarrow> Some (Inl e) | Some (Inr s') \<Rightarrow> parse_args table args' s'))
      | Unknown \<Rightarrow> Some (Inl 1))"

text \<open>What every option keeps holds after the loop.\<close>

definition handler_keeps :: "('s \<Rightarrow> bool) \<Rightarrow> 's handler \<Rightarrow> bool" where
  "handler_keeps P h \<longleftrightarrow>
     (case h of
        Flag f \<Rightarrow> \<forall>s s'. P s \<longrightarrow> f s = Some (Inr s') \<longrightarrow> P s'
      | Valued f \<Rightarrow> \<forall>v s s'. P s \<longrightarrow> f v s = Some (Inr s') \<longrightarrow> P s'
      | Unknown \<Rightarrow> True)"

lemma parse_args_keeps:
  "(\<And>a. handler_keeps P (table a)) \<Longrightarrow> P s \<Longrightarrow> parse_args table args s = Some (Inr s') \<Longrightarrow> P s'"
proof (induction table args s rule: parse_args.induct)
  case (2 table a args s)
  have k: "handler_keeps P (table a)" by (rule "2.prems")
  show ?case
  proof (cases "table a")
    case (Flag f)
    then obtain t where "f s = Some (Inr t)" "parse_args table args t = Some (Inr s')"
      using "2.prems"(3) by (auto split: option.splits sum.splits)
    then show ?thesis using "2.IH"(1)[OF Flag] "2.prems"(1,2) k Flag by (auto simp: handler_keeps_def)
  next
    case (Valued f)
    then obtain v args' t where v: "args = v # args'" "f v s = Some (Inr t)" "parse_args table args' t = Some (Inr s')"
      using "2.prems"(3) by (auto split: option.splits sum.splits list.splits)
    then show ?thesis using "2.IH"(2)[OF Valued v(1)] "2.prems"(1,2) k Valued by (auto simp: handler_keeps_def)
  next
    case Unknown
    then show ?thesis using "2.prems"(3) by simp
  qed
qed simp

text \<open>The loop ends when the options do.\<close>

definition handler_ends :: "'s handler \<Rightarrow> bool" where
  "handler_ends h \<longleftrightarrow>
     (case h of Flag f \<Rightarrow> \<forall>s. f s \<noteq> None | Valued f \<Rightarrow> \<forall>v s. f v s \<noteq> None | Unknown \<Rightarrow> True)"

lemma parse_args_ends: "(\<And>a. handler_ends (table a)) \<Longrightarrow> parse_args table args s \<noteq> None"
proof (induction table args s rule: parse_args.induct)
  case (2 table a args s)
  have k: "handler_ends (table a)" by (rule "2.prems")
  show ?case
  proof (cases "table a")
    case (Flag f)
    then obtain r where "f s = Some r" using k by (auto simp: handler_ends_def)
    then show ?thesis using "2.IH"(1)[OF Flag] "2.prems" Flag by (cases r) auto
  next
    case (Valued f)
    show ?thesis
    proof (cases args)
      case (Cons v args')
      then obtain r where "f v s = Some r" using k Valued by (auto simp: handler_ends_def)
      then show ?thesis using "2.IH"(2)[OF Valued Cons] "2.prems" Valued Cons by (cases r) auto
    qed (simp add: Valued)
  qed simp
qed simp

text \<open>The two properties along a chain of tests.\<close>

lemma handler_keepsI [intro]:
  "(\<And>s s'. P s \<Longrightarrow> f s = Some (Inr s') \<Longrightarrow> P s') \<Longrightarrow> handler_keeps P (Flag f)"
  "(\<And>v s s'. P s \<Longrightarrow> g v s = Some (Inr s') \<Longrightarrow> P s') \<Longrightarrow> handler_keeps P (Valued g)"
  "handler_keeps P h1 \<Longrightarrow> handler_keeps P h2 \<Longrightarrow> handler_keeps P (if b then h1 else h2)"
  by (auto simp: handler_keeps_def)

lemma handler_keepsD:
  "handler_keeps P (Flag f) \<Longrightarrow> P s \<Longrightarrow> f s = Some (Inr s') \<Longrightarrow> P s'"
  "handler_keeps P (Valued g) \<Longrightarrow> P s \<Longrightarrow> g v s = Some (Inr s') \<Longrightarrow> P s'"
  by (auto simp: handler_keeps_def)

lemma handler_endsI [intro]:
  "(\<And>s. f s \<noteq> None) \<Longrightarrow> handler_ends (Flag f)" "(\<And>v s. g v s \<noteq> None) \<Longrightarrow> handler_ends (Valued g)"
  "handler_ends h1 \<Longrightarrow> handler_ends h2 \<Longrightarrow> handler_ends (if b then h1 else h2)"
  by (auto simp: handler_ends_def)

section \<open>Lines of input\<close>

definition text_of :: "string list \<Rightarrow> string" where
  "text_of ls = concat (map (\<lambda>l. l @ [CHR 0x0A]) ls)"

text \<open>The lines that fit the buffer with their newline and its terminator.\<close>

definition line_fits :: "string \<Rightarrow> bool" where
  "line_fits l \<longleftrightarrow> NUL \<notin> set l \<and> CHR 0x0A \<notin> set l \<and> length l \<le> 1022"

lemma fgets_line: "line_fits l \<Longrightarrow> fgets 1024 (l @ CHR 0x0A # rest) = Some (l @ [CHR 0x0A], rest)"
proof -
  assume l: "line_fits l"
  have "takeWhile (\<lambda>c. c \<noteq> CHR 0x0A) (l @ CHR 0x0A # rest) = l"
    using l by (subst takeWhile_append2) (auto simp: line_fits_def)
  moreover obtain k where "1023 - length l = Suc k"
    using l by (cases "1023 - length l") (auto simp: line_fits_def)
  ultimately show ?thesis using l by (simp add: fgets_def line_fits_def)
qed

lemma cstr_line: "line_fits l \<Longrightarrow> cstr (l @ [CHR 0x0A]) = l @ [CHR 0x0A]"
  by (auto simp: line_fits_def cstr_def takeWhile_eq_all_conv)

section \<open>The options both clients have\<close>

record client =
  cl_id :: string
  cl_id_prefix :: string
  cl_host :: string
  cl_port :: int
  cl_keepalive :: int
  cl_will_topic :: "string option"
  cl_will_payload :: "string option"
  cl_will_qos :: int
  cl_will_retain :: bool
  cl_debug :: bool
  cl_username :: "string option"
  cl_password :: "string option"
  cl_qos :: int
  cl_quiet :: bool

text \<open>
  A host or an identifier that is too long prints the usage and is ignored; the other mistakes
  leave \<open>main\<close>. The length of the payload of the will is that of the string.
\<close>

definition common_option :: "nat \<Rightarrow> string \<Rightarrow> 'a client_scheme handler" where
  "common_option id_max a =
     (if a = ''-p'' \<or> a = ''--port'' then
        Valued (\<lambda>v s. let port = atoi v in
          Some (if port < 1 \<or> port > 65535 then Inl 1 else Inr (s\<lparr>cl_port := port\<rparr>)))
      else if a = ''-d'' \<or> a = ''--debug'' then Flag (\<lambda>s. Some (Inr (s\<lparr>cl_debug := True\<rparr>)))
      else if a = ''--help'' then Flag (\<lambda>s. Some (Inl 0))
      else if a = ''-h'' \<or> a = ''--host'' then
        Valued (\<lambda>v s. Some (Inr (if length v \<ge> MQTT_IP_LEN then s else s\<lparr>cl_host := v\<rparr>)))
      else if a = ''-i'' \<or> a = ''--id'' then
        Valued (\<lambda>v s. Some (if length (cl_id_prefix s) \<noteq> 0 then Inl 1
          else Inr (if length v \<ge> id_max then s else s\<lparr>cl_id := v\<rparr>)))
      else if a = ''-I'' \<or> a = ''--id-prefix'' then
        Valued (\<lambda>v s. Some (if length (cl_id s) \<noteq> 0 then Inl 1
          else Inr (if length v \<ge> id_max then s else s\<lparr>cl_id_prefix := v\<rparr>)))
      else if a = ''-q'' \<or> a = ''--qos'' then
        Valued (\<lambda>v s. let qos = atoi v in
          Some (if qos < 0 \<or> qos > 2 then Inl 1 else Inr (s\<lparr>cl_qos := qos\<rparr>)))
      else if a = ''--quiet'' then Flag (\<lambda>s. Some (Inr (s\<lparr>cl_quiet := True\<rparr>)))
      else if a = ''-u'' \<or> a = ''--username'' then Valued (\<lambda>v s. Some (Inr (s\<lparr>cl_username := Some v\<rparr>)))
      else if a = ''-P'' \<or> a = ''--pw'' then Valued (\<lambda>v s. Some (Inr (s\<lparr>cl_password := Some v\<rparr>)))
      else if a = ''--will-payload'' then Valued (\<lambda>v s. Some (Inr (s\<lparr>cl_will_payload := Some v\<rparr>)))
      else if a = ''--will-qos'' then
        Valued (\<lambda>v s. let qos = atoi v in
          Some (if qos < 0 \<or> qos > 2 then Inl 1 else Inr (s\<lparr>cl_will_qos := qos\<rparr>)))
      else if a = ''--will-retain'' then Flag (\<lambda>s. Some (Inr (s\<lparr>cl_will_retain := True\<rparr>)))
      else if a = ''--will-topic'' then Valued (\<lambda>v s. Some (Inr (s\<lparr>cl_will_topic := Some v\<rparr>)))
      else Unknown)"

text \<open>The bounds the common options promise.\<close>

definition client_ok :: "nat \<Rightarrow> 'a client_scheme \<Rightarrow> bool" where
  "client_ok id_max s \<longleftrightarrow>
     1 \<le> cl_port s \<and> cl_port s \<le> 65535 \<and> length (cl_host s) < MQTT_IP_LEN \<and>
     0 \<le> cl_qos s \<and> cl_qos s \<le> 2 \<and> 0 \<le> cl_will_qos s \<and> cl_will_qos s \<le> 2 \<and>
     (length (cl_id s) < id_max \<or> cl_id s = []) \<and> (length (cl_id_prefix s) < id_max \<or> cl_id_prefix s = []) \<and>
     (cl_id s = [] \<or> cl_id_prefix s = [])"

lemma common_option_keeps: "handler_keeps (client_ok id_max) (common_option id_max a)"
  by (auto simp: common_option_def handler_keeps_def client_ok_def Let_def)

lemma common_option_ends: "handler_ends (common_option id_max a)"
  by (auto simp: common_option_def handler_ends_def Let_def)


text \<open>They leave the members of a record that extends this one alone.\<close>

lemma common_option_frame: "handler_keeps (\<lambda>s. client.more s = x) (common_option id_max a)"
  by (auto simp: common_option_def handler_keeps_def Let_def)

lemma common_option_keeps_more:
  fixes P :: "'a client_scheme \<Rightarrow> bool"
  assumes "\<And>s t. P s \<Longrightarrow> client_ok id_max t \<Longrightarrow> client.more t = client.more s \<Longrightarrow> P t"
    and "\<And>s. P s \<Longrightarrow> client_ok id_max s"
  shows "handler_keeps P (common_option id_max a)"
proof (cases "common_option id_max a :: 'a client_scheme handler")
  case (Flag f)
  have k: "handler_keeps (client_ok id_max) (Flag f)" "handler_keeps (\<lambda>s. client.more s = x) (Flag f)" for x
    unfolding Flag[symmetric] by (rule common_option_keeps common_option_frame)+
  show ?thesis
    unfolding Flag
  proof (rule handler_keepsI)
    fix s s' :: "'a client_scheme"
    assume s: "P s" "f s = Some (Inr s')"
    show "P s'"
      by (rule assms(1)[OF s(1)])
        (rule handler_keepsD(1)[OF k(1) assms(2)[OF s(1)] s(2)] handler_keepsD(1)[OF k(2) refl s(2)])+
  qed
next
  case (Valued f)
  have k: "handler_keeps (client_ok id_max) (Valued f)" "handler_keeps (\<lambda>s. client.more s = x) (Valued f)" for x
    unfolding Valued[symmetric] by (rule common_option_keeps common_option_frame)+
  show ?thesis
    unfolding Valued
  proof (rule handler_keepsI)
    fix v and s s' :: "'a client_scheme"
    assume s: "P s" "f v s = Some (Inr s')"
    show "P s'"
      by (rule assms(1)[OF s(1)])
        (rule handler_keepsD(2)[OF k(1) assms(2)[OF s(1)] s(2)] handler_keepsD(2)[OF k(2) refl s(2)])+
  qed
qed (simp add: handler_keeps_def)

section \<open>Checks and set-up\<close>

text \<open>The checks of the will; a password without a user name is only warned about.\<close>

definition will_consistent :: "'a client_scheme \<Rightarrow> bool" where
  "will_consistent s \<longleftrightarrow>
     \<not> (cl_will_payload s \<noteq> None \<and> cl_will_topic s = None) \<and>
     \<not> (cl_will_retain s \<and> cl_will_topic s = None)"

text \<open>The client library, and the two system calls that make the client identifier.\<close>

record mqtt_library =
  lm_id_max :: nat
  lm_pid :: int
  lm_hostname :: string
  lm_new :: bool
  lm_will_set :: int
  lm_pw_set :: int
  lm_connect :: int

text \<open>
  \<open>snprintf\<close> into \<open>id\<close>, a buffer of \<open>id_max + 32\<close> bytes; then the identifier is cut to \<open>id_max\<close>
  characters. The host name is read into 256 zeroed bytes.
\<close>

definition client_id :: "mqtt_library \<Rightarrow> string \<Rightarrow> 'a client_scheme \<Rightarrow> string" where
  "client_id L name s =
     (let print = take (lm_id_max L + 31);
          id1 = (if length (cl_id_prefix s) \<noteq> 0 then print (cl_id_prefix s @ sprintf_d (lm_pid L))
                 else if length (cl_id s) = 0
                 then print (name @ sprintf_d (lm_pid L) @ ''-'' @ take 255 (lm_hostname L))
                 else cl_id s)
      in if length id1 > lm_id_max L then take (lm_id_max L) id1 else id1)"

text \<open>The calls up to \<open>mosquitto_connect\<close>: an exit code, or the identifier the client has.\<close>

definition client_setup :: "mqtt_library \<Rightarrow> string \<Rightarrow> 'a client_scheme \<Rightarrow> int + string" where
  "client_setup L name s =
     (if \<not> lm_new L then Inl 1
      else if cl_will_topic s \<noteq> None \<and> lm_will_set L \<noteq> 0 then Inl 1
      else if cl_username s \<noteq> None \<and> lm_pw_set L \<noteq> 0 then Inl 1
      else if lm_connect L \<noteq> 0 then Inl (lm_connect L)
      else Inr (client_id L name s))"

lemma length_client_id: "length (client_id L name s) \<le> lm_id_max L"
  by (auto simp: client_id_def Let_def)

lemma sprintf_d_nonempty: "sprintf_d i \<noteq> []"
  by (simp add: sprintf_d_def decimal_nonempty)

lemma client_id_nonempty: "0 < lm_id_max L \<Longrightarrow> client_id L name s \<noteq> []"
  by (auto simp: client_id_def Let_def sprintf_d_nonempty)

lemma client_id_given: "cl_id_prefix s = [] \<Longrightarrow> cl_id s \<noteq> [] \<Longrightarrow> length (cl_id s) < lm_id_max L \<Longrightarrow>
    client_id L name s = cl_id s"
  by (simp add: client_id_def)

end
