(* ===== verification/Pub_Client.thy ===== *)
theory Pub_Client
  imports Client_Options
begin

text \<open>
  The client \<open>tool/pub_example/pub_example.c\<close>, which publishes one message (given on the command
  line, read from a file or from standard input, or empty) or each line of its input. The
  model has its command line, its callbacks, and the loop of \<open>main\<close> whose turns interleave with
  the callbacks: in the line mode the client library runs them in a thread of its own.
\<close>

abbreviation (input) MQTT_MSGMODE_NONE :: int where "MQTT_MSGMODE_NONE \<equiv> 0"
abbreviation (input) MQTT_MSGMODE_CMD :: int where "MQTT_MSGMODE_CMD \<equiv> 1"
abbreviation (input) MQTT_MSGMODE_STDIN_LINE :: int where "MQTT_MSGMODE_STDIN_LINE \<equiv> 2"
abbreviation (input) MQTT_MSGMODE_STDIN_FILE :: int where "MQTT_MSGMODE_STDIN_FILE \<equiv> 3"
abbreviation (input) MQTT_MSGMODE_FILE :: int where "MQTT_MSGMODE_FILE \<equiv> 4"
abbreviation (input) MQTT_MSGMODE_NULL :: int where "MQTT_MSGMODE_NULL \<equiv> 5"

abbreviation (input) MQTT_STATUS_CONNECTING :: int where "MQTT_STATUS_CONNECTING \<equiv> 0"
abbreviation (input) MQTT_STATUS_CONNACK_RECVD :: int where "MQTT_STATUS_CONNACK_RECVD \<equiv> 1"
abbreviation (input) MQTT_STATUS_WAITING :: int where "MQTT_STATUS_WAITING \<equiv> 2"

text \<open>
  The user data, with standard input (what is left of it), the answers of the allocator and
  the \<open>max_inflight\<close> of \<open>main\<close>.
\<close>

record pub_client = client +
  pu_topic :: "string option"
  pu_message :: "string option"
  pu_msglen :: int
  pu_retain :: int
  pu_mode :: int
  pu_status :: int
  pu_mid_sent :: int
  pu_last_mid :: int
  pu_connected :: bool
  pu_disconnect_sent :: bool
  pu_max_inflight :: "32 word"
  pu_stdin :: string
  pu_heap :: heap

section \<open>Reading the message\<close>

text \<open>
  \<open>while (!feof(stdin))\<close>: each turn reads up to 1024 bytes; a short read sets the end-of-file
  flag. The result is \<open>None\<close> for the message when \<open>realloc\<close> fails.
\<close>

function load_stdin_loop :: "heap \<Rightarrow> string \<Rightarrow> string \<Rightarrow> heap \<times> string option \<times> string" where
  "load_stdin_loop m msg inp =
     (let chunk = take MQTT_BUFSIZE inp; rest = drop MQTT_BUFSIZE inp; (ok, m1) = malloc m in
      if \<not> ok then (m1, None, rest)
      else if length chunk < MQTT_BUFSIZE then (m1, Some (msg @ chunk), rest)
      else load_stdin_loop m1 (msg @ chunk) rest)"
  by pat_completeness auto
termination
  by (relation "measure (\<lambda>(m, msg, inp). length inp)") (auto simp: min_def split: if_splits)

declare load_stdin_loop.simps [simp del]

text \<open>The state afterwards with the result code.\<close>

definition mqtt_load_stdin :: "pub_client \<Rightarrow> int \<times> pub_client" where
  "mqtt_load_stdin s =
     (let s = s\<lparr>pu_mode := MQTT_MSGMODE_STDIN_FILE\<rparr>;
          (m, msg, rest) = load_stdin_loop (pu_heap s) (case pu_message s of None \<Rightarrow> [] | Some x \<Rightarrow> x) (pu_stdin s);
          s = s\<lparr>pu_heap := m, pu_message := msg, pu_stdin := rest\<rparr>
      in case msg of
           None \<Rightarrow> (1, s)
         | Some x \<Rightarrow>
             let s = s\<lparr>pu_msglen := int (length x)\<rparr>
             in (if pu_msglen s = 0 then 1 else 0, s))"

text \<open>
  A file that can be opened: the size \<open>ftell\<close> reports at its end (negative when it fails) and the
  bytes that can be read. They differ for special files and for a file that shrinks meanwhile.
\<close>

record disk_file =
  f_size :: int
  f_content :: string

text \<open>
  \<open>while (pos < msglen)\<close>: \<open>fread\<close> delivers what is left, and nothing at the end of the file, where
  the loop goes on without end. \<open>None\<close> is that loop.
\<close>

partial_function (option) load_file_loop :: "string \<Rightarrow> string \<Rightarrow> nat \<Rightarrow> string option" where
  "load_file_loop msg rest n =
     (if length msg < n
      then load_file_loop (msg @ take (n - length msg) rest) (drop (n - length msg) rest) n
      else Some msg)"

definition mqtt_load_file ::
    "(string \<Rightarrow> disk_file option) \<Rightarrow> string \<Rightarrow> pub_client \<Rightarrow> (int \<times> pub_client) option" where
  "mqtt_load_file fopen filename s =
     (case fopen filename of
        None \<Rightarrow> Some (1, s)
      | Some fptr \<Rightarrow>
          let s = s\<lparr>pu_mode := MQTT_MSGMODE_FILE, pu_msglen := f_size fptr\<rparr> in
          if pu_msglen s > 268435455 then Some (1, s)
          else if pu_msglen s = 0 then Some (1, s)
          else if pu_msglen s < 0 then Some (1, s)
          else let (ok, m1) = malloc (pu_heap s); s = s\<lparr>pu_heap := m1\<rparr> in
            if \<not> ok then Some (1, s\<lparr>pu_message := None\<rparr>)
            else map_option (\<lambda>msg. (0, s\<lparr>pu_message := Some msg\<rparr>))
                   (load_file_loop [] (f_content fptr) (nat (pu_msglen s))))"

section \<open>The command line\<close>

text \<open>The options in the order of \<open>main\<close>; those the two clients share are \<open>common_option\<close>.\<close>

definition pub_option :: "nat \<Rightarrow> (string \<Rightarrow> disk_file option) \<Rightarrow> string \<Rightarrow> pub_client handler" where
  "pub_option id_max fopen a =
     (if a = ''-f'' \<or> a = ''--file'' then
        Valued (\<lambda>v s. if pu_mode s \<noteq> MQTT_MSGMODE_NONE then Some (Inl 1)
          else map_option (\<lambda>(ret, s'). if ret \<noteq> 0 then Inl 1 else Inr s') (mqtt_load_file fopen v s))
      else if a = ''-l'' \<or> a = ''--stdin-line'' then
        Flag (\<lambda>s. Some (if pu_mode s \<noteq> MQTT_MSGMODE_NONE then Inl 1
          else Inr (s\<lparr>pu_mode := MQTT_MSGMODE_STDIN_LINE\<rparr>)))
      else if a = ''-m'' \<or> a = ''--message'' then
        Valued (\<lambda>v s. Some (if pu_mode s \<noteq> MQTT_MSGMODE_NONE then Inl 1
          else Inr (s\<lparr>pu_message := Some v, pu_msglen := int (length v), pu_mode := MQTT_MSGMODE_CMD\<rparr>)))
      else if a = ''-M'' then Valued (\<lambda>v s. Some (Inr (s\<lparr>pu_max_inflight := word_of_int (atoi v)\<rparr>)))
      else if a = ''-n'' \<or> a = ''--null-message'' then
        Flag (\<lambda>s. Some (if pu_mode s \<noteq> MQTT_MSGMODE_NONE then Inl 1
          else Inr (s\<lparr>pu_mode := MQTT_MSGMODE_NULL\<rparr>)))
      else if a = ''-r'' \<or> a = ''--retain'' then Flag (\<lambda>s. Some (Inr (s\<lparr>pu_retain := 1\<rparr>)))
      else if a = ''-s'' \<or> a = ''--stdin-file'' then
        Flag (\<lambda>s. Some (if pu_mode s \<noteq> MQTT_MSGMODE_NONE then Inl 1
          else let (ret, s') = mqtt_load_stdin s in if ret \<noteq> 0 then Inl 1 else Inr s'))
      else if a = ''-t'' \<or> a = ''--topic'' then Valued (\<lambda>v s. Some (Inr (s\<lparr>pu_topic := Some v\<rparr>)))
      else common_option id_max a)"

definition pub_initial :: "string \<Rightarrow> heap \<Rightarrow> pub_client" where
  "pub_initial stdin m =
     \<lparr>cl_id = [], cl_id_prefix = [], cl_host = ''127.0.0.1'', cl_port = 1883, cl_keepalive = 60,
      cl_will_topic = None, cl_will_payload = None, cl_will_qos = 0, cl_will_retain = False,
      cl_debug = False, cl_username = None, cl_password = None, cl_qos = 2, cl_quiet = False,
      pu_topic = None, pu_message = None, pu_msglen = 0, pu_retain = 0, pu_mode = MQTT_MSGMODE_NONE,
      pu_status = MQTT_STATUS_CONNECTING, pu_mid_sent = 0, pu_last_mid = -1, pu_connected = True,
      pu_disconnect_sent = False, pu_max_inflight = 20, pu_stdin = stdin, pu_heap = m\<rparr>"

text \<open>
  \<open>main\<close> up to its loop: an exit code, or the state with the client identifier. The first
  allocation, of the user data, is not tested.
\<close>

definition pub_start ::
    "mqtt_library \<Rightarrow> (string \<Rightarrow> disk_file option) \<Rightarrow> string \<Rightarrow> heap \<Rightarrow> string list \<Rightarrow>
     (int + string \<times> pub_client) option" where
  "pub_start L fopen stdin m args =
     map_option (\<lambda>r.
       case r of
         Inl code \<Rightarrow> Inl code
       | Inr s \<Rightarrow>
           if pu_topic s = None \<or> pu_mode s = MQTT_MSGMODE_NONE then Inl 1
           else if \<not> will_consistent s then Inl 1
           else map_sum id (\<lambda>i. (i, s)) (client_setup L ''mosqub/'' s))
       (parse_args (pub_option (lm_id_max L) fopen) args (pub_initial stdin m))"


section \<open>Publishing\<close>

text \<open>
  A call of \<open>mosquitto_publish\<close> and its result; the messages whose publication the library still
  has to report; and whether \<open>mosquitto_disconnect\<close> was called.
\<close>

record sent =
  se_rc :: int
  se_topic :: "string option"
  se_len :: int
  se_payload :: "string option"
  se_qos :: int
  se_retain :: int

record pub_run =
  ru_client :: pub_client
  ru_sent :: "sent list"
  ru_pending :: "int list"
  ru_disconnect :: bool

text \<open>The library answers with a result and leaves a message identifier in \<open>mid_sent\<close>.\<close>

definition client_publish :: "int \<times> int \<Rightarrow> int \<Rightarrow> string option \<Rightarrow> pub_run \<Rightarrow> pub_run" where
  "client_publish answer len payload st =
     (let (rc, mid) = answer; s = ru_client st in
      st\<lparr>ru_client := s\<lparr>pu_mid_sent := mid\<rparr>,
         ru_sent := ru_sent st @ [\<lparr>se_rc = rc, se_topic = pu_topic s, se_len = len, se_payload = payload,
                                   se_qos = cl_qos s, se_retain = pu_retain s\<rparr>],
         ru_pending := (if rc = 0 then mid # ru_pending st else ru_pending st)\<rparr>)"

definition client_disconnect :: "pub_run \<Rightarrow> pub_run" where
  "client_disconnect st = st\<lparr>ru_disconnect := True\<rparr>"

definition pub_connect_callback :: "int \<times> int \<Rightarrow> int \<Rightarrow> pub_run \<Rightarrow> pub_run" where
  "pub_connect_callback answer result st =
     (let s = ru_client st; failed = (\<lambda>st. if fst answer \<noteq> 0 then client_disconnect st else st) in
      if result = 0 then
        (if pu_mode s = MQTT_MSGMODE_CMD \<or> pu_mode s = MQTT_MSGMODE_FILE \<or> pu_mode s = MQTT_MSGMODE_STDIN_FILE
         then failed (client_publish answer (pu_msglen s) (pu_message s) st)
         else if pu_mode s = MQTT_MSGMODE_NULL then failed (client_publish answer 0 None st)
         else if pu_mode s = MQTT_MSGMODE_STDIN_LINE
         then st\<lparr>ru_client := s\<lparr>pu_status := MQTT_STATUS_CONNACK_RECVD\<rparr>\<rparr>
         else st)
      else st)"

definition pub_disconnect_callback :: "pub_run \<Rightarrow> pub_run" where
  "pub_disconnect_callback st = st\<lparr>ru_client := (ru_client st)\<lparr>pu_connected := False\<rparr>\<rparr>"

definition pub_publish_callback :: "int \<Rightarrow> pub_run \<Rightarrow> pub_run" where
  "pub_publish_callback mid st =
     (let s = ru_client st;
          stop = (client_disconnect st)\<lparr>ru_client := s\<lparr>pu_disconnect_sent := True\<rparr>\<rparr>
      in if pu_mode s = MQTT_MSGMODE_STDIN_LINE then (if mid = pu_last_mid s then stop else st)
         else if pu_disconnect_sent s = False then stop
         else st)"

text \<open>
  The body of the loop in the line mode. \<open>None\<close> is the write before the buffer for a line that
  starts with a zero byte. While the client waits it only sleeps, and while it connects it only
  tests its flags; in the other modes the body is the library's loop, which runs the callbacks.
\<close>

definition pub_line_turn :: "int \<times> int \<Rightarrow> pub_run \<Rightarrow> pub_run option" where
  "pub_line_turn answer st =
     (let s = ru_client st in
      if pu_mode s = MQTT_MSGMODE_STDIN_LINE \<and> pu_status s = MQTT_STATUS_CONNACK_RECVD then
        (case fgets MQTT_BUFSIZE (pu_stdin s) of
           Some (buf, rest) \<Rightarrow>
             let st = st\<lparr>ru_client := s\<lparr>pu_stdin := rest\<rparr>\<rparr>; line = cstr buf in
             if line = [] then None
             else let st = client_publish answer (int (length (butlast line))) (Some (butlast line)) st
                  in Some (if fst answer \<noteq> 0 then client_disconnect st else st)
         | None \<Rightarrow>
             Some (st\<lparr>ru_client := s\<lparr>pu_last_mid := pu_mid_sent s, pu_status := MQTT_STATUS_WAITING\<rparr>\<rparr>))
      else Some st)"

text \<open>
  The states of a run: connections that are answered, publications that are reported (each
  once), the end of the connection, and turns of the loop, in any order. The identifiers
  of messages accepted are positive. The flag that ends the loop is written by another thread than the one
  that reads it, so a turn may still follow.
\<close>

inductive pub_reachable :: "pub_run \<Rightarrow> pub_run \<Rightarrow> bool" for st0 where
  start: "pub_reachable st0 st0"
| connack: "pub_reachable st0 st \<Longrightarrow> rc = 0 \<longrightarrow> 0 < mid \<Longrightarrow> pub_reachable st0 (pub_connect_callback (rc, mid) result st)"
| published: "pub_reachable st0 st \<Longrightarrow> mid \<in> set (ru_pending st) \<Longrightarrow>
    pub_reachable st0 (pub_publish_callback mid (st\<lparr>ru_pending := remove1 mid (ru_pending st)\<rparr>))"
| disconnected: "pub_reachable st0 st \<Longrightarrow> pub_reachable st0 (pub_disconnect_callback st)"
| turn: "pub_reachable st0 st \<Longrightarrow> rc = 0 \<longrightarrow> 0 < mid \<Longrightarrow> pub_line_turn (rc, mid) st = Some st' \<Longrightarrow> pub_reachable st0 st'"

definition pub_run_start :: "pub_client \<Rightarrow> pub_run" where
  "pub_run_start s = \<lparr>ru_client = s, ru_sent = [], ru_pending = [], ru_disconnect = False\<rparr>"

end
