(* ===== verification/Pub_Facts.thy ===== *)
theory Pub_Facts
  imports Pub_Client
begin

text \<open>
  Facts about the publishing client: what reading its message gives and when it ends, what holds
  of a client that starts, and what its runs publish, in each mode and under every interleaving
  with the callbacks.
\<close>

section \<open>Reading the message\<close>

lemma load_stdin_result:
  "load_stdin_loop m msg inp = (m', r, rest) \<Longrightarrow>
     (r = None \<and> m \<noteq> [] \<or> r = Some (msg @ inp) \<and> rest = [])"
proof (induction m msg inp arbitrary: m' r rest rule: load_stdin_loop.induct)
  case (1 m msg inp)
  obtain ok m1 where a: "malloc m = (ok, m1)" by force
  have ok: "ok \<or> m \<noteq> []" "m = [] \<Longrightarrow> m1 = []" using a by auto
  show ?case
  proof (cases "ok \<and> \<not> length inp < 1024")
    case True
    have l: "load_stdin_loop m1 (msg @ take 1024 inp) (drop 1024 inp) = (m', r, rest)"
      using "1.prems" True a by (subst (asm) load_stdin_loop.simps) (simp add: Let_def)
    show ?thesis using "1.IH"[OF refl refl a[symmetric] refl _ _ l] True ok(2) by auto
  next
    case False
    then show ?thesis using "1.prems" a ok
      by (subst (asm) load_stdin_loop.simps) (auto simp: Let_def split: if_splits)
  qed
qed

lemma load_file_enough:
  assumes "length msg \<le> n" "n \<le> length msg + length rest"
  shows "load_file_loop msg rest n = Some (msg @ take (n - length msg) rest)"
proof (cases "length msg < n")
  case True
  let ?msg = "msg @ take (n - length msg) rest"
  have "length ?msg = n" using assms by simp
  then have "load_file_loop ?msg (drop (n - length msg) rest) n = Some ?msg"
    by (subst load_file_loop.simps) simp
  then show ?thesis using True by (subst load_file_loop.simps) simp
next
  case False
  then show ?thesis using assms by (subst load_file_loop.simps) simp
qed

lemma load_file_needs:
  assumes "load_file_loop msg rest n = Some y"
  shows "n \<le> length msg + length rest"
proof (rule load_file_loop.raw_induct[OF _ assms, where P = "\<lambda>msg rest n y. n \<le> length msg + length rest"])
  fix lf :: "string \<Rightarrow> string \<Rightarrow> nat \<Rightarrow> string option" and msg rest n y
  assume IH: "\<And>msg rest n y. lf msg rest n = Some y \<Longrightarrow> n \<le> length msg + length rest"
    and s: "(if length msg < n then lf (msg @ take (n - length msg) rest) (drop (n - length msg) rest) n
             else Some msg) = Some y"
  show "n \<le> length msg + length rest"
  proof (cases "length msg < n")
    case True
    then have "lf (msg @ take (n - length msg) rest) (drop (n - length msg) rest) n = Some y" using s by simp
    then have "n \<le> length (msg @ take (n - length msg) rest) + length (drop (n - length msg) rest)" by (rule IH)
    then show ?thesis by simp
  qed simp
qed

lemma load_file_short: "length msg + length rest < n \<Longrightarrow> load_file_loop msg rest n = None"
  using load_file_needs[of msg rest n] by (cases "load_file_loop msg rest n") auto

text \<open>The files that hold at least the bytes their size promises.\<close>

definition file_whole :: "disk_file \<Rightarrow> bool" where
  "file_whole f \<longleftrightarrow> f_size f \<le> int (length (f_content f))"

lemma load_file_result:
  assumes "fopen v = Some f" "file_whole f"
  shows "\<exists>ret s'. mqtt_load_file fopen v s = Some (ret, s') \<and>
    (ret = 0 \<longrightarrow> 0 < f_size f \<and> f_size f \<le> 268435455 \<and>
       s' = s\<lparr>pu_mode := MQTT_MSGMODE_FILE, pu_msglen := f_size f,
              pu_message := Some (take (nat (f_size f)) (f_content f)), pu_heap := snd (malloc (pu_heap s))\<rparr>)"
proof (cases "0 < f_size f \<and> f_size f \<le> 268435455")
  case True
  then have "load_file_loop [] (f_content f) (nat (f_size f)) = Some (take (nat (f_size f)) (f_content f))"
    using load_file_enough[of "[]" "nat (f_size f)" "f_content f"] assms(2) by (simp add: file_whole_def)
  then show ?thesis
    using True assms(1) by (auto simp: mqtt_load_file_def Let_def split: prod.split)
next
  case False
  then show ?thesis using assms(1) by (auto simp: mqtt_load_file_def Let_def not_less)
qed

lemma load_file_ends:
  assumes "\<And>f. fopen v = Some f \<Longrightarrow> file_whole f"
  shows "\<exists>ret s'. mqtt_load_file fopen v s = Some (ret, s')"
proof (cases "fopen v")
  case None
  then show ?thesis by (simp add: mqtt_load_file_def)
next
  case (Some f)
  then show ?thesis using load_file_result[of fopen v f s] assms[of f] by blast
qed

lemma pub_option_ends:
  "\<forall>v f. fopen v = Some f \<longrightarrow> file_whole f \<Longrightarrow> handler_ends (pub_option id_max fopen a)"
  unfolding pub_option_def
  by (intro handler_endsI common_option_ends) (simp_all add: load_file_ends split: prod.split)


section \<open>A client that starts\<close>

text \<open>
  Before \<open>main\<close> enters its loop: nothing is sent and no flag is set; and the message is the one its
  mode promises, with its length.
\<close>

definition fresh :: "pub_client \<Rightarrow> bool" where
  "fresh s \<longleftrightarrow> pu_status s = MQTT_STATUS_CONNECTING \<and> pu_mid_sent s = 0 \<and> pu_last_mid s = -1 \<and>
     pu_connected s \<and> \<not> pu_disconnect_sent s"

definition message_chosen :: "(string \<Rightarrow> disk_file option) \<Rightarrow> string \<Rightarrow> pub_client \<Rightarrow> bool" where
  "message_chosen fopen stdin s \<longleftrightarrow>
     (if pu_mode s = MQTT_MSGMODE_FILE then
        \<exists>v f. fopen v = Some f \<and> 0 < f_size f \<and> f_size f \<le> 268435455 \<and> pu_msglen s = f_size f \<and>
          pu_message s = Some (take (nat (f_size f)) (f_content f)) \<and> pu_stdin s = stdin
      else if pu_mode s = MQTT_MSGMODE_STDIN_FILE then
        stdin \<noteq> [] \<and> pu_message s = Some stdin \<and> pu_msglen s = int (length stdin) \<and> pu_stdin s = []
      else if pu_mode s = MQTT_MSGMODE_CMD then
        (\<exists>v. pu_message s = Some v \<and> pu_msglen s = int (length v)) \<and> pu_stdin s = stdin
      else (pu_mode s = MQTT_MSGMODE_NONE \<or> pu_mode s = MQTT_MSGMODE_STDIN_LINE \<or> pu_mode s = MQTT_MSGMODE_NULL) \<and>
        pu_message s = None \<and> pu_stdin s = stdin)"

definition pub_ok :: "nat \<Rightarrow> (string \<Rightarrow> disk_file option) \<Rightarrow> string \<Rightarrow> pub_client \<Rightarrow> bool" where
  "pub_ok id_max fopen stdin s \<longleftrightarrow> client_ok id_max s \<and> fresh s \<and> message_chosen fopen stdin s"

lemma load_stdin_ok:
  assumes "pub_ok id_max fopen stdin s" "pu_mode s = MQTT_MSGMODE_NONE" "mqtt_load_stdin s = (0, s')"
  shows "pub_ok id_max fopen stdin s'"
proof -
  have s: "pu_message s = None" "pu_stdin s = stdin"
    using assms(1,2) by (simp_all add: pub_ok_def message_chosen_def)
  obtain m r rest where l: "load_stdin_loop (pu_heap s) [] stdin = (m, r, rest)" by (metis surj_pair)
  define t where "t = s\<lparr>pu_mode := MQTT_MSGMODE_STDIN_FILE, pu_heap := m, pu_message := r, pu_stdin := rest\<rparr>"
  have "r \<noteq> None" using assms(3) s l by (cases r) (auto simp: mqtt_load_stdin_def Let_def)
  then have r: "r = Some stdin" "rest = []" using load_stdin_result[OF l] by auto
  have "mqtt_load_stdin s = (if stdin = [] then 1 else 0, t\<lparr>pu_msglen := int (length stdin)\<rparr>)"
    using s l r by (simp add: mqtt_load_stdin_def t_def)
  then have s': "s' = t\<lparr>pu_msglen := int (length stdin)\<rparr>" "stdin \<noteq> []" using assms(3) by (simp_all split: if_splits)
  have "client_ok id_max s'" "fresh s'"
    using assms(1) s'(1) by (simp_all add: t_def pub_ok_def client_ok_def fresh_def)
  moreover have "message_chosen fopen stdin s'"
    unfolding message_chosen_def s'(1) t_def using r s'(2) by simp
  ultimately show ?thesis by (simp add: pub_ok_def)
qed

lemma load_file_ok:
  assumes "\<And>v f. fopen v = Some f \<Longrightarrow> file_whole f"
    and "pub_ok id_max fopen stdin s" "pu_mode s = MQTT_MSGMODE_NONE" "mqtt_load_file fopen v s = Some (0, s')"
  shows "pub_ok id_max fopen stdin s'"
proof (cases "fopen v")
  case None
  then show ?thesis using assms(4) by (simp add: mqtt_load_file_def)
next
  case (Some f)
  have f: "0 < f_size f \<and> f_size f \<le> 268435455"
    "s' = s\<lparr>pu_mode := MQTT_MSGMODE_FILE, pu_msglen := f_size f,
       pu_message := Some (take (nat (f_size f)) (f_content f)), pu_heap := snd (malloc (pu_heap s))\<rparr>"
    using load_file_result[of fopen v f s] Some assms(1)[OF Some] assms(4) by auto
  have "client_ok id_max s'" "fresh s'"
    using assms(2) f(2) by (simp_all add: pub_ok_def client_ok_def fresh_def)
  moreover have "message_chosen fopen stdin s'"
    unfolding message_chosen_def using assms(2,3) f Some by (auto simp: pub_ok_def message_chosen_def)
  ultimately show ?thesis by (simp add: pub_ok_def)
qed


text \<open>Every option keeps the promise.\<close>

lemma common_option_pub_ok: "handler_keeps (pub_ok id_max fopen stdin) (common_option id_max a)"
proof (rule common_option_keeps_more)
  fix s t :: pub_client
  assume s: "pub_ok id_max fopen stdin s" and t: "client_ok id_max t" "client.more t = client.more s"
  have "fresh t = fresh s" "message_chosen fopen stdin t = message_chosen fopen stdin s"
    using t(2) by (cases s, cases t, simp add: fresh_def message_chosen_def)+
  then show "pub_ok id_max fopen stdin t" using s t(1) by (simp add: pub_ok_def)
qed (simp add: pub_ok_def)

lemma pub_ok_update:
  assumes "pub_ok id_max fopen stdin s"
  shows "pub_ok id_max fopen stdin (s\<lparr>pu_max_inflight := n\<rparr>)" "pub_ok id_max fopen stdin (s\<lparr>pu_retain := r\<rparr>)"
    "pub_ok id_max fopen stdin (s\<lparr>pu_topic := t\<rparr>)"
    "pu_mode s = MQTT_MSGMODE_NONE \<Longrightarrow> pub_ok id_max fopen stdin (s\<lparr>pu_mode := MQTT_MSGMODE_STDIN_LINE\<rparr>)"
    "pu_mode s = MQTT_MSGMODE_NONE \<Longrightarrow> pub_ok id_max fopen stdin (s\<lparr>pu_mode := MQTT_MSGMODE_NULL\<rparr>)"
    "pu_mode s = MQTT_MSGMODE_NONE \<Longrightarrow> pub_ok id_max fopen stdin
       (s\<lparr>pu_message := Some v, pu_msglen := int (length v), pu_mode := MQTT_MSGMODE_CMD\<rparr>)"
proof -
  have s: "client_ok id_max s" "fresh s" "message_chosen fopen stdin s" using assms by (simp_all add: pub_ok_def)
  note c = s(1)[unfolded client_ok_def] and fr = s(2)[unfolded fresh_def]
  have u: "message_chosen fopen stdin (s\<lparr>pu_max_inflight := n\<rparr>) = message_chosen fopen stdin s"
    "message_chosen fopen stdin (s\<lparr>pu_retain := r\<rparr>) = message_chosen fopen stdin s"
    "message_chosen fopen stdin (s\<lparr>pu_topic := t\<rparr>) = message_chosen fopen stdin s"
    by (simp_all add: message_chosen_def)
  have k: "client_ok id_max (s\<lparr>pu_max_inflight := n\<rparr>)" "client_ok id_max (s\<lparr>pu_retain := r\<rparr>)"
    "client_ok id_max (s\<lparr>pu_topic := t\<rparr>)" "client_ok id_max (s\<lparr>pu_mode := m\<rparr>)"
    "client_ok id_max (s\<lparr>pu_message := Some v, pu_msglen := l, pu_mode := m\<rparr>)" for m l
    using c by (simp_all add: client_ok_def)
  have g: "fresh (s\<lparr>pu_max_inflight := n\<rparr>)" "fresh (s\<lparr>pu_retain := r\<rparr>)" "fresh (s\<lparr>pu_topic := t\<rparr>)"
    "fresh (s\<lparr>pu_mode := m\<rparr>)" "fresh (s\<lparr>pu_message := Some v, pu_msglen := l, pu_mode := m\<rparr>)" for m l
    using fr by (simp_all add: fresh_def)
  show "pub_ok id_max fopen stdin (s\<lparr>pu_max_inflight := n\<rparr>)" "pub_ok id_max fopen stdin (s\<lparr>pu_retain := r\<rparr>)"
    "pub_ok id_max fopen stdin (s\<lparr>pu_topic := t\<rparr>)"
    using s(3) u k g by (simp_all add: pub_ok_def)
  assume "pu_mode s = MQTT_MSGMODE_NONE"
  then have "pu_message s = None" "pu_stdin s = stdin" using s(3) by (simp_all add: message_chosen_def)
  then show "pub_ok id_max fopen stdin (s\<lparr>pu_mode := MQTT_MSGMODE_STDIN_LINE\<rparr>)"
    "pub_ok id_max fopen stdin (s\<lparr>pu_mode := MQTT_MSGMODE_NULL\<rparr>)"
    "pub_ok id_max fopen stdin (s\<lparr>pu_message := Some v, pu_msglen := int (length v), pu_mode := MQTT_MSGMODE_CMD\<rparr>)"
    using k g by (simp_all add: pub_ok_def message_chosen_def)
qed

lemma pub_option_pub_ok:
  assumes "\<And>v f. fopen v = Some f \<Longrightarrow> file_whole f"
  shows "handler_keeps (pub_ok id_max fopen stdin) (pub_option id_max fopen a)"
proof -
  have loaded: "pub_ok id_max fopen stdin s'"
    if "pub_ok id_max fopen stdin s" "pu_mode s = MQTT_MSGMODE_NONE" "mqtt_load_file fopen v s = Some (0, s')" for v s s'
    using load_file_ok[of fopen id_max stdin s v s'] assms that by blast
  show ?thesis
    unfolding pub_option_def
    by (intro handler_keepsI common_option_pub_ok)
      (auto simp: pub_ok_update split: if_splits prod.splits dest: load_stdin_ok loaded)
qed


lemma pub_initial_ok: "pub_ok id_max fopen stdin (pub_initial stdin m)"
  by (simp add: pub_ok_def client_ok_def fresh_def message_chosen_def pub_initial_def)

lemma pub_start_cases:
  assumes "\<And>v f. fopen v = Some f \<Longrightarrow> file_whole f"
    and "pub_start L fopen stdin m args = Some (Inr (i, s))"
  shows "pub_ok (lm_id_max L) fopen stdin s" "pu_topic s \<noteq> None" "pu_mode s \<noteq> MQTT_MSGMODE_NONE"
    "will_consistent s" "i = client_id L ''mosqub/'' s"
proof -
  obtain r where r: "parse_args (pub_option (lm_id_max L) fopen) args (pub_initial stdin m) = Some r"
    using assms(2) by (auto simp: pub_start_def)
  obtain t where t: "r = Inr t" using assms(2) r by (cases r) (simp_all add: pub_start_def)
  have c0: "pu_topic t \<noteq> None" "pu_mode t \<noteq> MQTT_MSGMODE_NONE" "will_consistent t"
    "map_sum id (\<lambda>i. (i, t)) (client_setup L ''mosqub/'' t) = Inr (i, s)"
    using assms(2) r t by (simp_all add: pub_start_def split: if_splits)
  then have st: "t = s" "client_setup L ''mosqub/'' s = Inr i"
    by (cases "client_setup L ''mosqub/'' t"; simp)+
  have p: "parse_args (pub_option (lm_id_max L) fopen) args (pub_initial stdin m) = Some (Inr s)"
    using r t st(1) by simp
  have c: "pu_topic s \<noteq> None \<and> pu_mode s \<noteq> MQTT_MSGMODE_NONE \<and> will_consistent s \<and>
      client_setup L ''mosqub/'' s = Inr i"
    using c0 st by simp
  show "pub_ok (lm_id_max L) fopen stdin s"
    using parse_args_keeps[OF pub_option_pub_ok pub_initial_ok p] assms(1) by blast
  show "pu_topic s \<noteq> None" "pu_mode s \<noteq> MQTT_MSGMODE_NONE" "will_consistent s" using c by simp_all
  show "i = client_id L ''mosqub/'' s" using c by (simp add: client_setup_def split: if_splits)
qed

text \<open>A library, a client for the line mode, and a file that is shorter than its size says.\<close>

definition sample_mqtt :: mqtt_library where
  "sample_mqtt = \<lparr>lm_id_max = 23, lm_pid = 7, lm_hostname = ''host'', lm_new = True, lm_will_set = 0,
     lm_pw_set = 0, lm_connect = 0\<rparr>"

definition sample_pub :: "string \<Rightarrow> pub_client" where
  "sample_pub stdin = (pub_initial stdin [])\<lparr>pu_topic := Some ''x'', pu_mode := MQTT_MSGMODE_STDIN_LINE\<rparr>"

lemma sample_pub_start:
  "pub_start sample_mqtt (\<lambda>_. None) stdin [] [''-t'', ''x'', ''-l''] = Some (Inr (''mosqub/7-host'', sample_pub stdin))"
proof -
  have h: "pub_option 23 (\<lambda>_. None) ''-t'' = Valued (\<lambda>v s. Some (Inr (s\<lparr>pu_topic := Some v\<rparr>)))"
    "pub_option 23 (\<lambda>_. None) ''-l'' = Flag (\<lambda>s. Some (if pu_mode s \<noteq> MQTT_MSGMODE_NONE then Inl 1
       else Inr (s\<lparr>pu_mode := MQTT_MSGMODE_STDIN_LINE\<rparr>)))"
    by (simp_all add: pub_option_def)
  have d: "decimal 7 = ''7''" by code_simp
  have i: "client_id sample_mqtt ''mosqub/'' (sample_pub stdin) = ''mosqub/7-host''"
    by (simp add: client_id_def sample_mqtt_def sample_pub_def pub_initial_def sprintf_d_def d)
  show ?thesis
    using i by (simp add: pub_start_def h sample_mqtt_def sample_pub_def pub_initial_def will_consistent_def client_setup_def)
qed

definition short_file :: "string \<Rightarrow> disk_file option" where
  "short_file v = (if v = ''log'' then Some \<lparr>f_size = 5, f_content = ''ab''\<rparr> else None)"

text \<open>
  The publishing client comes to its loop, or exits, on every command line, provided the
  files it can open hold as many bytes as their size says; naming one that holds fewer makes it
  read for ever.
\<close>

lemma pub_start_ends:
  "((\<forall>v f. fopen v = Some f \<longrightarrow> file_whole f) \<longrightarrow> (\<exists>r. pub_start L fopen stdin m args = Some r)) \<and>
   (\<forall>v f. fopen v = Some f \<and> \<not> file_whole f \<and> f_size f \<le> 268435455 \<longrightarrow>
      pub_start L fopen stdin [] (''-f'' # v # args) = None)"
proof (intro conjI impI allI)
  assume "\<forall>v f. fopen v = Some f \<longrightarrow> file_whole f"
  then have "parse_args (pub_option (lm_id_max L) fopen) args (pub_initial stdin m) \<noteq> None"
    by (intro parse_args_ends pub_option_ends)
  then show "\<exists>r. pub_start L fopen stdin m args = Some r" by (auto simp: pub_start_def)
next
  fix v f
  assume f: "fopen v = Some f \<and> \<not> file_whole f \<and> f_size f \<le> 268435455"
  then have s: "0 < f_size f" "length (f_content f) < nat (f_size f)" by (auto simp: file_whole_def zless_nat_eq_int_zless)
  then have "load_file_loop [] (f_content f) (nat (f_size f)) = None" by (intro load_file_short) simp
  then have "mqtt_load_file fopen v (pub_initial stdin []) = None"
    using f s(1) by (simp add: mqtt_load_file_def pub_initial_def Let_def)
  moreover have "pub_option (lm_id_max L) fopen ''-f'' =
      Valued (\<lambda>v s. if pu_mode s \<noteq> MQTT_MSGMODE_NONE then Some (Inl 1)
        else map_option (\<lambda>(ret, s'). if ret \<noteq> 0 then Inl 1 else Inr s') (mqtt_load_file fopen v s))"
    by (simp add: pub_option_def)
  ultimately show "pub_start L fopen stdin [] (''-f'' # v # args) = None"
    by (simp add: pub_start_def pub_initial_def)
qed


lemma pub_start_ends_witness:
  "(\<exists>r. pub_start sample_mqtt (\<lambda>_. None) ''ab'' [] [''-s'', ''-t'', ''x''] = Some r) \<and>
   pub_start sample_mqtt short_file [] [] [''-f'', ''log'', ''-t'', ''x''] = None"
  using pub_start_ends[of "\<lambda>_. None" sample_mqtt "''ab''" "[]" "[''-s'', ''-t'', ''x'']"]
    pub_start_ends[of short_file sample_mqtt "[]" "[]" "[''-t'', ''x'']"]
  by (auto simp: short_file_def file_whole_def)

section \<open>Publishing lines\<close>

text \<open>
  In a run over the lines \<open>ls\<close>: some are sent, in order; the others are still to be read; and the
  client can only wait or stop when none is left.
\<close>

definition lines_sent :: "string list \<Rightarrow> pub_client \<Rightarrow> string list \<Rightarrow> pub_run \<Rightarrow> bool" where
  "lines_sent ls s0 rest st \<longleftrightarrow>
     (\<exists>front. ls = front @ rest \<and>
        map (\<lambda>x. (se_topic x, se_payload x, se_qos x, se_retain x)) (ru_sent st) =
        map (\<lambda>l. (pu_topic s0, Some l, cl_qos s0, pu_retain s0)) front)"

definition line_run :: "string list \<Rightarrow> pub_client \<Rightarrow> pub_run \<Rightarrow> bool" where
  "line_run ls s0 st \<longleftrightarrow>
     (let s = ru_client st in
      pu_mode s = MQTT_MSGMODE_STDIN_LINE \<and> pu_topic s = pu_topic s0 \<and> cl_qos s = cl_qos s0 \<and>
      pu_retain s = pu_retain s0 \<and> list_all (\<lambda>mid. 0 < mid) (ru_pending st) \<and>
      (\<exists>rest. pu_stdin s = text_of rest \<and> list_all line_fits rest \<and> lines_sent ls s0 rest st \<and>
         (rest \<noteq> [] \<longrightarrow> pu_last_mid s = -1 \<and> \<not> pu_disconnect_sent s) \<and>
         (ru_disconnect st \<longrightarrow> rest = [] \<or> list_ex (\<lambda>x. se_rc x \<noteq> 0) (ru_sent st))))"

lemma line_run_turn:
  assumes "line_run ls s0 st" "rc = 0 \<longrightarrow> 0 < mid"
  shows "\<exists>st'. pub_line_turn (rc, mid) st = Some st' \<and> line_run ls s0 st'"
proof -
  let ?s = "ru_client st"
  obtain rest where r: "pu_stdin ?s = text_of rest" "list_all line_fits rest" "lines_sent ls s0 rest st"
    "rest \<noteq> [] \<longrightarrow> pu_last_mid ?s = -1 \<and> \<not> pu_disconnect_sent ?s"
    "ru_disconnect st \<longrightarrow> rest = [] \<or> list_ex (\<lambda>x. se_rc x \<noteq> 0) (ru_sent st)"
    and m: "pu_mode ?s = MQTT_MSGMODE_STDIN_LINE" "pu_topic ?s = pu_topic s0" "cl_qos ?s = cl_qos s0"
      "pu_retain ?s = pu_retain s0" "list_all (\<lambda>mid. 0 < mid) (ru_pending st)"
    using assms(1) by (auto simp: line_run_def Let_def)
  show ?thesis
  proof (cases "pu_status ?s = MQTT_STATUS_CONNACK_RECVD")
    case ready: True
    show ?thesis
    proof (cases rest)
      case Nil
      then show ?thesis
        using r m ready
        by (auto simp: pub_line_turn_def line_run_def Let_def text_of_def lines_sent_def)
    next
      case (Cons l ls')
      have l: "line_fits l" "list_all line_fits ls'" using r(2) Cons by auto
      have g: "fgets 1024 (pu_stdin ?s) = Some (l @ [CHR 0x0A], text_of ls')"
        using fgets_line[OF l(1)] r(1) Cons by (simp add: text_of_def)
      define st1 where "st1 = client_publish (rc, mid) (int (length l)) (Some l)
        (st\<lparr>ru_client := ?s\<lparr>pu_stdin := text_of ls'\<rparr>\<rparr>)"
      have st1: "ru_client st1 = ?s\<lparr>pu_stdin := text_of ls', pu_mid_sent := mid\<rparr>"
        "ru_sent st1 = ru_sent st @ [\<lparr>se_rc = rc, se_topic = pu_topic s0, se_len = int (length l),
           se_payload = Some l, se_qos = cl_qos s0, se_retain = pu_retain s0\<rparr>]"
        "ru_pending st1 = (if rc = 0 then mid # ru_pending st else ru_pending st)"
        "ru_disconnect st1 = ru_disconnect st"
        using m by (simp_all add: st1_def client_publish_def Let_def)
      have t: "pub_line_turn (rc, mid) st = Some (if rc \<noteq> 0 then client_disconnect st1 else st1)"
        using g m(1) ready cstr_line[OF l(1)] by (simp add: pub_line_turn_def Let_def st1_def)
      obtain front where d: "ls = front @ l # ls'"
        "map (\<lambda>x. (se_topic x, se_payload x, se_qos x, se_retain x)) (ru_sent st) =
         map (\<lambda>l. (pu_topic s0, Some l, cl_qos s0, pu_retain s0)) front"
        using r(3) Cons by (auto simp: lines_sent_def)
      have sent: "lines_sent ls s0 ls' st1" "lines_sent ls s0 ls' (client_disconnect st1)"
        unfolding lines_sent_def using d m
        by (auto intro!: exI[of _ "front @ [l]"] simp: st1 client_disconnect_def)
      have ex: "list_ex (\<lambda>x. se_rc x \<noteq> 0) (ru_sent st1) \<longleftrightarrow> rc \<noteq> 0 \<or> list_ex (\<lambda>x. se_rc x \<noteq> 0) (ru_sent st)"
        by (auto simp: st1)
      have "line_run ls s0 (if rc \<noteq> 0 then client_disconnect st1 else st1)"
        unfolding line_run_def Let_def
        using r m sent l(2) ex assms(2) Cons
        by (auto simp: st1 client_disconnect_def intro!: exI[of _ ls'])
      then show ?thesis using t by blast
    qed
  next
    case False
    then show ?thesis using assms(1) by (auto simp: pub_line_turn_def Let_def)
  qed
qed


lemma line_run_connack: "line_run ls s0 st \<Longrightarrow> line_run ls s0 (pub_connect_callback answer result st)"
  by (auto simp: line_run_def pub_connect_callback_def lines_sent_def Let_def)

lemma line_run_disconnected: "line_run ls s0 st \<Longrightarrow> line_run ls s0 (pub_disconnect_callback st)"
  by (auto simp: line_run_def pub_disconnect_callback_def lines_sent_def Let_def)

lemma line_run_published:
  assumes "line_run ls s0 st" "mid \<in> set (ru_pending st)"
  shows "line_run ls s0 (pub_publish_callback mid (st\<lparr>ru_pending := remove1 mid (ru_pending st)\<rparr>))"
proof -
  have "0 < mid" using assms by (auto simp: line_run_def Let_def list_all_iff)
  moreover have "list_all (\<lambda>mid. 0 < mid) (remove1 mid (ru_pending st))"
    using assms(1) set_remove1_subset[of mid "ru_pending st"] by (auto simp: line_run_def Let_def list_all_iff)
  ultimately show ?thesis
    using assms(1)
    by (auto simp: line_run_def pub_publish_callback_def client_disconnect_def lines_sent_def Let_def)
qed

lemma line_run_reachable: "pub_reachable st0 st \<Longrightarrow> line_run ls s0 st0 \<Longrightarrow> line_run ls s0 st"
proof (induction rule: pub_reachable.induct)
  case (turn st rc mid st')
  then show ?case using line_run_turn[of ls s0 st rc mid] by auto
qed (simp_all add: line_run_connack line_run_disconnected line_run_published)

lemma line_run_start:
  assumes "pub_ok id_max fopen (text_of ls) s" "pu_mode s = MQTT_MSGMODE_STDIN_LINE" "list_all line_fits ls"
  shows "line_run ls s (pub_run_start s)"
  using assms by (auto simp: line_run_def pub_run_start_def lines_sent_def pub_ok_def message_chosen_def fresh_def Let_def)

text \<open>
  C37. In the line mode, where the input is a text of lines that each end with a newline, fit the
  line buffer (1022 bytes) and have no zero byte, the client publishes the lines, each
  once, in order, with the topic, quality of service and retain flag asked for, however its turns
  interleave with the connections and reports of the library: what it has sent is a beginning of
  the text, and what is left to read is the rest. No turn writes outside the line buffer. It asks
  to disconnect only when every line is published, or after a publication failed, lines left or
  not.
\<close>

theorem pub_lines_in_order:
  assumes "\<And>v f. fopen v = Some f \<Longrightarrow> file_whole f"
    and "pub_start L fopen (text_of ls) m args = Some (Inr (i, s))"
    and "pu_mode s = MQTT_MSGMODE_STDIN_LINE" "list_all line_fits ls"
    and "pub_reachable (pub_run_start s) st"
  shows "\<exists>front rest. ls = front @ rest \<and> pu_stdin (ru_client st) = text_of rest \<and>
    map (\<lambda>x. (se_topic x, se_payload x, se_qos x, se_retain x)) (ru_sent st) =
      map (\<lambda>l. (pu_topic s, Some l, cl_qos s, pu_retain s)) front \<and>
    (pu_disconnect_sent (ru_client st) \<longrightarrow> rest = []) \<and>
    (ru_disconnect st \<longrightarrow> rest = [] \<or> list_ex (\<lambda>x. se_rc x \<noteq> 0) (ru_sent st)) \<and>
    (\<forall>rc mid. (rc = 0 \<longrightarrow> 0 < mid) \<longrightarrow> pub_line_turn (rc, mid) st \<noteq> None)"
proof -
  have r: "line_run ls s st"
    using line_run_reachable[OF assms(5)] line_run_start[of "lm_id_max L" fopen ls s]
      pub_start_cases(1)[of fopen L "text_of ls" m args i s] assms(1-4) by blast
  have t: "\<forall>rc mid. (rc = 0 \<longrightarrow> 0 < mid) \<longrightarrow> pub_line_turn (rc, mid) st \<noteq> None"
    using line_run_turn[OF r] by fastforce
  obtain rest where rest: "pu_stdin (ru_client st) = text_of rest" "lines_sent ls s rest st"
    "pu_disconnect_sent (ru_client st) \<longrightarrow> rest = []"
    "ru_disconnect st \<longrightarrow> rest = [] \<or> list_ex (\<lambda>x. se_rc x \<noteq> 0) (ru_sent st)"
    using r by (auto simp: line_run_def Let_def)
  then obtain front where "ls = front @ rest"
    "map (\<lambda>x. (se_topic x, se_payload x, se_qos x, se_retain x)) (ru_sent st) =
      map (\<lambda>l. (pu_topic s, Some l, cl_qos s, pu_retain s)) front"
    by (auto simp: lines_sent_def)
  then show ?thesis using rest t by blast
qed


text \<open>The client after its connection and a turn for the first of two lines.\<close>

definition sample_connected :: "string \<Rightarrow> pub_run" where
  "sample_connected stdin = pub_connect_callback (0, 1) 0 (pub_run_start (sample_pub stdin))"

definition sample_sent :: "string \<Rightarrow> pub_run option" where
  "sample_sent stdin = pub_line_turn (0, 1) (sample_connected stdin)"

lemma sample_connected_reachable:
  "pub_reachable (pub_run_start (sample_pub stdin)) (sample_connected stdin)"
  unfolding sample_connected_def by (rule pub_reachable.connack[OF pub_reachable.start]) simp

lemma sample_sent_reachable:
  "sample_sent stdin = Some st \<Longrightarrow> pub_reachable (pub_run_start (sample_pub stdin)) st"
  unfolding sample_sent_def by (rule pub_reachable.turn[OF sample_connected_reachable]) simp_all

theorem pub_lines_in_order_witness:
  "\<exists>st front rest. sample_sent (text_of [''ab'', ''c'']) = Some st \<and> [''ab'', ''c''] = front @ rest \<and>
     map se_payload (ru_sent st) = map Some front \<and> front = [''ab'']"
proof -
  have "map_option (\<lambda>st. map se_payload (ru_sent st)) (sample_sent (text_of [''ab'', ''c''])) = Some [Some ''ab'']"
    by code_simp
  then obtain st where st: "sample_sent (text_of [''ab'', ''c'']) = Some st" "map se_payload (ru_sent st) = [Some ''ab'']"
    by auto
  have s: "pu_mode (sample_pub (text_of [''ab'', ''c''])) = MQTT_MSGMODE_STDIN_LINE" "list_all line_fits [''ab'', ''c'']"
    by (simp_all add: sample_pub_def line_fits_def)
  obtain front rest where r: "[''ab'', ''c''] = front @ rest"
    "map (\<lambda>x. (se_topic x, se_payload x, se_qos x, se_retain x)) (ru_sent st) =
      map (\<lambda>l. (pu_topic (sample_pub (text_of [''ab'', ''c''])), Some l,
        cl_qos (sample_pub (text_of [''ab'', ''c''])), pu_retain (sample_pub (text_of [''ab'', ''c''])))) front"
    using pub_lines_in_order[OF _ sample_pub_start s sample_sent_reachable[OF st(1)]] by auto
  have "map (fst \<circ> snd) (map (\<lambda>x. (se_topic x, se_payload x, se_qos x, se_retain x)) (ru_sent st)) = map Some front"
    unfolding r(2) by simp
  then have p: "map se_payload (ru_sent st) = map Some front" by (simp add: comp_def)
  then have "front = [''ab'']" using st(2) by auto
  then show ?thesis using st(1) r(1) p by blast
qed

section \<open>When the client does not stop\<close>

text \<open>
  At the end of the input, with every publication reported and no request to disconnect made,
  nothing makes the client stop.
\<close>

definition stuck :: "pub_run \<Rightarrow> bool" where
  "stuck st \<longleftrightarrow>
     (let s = ru_client st in
      pu_mode s = MQTT_MSGMODE_STDIN_LINE \<and> pu_stdin s = [] \<and> ru_pending st = [] \<and>
      \<not> pu_disconnect_sent s \<and> \<not> ru_disconnect st)"

lemma stuck_reachable: "pub_reachable st0 st \<Longrightarrow> stuck st0 \<Longrightarrow> stuck st \<and> ru_sent st = ru_sent st0"
proof (induction rule: pub_reachable.induct)
  case (turn st rc mid st')
  then show ?case by (auto simp: stuck_def pub_line_turn_def Let_def split: if_splits)
qed (auto simp: stuck_def pub_connect_callback_def pub_disconnect_callback_def Let_def)

text \<open>
  The runs in which the library reports no loss of the connection. The loop of \<open>main\<close> goes on
  while \<open>connected\<close> is set; in the line mode it has no other condition.
\<close>

inductive pub_undisturbed :: "pub_run \<Rightarrow> pub_run \<Rightarrow> bool" for st0 where
  start: "pub_undisturbed st0 st0"
| connack: "pub_undisturbed st0 st \<Longrightarrow> rc = 0 \<longrightarrow> 0 < mid \<Longrightarrow>
    pub_undisturbed st0 (pub_connect_callback (rc, mid) result st)"
| published: "pub_undisturbed st0 st \<Longrightarrow> mid \<in> set (ru_pending st) \<Longrightarrow>
    pub_undisturbed st0 (pub_publish_callback mid (st\<lparr>ru_pending := remove1 mid (ru_pending st)\<rparr>))"
| turn: "pub_undisturbed st0 st \<Longrightarrow> rc = 0 \<longrightarrow> 0 < mid \<Longrightarrow> pub_line_turn (rc, mid) st = Some st' \<Longrightarrow>
    pub_undisturbed st0 st'"

lemma undisturbed_reachable: "pub_undisturbed st0 st \<Longrightarrow> pub_reachable st0 st"
  by (induction rule: pub_undisturbed.induct) (auto intro: pub_reachable.intros)

lemma undisturbed_connected:
  "pub_undisturbed st0 st \<Longrightarrow> pu_connected (ru_client st) = pu_connected (ru_client st0)"
proof (induction rule: pub_undisturbed.induct)
  case (turn st rc mid st')
  then show ?case
    by (auto simp: pub_line_turn_def client_publish_def client_disconnect_def Let_def
        split: if_splits option.splits prod.splits)
qed (auto simp: pub_connect_callback_def pub_publish_callback_def client_publish_def client_disconnect_def Let_def)

lemma stuck_turn: "stuck st \<Longrightarrow> pub_line_turn answer st \<noteq> None"
  by (auto simp: stuck_def pub_line_turn_def fgets_def Let_def)

text \<open>
  C38. The publishing client may wait for ever after its last line: if all its publications are
  reported before it sees the end of its input (or its input is empty), then from there on it
  never asks to disconnect and never sends anything, whatever happens, and every turn of its
  loop returns; and as long as the library does not report the connection lost, the flag that
  keeps the loop going stays set. So only the loss of the connection ends the loop.
\<close>

theorem pub_waits_for_ever:
  assumes "pub_reachable st0 st" "pu_mode (ru_client st) = MQTT_MSGMODE_STDIN_LINE"
    and "pu_stdin (ru_client st) = []" "ru_pending st = []"
    and "\<not> pu_disconnect_sent (ru_client st)" "\<not> ru_disconnect st"
    and "pub_reachable st st'"
  shows "\<not> ru_disconnect st' \<and> \<not> pu_disconnect_sent (ru_client st') \<and> ru_sent st' = ru_sent st \<and>
    (\<forall>answer. pub_line_turn answer st' \<noteq> None) \<and>
    (pub_undisturbed st st' \<and> pu_connected (ru_client st) \<longrightarrow> pu_connected (ru_client st'))"
proof -
  have "stuck st' \<and> ru_sent st' = ru_sent st"
    using stuck_reachable[OF assms(7)] assms(2-6) by (simp add: stuck_def Let_def)
  then show ?thesis using stuck_turn undisturbed_connected by (auto simp: stuck_def Let_def)
qed

text \<open>The only line of the input is sent and reported before the end of the input is seen.\<close>

definition sample_reported :: "pub_run option" where
  "sample_reported = map_option
     (\<lambda>st. pub_publish_callback 1 (st\<lparr>ru_pending := remove1 1 (ru_pending st)\<rparr>)) (sample_sent (text_of [''ab'']))"

theorem pub_waits_for_ever_witness:
  "\<exists>st. sample_reported = Some st \<and> map se_payload (ru_sent st) = [Some ''ab''] \<and>
     (\<forall>st'. pub_undisturbed st st' \<longrightarrow> \<not> ru_disconnect st' \<and> pu_connected (ru_client st'))"
proof -
  have "map_option (\<lambda>st. (map se_payload (ru_sent st), ru_pending st)) (sample_sent (text_of [''ab''])) =
      Some ([Some ''ab''], [1])"
    "map_option (\<lambda>st. (map se_payload (ru_sent st), ru_pending st, pu_mode (ru_client st), pu_stdin (ru_client st),
       pu_disconnect_sent (ru_client st), ru_disconnect st, pu_connected (ru_client st))) sample_reported =
      Some ([Some ''ab''], [], MQTT_MSGMODE_STDIN_LINE, [], False, False, True)"
    by code_simp+
  then obtain st0 st where st0: "sample_sent (text_of [''ab'']) = Some st0" "ru_pending st0 = [1]"
    and st: "sample_reported = Some st" "map se_payload (ru_sent st) = [Some ''ab'']" "ru_pending st = []"
      "pu_mode (ru_client st) = MQTT_MSGMODE_STDIN_LINE" "pu_stdin (ru_client st) = []"
      "\<not> pu_disconnect_sent (ru_client st)" "\<not> ru_disconnect st" "pu_connected (ru_client st)"
    by auto
  have "pub_reachable (pub_run_start (sample_pub (text_of [''ab''])))
      (pub_publish_callback 1 (st0\<lparr>ru_pending := remove1 1 (ru_pending st0)\<rparr>))"
    by (rule pub_reachable.published[OF sample_sent_reachable[OF st0(1)]]) (simp add: st0(2))
  then have r: "pub_reachable (pub_run_start (sample_pub (text_of [''ab'']))) st"
    using st(1) st0(1) by (simp add: sample_reported_def)
  have "\<not> ru_disconnect st' \<and> pu_connected (ru_client st')" if "pub_undisturbed st st'" for st'
    using pub_waits_for_ever[OF r st(4,5,3,6,7) undisturbed_reachable[OF that]] that st(8) by blast
  then show ?thesis using st(1,2) by (intro exI[of _ st]) simp
qed

section \<open>Publishing one message\<close>

definition one_message :: "pub_client \<Rightarrow> int \<times> string option" where
  "one_message s = (if pu_mode s = MQTT_MSGMODE_NULL then (0, None) else (pu_msglen s, pu_message s))"

definition single_mode :: "pub_client \<Rightarrow> bool" where
  "single_mode s \<longleftrightarrow> pu_mode s = MQTT_MSGMODE_CMD \<or> pu_mode s = MQTT_MSGMODE_FILE \<or>
     pu_mode s = MQTT_MSGMODE_STDIN_FILE \<or> pu_mode s = MQTT_MSGMODE_NULL"

definition accepted :: "pub_run \<Rightarrow> nat" where
  "accepted st = length (filter (\<lambda>x. se_rc x = 0) (ru_sent st))"

definition single_run :: "pub_client \<Rightarrow> pub_run \<Rightarrow> bool" where
  "single_run s0 st \<longleftrightarrow>
     (let s = ru_client st in
      pu_mode s = pu_mode s0 \<and> pu_topic s = pu_topic s0 \<and> cl_qos s = cl_qos s0 \<and> pu_retain s = pu_retain s0 \<and>
      pu_message s = pu_message s0 \<and> pu_msglen s = pu_msglen s0 \<and>
      list_all (\<lambda>x. (se_len x, se_payload x) = one_message s0 \<and> se_topic x = pu_topic s0 \<and>
        se_qos x = cl_qos s0 \<and> se_retain x = pu_retain s0) (ru_sent st) \<and>
      length (ru_pending st) \<le> accepted st \<and>
      (length (ru_pending st) < accepted st \<longleftrightarrow> pu_disconnect_sent s) \<and>
      (ru_disconnect st \<longleftrightarrow> pu_disconnect_sent s \<or> list_ex (\<lambda>x. se_rc x \<noteq> 0) (ru_sent st)))"

lemma single_run_publish:
  assumes "single_run s st" "one_message s = (n, payload)"
  shows "single_run s (if rc \<noteq> 0 then client_disconnect (client_publish (rc, mid) n payload st)
    else client_publish (rc, mid) n payload st)"
proof -
  define st1 where "st1 = client_publish (rc, mid) n payload st"
  have p: "ru_client st1 = (ru_client st)\<lparr>pu_mid_sent := mid\<rparr>"
    "ru_sent st1 = ru_sent st @ [\<lparr>se_rc = rc, se_topic = pu_topic s, se_len = n, se_payload = payload,
       se_qos = cl_qos s, se_retain = pu_retain s\<rparr>]"
    "ru_pending st1 = (if rc = 0 then mid # ru_pending st else ru_pending st)" "ru_disconnect st1 = ru_disconnect st"
    using assms(1) by (simp_all add: st1_def single_run_def client_publish_def Let_def)
  have a: "accepted st1 = (if rc = 0 then Suc (accepted st) else accepted st)"
    "accepted (client_disconnect st1) = accepted st1"
    by (simp_all add: accepted_def p client_disconnect_def)
  show ?thesis
    unfolding st1_def[symmetric] using assms
    by (cases "rc = 0") (simp_all add: single_run_def Let_def p a, simp_all add: p client_disconnect_def)
qed

lemma connack_single:
  assumes "single_run s st" "single_mode s" "one_message s = (n, payload)"
  shows "pub_connect_callback (rc, mid) result st =
    (if result = 0 then
       (if rc \<noteq> 0 then client_disconnect (client_publish (rc, mid) n payload st)
        else client_publish (rc, mid) n payload st)
     else st)"
  using assms by (auto simp: single_run_def single_mode_def one_message_def pub_connect_callback_def Let_def)

lemma single_run_reachable:
  assumes "pub_reachable (pub_run_start s) st" "single_mode s" "fresh s"
  shows "single_run s st"
  using assms(1)
proof (induction rule: pub_reachable.induct)
  case start
  then show ?case using assms(3) by (simp add: single_run_def pub_run_start_def accepted_def fresh_def Let_def)
next
  case (connack st rc mid result)
  obtain n payload where m: "one_message s = (n, payload)" by force
  show ?case
    using connack_single[OF connack.IH assms(2) m] single_run_publish[OF connack.IH m] connack.IH by simp
next
  case (published st mid)
  then have "length (remove1 mid (ru_pending st)) < length (ru_pending st)"
    using length_pos_if_in_set[of mid "ru_pending st"] by (simp add: length_remove1)
  then show ?case
    using published assms(2)
    by (auto simp: single_run_def single_mode_def accepted_def pub_publish_callback_def client_disconnect_def Let_def)
next
  case (disconnected st)
  then show ?case by (simp add: single_run_def accepted_def pub_disconnect_callback_def Let_def)
next
  case (turn st rc mid st')
  have "pu_mode (ru_client st) \<noteq> MQTT_MSGMODE_STDIN_LINE"
    using turn.IH assms(2) by (auto simp: single_run_def single_mode_def Let_def)
  then show ?case using turn by (simp add: pub_line_turn_def Let_def)
qed


text \<open>
  In the other modes the client publishes one message and stops: everything it sends is the
  message its command line chose (the argument, the whole file, the whole input, or none), with
  its length and the topic asked for; and it asks to disconnect exactly when a publication has
  been reported, or was refused.
\<close>

lemma pub_sends_one_message:
  assumes "\<And>v f. fopen v = Some f \<Longrightarrow> file_whole f"
    and "pub_start L fopen stdin m args = Some (Inr (i, s))" "pu_mode s \<noteq> MQTT_MSGMODE_STDIN_LINE"
    and "pub_reachable (pub_run_start s) st"
  shows "list_all (\<lambda>x. (se_len x, se_payload x) = one_message s \<and> se_topic x = pu_topic s \<and>
      se_qos x = cl_qos s \<and> se_retain x = pu_retain s) (ru_sent st) \<and>
    (case one_message s of (n, None) \<Rightarrow> n = 0 | (n, Some msg) \<Rightarrow> n = int (length msg)) \<and>
    (ru_disconnect st \<longleftrightarrow> length (ru_pending st) < accepted st \<or> list_ex (\<lambda>x. se_rc x \<noteq> 0) (ru_sent st))"
proof -
  have ok: "pub_ok (lm_id_max L) fopen stdin s" "pu_mode s \<noteq> MQTT_MSGMODE_NONE"
    using pub_start_cases[of fopen L stdin m args i s] assms(1,2) by blast+
  then have c: "message_chosen fopen stdin s" "fresh s" by (simp_all add: pub_ok_def)
  then have "single_mode s"
    using assms(3) ok(2) by (auto simp: message_chosen_def single_mode_def split: if_splits)
  then have r: "single_run s st" using single_run_reachable[OF assms(4)] c(2) by blast
  have len: "pu_msglen s = int (length msg)" if msg: "pu_message s = Some msg" for msg
  proof (cases "pu_mode s = MQTT_MSGMODE_FILE")
    case True
    then obtain v f where f: "fopen v = Some f" "0 < f_size f" "pu_msglen s = f_size f"
      "msg = take (nat (f_size f)) (f_content f)"
      using c(1) msg by (auto simp: message_chosen_def)
    then show ?thesis using assms(1)[OF f(1)] by (simp add: file_whole_def min_def) linarith
  next
    case False
    then show ?thesis using c(1) msg by (auto simp: message_chosen_def split: if_splits)
  qed
  have "pu_message s \<noteq> None" if "pu_mode s \<noteq> MQTT_MSGMODE_NULL"
    using c(1) that assms(3) ok(2) by (auto simp: message_chosen_def split: if_splits)
  then have "case one_message s of (n, None) \<Rightarrow> n = 0 | (n, Some msg) \<Rightarrow> n = int (length msg)"
    using len by (auto simp: one_message_def split: option.split)
  then show ?thesis using r by (simp add: single_run_def Let_def)
qed

text \<open>
  The publishing client only comes to its loop with settings in their ranges: a port, a
  quality of service and a will that are valid, a host that fits its buffer, a client identifier
  that is not empty and not longer than the protocol allows, a topic, and exactly one message
  mode.
\<close>

lemma pub_starts_with_valid_settings:
  assumes "\<And>v f. fopen v = Some f \<Longrightarrow> file_whole f"
    and "pub_start L fopen stdin m args = Some (Inr (i, s))" "0 < lm_id_max L"
  shows "1 \<le> cl_port s \<and> cl_port s \<le> 65535 \<and> length (cl_host s) < MQTT_IP_LEN \<and>
    cl_qos s \<in> {0..2} \<and> cl_will_qos s \<in> {0..2} \<and> will_consistent s \<and>
    i \<noteq> [] \<and> length i \<le> lm_id_max L \<and> (cl_id s = [] \<or> cl_id_prefix s = []) \<and>
    pu_topic s \<noteq> None \<and> pu_mode s \<in> {MQTT_MSGMODE_CMD..MQTT_MSGMODE_NULL}"
proof -
  have s: "pub_ok (lm_id_max L) fopen stdin s" "pu_topic s \<noteq> None" "pu_mode s \<noteq> MQTT_MSGMODE_NONE"
    "will_consistent s" "i = client_id L ''mosqub/'' s"
    using pub_start_cases[of fopen L stdin m args i s] assms(1,2) by blast+
  have "client_ok (lm_id_max L) s" "message_chosen fopen stdin s" using s(1) by (simp_all add: pub_ok_def)
  moreover then have "pu_mode s \<in> {MQTT_MSGMODE_CMD..MQTT_MSGMODE_NULL}"
    using s(3) by (auto simp: message_chosen_def split: if_splits)
  ultimately show ?thesis
    using s length_client_id[of L "''mosqub/''" s] client_id_nonempty[OF assms(3), of "''mosqub/''" s]
    by (auto simp: client_ok_def)
qed


lemma pub_starts_with_valid_settings_witness:
  "pub_start sample_mqtt (\<lambda>_. None) ''a'' [] [''-t'', ''x'', ''-l''] = Some (Inr (''mosqub/7-host'', sample_pub ''a'')) \<and>
   cl_port (sample_pub ''a'') \<le> 65535 \<and> length ''mosqub/7-host'' \<le> 23"
  using pub_starts_with_valid_settings[OF _ sample_pub_start[of "''a''"]] sample_pub_start[of "''a''"]
  by (simp add: sample_mqtt_def)

end
