(* ===== verification/Sub_Client.thy ===== *)
theory Sub_Client
  imports Client_Options
begin

text \<open>
  The subscribing clients \<open>tool/sub_example/sub_example.c\<close> and \<open>sub_example_simple.c\<close>, which
  has fixed settings. The threaded variant is in \<open>Thread_Client\<close>.
\<close>

record sub_client = client +
  su_topics :: "string list"
  su_clean_session :: bool
  su_verbose :: bool
  su_no_retain :: bool

section \<open>The command line\<close>

definition sub_option :: "nat \<Rightarrow> string \<Rightarrow> 'a sub_client_scheme handler" where
  "sub_option id_max a =
     (if a = ''-c'' \<or> a = ''--disable-clean-session'' then
        Flag (\<lambda>s. Some (Inr (s\<lparr>su_clean_session := False\<rparr>)))
      else if a = ''-k'' \<or> a = ''--keepalive'' then
        Valued (\<lambda>v s. let keepalive = atoi v in
          Some (if keepalive > 65535 then Inl 1 else Inr (s\<lparr>cl_keepalive := keepalive\<rparr>)))
      else if a = ''-R'' then Flag (\<lambda>s. Some (Inr (s\<lparr>su_no_retain := True\<rparr>)))
      else if a = ''-t'' \<or> a = ''--topic'' then
        Valued (\<lambda>v s. Some (Inr (s\<lparr>su_topics := su_topics s @ [v]\<rparr>)))
      else if a = ''-v'' \<or> a = ''--verbose'' then Flag (\<lambda>s. Some (Inr (s\<lparr>su_verbose := True\<rparr>)))
      else common_option id_max a)"

definition sub_initial :: sub_client where
  "sub_initial =
     \<lparr>cl_id = [], cl_id_prefix = [], cl_host = ''127.0.0.1'', cl_port = 1883, cl_keepalive = 3600,
      cl_will_topic = None, cl_will_payload = None, cl_will_qos = 0, cl_will_retain = False,
      cl_debug = False, cl_username = None, cl_password = None, cl_qos = 2, cl_quiet = False,
      su_topics = [], su_clean_session = True, su_verbose = False, su_no_retain = False\<rparr>"

text \<open>\<open>main\<close> up to its loop: an exit code, or the state with the client identifier.\<close>

definition sub_start :: "mqtt_library \<Rightarrow> string list \<Rightarrow> (int + string \<times> sub_client) option" where
  "sub_start L args =
     map_option (\<lambda>r.
       case r of
         Inl code \<Rightarrow> Inl code
       | Inr s \<Rightarrow>
           if su_clean_session s = False \<and> (length (cl_id_prefix s) \<noteq> 0 \<or> length (cl_id s) = 0) then Inl 1
           else if length (su_topics s) = 0 then Inl 1
           else if \<not> will_consistent s then Inl 1
           else map_sum id (\<lambda>i. (i, s)) (client_setup L ''mosqsub/'' s))
       (parse_args (sub_option (lm_id_max L)) args sub_initial)"

section \<open>The callbacks\<close>

record mqtt_message =
  mm_topic :: string
  mm_payload :: string
  mm_payloadlen :: nat
  mm_retain :: bool

text \<open>
  What is printed of a message: its topic and its payload as a string (or that there is none), or
  the bytes of the payload alone. The library ends a payload with a terminator.
\<close>

datatype shown = Titled string "string option" | Bytes string

definition sub_message_callback :: "'a sub_client_scheme \<Rightarrow> mqtt_message \<Rightarrow> shown list \<Rightarrow> shown list" where
  "sub_message_callback s msg out =
     (if mm_retain msg \<and> su_no_retain s then out
      else if su_verbose s then
        (if mm_payloadlen msg \<noteq> 0 then out @ [Titled (mm_topic msg) (Some (cstr (mm_payload msg @ [NUL])))]
         else out @ [Titled (mm_topic msg) None])
      else (if mm_payloadlen msg \<noteq> 0 then out @ [Bytes (take (mm_payloadlen msg) (mm_payload msg))] else out))"

definition sub_connect_callback :: "'a sub_client_scheme \<Rightarrow> int \<Rightarrow> (string \<times> int) list \<Rightarrow> (string \<times> int) list" where
  "sub_connect_callback s result subscribed =
     (if result = 0 then subscribed @ map (\<lambda>t. (t, cl_qos s)) (su_topics s) else subscribed)"

section \<open>The loop\<close>

text \<open>
  A turn of the loop: the callbacks \<open>mosquitto_loop\<close> makes, whether a signal stops the client in
  it, and its result. The state has what is printed, what is subscribed, how often the client
  connected again, and the flag \<open>run\<close>.
\<close>

datatype sub_event = Sub_connack int | Sub_message mqtt_message

record sub_turn =
  st_events :: "sub_event list"
  st_stop :: bool
  st_rc :: int

record sub_run =
  sr_shown :: "shown list"
  sr_subscribed :: "(string \<times> int) list"
  sr_reconnects :: nat
  sr_run :: bool

definition sub_handle :: "sub_client \<Rightarrow> sub_event \<Rightarrow> sub_run \<Rightarrow> sub_run" where
  "sub_handle s e st =
     (case e of
        Sub_connack result \<Rightarrow> st\<lparr>sr_subscribed := sub_connect_callback s result (sr_subscribed st)\<rparr>
      | Sub_message msg \<Rightarrow> st\<lparr>sr_shown := sub_message_callback s msg (sr_shown st)\<rparr>)"

definition sub_loop_turn :: "sub_client \<Rightarrow> sub_turn \<Rightarrow> sub_run \<Rightarrow> sub_run" where
  "sub_loop_turn s t st =
     (let st = fold (sub_handle s) (st_events t) st;
          st = (if st_stop t then st\<lparr>sr_run := False\<rparr> else st)
      in if sr_run st \<and> st_rc t \<noteq> 0 then st\<lparr>sr_reconnects := Suc (sr_reconnects st)\<rparr> else st)"

fun sub_loop :: "sub_client \<Rightarrow> sub_turn list \<Rightarrow> sub_run \<Rightarrow> sub_run" where
  "sub_loop s [] st = st"
| "sub_loop s (t # ts) st = (if sr_run st then sub_loop s ts (sub_loop_turn s t st) else st)"

section \<open>The programs\<close>

text \<open>The exit code where \<open>main\<close> leaves before its loop, else the state after the given turns.\<close>

definition sub_run_start :: sub_run where
  "sub_run_start = \<lparr>sr_shown = [], sr_subscribed = [], sr_reconnects = 0, sr_run = True\<rparr>"

definition sub_main :: "mqtt_library \<Rightarrow> string list \<Rightarrow> sub_turn list \<Rightarrow> (int + sub_run) option" where
  "sub_main L args turns =
     map_option (map_sum id (\<lambda>(i, s). sub_loop s turns sub_run_start)) (sub_start L args)"

section \<open>The simple client\<close>

text \<open>
  \<open>main\<close> of \<open>sub_example_simple.c\<close> up to its loop: the exit code, or the client identifier and what is
  subscribed. The loop is \<open>sub_loop\<close>; its callbacks only print.
\<close>

definition sub_simple_start :: "mqtt_library \<Rightarrow> int + string \<times> (string \<times> int) list" where
  "sub_simple_start L =
     (let clientid = take 22 (''client_id'' @ ''_'' @ sprintf_d (lm_pid L)) in
      if \<not> lm_new L then Inl 1
      else if lm_connect L \<noteq> 0 then Inl 1
      else Inr (clientid, [(''simon'', 0)]))"


section \<open>What the clients do\<close>

lemma sub_option_keeps: "handler_keeps (client_ok id_max) (sub_option id_max a)"
  unfolding sub_option_def
  by (intro handler_keepsI common_option_keeps) (auto simp: client_ok_def Let_def split: if_splits)

lemma sub_option_ends: "handler_ends (sub_option id_max a)"
  unfolding sub_option_def by (intro handler_endsI common_option_ends) (simp_all add: Let_def)

lemma sub_start_cases:
  assumes "sub_start L args = Some (Inr (i, s))"
  shows "client_ok (lm_id_max L) s" "su_topics s \<noteq> []" "will_consistent s" "i = client_id L ''mosqsub/'' s"
    "su_clean_session s \<or> i = cl_id s"
proof -
  obtain r where r: "parse_args (sub_option (lm_id_max L)) args sub_initial = Some r"
    using assms by (auto simp: sub_start_def)
  obtain t where t: "r = Inr t" using assms r by (cases r) (simp_all add: sub_start_def)
  have c0: "su_clean_session t \<or> cl_id_prefix t = [] \<and> cl_id t \<noteq> []" "su_topics t \<noteq> []" "will_consistent t"
    "map_sum id (\<lambda>i. (i, t)) (client_setup L ''mosqsub/'' t) = Inr (i, s)"
    using assms r t by (auto simp: sub_start_def split: if_splits)
  then have st: "t = s" "client_setup L ''mosqsub/'' s = Inr i"
    by (cases "client_setup L ''mosqsub/'' t"; simp)+
  have "client_ok (lm_id_max L) sub_initial" by (simp add: client_ok_def sub_initial_def)
  then show ok: "client_ok (lm_id_max L) s"
    using parse_args_keeps[OF sub_option_keeps _ r[unfolded t]] st(1) by blast
  show "su_topics s \<noteq> []" "will_consistent s" using c0 st(1) by simp_all
  show i: "i = client_id L ''mosqsub/'' s" using st(2) by (simp add: client_setup_def split: if_splits)
  show "su_clean_session s \<or> i = cl_id s"
    using c0(1) st(1) ok client_id_given[of s L "''mosqsub/''"] i by (auto simp: client_ok_def)
qed

text \<open>The turns the loop makes: the last is the one in which a signal stops it.\<close>

fun live_turns :: "sub_turn list \<Rightarrow> sub_turn list" where
  "live_turns [] = []"
| "live_turns (t # ts) = t # (if st_stop t then [] else live_turns ts)"

definition shown_by :: "sub_client \<Rightarrow> sub_event \<Rightarrow> shown list" where
  "shown_by s e = (case e of Sub_connack _ \<Rightarrow> [] | Sub_message msg \<Rightarrow> sub_message_callback s msg [])"

definition subscribed_by :: "sub_client \<Rightarrow> sub_event \<Rightarrow> (string \<times> int) list" where
  "subscribed_by s e =
     (if e = Sub_connack 0 then map (\<lambda>t. (t, cl_qos s)) (su_topics s) else [])"

lemma sub_events:
  "fold (sub_handle s) es st =
     st\<lparr>sr_shown := sr_shown st @ concat (map (shown_by s) es),
        sr_subscribed := sr_subscribed st @ concat (map (subscribed_by s) es)\<rparr>"
proof (induction es arbitrary: st)
  case (Cons e es)
  have "sub_handle s e st = st\<lparr>sr_shown := sr_shown st @ shown_by s e,
      sr_subscribed := sr_subscribed st @ subscribed_by s e\<rparr>"
    by (cases e) (auto simp: sub_handle_def shown_by_def subscribed_by_def sub_message_callback_def
        sub_connect_callback_def)
  then show ?case by (simp add: Cons.IH)
qed simp

lemma sub_loop_effect:
  assumes "sr_run st"
  shows "sr_shown (sub_loop s ts st) = sr_shown st @ concat (map (shown_by s) (concat (map st_events (live_turns ts)))) \<and>
    sr_subscribed (sub_loop s ts st) =
      sr_subscribed st @ concat (map (subscribed_by s) (concat (map st_events (live_turns ts)))) \<and>
    (sr_run (sub_loop s ts st) \<longleftrightarrow> list_all (\<lambda>t. \<not> st_stop t) ts)"
  using assms
proof (induction ts arbitrary: st)
  case (Cons t ts)
  let ?st = "sub_loop_turn s t st"
  have t: "sr_shown ?st = sr_shown st @ concat (map (shown_by s) (st_events t))"
    "sr_subscribed ?st = sr_subscribed st @ concat (map (subscribed_by s) (st_events t))"
    "sr_run ?st \<longleftrightarrow> \<not> st_stop t"
    using Cons.prems by (simp_all add: sub_loop_turn_def sub_events Let_def)
  have stop: "\<not> sr_run ?st \<Longrightarrow> sub_loop s ts ?st = ?st" by (cases ts) simp_all
  show ?case using Cons.IH[of ?st] Cons.prems t stop by (cases "st_stop t") simp_all
qed simp


text \<open>
  The subscribing client subscribes, at each successful connection, to every topic of its
  command line (of which there is one at least) with the quality of service asked for; it
  prints every message it gets, once and in order, except the retained ones when it is told
  to; and its loop goes on exactly until a signal.
\<close>

lemma sub_client_serves:
  assumes "sub_start L args = Some (Inr (i, s))"
  shows "\<exists>st. sub_main L args ts = Some (Inr st) \<and> (let es = concat (map st_events (live_turns ts)) in
    su_topics s \<noteq> [] \<and>
    sr_subscribed st = concat (replicate (count_list es (Sub_connack 0)) (map (\<lambda>t. (t, cl_qos s)) (su_topics s))) \<and>
    sr_shown st = concat (map (\<lambda>e. case e of Sub_connack _ \<Rightarrow> []
      | Sub_message msg \<Rightarrow> if mm_retain msg \<and> su_no_retain s then [] else sub_message_callback s msg []) es) \<and>
    (sr_run st \<longleftrightarrow> list_all (\<lambda>t. \<not> st_stop t) ts))"
proof -
  have c: "concat (map (subscribed_by s) es) =
      concat (replicate (count_list es (Sub_connack 0)) (map (\<lambda>t. (t, cl_qos s)) (su_topics s)))" for es
    by (induction es) (auto simp: subscribed_by_def)
  have m: "shown_by s = (\<lambda>e. case e of Sub_connack _ \<Rightarrow> []
      | Sub_message msg \<Rightarrow> if mm_retain msg \<and> su_no_retain s then [] else sub_message_callback s msg [])"
    by (auto simp: shown_by_def sub_message_callback_def fun_eq_iff split: sub_event.split)
  show ?thesis
    using sub_loop_effect[of sub_run_start s ts] sub_start_cases(2)[OF assms] assms
    by (simp add: sub_main_def Let_def sub_run_start_def c m)
qed

definition sample_sub_library :: mqtt_library where
  "sample_sub_library = \<lparr>lm_id_max = 23, lm_pid = 7, lm_hostname = ''host'', lm_new = True, lm_will_set = 0,
     lm_pw_set = 0, lm_connect = 0\<rparr>"

definition sample_sub :: sub_client where
  "sample_sub = sub_initial\<lparr>su_topics := [''a'', ''b''], su_no_retain := True\<rparr>"

definition sample_turns :: "sub_turn list" where
  "sample_turns =
     [\<lparr>st_events = [Sub_connack 0], st_stop = False, st_rc = 0\<rparr>,
      \<lparr>st_events = [Sub_message \<lparr>mm_topic = ''a'', mm_payload = ''old'', mm_payloadlen = 3, mm_retain = True\<rparr>,
                    Sub_message \<lparr>mm_topic = ''a'', mm_payload = ''new'', mm_payloadlen = 3, mm_retain = False\<rparr>],
       st_stop = True, st_rc = 0\<rparr>]"

lemma sample_sub_start:
  "sub_start sample_sub_library [''-t'', ''a'', ''-R'', ''-t'', ''b''] = Some (Inr (''mosqsub/7-host'', sample_sub))"
proof -
  have h: "sub_option 23 ''-t'' = Valued (\<lambda>v s. Some (Inr (s\<lparr>su_topics := su_topics s @ [v]\<rparr>)))"
    "sub_option 23 ''-R'' = Flag (\<lambda>s. Some (Inr (s\<lparr>su_no_retain := True\<rparr>)))"
    by (simp_all add: sub_option_def)
  have d: "decimal 7 = ''7''" by code_simp
  have "client_id sample_sub_library ''mosqsub/'' sample_sub = ''mosqsub/7-host''"
    by (simp add: client_id_def sample_sub_library_def sample_sub_def sub_initial_def sprintf_d_def d)
  then show ?thesis
    by (simp add: sub_start_def h sample_sub_library_def sample_sub_def sub_initial_def will_consistent_def client_setup_def)
qed

lemma sub_client_serves_witness:
  "sub_start sample_sub_library [''-t'', ''a'', ''-R'', ''-t'', ''b''] = Some (Inr (''mosqsub/7-host'', sample_sub)) \<and>
   map_option (map_sum id sr_subscribed) (sub_main sample_sub_library [''-t'', ''a'', ''-R'', ''-t'', ''b''] sample_turns) =
     Some (Inr [(''a'', 2), (''b'', 2)]) \<and>
   map_option (map_sum id sr_shown) (sub_main sample_sub_library [''-t'', ''a'', ''-R'', ''-t'', ''b''] sample_turns) =
     Some (Inr [Bytes ''new''])"
  using sub_client_serves[OF sample_sub_start, of sample_turns] sample_sub_start
  by (auto simp: Let_def sample_turns_def sample_sub_def sub_initial_def sub_message_callback_def)

end
