(* ===== verification/Thread_Client.thy ===== *)
theory Thread_Client
  imports Sub_Client
begin

text \<open>
  The client \<open>tool/sub_example/sub_example_thread.c\<close>: it takes the options of \<open>sub_example.c\<close>,
  leaves the subscriptions to a thread of the library, and publishes what it reads from its
  input. Its source is a copy of the other one with changes; the definitions follow the copy,
  and are then shown to agree with those of \<open>Sub_Client\<close> wherever the program is meant to.
\<close>

section \<open>The settings\<close>

record thread_client = sub_client +
  th_mid_sent :: int

definition thread_initial :: thread_client where
  "thread_initial =
     \<lparr>cl_id = [], cl_id_prefix = [], cl_host = ''127.0.0.1'', cl_port = 1883, cl_keepalive = 3600,
      cl_will_topic = None, cl_will_payload = None, cl_will_qos = 0, cl_will_retain = False,
      cl_debug = False, cl_username = None, cl_password = None, cl_qos = 2, cl_quiet = False,
      su_topics = [], su_clean_session = True, su_verbose = False, su_no_retain = False,
      th_mid_sent = 0\<rparr>"

section \<open>The command line\<close>

text \<open>The tests on an argument, in their order, up to the keep-alive time.\<close>

definition thread_connection_option :: "nat \<Rightarrow> string \<Rightarrow> thread_client handler" where
  "thread_connection_option id_max a =
     (if a = ''-p'' \<or> a = ''--port'' then
        Valued (\<lambda>v s. let port = atoi v in
          Some (if port < 1 \<or> port > 65535 then Inl 1 else Inr (s\<lparr>cl_port := port\<rparr>)))
      else if a = ''-c'' \<or> a = ''--disable-clean-session'' then
        Flag (\<lambda>s. Some (Inr (s\<lparr>su_clean_session := False\<rparr>)))
      else if a = ''-d'' \<or> a = ''--debug'' then Flag (\<lambda>s. Some (Inr (s\<lparr>cl_debug := True\<rparr>)))
      else if a = ''--help'' then Flag (\<lambda>s. Some (Inl 0))
      else if a = ''-h'' \<or> a = ''--host'' then
        Valued (\<lambda>v s. Some (Inr (if length v \<ge> MQTT_IP_LEN then s else s\<lparr>cl_host := v\<rparr>)))
      else if a = ''-i'' \<or> a = ''--id'' then
        Valued (\<lambda>v s. Some (if length (cl_id_prefix s) \<noteq> 0 then Inl 1
          else Inr (if length v \<ge> id_max then s else s\<lparr>cl_id := v\<rparr>)))
      else if a = ''-I'' \<or> a = ''--id-prefix'' then
        Valued (\<lambda>v s. Some (if length (cl_id s) \<noteq> 0 then Inl 1
          else Inr (if length v \<ge> id_max then s else s\<lparr>cl_id_prefix := v\<rparr>)))
      else if a = ''-k'' \<or> a = ''--keepalive'' then
        Valued (\<lambda>v s. let keepalive = atoi v in
          Some (if keepalive > 65535 then Inl 1 else Inr (s\<lparr>cl_keepalive := keepalive\<rparr>)))
      else Unknown)"

text \<open>The tests after it.\<close>

definition thread_session_option :: "string \<Rightarrow> thread_client handler" where
  "thread_session_option a =
     (if a = ''-q'' \<or> a = ''--qos'' then
        Valued (\<lambda>v s. let qos = atoi v in
          Some (if qos < 0 \<or> qos > 2 then Inl 1 else Inr (s\<lparr>cl_qos := qos\<rparr>)))
      else if a = ''--quiet'' then Flag (\<lambda>s. Some (Inr (s\<lparr>cl_quiet := True\<rparr>)))
      else if a = ''-R'' then Flag (\<lambda>s. Some (Inr (s\<lparr>su_no_retain := True\<rparr>)))
      else if a = ''-t'' \<or> a = ''--topic'' then
        Valued (\<lambda>v s. Some (Inr (s\<lparr>su_topics := su_topics s @ [v]\<rparr>)))
      else if a = ''-u'' \<or> a = ''--username'' then Valued (\<lambda>v s. Some (Inr (s\<lparr>cl_username := Some v\<rparr>)))
      else if a = ''-v'' \<or> a = ''--verbose'' then Flag (\<lambda>s. Some (Inr (s\<lparr>su_verbose := True\<rparr>)))
      else if a = ''-P'' \<or> a = ''--pw'' then Valued (\<lambda>v s. Some (Inr (s\<lparr>cl_password := Some v\<rparr>)))
      else if a = ''--will-payload'' then Valued (\<lambda>v s. Some (Inr (s\<lparr>cl_will_payload := Some v\<rparr>)))
      else if a = ''--will-qos'' then
        Valued (\<lambda>v s. let qos = atoi v in
          Some (if qos < 0 \<or> qos > 2 then Inl 1 else Inr (s\<lparr>cl_will_qos := qos\<rparr>)))
      else if a = ''--will-retain'' then Flag (\<lambda>s. Some (Inr (s\<lparr>cl_will_retain := True\<rparr>)))
      else if a = ''--will-topic'' then Valued (\<lambda>v s. Some (Inr (s\<lparr>cl_will_topic := Some v\<rparr>)))
      else Unknown)"

definition thread_option :: "nat \<Rightarrow> string \<Rightarrow> thread_client handler" where
  "thread_option id_max a =
     (case thread_connection_option id_max a of
        Unknown \<Rightarrow> thread_session_option a
      | h \<Rightarrow> h)"

section \<open>The start\<close>

text \<open>The checks after the loop; \<open>Inl\<close> is an exit code.\<close>

definition thread_checks :: "thread_client \<Rightarrow> int + thread_client" where
  "thread_checks s =
     (if su_clean_session s = False \<and> (length (cl_id_prefix s) \<noteq> 0 \<or> length (cl_id s) = 0) then Inl 1
      else if length (su_topics s) = 0 then Inl 1
      else if cl_will_payload s \<noteq> None \<and> cl_will_topic s = None then Inl 1
      else if cl_will_retain s \<and> cl_will_topic s = None then Inl 1
      else Inr s)"

text \<open>The client identifier, printed into a buffer of \<open>id_max + 32\<close> bytes and cut.\<close>

definition thread_id :: "mqtt_library \<Rightarrow> thread_client \<Rightarrow> string" where
  "thread_id L s =
     (let print = take (lm_id_max L + 31);
          i = (if length (cl_id_prefix s) \<noteq> 0 then print (cl_id_prefix s @ sprintf_d (lm_pid L))
               else if length (cl_id s) = 0
               then print (''mosqsub/'' @ sprintf_d (lm_pid L) @ ''-'' @ take 255 (lm_hostname L))
               else cl_id s)
      in if length i > lm_id_max L then take (lm_id_max L) i else i)"

text \<open>Making the client, setting it up and connecting: an exit code, or the identifier.\<close>

definition thread_connect :: "mqtt_library \<Rightarrow> thread_client \<Rightarrow> int + string" where
  "thread_connect L s =
     (if \<not> lm_new L then Inl 1
      else if cl_will_topic s \<noteq> None \<and> lm_will_set L \<noteq> 0 then Inl 1
      else if cl_username s \<noteq> None \<and> lm_pw_set L \<noteq> 0 then Inl 1
      else if lm_connect L \<noteq> 0 then Inl (lm_connect L)
      else Inr (thread_id L s))"

definition thread_start :: "mqtt_library \<Rightarrow> string list \<Rightarrow> (int + string \<times> thread_client) option" where
  "thread_start L args =
     map_option (\<lambda>r.
       case r of
         Inl code \<Rightarrow> Inl code
       | Inr s \<Rightarrow>
           (case thread_checks s of
              Inl code \<Rightarrow> Inl code
            | Inr s1 \<Rightarrow> map_sum id (\<lambda>i. (i, s1)) (thread_connect L s1)))
       (parse_args (thread_option (lm_id_max L)) args thread_initial)"

section \<open>The callbacks\<close>

text \<open>
  What is printed of a message and how many seconds the callback sleeps, with the library's
  thread in it; a retained message that is not wanted returns at once.
\<close>

definition thread_message_callback :: "thread_client \<Rightarrow> mqtt_message \<Rightarrow> shown list \<Rightarrow> shown list \<times> nat" where
  "thread_message_callback s msg out =
     (if mm_retain msg \<and> su_no_retain s then (out, 0)
      else
        ((if su_verbose s then
            (if mm_payloadlen msg \<noteq> 0 then out @ [Titled (mm_topic msg) (Some (cstr (mm_payload msg @ [NUL])))]
             else out @ [Titled (mm_topic msg) None])
          else (if mm_payloadlen msg \<noteq> 0 then out @ [Bytes (take (mm_payloadlen msg) (mm_payload msg))] else out)), 10))"

definition thread_connect_callback :: "thread_client \<Rightarrow> int \<Rightarrow> (string \<times> int) list \<Rightarrow> (string \<times> int) list" where
  "thread_connect_callback s result subscribed =
     (if result = 0 then subscribed @ map (\<lambda>t. (t, cl_qos s)) (su_topics s) else subscribed)"

section \<open>The loop and the program\<close>

text \<open>
  The loop of \<open>sub_example_thread.c\<close>: each line of the input is published under a fixed topic, with
  the answers of the library to come, until one fails. \<open>None\<close> is a loop that does not end;
  \<open>Some None\<close> the write before the buffer for a line that starts with a zero byte.
\<close>

partial_function (option) sub_thread_loop ::
    "(nat \<Rightarrow> int) \<Rightarrow> string \<Rightarrow> string list \<Rightarrow> int \<Rightarrow> (string list \<times> int) option option" where
  "sub_thread_loop answer inp sent rc =
     (case fgets MQTT_BUFSIZE inp of
        Some (buf, rest) \<Rightarrow>
          if cstr buf = [] then Some None
          else let rc1 = answer (length sent); sent1 = sent @ [butlast (cstr buf)]
               in if rc1 = 0 then sub_thread_loop answer rest sent1 rc1 else Some (Some (sent1, rc1))
      | None \<Rightarrow> if rc = 0 then sub_thread_loop answer inp sent rc else Some (Some (sent, rc)))"

text \<open>The exit code and what was published.\<close>

definition sub_thread_main ::
    "mqtt_library \<Rightarrow> (nat \<Rightarrow> int) \<Rightarrow> string list \<Rightarrow> string \<Rightarrow> (int \<times> string list) option option" where
  "sub_thread_main L answer args inp =
     Option.bind (thread_start L args) (\<lambda>r.
       case r of
         Inl code \<Rightarrow> Some (Some (code, []))
       | Inr (i, s) \<Rightarrow> map_option (map_option (\<lambda>(sent, rc). (0, sent))) (sub_thread_loop answer inp [] 0))"

section \<open>The copy agrees\<close>

lemma thread_option_same: "thread_option id_max a = (sub_option id_max a :: thread_client handler)"
  by (simp add: thread_option_def thread_connection_option_def thread_session_option_def sub_option_def
      common_option_def)

text \<open>The state of the other client with an identifier of a message in it.\<close>

definition with_mid :: "int \<Rightarrow> sub_client \<Rightarrow> thread_client" where
  "with_mid mid s = sub_client.extend s \<lparr>th_mid_sent = mid\<rparr>"

definition handler_lifts :: "int \<Rightarrow> thread_client handler \<Rightarrow> sub_client handler \<Rightarrow> bool" where
  "handler_lifts mid h h' \<longleftrightarrow>
     (case (h, h') of
        (Flag f, Flag g) \<Rightarrow> \<forall>s. f (with_mid mid s) = map_option (map_sum id (with_mid mid)) (g s)
      | (Valued f, Valued g) \<Rightarrow> \<forall>v s. f v (with_mid mid s) = map_option (map_sum id (with_mid mid)) (g v s)
      | (Unknown, Unknown) \<Rightarrow> True
      | _ \<Rightarrow> False)"

lemma handler_lifts_if:
  "handler_lifts mid h1 g1 \<Longrightarrow> handler_lifts mid h2 g2 \<Longrightarrow>
     handler_lifts mid (if b then h1 else h2) (if b then g1 else g2)"
  by simp

lemma sub_option_lifts: "handler_lifts mid (sub_option id_max a) (sub_option id_max a)"
  unfolding sub_option_def common_option_def
  by (intro handler_lifts_if)
    (simp_all add: handler_lifts_def with_mid_def sub_client.extend_def Let_def)

lemma parse_args_lifts:
  assumes "\<And>a. handler_lifts mid (table a) (table' a)"
  shows "parse_args table args (with_mid mid s) = map_option (map_sum id (with_mid mid)) (parse_args table' args s)"
  using assms
proof (induction table' args s rule: parse_args.induct)
  case (2 table' a args s)
  have l: "handler_lifts mid (table a) (table' a)" by (rule "2.prems")
  show ?case
  proof (cases "table' a")
    case (Flag g)
    then obtain f where f: "table a = Flag f" "\<And>s. f (with_mid mid s) = map_option (map_sum id (with_mid mid)) (g s)"
      using l by (cases "table a") (auto simp: handler_lifts_def)
    show ?thesis using "2.IH"(1)[OF Flag] "2.prems" Flag f by (simp split: option.split sum.split)
  next
    case (Valued g)
    then obtain f where f: "table a = Valued f"
      "\<And>v s. f v (with_mid mid s) = map_option (map_sum id (with_mid mid)) (g v s)"
      using l by (cases "table a") (auto simp: handler_lifts_def)
    show ?thesis using "2.IH"(2)[OF Valued] "2.prems" Valued f by (simp split: option.split sum.split list.split)
  next
    case Unknown
    then have "table a = Unknown" using l by (cases "table a") (auto simp: handler_lifts_def)
    then show ?thesis using Unknown by simp
  qed
qed simp

lemma with_mid_members [simp]:
  "cl_id (with_mid mid s) = cl_id s" "cl_id_prefix (with_mid mid s) = cl_id_prefix s"
  "cl_will_topic (with_mid mid s) = cl_will_topic s" "cl_will_payload (with_mid mid s) = cl_will_payload s"
  "cl_will_retain (with_mid mid s) = cl_will_retain s" "cl_username (with_mid mid s) = cl_username s"
  "cl_qos (with_mid mid s) = cl_qos s"
  "su_topics (with_mid mid s) = su_topics s" "su_clean_session (with_mid mid s) = su_clean_session s"
  "su_verbose (with_mid mid s) = su_verbose s" "su_no_retain (with_mid mid s) = su_no_retain s"
  by (simp_all add: with_mid_def sub_client.extend_def)

lemma thread_id_same: "thread_id L (with_mid mid s) = client_id L ''mosqsub/'' s"
  by (simp only: thread_id_def client_id_def with_mid_members)

lemma thread_connect_same: "thread_connect L (with_mid mid s) = client_setup L ''mosqsub/'' s"
  by (simp add: thread_connect_def client_setup_def thread_id_same)

lemma thread_callbacks_same:
  "fst (thread_message_callback (with_mid mid s) msg out) = sub_message_callback s msg out"
  "thread_connect_callback (with_mid mid s) result subscribed = sub_connect_callback s result subscribed"
  by (simp_all add: thread_message_callback_def sub_message_callback_def thread_connect_callback_def
      sub_connect_callback_def)

text \<open>Both clients start alike: with the same exit codes, or the same settings and identifier.\<close>

lemma thread_start_same:
  "thread_start L args = map_option (map_sum id (map_prod id (with_mid 0))) (sub_start L args)"
proof -
  have i: "thread_initial = with_mid 0 sub_initial"
    by (simp add: thread_initial_def with_mid_def sub_initial_def sub_client.extend_def)
  have o: "thread_option = sub_option" by (intro ext thread_option_same)
  have p: "parse_args (thread_option (lm_id_max L)) args thread_initial =
      map_option (map_sum id (with_mid 0)) (parse_args (sub_option (lm_id_max L)) args sub_initial)"
    unfolding i o by (rule parse_args_lifts) (rule sub_option_lifts)
  have c: "(case thread_checks (with_mid 0 s) of Inl code \<Rightarrow> Inl code
            | Inr s1 \<Rightarrow> map_sum id (\<lambda>i. (i, s1)) (thread_connect L s1)) =
      map_sum id (map_prod id (with_mid 0))
       (if su_clean_session s = False \<and> (length (cl_id_prefix s) \<noteq> 0 \<or> length (cl_id s) = 0) then Inl 1
        else if length (su_topics s) = 0 then Inl 1
        else if \<not> will_consistent s then Inl 1
        else map_sum id (\<lambda>i. (i, s)) (client_setup L ''mosqsub/'' s))" for s
    by (cases "cl_will_topic s"; cases "client_setup L ''mosqsub/'' s")
      (simp_all add: thread_checks_def thread_connect_same will_consistent_def)
  show ?thesis
    unfolding thread_start_def sub_start_def p option.map_comp
    by (rule arg_cong[where f = "\<lambda>f. map_option f _"]) (auto simp: fun_eq_iff c split: sum.split)
qed

section \<open>When it ends\<close>

text \<open>
  The loop of the threaded client at the end of its input, while nothing failed.
\<close>

lemma thread_loop_at_end: "sub_thread_loop answer [] sent 0 = None"
proof -
  have "inp \<noteq> [] \<or> rc \<noteq> 0" if "sub_thread_loop answer inp sent rc = Some y" for inp sent rc y
  proof (rule sub_thread_loop.raw_induct[OF _ that, where P = "\<lambda>answer inp sent rc y. inp \<noteq> [] \<or> rc \<noteq> 0"])
  qed (auto simp: fgets_def split: if_splits)
  then show ?thesis by (cases "sub_thread_loop answer [] sent 0") auto
qed

lemma thread_loop_result:
  assumes "list_all line_fits ls"
  shows "sub_thread_loop answer (text_of ls) [] 0 =
    (case find (\<lambda>k. answer k \<noteq> 0) [0..<length ls] of
       None \<Rightarrow> None | Some k \<Rightarrow> Some (Some (take (Suc k) ls, answer k)))"
proof -
  have "sub_thread_loop answer (text_of rest) front 0 =
      (case find (\<lambda>k. answer k \<noteq> 0) [length front..<length front + length rest] of
         None \<Rightarrow> None | Some k \<Rightarrow> Some (Some (take (Suc k) (front @ rest), answer k)))"
    if "list_all line_fits rest" for front rest
    using that
  proof (induction rest arbitrary: front)
    case Nil
    then show ?case by (simp add: text_of_def thread_loop_at_end)
  next
    case (Cons l rest)
    have l: "line_fits l" "list_all line_fits rest" using Cons.prems by auto
    have g: "fgets 1024 (text_of (l # rest)) = Some (l @ [CHR 0x0A], text_of rest)"
      using fgets_line[OF l(1), of "text_of rest"] by (simp add: text_of_def)
    have step: "sub_thread_loop answer (text_of (l # rest)) front 0 =
        (if answer (length front) = 0 then sub_thread_loop answer (text_of rest) (front @ [l]) 0
         else Some (Some (front @ [l], answer (length front))))"
      by (subst sub_thread_loop.simps) (simp add: g cstr_line[OF l(1)] Let_def)
    have u: "[length front..<length front + length (l # rest)] =
        length front # [length (front @ [l])..<length (front @ [l]) + length rest]"
      by (simp add: upt_conv_Cons del: upt_Suc)
    note ih = Cons.IH[OF l(2), of "front @ [l]", unfolded append.assoc append_Cons append_Nil]
    show ?case unfolding step u using ih by (simp del: upt_Suc)
  qed
  from this[OF assms, of "[]"] show ?thesis unfolding append_Nil by simp
qed

text \<open>
  C39. The threaded client ends only when a publication fails: over lines that fit its buffer it
  publishes one after the other, up to the first failure, and exits with 0; when none
  fails, its loop never ends: not at the end of its input, and a signal does not end it either,
  for the loop does not read the flag the signal sets.
\<close>

theorem sub_thread_ends_only_on_failure:
  assumes "sub_start L args = Some (Inr (i, s))" "list_all line_fits ls"
  shows "sub_thread_main L answer args (text_of ls) =
    (case find (\<lambda>k. answer k \<noteq> 0) [0..<length ls] of
       None \<Rightarrow> None | Some k \<Rightarrow> Some (Some (0, take (Suc k) ls)))"
  using assms(1) by (simp add: sub_thread_main_def thread_start_same thread_loop_result[OF assms(2)] split: option.split)

theorem sub_thread_ends_only_on_failure_witness:
  "sub_thread_main sample_sub_library (\<lambda>_. 0) [''-t'', ''a'', ''-R'', ''-t'', ''b''] (text_of [''a'', ''b'']) = None \<and>
   sub_thread_main sample_sub_library (\<lambda>k. if k = 1 then 4 else 0) [''-t'', ''a'', ''-R'', ''-t'', ''b'']
     (text_of [''a'', ''b'', ''c'']) = Some (Some (0, [''a'', ''b'']))"
  using sub_thread_ends_only_on_failure[OF sample_sub_start, of "[''a'', ''b'']" "\<lambda>_. 0"]
    sub_thread_ends_only_on_failure[OF sample_sub_start, of "[''a'', ''b'', ''c'']" "\<lambda>k. if k = 1 then 4 else 0"]
  by (simp add: line_fits_def numeral_3_eq_3 numeral_2_eq_2)

end
