(* ===== verification/Client_Output.thy ===== *)
theory Client_Output
  imports Thread_Client Pub_Client
begin

text \<open>
  What the example clients print besides messages: their usage texts, as lists of lines without
  the newlines, and the lines of the callbacks that only print. The options the texts name are
  those the clients take; two of the defaults they state are not the clients'.
\<close>

section \<open>Usage\<close>

text \<open>The version of the client library is asked of it.\<close>

definition sub_print_usage :: "int \<Rightarrow> int \<Rightarrow> int \<Rightarrow> string list" where
  "sub_print_usage major minor revision =
     [''mosquitto_sub is a simple mqtt client that will subscribe to a single topic and print all messages it receives.'',
      ''mosquitto_sub version 1.0.0'' @ '' running on libmosquitto '' @ sprintf_d major @ ''.'' @ sprintf_d minor @ ''.'' @ sprintf_d revision @ ''.'',
      [],
      ''Usage: mosquitto_sub [-c] [-h host] [-k keepalive] [-p port] [-q qos] [-R] [-v] -t topic ...'',
      ''                     [-i id] [-I id_prefix]'',
      ''                     [-d] [--quiet]'',
      ''                     [-u username [-P password]]'',
      ''                     [--will-topic [--will-payload payload] [--will-qos qos] [--will-retain]]'',
      ''       mosquitto_sub --help'',
      [],
      '' -c : disable '' @ [CHR 0x27] @ ''clean session'' @ [CHR 0x27] @ '' (store subscription and pending messages when client disconnects).'',
      '' -d : enable debug messages.'',
      '' -h : mqtt host to connect to. Defaults to localhost.'',
      '' -i : id to use for this client. Defaults to mosquitto_sub_ appended with the process id.'',
      '' -I : define the client id as id_prefix appended with the process id. Useful for when the'',
      ''      broker is using the clientid_prefixes option.'',
      '' -k : keep alive in seconds for this client. Defaults to 60.'',
      '' -p : network port to connect to. Defaults to 1883.'',
      '' -q : quality of service level to use for the subscription. Defaults to 0.'',
      '' -R : do not print stale messages (those with retain set).'',
      '' -t : mqtt topic to subscribe to. May be repeated multiple times.'',
      '' -u : provide a username (requires MQTT 3.1 broker)'',
      '' -v : print published messages verbosely.'',
      '' -P : provide a password (requires MQTT 3.1 broker)'',
      '' --help : display this message.'',
      '' --quiet : don'' @ [CHR 0x27] @ ''t print error messages.'',
      '' --will-payload : payload for the client Will, which is sent by the broker in case of'',
      ''                  unexpected disconnection. If not given and will-topic is set, a zero'',
      ''                  length message will be sent.'',
      '' --will-qos : QoS level for the client Will.'',
      '' --will-retain : if given, make the client Will retained.'',
      '' --will-topic : the topic on which to publish the client Will.'',
      [],
      ''See http://mosquitto.org/ for more information.'',
      []]"

text \<open>The text of \<open>sub_example_thread.c\<close> is the same, word for word.\<close>

definition thread_print_usage :: "int \<Rightarrow> int \<Rightarrow> int \<Rightarrow> string list" where
  "thread_print_usage = sub_print_usage"

definition pub_print_usage :: "int \<Rightarrow> int \<Rightarrow> int \<Rightarrow> string list" where
  "pub_print_usage major minor revision =
     [''mosquitto_pub is a simple mqtt client that will publish a message on a single topic and exit.'',
      ''mosquitto_pub version 1.0.0'' @ '' running on libmosquitto '' @ sprintf_d major @ ''.'' @ sprintf_d minor @ ''.'' @ sprintf_d revision @ ''.'',
      [],
      ''Usage: mosquitto_pub [-h host] [-p port] [-q qos] [-r] {-f file | -l | -n | -m message} -t topic'',
      ''                     [-i id] [-I id_prefix]'',
      ''                     [-d] [--quiet]'',
      ''                     [-M max_inflight]'',
      ''                     [-u username [-P password]]'',
      ''                     [--will-topic [--will-payload payload] [--will-qos qos] [--will-retain]]'',
      ''       mosquitto_pub --help'',
      [],
      '' -d : enable debug messages.'',
      '' -f : send the contents of a file as the message.'',
      '' -h : mqtt host to connect to. Defaults to localhost.'',
      '' -i : id to use for this client. Defaults to mosquitto_pub_ appended with the process id.'',
      '' -I : define the client id as id_prefix appended with the process id. Useful for when the'',
      ''      broker is using the clientid_prefixes option.'',
      '' -l : read messages from stdin, sending a separate message for each line.'',
      '' -m : message payload to send.'',
      '' -M : the maximum inflight messages for QoS 1/2..'',
      '' -n : send a null (zero length) message.'',
      '' -p : network port to connect to. Defaults to 1883.'',
      '' -q : quality of service level to use for all messages. Defaults to 0.'',
      '' -r : message should be retained.'',
      '' -s : read message from stdin, sending the entire input as a message.'',
      '' -t : mqtt topic to publish to.'',
      '' -u : provide a username (requires MQTT 3.1 broker)'',
      '' -P : provide a password (requires MQTT 3.1 broker)'',
      '' --help : display this message.'',
      '' --quiet : don'' @ [CHR 0x27] @ ''t print error messages.'',
      '' --will-payload : payload for the client Will, which is sent by the broker in case of'',
      ''                  unexpected disconnection. If not given and will-topic is set, a zero'',
      ''                  length message will be sent.'',
      '' --will-qos : QoS level for the client Will.'',
      '' --will-retain : if given, make the client Will retained.'',
      '' --will-topic : the topic on which to publish the client Will.'',
      [],
      ''See http://mosquitto.org/ for more information.'',
      []]"

section \<open>Callbacks\<close>

text \<open>
  The subscribe callback reads the first quality of service that was granted, also when it is
  told to be quiet and prints nothing: \<open>None\<close> where there is none to print.
\<close>

definition mqtt_subscribe_callback :: "bool \<Rightarrow> int \<Rightarrow> int list \<Rightarrow> string list option" where
  "mqtt_subscribe_callback quiet mid granted_qos =
     (if quiet then Some []
      else case granted_qos of
        [] \<Rightarrow> None
      | q # qs \<Rightarrow>
          Some [''Subscribed (mid: '' @ sprintf_d mid @ ''): '' @ sprintf_d q @
                concat (map (\<lambda>q. '', '' @ sprintf_d q) qs)])"

definition mqtt_log_callback :: "string \<Rightarrow> string" where
  "mqtt_log_callback str = ''MQTT: log_callback: '' @ str"

text \<open>Those of \<open>sub_example_simple.c\<close>.\<close>

definition simple_connect_callback :: "int \<Rightarrow> string" where
  "simple_connect_callback result =
     (if result = 0 then ''MQTT: connect_callback: success.'' else ''MQTT: connect_callback: failed.'')"

definition simple_subscribe_callback :: "int \<Rightarrow> string" where
  "simple_subscribe_callback mid = ''MQTT: subscribe_callback: subscribed mid('' @ sprintf_d mid @ '')''"

definition simple_message_callback :: "int \<Rightarrow> mqtt_message \<Rightarrow> string" where
  "simple_message_callback mid message =
     ''MQTT: message_callback: Get a message, mid('' @ sprintf_d mid @ ''), topic('' @ mm_topic message @
     ''), message('' @ take (mm_payloadlen message) (mm_payload message) @ '')''"

section \<open>The options named\<close>

text \<open>The first word of each line that starts with a space and a dash.\<close>

definition option_names :: "string list \<Rightarrow> string list" where
  "option_names usage =
     map (\<lambda>l. takeWhile (\<lambda>c. c \<noteq> CHR '' '') (tl l)) (filter (\<lambda>l. take 2 l = '' -'') usage)"

lemma sub_usage_names:
  "option_names (sub_print_usage major minor revision) =
     [''-c'', ''-d'', ''-h'', ''-i'', ''-I'', ''-k'', ''-p'', ''-q'', ''-R'', ''-t'', ''-u'', ''-v'', ''-P'', ''--help'',
      ''--quiet'', ''--will-payload'', ''--will-qos'', ''--will-retain'', ''--will-topic'']"
  by (simp add: option_names_def sub_print_usage_def)

lemma pub_usage_names:
  "option_names (pub_print_usage major minor revision) =
     [''-d'', ''-f'', ''-h'', ''-i'', ''-I'', ''-l'', ''-m'', ''-M'', ''-n'', ''-p'', ''-q'', ''-r'', ''-s'', ''-t'', ''-u'',
      ''-P'', ''--help'', ''--quiet'', ''--will-payload'', ''--will-qos'', ''--will-retain'', ''--will-topic'']"
  by (simp add: option_names_def pub_print_usage_def)

text \<open>Every option that is named is taken.\<close>

lemma sub_usage_taken:
  "a \<in> set (option_names (sub_print_usage major minor revision)) \<Longrightarrow> sub_option id_max a \<noteq> Unknown"
  by (auto simp: sub_usage_names sub_option_def common_option_def)

lemma pub_usage_taken:
  "a \<in> set (option_names (pub_print_usage major minor revision)) \<Longrightarrow> pub_option id_max fopen a \<noteq> Unknown"
  by (auto simp: pub_usage_names pub_option_def common_option_def)

text \<open>The defaults of the keep-alive time and of the quality of service are not those stated.\<close>

lemma sub_usage_defaults:
  "'' -k : keep alive in seconds for this client. Defaults to 60.'' \<in> set (sub_print_usage major minor revision)"
  "cl_keepalive sub_initial = 3600"
  "'' -q : quality of service level to use for the subscription. Defaults to 0.'' \<in>
     set (sub_print_usage major minor revision)"
  "cl_qos sub_initial = 2"
  by (simp_all add: sub_print_usage_def sub_initial_def)

lemma pub_usage_defaults:
  "'' -q : quality of service level to use for all messages. Defaults to 0.'' \<in>
     set (pub_print_usage major minor revision)"
  "cl_qos (pub_initial inp m) = 2"
  by (simp_all add: pub_print_usage_def pub_initial_def)

end
