(* ===== verification/State_Invariant.thy ===== *)
theory State_Invariant
  imports Exclusion
begin

text \<open>
  The shape of the controller's data, kept by everything the controller does. The sessions in
  flight stand on a step of their chain, and every step has a time to live for each of its
  models, so that no access to a chain is out of bounds.
\<close>

section \<open>The sessions\<close>

definition chain_ok :: "model_chain list \<Rightarrow> bool" where
  "chain_ok mcs \<longleftrightarrow> list_all (\<lambda>mc. length (mc_ttls mc) = length (mc_models mc)) mcs"

definition session_ok :: "'p session \<Rightarrow> bool" where
  "session_ok s \<longleftrightarrow> in_chain s \<and> chain_ok (s_model_chain s)"

definition sessions_ok :: "('h, 'p) world \<Rightarrow> bool" where
  "sessions_ok w = (case w_sessions w of None \<Rightarrow> True | Some ss \<Rightarrow> list_all session_ok ss)"

lemma set_update_key:
  assumes "distinct (map key xs)" "key y = i"
  shows "set (update_first (\<lambda>x. key x = i) (\<lambda>_. y) xs) \<subseteq> insert y {x \<in> set xs. key x \<noteq> i}"
  using assms by (induction xs) (auto simp: image_iff)

lemma delete_updated: "P y \<Longrightarrow> delete_first P (update_first P (\<lambda>_. y) xs) = delete_first P xs"
  by (induction xs) auto

lemma stop_sessions:
  assumes "dumps_all J"
  shows "w_sessions (snd (session_step_stop J s root w)) =
    map_option (delete_first (\<lambda>x. s_id x = s_id s)) (w_sessions w)"
proof -
  obtain w' where w': "session_step_stop J s root w = (0, w')"
    using session_step_stop_ok[OF assms] by (metis prod.collapse)
  then show ?thesis using session_step_stop_locks[OF w'] by simp
qed

lemma stop_sessions_ok:
  "dumps_all J \<Longrightarrow> sessions_ok w \<Longrightarrow> sessions_ok (snd (session_step_stop J s root w))"
  by (auto simp: sessions_ok_def stop_sessions list_all_delete_first split: option.splits)

text \<open>A step puts its session on the step or removes it; the others stay.\<close>

lemma step_places_session:
  assumes J: "dumps_all J" and st: "session_step J (Some s) (Some r) w = Some (ret, w')"
    and reg: "w_resources w \<noteq> None" "w_components w \<noteq> None" and c: "chain_ok (s_model_chain s)"
    and ss: "w_sessions w = Some ss" "distinct (map s_id ss)"
    and others: "\<forall>x \<in> set ss. s_id x \<noteq> s_id s \<longrightarrow> session_ok x"
  shows "sessions_ok w'"
proof (cases "s_curr_step s < length (s_model_chain s)")
  case True
  have "w_sessions w' = w_sessions (session_store (entered s) w)"
    using st True by (auto simp: session_step_next[OF reg True] Let_def frame_simps split: option.splits)
  then have w': "w_sessions w' = Some (update_first (\<lambda>x. s_id x = s_id s) (\<lambda>_. entered s) ss)"
    using ss(1) by (simp add: session_store_def entered_def)
  have "session_ok (entered s)" using True c by (simp add: session_ok_def in_chain_def entered_def)
  then show ?thesis
    using set_update_key[of s_id ss "entered s" "s_id s"] ss(2) others
    by (auto simp: sessions_ok_def w' list_all_iff entered_def)
next
  case False
  let ?s1 = "s\<lparr>s_curr_step := Suc (s_curr_step s)\<rparr>"
  have "w' = snd (session_step_stop J ?s1 (Some r) (session_store ?s1 w))"
    using st False session_step_end[OF reg] by (simp add: Let_def)
  then have w': "w_sessions w' = Some (delete_first (\<lambda>x. s_id x = s_id s) ss)"
    using ss(1) by (simp add: stop_sessions[OF J] session_store_def delete_updated)
  show ?thesis
    using others by (auto simp: sessions_ok_def w' list_all_iff delete_first_filter[OF ss(2)])
qed

lemma ids_distinct_exclusive: "models_exclusive w \<Longrightarrow> ids_distinct w"
  by (auto simp: models_exclusive_def views_def exclusive_def lock_view_def comp_def ids_distinct_def
      split: option.splits)

lemma step_sessions_ok:
  assumes J: "dumps_all J" and ok: "sessions_ok w" "session_ok s" and d: "ids_distinct w"
    and st: "session_step J (Some s) root w = Some (ret, w')"
  shows "sessions_ok w'"
proof (cases "w_resources w = None \<or> w_components w = None \<or> root = None \<or> w_sessions w = None")
  case False
  then obtain r ss where "root = Some r" "w_sessions w = Some ss" by auto
  then show ?thesis
    using step_places_session[OF J, of s r w ret w' ss] False ok d st
    by (auto simp: session_ok_def sessions_ok_def ids_distinct_def list_all_iff)
next
  case True
  then consider "w' = w" | "w_sessions w = None" "\<exists>r. root = Some r" "w_resources w \<noteq> None" "w_components w \<noteq> None"
    using st by (cases "w_resources w"; cases "w_components w"; cases root)
      (auto simp: session_step_def)
  then show ?thesis
  proof cases
    case 1
    then show ?thesis using ok by simp
  next
    case 2
    then obtain r where r: "root = Some r" by blast
    have "w_sessions w' = None"
    proof (cases "s_curr_step s < length (s_model_chain s)")
      case True
      then show ?thesis
        using st r 2(1) session_step_next[OF 2(3,4) True]
        by (auto simp: Let_def frame_simps session_store_def split: option.splits)
    next
      case False
      let ?s1 = "s\<lparr>s_curr_step := Suc (s_curr_step s)\<rparr>"
      have "w' = snd (session_step_stop J ?s1 root (session_store ?s1 w))"
        using st r False session_step_end[OF 2(3,4)] by (simp add: Let_def)
      then show ?thesis using 2(1) by (simp add: stop_sessions[OF J] session_store_def)
    qed
    then show ?thesis by (simp add: sessions_ok_def)
  qed
qed

lemma store_sessions_ok:
  assumes "sessions_ok w" "session_ok s"
  shows "sessions_ok (session_store s w)"
  using assms by (auto simp: sessions_ok_def session_store_def list_all_update_first split: option.splits)

lemma step_update_sessions_ok:
  assumes J: "dumps_all J" and ok: "sessions_ok w" "session_ok s" and d: "ids_distinct w"
    and up: "session_step_update J s root code data w = Some w'"
  shows "sessions_ok w'"
proof -
  let ?s1 = "s\<lparr>s_curr_wait := s_curr_wait s - 1\<rparr>"
  have s1: "session_ok ?s1" using ok(2) by (simp add: session_ok_def in_chain_def)
  have dec: "sessions_ok v'"
    if "session_node_decref_wait J (Some s) root v = Some v'" "sessions_ok v" "ids_distinct v" for v v'
    using that step_sessions_ok[OF J store_sessions_ok[OF _ s1] s1 ids_distinct_store]
      store_sessions_ok[OF _ s1]
    by (auto simp: session_node_decref_wait_def Let_def split: if_splits)
  have j: "sessions_ok (w\<lparr>w_json := h\<rparr>)" for h using ok(1) by (simp add: sessions_ok_def)
  show ?thesis
    using up dec[OF _ j] stop_sessions_ok[OF J j] d
    by (auto simp: session_step_update_def Let_def split: prod.splits if_splits)
qed

lemma aged_session_ok: "session_ok s \<Longrightarrow> session_ok (aged p s)"
proof -
  assume s: "session_ok s"
  have "length (fst (ttl_loop p ts)) = length ts" for ts
    by (induction ts) (auto simp: Let_def split: prod.split)
  then show "session_ok (aged p s)"
    using s set_update_subset_insert
    by (fastforce simp: session_ok_def in_chain_def chain_ok_def aged_def Let_def list_all_iff)
qed

lemma decref_ttl_sessions_ok:
  assumes J: "dumps_all J" and ok: "sessions_ok w" and d: "ids_distinct w"
  shows "\<exists>w'. session_decref_ttl J p w = Some w' \<and> sessions_ok w'"
proof (cases "w_sessions w")
  case None
  then show ?thesis using ok by (simp add: session_decref_ttl_def)
next
  case (Some ss)
  have "list_all in_chain ss" using ok Some by (simp add: sessions_ok_def session_ok_def list_all_iff)
  then show ?thesis
    using session_decref_ttl_list[OF J Some, of p] Some ok d
    by (auto simp: sessions_ok_def ids_distinct_def list_all_iff aged_session_ok)
qed

section \<open>Requests\<close>

text \<open>Each model enters a step with its time to live.\<close>

definition step_ok :: "chains \<Rightarrow> bool" where
  "step_ok ch \<longleftrightarrow> length (mc_ttls (ch_models ch)) = length (mc_models (ch_models ch))"

lemma visit_model_step_ok:
  "visit_model cs rs me c m ch = (m', Inr ch') \<Longrightarrow> step_ok ch \<Longrightarrow> step_ok ch'"
  by (auto simp: visit_model_def Let_def case_prod_beta step_ok_def
      dest!: visit_write_models split: if_splits)

lemma routing_visit_step_ok:
  "routing_visit cs rs me n m ch = (m', Inr ch') \<Longrightarrow> step_ok ch \<Longrightarrow> step_ok ch'"
  using visit_model_step_ok[of cs rs me _ m ch] visit_view_models
  by (auto simp: routing_visit_def step_ok_def split: option.splits prod.splits sum.splits if_splits)

lemma routing_visits_step_ok:
  "routing_visits cs rs me ns m ch = (m', Inr ch') \<Longrightarrow> step_ok ch \<Longrightarrow> step_ok ch'"
proof (induction ns arbitrary: m ch)
  case Nil
  then show ?case by simp
next
  case (Cons n ns)
  then obtain m1 ch1 where "routing_visit cs rs me n m ch = (m1, Inr ch1)"
    and "routing_visits cs rs me ns m1 ch1 = (m', Inr ch')"
    by (auto split: prod.splits sum.splits)
  then show ?case using Cons routing_visit_step_ok by blast
qed

lemma routing_rounds_chain_ok:
  assumes "do_rounds (routing_round cs rs me) fs (m, [], [], []) = Some (Inr (m', mcs, deps, vs))"
  shows "chain_ok mcs"
proof -
  have "\<forall>m mcs deps vs. s1 = (m, mcs, deps, vs) \<longrightarrow> chain_ok mcs"
    if "\<forall>m mcs deps vs. s = (m, mcs, deps, vs) \<longrightarrow> chain_ok mcs"
      "routing_round cs rs me fs s = Inr (gs, s1)" for fs s gs s1
    using that routing_visits_step_ok
    by (fastforce simp: routing_round_def Let_def chain_ok_def step_ok_def
        split: prod.splits sum.splits if_splits)
  from do_rounds_invariant[where I = "\<lambda>s. \<forall>m mcs deps vs. s = (m, mcs, deps, vs) \<longrightarrow> chain_ok mcs",
      OF assms _ this]
  show ?thesis by (auto simp: chain_ok_def)
qed

lemma refuse_sessions:
  "routing_refuse J tn rl n sid me tp st msg lg w = Some (r, w') \<Longrightarrow> w_sessions w' = w_sessions w"
  by (drule routing_refuse_harmless) (simp add: harmless_def)

lemma lock_if_shape:
  assumes "(if b then session_node_lock_by_step (Some s) rl cl 0 else (0, rl, cl)) = (ret, rl', cl')"
  shows "resource_shape rl' = resource_shape rl \<and> component_shape cl' = component_shape cl"
  using assms lock_step0_shape[of s rl cl ret rl' cl'] by (cases b) simp_all

lemma routing_start_sessions_ok:
  assumes J: "dumps_all J" and ok: "sessions_ok w" and ss: "w_sessions w = Some ss" "distinct (map s_id ss)"
    and s: "s_id s \<notin> s_id ` set ss" "chain_ok (s_model_chain s)"
    and reg: "w_resources w \<noteq> None" "w_components w \<noteq> None"
    and st: "routing_start J (Some root) rl s sid me tp tn w = Some (r, w')"
  shows "sessions_ok w'"
proof -
  obtain ret rs1 cs1 where lk: "(if resource_is_write_like_method (s_method s)
      then session_node_lock_by_step (Some s) (w_resources w) (w_components w) 0
      else (0, w_resources w, w_components w)) = (ret, rs1, cs1)"
    by (metis prod_cases3)
  have reg1: "rs1 \<noteq> None" "cs1 \<noteq> None"
    using lock_if_shape[OF lk] reg
    by (auto simp: resource_shape_def component_shape_def dest: sym)
  let ?w1 = "w\<lparr>w_resources := rs1, w_components := cs1\<rparr>"
  show ?thesis
  proof (cases "ret = 0")
    case True
    let ?w2 = "?w1\<lparr>w_sessions := Some (ss @ [s])\<rparr>"
    obtain q where q: "session_step J (Some s) (Some root) ?w2 = Some q" "w' = snd q"
      using st lk True ss(1) by (auto simp: routing_start_def session_add_def)
    show ?thesis
      using q reg1 s ss ok
      by (intro step_places_session[OF J, of s root ?w2 "fst q" w' "ss @ [s]"])
        (auto simp: sessions_ok_def list_all_iff)
  next
    case False
    then obtain q where "routing_error_response_all J tn (Some rl) (length rl) sid me tp
        SESSION_CODE_SERVICE_UNAVAILABLE (Some ''service unavailable'')
        (Some ''failed to lock resource'') ?w1 = Some q" "w_sessions w' = w_sessions (snd q)"
      using st lk by (auto simp: routing_start_def Let_def case_prod_beta)
    then have "w_sessions w' = w_sessions w"
      using routing_error_response_all_harmless[of J tn "Some rl" "length rl" sid me tp _ _ _ ?w1 "fst q" "snd q"]
      by (simp add: harmless_def)
    then show ?thesis using ok by (simp add: sessions_ok_def)
  qed
qed

lemma routing_rounds_nonempty:
  assumes "do_rounds (routing_round cs rs me) fs s = Some (Inr (m', mcs, deps, vs))"
  shows "mcs \<noteq> []"
proof -
  have "\<forall>m' mcs deps vs. r = Inr (m', mcs, deps, vs) \<longrightarrow> mcs \<noteq> []"
    if "do_rounds (routing_round cs rs me) fs s = Some r" for r
    using that
    by (induction rule: do_rounds_induct)
      (auto simp: routing_round_def Let_def split: prod.splits sum.splits if_splits)
  then show ?thesis using assms by blast
qed

lemma models_free_registered:
  assumes "models_free cl mcs" "mcs \<noteq> []" "mc_models (hd mcs) \<noteq> []"
  shows "cl \<noteq> None"
proof -
  obtain n where "n \<in> set (mc_models (hd mcs))" using assms(3) by (meson last_in_set)
  then have "component_held cl n = Some False" using assms(1,2) by (force simp: models_free_def)
  then show ?thesis by (cases cl) (simp_all add: component_held_def)
qed

lemma routing_session_sessions_ok:
  assumes J: "dumps_all J" and ok: "sessions_ok w" and ss: "w_sessions w = Some ss" "distinct (map s_id ss)"
    "sid \<notin> s_id ` set ss" and rs: "w_resources w \<noteq> None"
    and mcs: "models_free (w_components w) mcs" "chain_ok mcs" "mcs \<noteq> []"
    and st: "routing_session J (Some root) rl sid me tp tn mcs deps vs w = Some (r, w')"
  shows "sessions_ok w'"
proof -
  have done_same: "sessions_ok v" if "w_sessions v = w_sessions w" for v :: "('a, 'b) world"
    using ok that by (simp add: sessions_ok_def)
  have rf: "w_sessions v' = w_sessions v"
    if "routing_refuse J tn (Some rl) (length rl) sid me tp code msg lg v = Some (c, v')" for code msg lg v v' c
    using refuse_sessions that by blast
  obtain rc h1 where rc: "json_new_array J (w_json w) = (rc, h1)" by force
  obtain m2 so where cr: "session_create_node (w_heap w) sid me (Some tp) (Some tn) deps rc mcs vs = (m2, so)"
    by force
  show ?thesis
  proof (cases "mc_models (hd mcs) = [] \<or> rc = None \<or> so = None")
    case True
    then consider "mc_models (hd mcs) = []" | "mc_models (hd mcs) \<noteq> []" "rc = None"
      | "mc_models (hd mcs) \<noteq> []" "rc \<noteq> None" "so = None" by blast
    then have "w_sessions w' = w_sessions w"
      by cases (use st rc cr in \<open>auto simp: routing_session_def Let_def dest!: rf\<close>)
    then show ?thesis by (rule done_same)
  next
    case False
    then obtain s where s: "so = Some s" by blast
    have s': "s_id s = sid" "s_model_chain s = mcs"
      using cr s by (auto simp: session_create_node_def split: prod.splits if_splits)
    have "routing_start J (Some root) rl s sid me tp tn (w\<lparr>w_json := h1, w_heap := m2\<rparr>) = Some (r, w')"
      using st False rc s cr by (auto simp: routing_session_def)
    from routing_start_sessions_ok[OF J _ _ ss(2) _ _ _ _ this] show ?thesis
      using ss s' rs mcs models_free_registered[OF mcs(1,3)] False ok by (simp add: sessions_ok_def)
  qed
qed

lemma routing_req_sessions_ok:
  assumes J: "dumps_all J" and ok: "sessions_ok w" and d: "ids_distinct w"
    and st: "routing_req J (Some root) sid me tp tn w = Some (r, w')"
  shows "sessions_ok w'"
proof -
  have rf: "sessions_ok w'"
    if "routing_refuse J tn rl n sid me tp code msg lg (w\<lparr>w_heap := m\<rparr>) = Some (r, w')" for m rl n code msg lg
    using refuse_sessions[OF that] ok by (simp add: sessions_ok_def)
  obtain m1 rlo n where ml: "sanji_match_resource_list (w_heap w) (w_resources w) tp = (m1, rlo, n)"
    by (metis prod_cases3)
  show ?thesis
  proof (cases rlo)
    case None
    then show ?thesis using st ml rf by (auto simp: routing_req_def)
  next
    case (Some rl)
    then have rs: "w_resources w \<noteq> None"
      using ml by (cases "w_resources w") (simp_all add: sanji_match_resource_list_def
          resource_lookup_wildcard_nodes_by_name_def sanji_match_resource_def
          resource_lookup_node_by_name_def)
    obtain m2 sub where sub: "sanji_get_subscribed_component m1 [] rl = (m2, sub)" by force
    show ?thesis
    proof (cases "w_sessions w = None \<or> (\<exists>ss. w_sessions w = Some ss \<and> sid \<in> s_id ` set ss)")
      case True
      then have "session_is_inflight (w_sessions w) sid \<noteq> 0"
        by (auto simp: session_is_inflight_def find_None_iff_all split: option.splits)
      then show ?thesis using st ml Some rf by (auto simp: routing_req_def Let_def split: if_splits)
    next
      case False
      then obtain ss where ss: "w_sessions w = Some ss" "sid \<notin> s_id ` set ss" by auto
      have "sessions_ok w'"
        if "do_rounds (routing_round (w_components w) (w_resources w) me) sub (m2, [], [], []) =
            Some (Inr (m3, mcs, deps, vs))"
          "routing_session J (Some root) rl sid me tp tn mcs deps vs (w\<lparr>w_heap := m3\<rparr>) = Some (r, w')"
        for m3 mcs deps vs
        using routing_session_sessions_ok[OF J _ _ _ _ _ _ _ _ that(2), of ss] ss rs ok d
          routing_rounds_models[OF that(1)] routing_rounds_chain_ok[OF that(1)]
          routing_rounds_nonempty[OF that(1)]
        by (simp add: sessions_ok_def ids_distinct_def)
      then show ?thesis
        using st ml Some sub rf
        by (auto simp: routing_req_def Let_def split: if_splits option.splits sum.splits prod.splits)
    qed
  qed
qed

lemma harmless_sessions_ok: "harmless w w' \<Longrightarrow> sessions_ok w \<Longrightarrow> sessions_ok w'"
  by (simp add: harmless_def sessions_ok_def)

lemma routing_procedure_sessions_ok:
  assumes J: "dumps_all J" and ok: "sessions_ok w" and d: "ids_distinct w"
    and st: "routing_procedure J root sid me tp tn code data w = Some (r, w')"
  shows "sessions_ok w'"
proof -
  have res: "sessions_ok v" if "routing_res J root sid code data w = Some (x, v)" for x v
  proof (cases "session_lookup_node_by_id (w_sessions w) sid")
    case None
    then show ?thesis using that ok by (simp add: routing_res_def)
  next
    case (Some s)
    then have "session_ok s"
      using ok by (auto simp: session_lookup_node_by_id_def sessions_ok_def list_all_iff dest!: find_Some_mem
          split: option.splits)
    then show ?thesis
      using that Some step_update_sessions_ok[OF J ok _ d] by (auto simp: routing_res_def)
  qed
  show ?thesis
    using st res ok routing_req_sessions_ok[OF J ok d] harmless_sessions_ok[OF routing_event_harmless ok]
    by (auto simp: routing_procedure_def split: option.splits if_splits)
qed

lemma dispatch_sessions_ok:
  assumes J: "dumps_all J" and ok: "sessions_ok w" and d: "ids_distinct w"
    and st: "sanji_dispatch_context J tp pl n w = Some (r, w')"
  shows "sessions_ok w'"
proof -
  have j: "sessions_ok (v\<lparr>w_json := h\<rparr>) = sessions_ok v" for v :: "('a, 'b) world" and h
    by (simp add: sessions_ok_def)
  have hd: "sessions_ok v'" if "dispatch_handler J tp root x v = Some v'" "sessions_ok v" "ids_distinct v"
    for root x and v v' :: "('a, 'b) world"
    using that routing_procedure_sessions_ok[OF J]
      harmless_sessions_ok[OF register_procedure_harmless]
      harmless_sessions_ok[OF dependency_procedure_harmless]
    unfolding dispatch_handler_def
    by (auto split: if_splits) blast+
  show ?thesis
    using st ok d hd
    by (auto simp: sanji_dispatch_context_def Let_def j split: if_splits option.splits)
qed

lemma register_builtin_sessions [simp]: "w_sessions (register_builtin nm ds tp wc w) = w_sessions w"
  using register_builtin_harmless[of w] by (simp add: harmless_def)

lemma connect_sessions:
  "w_sessions w = Some ss \<Longrightarrow> w_sessions (snd (sanji_connect_callback w)) = Some ss"
  "w_sessions w = None \<Longrightarrow> w_sessions (snd (sanji_connect_callback w)) \<in> {None, Some []}"
  by (auto simp: sanji_connect_callback_def Let_def case_prod_beta session_init_def split: option.split)

lemma connect_sessions_ok: "sessions_ok w \<Longrightarrow> sessions_ok (snd (sanji_connect_callback w))"
  using connect_sessions[of w] by (cases "w_sessions w") (auto simp: sessions_ok_def)

lemma refresh_sessions_ok:
  assumes "dumps_all J" "sessions_ok w" "ids_distinct w"
  shows "\<exists>w'. sanji_refresh_session J last_time now_time w = Some (now_time, w') \<and> sessions_ok w'"
  using decref_ttl_sessions_ok[OF assms, of "word_of_int (now_time - last_time)"] assms(2)
  by (auto simp: sanji_refresh_session_def Let_def)

lemma reachable_sessions_ok:
  assumes J: "dumps_all J"
  shows "reachable J w \<Longrightarrow> sessions_ok w"
proof (induction rule: reachable.induct)
  case (start w)
  then show ?case by (simp add: sessions_ok_def)
next
  case (connect w)
  then show ?case by (intro connect_sessions_ok)
next
  case (message w msg w')
  then show ?case
    using dispatch_sessions_ok[OF J message.IH ids_distinct_exclusive[OF reachable_models_exclusive]]
    by (auto simp: sanji_message_callback_def split: if_splits)
next
  case (refresh w last_time now_time t w')
  then show ?case
    using refresh_sessions_ok[OF J refresh.IH ids_distinct_exclusive[OF reachable_models_exclusive]]
    by (metis option.inject prod.inject)
next
  case (environment w m draws h)
  then show ?case by (simp add: sessions_ok_def)
qed

end
