(* ===== verification/Registry_Invariant.thy ===== *)
theory Registry_Invariant
  imports State_Invariant
begin

text \<open>
  The two registries keep their shape: names are unique, every field is terminated inside its
  buffer, and every array of hooks or subscribers has as many terminated slots as its count
  says. Sessions only lock and unlock; registrations add and remove well-formed nodes as long
  as memory suffices (a failed \<open>realloc\<close> leaves a count one too big).
\<close>

section \<open>Changes of locks only\<close>

definition same_shape :: "('h, 'p) world \<Rightarrow> ('h, 'p) world \<Rightarrow> bool" where
  "same_shape w w' \<longleftrightarrow> resource_shape (w_resources w') = resource_shape (w_resources w) \<and>
     component_shape (w_components w') = component_shape (w_components w)"

lemma same_shape_refl [simp]: "same_shape w w"
  by (simp add: same_shape_def)

lemma same_shape_trans: "same_shape a b \<Longrightarrow> same_shape b c \<Longrightarrow> same_shape a c"
  by (simp add: same_shape_def)

lemma same_tables_shape: "same_tables w w' \<Longrightarrow> same_shape w w'"
  by (simp add: same_tables_def same_shape_def)

lemma same_shapeI:
  "w_resources w' = w_resources w \<Longrightarrow> w_components w' = w_components w \<Longrightarrow> same_shape w w'"
  by (simp add: same_shape_def)

definition registries_ok :: "('h, 'p) world \<Rightarrow> bool" where
  "registries_ok w \<longleftrightarrow> components_ok (w_components w) \<and> resources_ok (w_resources w)"

lemma components_ok_shape: "components_ok (component_shape cl) = components_ok cl"
  by (auto simp: components_ok_def component_shape_def list_all_iff comp_def split: option.split)

lemma resources_ok_shape: "resources_ok (resource_shape rl) = resources_ok rl"
  by (auto simp: resources_ok_def resource_shape_def list_all_iff comp_def split: option.split)

lemma same_shape_ok: "same_shape w w' \<Longrightarrow> registries_ok w \<Longrightarrow> registries_ok w'"
  unfolding same_shape_def registries_ok_def by (metis components_ok_shape resources_ok_shape)

section \<open>Sessions only lock and unlock\<close>

lemma stop_shape: "same_shape w (snd (session_step_stop J s root w))"
proof -
  obtain ret w' where w': "session_step_stop J s root w = (ret, w')" by force
  have rel: "resource_shape (fst (released s w)) = resource_shape (w_resources w) \<and>
      component_shape (snd (released s w)) = component_shape (w_components w)"
    using unlock_step0_shape[of s "w_resources w" "w_components w"]
    by (cases "session_node_unlock_by_step (Some s) (w_resources w) (w_components w) 0")
      (auto simp: released_def)
  from session_step_stop_locks[OF w'] have "same_shape w w'"
  proof
    assume "ret \<noteq> 0 \<and> same_locks w w'"
    then show ?thesis by (simp add: same_locks_def same_shape_def)
  next
    assume "ret = 0 \<and> (w_resources w', w_components w') = released s w \<and>
      w_sessions w' = map_option (delete_first (\<lambda>x. s_id x = s_id s)) (w_sessions w)"
    then have "released s w = (w_resources w', w_components w')" by simp
    then show ?thesis using rel by (simp add: same_shape_def)
  qed
  then show ?thesis by (simp add: w')
qed

lemma step_shape:
  assumes "session_step J node root w = Some (ret, w')"
  shows "same_shape w w'"
proof (cases "w_resources w = None \<or> w_components w = None \<or> root = None \<or> node = None")
  case True
  then have "w' = w"
    using assms by (cases node; cases "w_resources w"; cases "w_components w"; cases root)
      (auto simp: session_step_def)
  then show ?thesis by simp
next
  case False
  then obtain s r where r: "node = Some s" "root = Some r" by auto
  have reg: "w_resources w \<noteq> None" "w_components w \<noteq> None" using False by auto
  show ?thesis
  proof (cases "s_curr_step s < length (s_model_chain s)")
    case True
    then show ?thesis
      using assms r session_step_next[OF reg True]
      by (auto simp: Let_def frame_simps same_shape_def split: option.splits)
  next
    case False
    let ?s1 = "s\<lparr>s_curr_step := Suc (s_curr_step s)\<rparr>"
    have e: "w' = snd (session_step_stop J ?s1 (Some r) (session_store ?s1 w))"
      using assms r False session_step_end[OF reg] by (simp add: Let_def)
    have "same_shape w (session_store ?s1 w)" by (rule same_shapeI) (simp_all add: frame_simps)
    then show ?thesis unfolding e using stop_shape same_shape_trans by blast
  qed
qed

lemma step_update_shape:
  assumes up: "session_step_update J s root code data w = Some w'"
  shows "same_shape w w'"
proof -
  have dec: "same_shape v v'" if "session_node_decref_wait J node root v = Some v'"
    for node and v v' :: "('a, 'b) world"
  proof (cases node)
    case None
    then show ?thesis using that by (simp add: session_node_decref_wait_def)
  next
    case (Some s)
    let ?s1 = "s\<lparr>s_curr_wait := s_curr_wait s - 1\<rparr>"
    have a: "same_shape v (session_store ?s1 v)" by (rule same_shapeI) (simp_all add: frame_simps)
    show ?thesis
      using that Some same_shape_trans[OF a] a step_shape[of J "Some ?s1" root "session_store ?s1 v"]
      by (auto simp: session_node_decref_wait_def Let_def split: if_splits)
  qed
  have j: "same_shape w (w\<lparr>w_json := h\<rparr>)" for h by (rule same_shapeI) simp_all
  show ?thesis
    using up same_shape_trans[OF j dec] same_shape_trans[OF j stop_shape]
    by (auto simp: session_step_update_def Let_def split: prod.splits if_splits)
qed

lemma flush_shape: "same_shape w (flush_sessions J fs w)"
  by (induction fs arbitrary: w) (auto intro: same_shape_trans[OF stop_shape])

lemma decref_ttl_shape:
  assumes "session_decref_ttl J p w = Some w'"
  shows "same_shape w w'"
proof -
  have s: "same_shape w (w\<lparr>w_sessions := x\<rparr>)" for x by (rule same_shapeI) simp_all
  show ?thesis
    using assms
    by (auto simp: session_decref_ttl_def intro: same_shape_trans[OF s flush_shape] split: option.splits)
qed

section \<open>Requests only lock and unlock\<close>

lemma routing_start_shape:
  assumes st: "routing_start J root rl s sid me tp tn w = Some (r, w')"
  shows "same_shape w w'"
proof -
  obtain ret rs1 cs1 where lk: "(if resource_is_write_like_method (s_method s)
      then session_node_lock_by_step (Some s) (w_resources w) (w_components w) 0
      else (0, w_resources w, w_components w)) = (ret, rs1, cs1)"
    by (metis prod_cases3)
  let ?w1 = "w\<lparr>w_resources := rs1, w_components := cs1\<rparr>"
  have h1: "same_shape w (?w1\<lparr>w_sessions := x\<rparr>)" for x
    using lock_if_shape[OF lk] by (simp add: same_shape_def)
  show ?thesis
  proof (cases "ret = 0")
    case True
    then show ?thesis
      using st lk same_shape_trans[OF h1 step_shape] by (auto simp: routing_start_def)
  next
    case False
    obtain q where q: "routing_error_response_all J tn (Some rl) (length rl) sid me tp
        SESSION_CODE_SERVICE_UNAVAILABLE (Some ''service unavailable'')
        (Some ''failed to lock resource'') ?w1 = Some q"
      and e: "(w_resources w', w_components w') =
        snd (session_node_unlock_by_step (Some s) (w_resources (snd q)) (w_components (snd q)) 0)"
      using st lk False by (auto simp: routing_start_def Let_def case_prod_beta)
    have "same_shape ?w1 (snd q)"
      using routing_error_response_all_tables[of J tn "Some rl" "length rl" sid me tp _ _ _ ?w1 "fst q" "snd q"] q
      by (simp add: same_tables_shape)
    moreover have "same_shape (snd q) w'"
      using e unlock_step0_shape[of s "w_resources (snd q)" "w_components (snd q)"]
      by (auto simp: same_shape_def) (metis prod.collapse)+
    moreover have "same_shape w ?w1" using lock_if_shape[OF lk] by (simp add: same_shape_def)
    ultimately show ?thesis using same_shape_trans by blast
  qed
qed

lemma refuse_shape:
  "routing_refuse J tn rl n sid me tp st msg lg w = Some (r, w') \<Longrightarrow> same_shape w w'"
  by (rule same_tables_shape[OF routing_refuse_tables])

lemma routing_session_shape:
  assumes st: "routing_session J root rl sid me tp tn mcs deps vs w = Some (r, w')"
  shows "same_shape w w'"
proof -
  obtain rc h1 where rc: "json_new_array J (w_json w) = (rc, h1)" by force
  obtain m2 so where cr: "session_create_node (w_heap w) sid me (Some tp) (Some tn) deps rc mcs vs = (m2, so)"
    by force
  have h: "same_shape w v \<Longrightarrow> same_shape w (v\<lparr>w_json := h\<rparr>)" for v :: "('a, 'b) world" and h
    by (simp add: same_shape_def)
  have up: "same_shape (w\<lparr>w_json := h, w_heap := m\<rparr>) v \<Longrightarrow> same_shape w v"
    "same_shape (w\<lparr>w_json := h\<rparr>) v \<Longrightarrow> same_shape w v" for h m and v :: "('a, 'b) world"
    by (simp_all add: same_shape_def)
  show ?thesis
  proof (cases "mc_models (hd mcs) = [] \<or> rc = None")
    case True
    then consider "mc_models (hd mcs) = []" | "mc_models (hd mcs) \<noteq> []" "rc = None" by blast
    then show ?thesis
      by cases (use st rc in \<open>auto simp: routing_session_def dest!: refuse_shape up\<close>)
  next
    case False
    then show ?thesis
      using st rc cr
      by (cases so) (auto simp: routing_session_def dest!: refuse_shape routing_start_shape up intro: h)
  qed
qed

lemma routing_req_shape:
  assumes st: "routing_req J root sid me tp tn w = Some (r, w')"
  shows "same_shape w w'"
proof -
  have up: "same_shape (w\<lparr>w_heap := m\<rparr>) v \<Longrightarrow> same_shape w v" for m and v :: "('a, 'b) world"
    by (simp add: same_shape_def)
  show ?thesis
    using st
    by (auto simp: routing_req_def Let_def dest!: refuse_shape routing_session_shape up
        split: if_splits option.splits sum.splits prod.splits)
qed

lemma routing_procedure_shape:
  assumes "routing_procedure J root sid me tp tn code data w = Some (r, w')"
  shows "same_shape w w'"
  using assms same_tables_shape[OF routing_event_tables]
  by (auto simp: routing_procedure_def routing_res_def dest!: routing_req_shape step_update_shape
      split: option.splits if_splits)

section \<open>Registrations add well-formed nodes\<close>

text \<open>\<open>json_string_value\<close> gives C strings.\<close>

definition c_texts :: "('h, 'p) jansson \<Rightarrow> bool" where
  "c_texts J \<longleftrightarrow> (\<forall>h p. NUL \<notin> set (json_string_value J h p))"

lemma static_json_texts: "c_texts (static_json docs)"
  by (auto simp: c_texts_def static_json_def split: json.split)

lemma slots_ok_Cons:
  assumes "length s = w" "NUL \<in> set s" "slots_ok w n b"
  shows "slots_ok w (Suc n) (s @ b)"
proof -
  have "NUL \<in> set (take w (drop (i * w) (s @ b)))" if "i < Suc n" for i
    using that assms by (cases i) (auto simp: slots_ok_def)
  then show ?thesis using assms by (simp add: slots_ok_def)
qed

lemma fill_slots_ok:
  "fill_slots J h arr len is = Some b \<Longrightarrow> 0 < len \<Longrightarrow> slots_ok len (length is) b"
proof (induction "is" arbitrary: b)
  case Nil
  then show ?case by simp
next
  case (Cons i "is")
  then show ?case
    using slot_terminated[of len]
    by (auto simp: slot_def split: option.splits intro!: slots_ok_Cons)
qed

lemma single_slot_ok: "0 < len \<Longrightarrow> slots_ok len 1 ((slot len s)[len - 1 := NUL])"
  using slots_ok_Cons[OF _ slot_terminated[of len s] slots_ok_0] by simp

text \<open>With memory, a subscription succeeds or is refused without a trace.\<close>

lemma append_plenty:
  assumes ok: "resources_ok rl" and s: "NUL \<notin> set s" "length s < COMPONENT_NAME_LEN"
    and n: "length n < RESOURCE_NAME_LEN"
  shows "resources_ok (snd (snd (resource_append_component_by_name [] rl (Some n) (Some s)))) \<and>
    fst (snd (resource_append_component_by_name [] rl (Some n) (Some s))) = []"
proof -
  have "fst (resource_append_component_by_name [] rl (Some n) (Some s)) = 0 \<or>
      snd (snd (resource_append_component_by_name [] rl (Some n) (Some s))) = rl"
    by (auto simp: resource_append_component_by_name_def resource_add_node_def
        resource_node_append_component_def Let_def split: option.split)
  moreover have "fst (snd (resource_append_component_by_name [] rl (Some n) (Some s))) = []"
    by (auto simp: resource_append_component_by_name_def resource_add_node_def
        resource_node_append_component_def Let_def split: option.split)
  ultimately show ?thesis using resource_append_inv[of rl "Some s" "Some n" "[]"] ok s n by auto
qed

lemma append_resources_plenty:
  "resources_ok rl \<Longrightarrow> NUL \<notin> set s \<Longrightarrow> length s < COMPONENT_NAME_LEN \<Longrightarrow>
   \<forall>n \<in> set ns. length n < RESOURCE_NAME_LEN \<Longrightarrow>
   resources_ok (snd (append_resources [] rl ns s))"
proof (induction ns arbitrary: rl)
  case (Cons n ns)
  obtain x m1 rl1 where a: "resource_append_component_by_name [] rl (Some n) (Some s) = (x, m1, rl1)"
    by (metis prod_cases3)
  have "resources_ok rl1" "m1 = []" using append_plenty[OF Cons.prems(1-3), of n] a Cons.prems(4) by auto
  then show ?case using Cons a by simp
qed simp

lemma add_node_heap: "fst (snd (component_add_node [] cl n d t r hk k ttl l)) = []"
  by (auto simp: component_add_node_def Let_def split: option.split)

lemma bounded_field: "length n < 32 \<Longrightarrow> field_copy 32 (Some n) = n"
  by (simp add: field_copy_def)

lemma register_create_ok:
  assumes ok: "registries_ok w" and m: "w_heap w = []" and n: "NUL \<notin> set n" "length n < COMPONENT_NAME_LEN"
    and hk: "slots_ok COMPONENT_NAME_LEN k (bytes_of hk)"
    and rs: "\<And>buf. res = Some buf \<Longrightarrow> slots_ok RESOURCE_NAME_LEN c buf"
    and st: "register_create (Some n) ds rl hk k ttl res c w = Some (status, msg, tn, w')"
  shows "registries_ok w'"
proof (cases "w' = w")
  case True
  then show ?thesis using ok by simp
next
  case False
  obtain t draws where t: "pick_tunnel (w_components w) (w_rand w) = Some (t, draws)"
    using st False by (auto simp: register_create_def split: option.splits if_splits)
  obtain ret m1 cs where a: "component_add_node [] (w_components w) (Some n) ds (Some t) rl hk k ttl 0 =
      (ret, m1, cs)" by (metis prod_cases3)
  obtain buf where buf: "res = Some buf" and reg: "component_is_registered (w_components w) (Some n) = 0"
    using st False by (auto simp: register_create_def split: option.splits if_splits)
  have "m1 = []" using add_node_heap[of "w_components w" "Some n" ds "Some t" rl hk k ttl 0] a by simp
  moreover have "components_ok cs"
    using component_add_node_inv[of "w_components w" "Some n" k hk "[]" ds "Some t" rl ttl 0] ok reg n hk a
    by (simp add: registries_ok_def bounded_field)
  moreover have "\<forall>x \<in> set (slots RESOURCE_NAME_LEN c buf). length x < RESOURCE_NAME_LEN"
    using slots_bounded rs[OF buf] by blast
  moreover obtain m2 rs2 where r: "append_resources [] (w_resources w) (slots RESOURCE_NAME_LEN c buf) n = (m2, rs2)"
    by force
  ultimately have "m1 = []" "components_ok cs" "resources_ok rs2"
    using append_resources_plenty[OF _ n, of "w_resources w" "slots RESOURCE_NAME_LEN c buf"] ok
    by (simp_all add: registries_ok_def)
  moreover have "w_components w' = cs \<and> (w_resources w' = w_resources w \<or> w_resources w' = rs2)"
    using st False t a buf reg m r calculation(1)
    by (auto simp: register_create_def Let_def split: option.splits if_splits)
  ultimately show ?thesis using ok by (auto simp: registries_ok_def)
qed

lemma register_delete_ok:
  assumes ok: "registries_ok w" and n: "length n < COMPONENT_NAME_LEN"
    and st: "register_delete (Some n) w = Some (status, msg, w')"
  shows "registries_ok w'"
  using st ok component_delete_inv[of "w_components w" "Some n"]
    resource_remove_all_inv[of "w_resources w" "Some n" "w_heap w"] n
  by (auto simp: register_delete_def registries_ok_def Let_def split: option.splits if_splits prod.splits)

section \<open>The registration procedure\<close>

lemma register_hook_ok:
  "register_hook J h data [] = (m, r) \<Longrightarrow> m = [] \<and>
   (\<forall>hk k. r = Some (Inr (hk, k)) \<longrightarrow> slots_ok COMPONENT_NAME_LEN k (bytes_of hk))"
  using fill_slots_ok[of J h _ COMPONENT_NAME_LEN] single_slot_ok[of COMPONENT_NAME_LEN]
  by (fastforce simp: register_hook_def Let_def bytes_of_def split: option.splits if_splits)

lemma register_resources_ok:
  "register_resources J h data [] = (m, r) \<Longrightarrow> m = [] \<and>
   (\<forall>buf c. r = Some (Inr (Some buf, c)) \<longrightarrow> slots_ok RESOURCE_NAME_LEN c buf)"
  using fill_slots_ok[of J h _ RESOURCE_NAME_LEN] single_slot_ok[of RESOURCE_NAME_LEN]
  by (fastforce simp: register_resources_def Let_def split: option.splits if_splits)

lemma register_attributes_ok:
  assumes "register_attributes J h data [] = (m, r)"
  shows "m = [] \<and> (\<forall>q. r = Some (Inr q) \<longrightarrow>
    slots_ok COMPONENT_NAME_LEN (snd (q_hook q)) (bytes_of (fst (q_hook q))) \<and>
    (\<forall>buf. fst (q_resources q) = Some buf \<longrightarrow> slots_ok RESOURCE_NAME_LEN (snd (q_resources q)) buf))"
proof -
  obtain m1 a where a: "register_hook J h data [] = (m1, a)" by force
  obtain m2 b where b: "register_resources J h data m1 = (m2, b)" by force
  have "m1 = []" using register_hook_ok[OF a] by blast
  then show ?thesis
    using assms a b register_hook_ok[OF a] register_resources_ok[of J h data m2 b]
    by (auto simp: register_attributes_def split: option.splits sum.splits)
qed

lemma register_name_ok:
  assumes "c_texts J" "NUL \<notin> set topic" "register_name J h method topic data = Inr n"
  shows "NUL \<notin> set n \<and> length n < COMPONENT_NAME_LEN"
proof -
  have "NUL \<notin> set (bounded_copy COMPONENT_NAME_LEN (drop k topic))" for k
    using assms(2) by (intro NUL_bounded_copy) (meson in_set_dropD)
  moreover have "NUL \<notin> set (bounded_copy COMPONENT_NAME_LEN (json_string_value J h p))" for p
    using assms(1) by (intro NUL_bounded_copy) (simp add: c_texts_def)
  ultimately show ?thesis
    using assms(3)
    by (auto simp: register_name_def string_attribute_def nonempty_string_def split: if_splits option.splits)
qed

text \<open>An error answer asks for memory too, and leaves enough.\<close>

lemma error_response_heap:
  "w_heap w = [] \<Longrightarrow> w_heap (snd (sanji_error_response J t sid me tp sg st ms lg w)) = []"
  by (auto simp: sanji_error_response_def response_header_def resource_reverse_method_def
      dump_and_respond_def Let_def frame_simps split: prod.splits option.splits if_splits)

lemma register_refuse_heap: "w_heap w = [] \<Longrightarrow> w_heap (register_refuse J sid method topic e w) = []"
  by (auto simp: register_refuse_def register_error_response_def error_response_heap split: prod.split)

lemma same_tables_ok: "same_tables w w' \<Longrightarrow> registries_ok w \<Longrightarrow> registries_ok w'"
  using same_tables_shape same_shape_ok by blast

lemma register_create_request_ok:
  assumes ok: "registries_ok w" "w_heap w = []" and n: "NUL \<notin> set n" "length n < COMPONENT_NAME_LEN"
    and st: "register_create_request J sid method topic data n w = Some (r, w')"
  shows "registries_ok w'"
proof -
  obtain m1 q where a: "register_attributes J (w_json w) data [] = (m1, q)" by force
  show ?thesis
  proof (cases "\<exists>p. q = Some (Inr p)")
    case False
    then obtain e where "q = Some (Inl e)"
      using st a ok(2) by (auto simp: register_create_request_def split: option.splits sum.splits)
    then have "w' = register_refuse J sid method topic e (w\<lparr>w_heap := m1\<rparr>)"
      using st a ok(2) by (simp add: register_create_request_def)
    then have "same_tables (w\<lparr>w_heap := m1\<rparr>) w'" using register_refuse_tables by simp
    then show ?thesis using ok(1) by (auto simp: same_tables_def registries_ok_def)
  next
    case True
    then obtain p where p: "q = Some (Inr p)" ..
    have m: "m1 = []" using register_attributes_ok[OF a] by blast
    have id: "w\<lparr>w_heap := []\<rparr> = w" using ok(2) by (cases w) simp
    obtain status msg tn w1 where c: "register_create (Some n) (Some (q_description p))
        (Some (q_role p)) (fst (q_hook p)) (snd (q_hook p)) (q_ttl p) (fst (q_resources p))
        (snd (q_resources p)) w = Some (status, msg, tn, w1)"
      and e: "w' = snd (register_response J sid method (Some topic) status tn w1) \<or>
        w' = register_error_response J sid method (Some topic) status (Some msg) (Some []) w1"
      using st a p m ok(2) by (auto simp: register_create_request_def id split: option.splits if_splits)
    have "registries_ok w1"
      using register_create_ok[OF ok n _ _ c] register_attributes_ok[OF a] p by blast
    then show ?thesis using e same_tables_ok register_response_tables register_error_tables by blast
  qed
qed

lemma register_procedure_ok:
  assumes J: "c_texts J" and ok: "registries_ok w0" "w_heap w0 = []" and tp: "NUL \<notin> set topic"
    and st: "register_procedure J sid method topic data w0 = Some (r, w')"
  shows "registries_ok w'"
proof -
  obtain w where w: "w = (if length topic < SANJI_REGISTER_RESOURCE_LEN \<or>
      \<not> strncmp_eq SANJI_REGISTER_RESOURCE_LEN topic SANJI_REGISTER_RESOURCE
    then register_refuse J sid method topic
      (wrong_register_context (quoted ''resource'' @ '' didn'' @ apostrophe # ''t match'')) w0
    else w0)" by simp
  have h: "registries_ok w" "w_heap w = []"
    using ok by (simp_all add: w same_tables_ok[OF register_refuse_tables] register_refuse_heap)
  have rf: "registries_ok (register_refuse J sid method topic e w)"
    "registries_ok (register_error_response J sid method tp' s ms lg w)" for e tp' s ms lg
    using same_tables_ok[OF register_refuse_tables h(1)] same_tables_ok[OF register_error_tables h(1)] by blast+
  have del: "registries_ok (register_error_response J sid method tp' s ms lg v)"
    if "register_delete (Some n) w = Some (s', m', v)" "length n < COMPONENT_NAME_LEN" for n tp' s ms lg v s' m'
    using same_tables_ok[OF register_error_tables register_delete_ok[OF h(1) that(2,1)]] .
  have cr: "registries_ok v"
    if "register_create_request J sid me topic d n w = Some (r', v)" "register_name J (w_json w) me topic d = Inr n"
    for me d n r' v
    using register_create_request_ok[OF h _ _ that(1)] register_name_ok[OF J tp that(2)] by blast
  show ?thesis
    using st rf del cr register_name_ok[OF J tp]
    unfolding register_procedure_def register_check_topic_def register_other_method_def Let_def w[symmetric]
    by (auto split: if_splits sum.splits option.splits prod.splits)
qed

section \<open>The event loop\<close>

lemma parsed_resource_text:
  assumes "c_texts J" "sanji_parse_context J payload empty_context h = Some (ret, root, x, h1)"
  shows "NUL \<notin> set (x_resource x)"
proof -
  have "NUL \<notin> set (parse_string J h' r key n)" for h' r key n
    using assms(1) by (auto simp: parse_string_def c_texts_def intro!: NUL_bounded_copy split: option.split)
  then show ?thesis using assms(2) by (auto simp: sanji_parse_context_def split: option.splits prod.splits)
qed

lemma dispatch_registries_ok:
  assumes J: "c_texts J" and ok: "registries_ok w" "w_heap w = []"
    and st: "sanji_dispatch_context J tp pl n w = Some (r, w')"
  shows "registries_ok w'"
proof -
  have j: "registries_ok (v\<lparr>w_json := h\<rparr>) = registries_ok v" for v :: "('a, 'b) world" and h
    by (simp add: registries_ok_def)
  have hd: "registries_ok v'"
    if "dispatch_handler J tp root x v = Some v'" "registries_ok v" "w_heap v = []" "NUL \<notin> set (x_resource x)"
    for root x and v v' :: "('a, 'b) world"
    using that register_procedure_ok[OF J] same_shape_ok[OF routing_procedure_shape]
      same_tables_ok[OF dependency_procedure_tables]
    unfolding dispatch_handler_def
    by (auto split: if_splits) blast+
  show ?thesis
    using st ok hd parsed_resource_text[OF J]
    by (auto simp: sanji_dispatch_context_def Let_def j split: if_splits option.splits)
qed

lemma register_builtin_ok:
  assumes ok: "registries_ok w" "w_heap w = []" and n: "NUL \<notin> set nm" "length nm < COMPONENT_NAME_LEN"
    and t: "length tp < RESOURCE_NAME_LEN" "length wc < RESOURCE_NAME_LEN"
  shows "registries_ok (register_builtin nm ds tp wc w) \<and> w_heap (register_builtin nm ds tp wc w) = []"
proof (cases "component_is_registered (w_components w) (Some nm) = 0")
  case False
  then show ?thesis using ok by (simp add: register_builtin_def)
next
  case True
  obtain x1 m1 cs where a: "component_add_node [] (w_components w) (Some nm) (Some ds) (Some tp)
      (Some ''model'') None 0 10 0 = (x1, m1, cs)" by (metis prod_cases3)
  have m1: "m1 = []" using add_node_heap a by (metis fst_conv snd_conv)
  have cs: "components_ok cs"
    using component_add_node_inv[of "w_components w" "Some nm" 0 None "[]" "Some ds" "Some tp" "Some ''model''" 10 0]
      ok(1) True n a by (simp add: registries_ok_def bounded_field bytes_of_def)
  obtain x2 m2 rs1 where b: "resource_append_component_by_name [] (w_resources w) (Some tp) (Some nm) = (x2, m2, rs1)"
    by (metis prod_cases3)
  have b': "resources_ok rs1" "m2 = []"
    using append_plenty[OF _ n t(1), of "w_resources w"] ok(1) b by (simp_all add: registries_ok_def)
  obtain x3 m3 rs2 where c: "resource_append_component_by_name [] rs1 (Some wc) (Some nm) = (x3, m3, rs2)"
    by (metis prod_cases3)
  have c': "resources_ok rs2" "m3 = []" using append_plenty[OF b'(1) n t(2)] c by simp_all
  show ?thesis using True ok(2) a m1 b b' c c' cs by (simp add: register_builtin_def registries_ok_def)
qed

lemma connect_registries_ok:
  assumes ok: "registries_ok w" "w_heap w = []"
  shows "registries_ok (snd (sanji_connect_callback w))"
proof -
  obtain rs where 1: "(case w_resources w of None \<Rightarrow> resource_init (w_heap w)
      | Some _ \<Rightarrow> (w_heap w, w_resources w)) = ([], rs)" "resources_ok rs"
    using ok by (cases "w_resources w") (auto simp: resource_init_def registries_ok_def resources_ok_def)
  obtain cs where 2: "(case w_components w of None \<Rightarrow> component_init []
      | Some _ \<Rightarrow> ([], w_components w)) = ([], cs)" "components_ok cs"
    using ok by (cases "w_components w") (auto simp: component_init_def registries_ok_def components_ok_def)
  obtain ss where 3: "(case w_sessions w of None \<Rightarrow> session_init []
      | Some _ \<Rightarrow> ([], w_sessions w)) = ([], ss)"
    by (cases "w_sessions w") (auto simp: session_init_def)
  define v where "v = w\<lparr>w_heap := [], w_resources := rs, w_components := cs, w_sessions := ss\<rparr>"
  have v: "registries_ok v" "w_heap v = []" using 1(2) 2(2) by (simp_all add: v_def registries_ok_def)
  have "registries_ok (register_builtin ''dependency'' ds t2 wc2 (register_builtin ''registration'' ds1 t1 wc1 v))"
    if "length t1 < RESOURCE_NAME_LEN" "length wc1 < RESOURCE_NAME_LEN" "length t2 < RESOURCE_NAME_LEN"
      "length wc2 < RESOURCE_NAME_LEN" for ds t2 wc2 ds1 t1 wc1
    using register_builtin_ok[of "register_builtin ''registration'' ds1 t1 wc1 v" "''dependency''" t2 wc2]
      register_builtin_ok[OF v, of "''registration''" t1 wc1] that by simp
  then show ?thesis
    by (simp add: sanji_connect_callback_def 1(1) 2(1) 3 flip: v_def)
qed

text \<open>The reachable states when memory suffices for every callback.\<close>

inductive reachable_with_memory :: "('h, 'p) jansson \<Rightarrow> ('h, 'p) world \<Rightarrow> bool" for J where
  start: "w_resources w = None \<Longrightarrow> w_components w = None \<Longrightarrow> w_sessions w = None \<Longrightarrow>
    reachable_with_memory J w"
| connect: "reachable_with_memory J w \<Longrightarrow> w_heap w = [] \<Longrightarrow>
    reachable_with_memory J (snd (sanji_connect_callback w))"
| message: "reachable_with_memory J w \<Longrightarrow> w_heap w = [] \<Longrightarrow>
    sanji_message_callback J msg w = Some w' \<Longrightarrow> reachable_with_memory J w'"
| refresh: "reachable_with_memory J w \<Longrightarrow>
    sanji_refresh_session J last_time now_time w = Some (t, w') \<Longrightarrow> reachable_with_memory J w'"
| environment: "reachable_with_memory J w \<Longrightarrow>
    reachable_with_memory J (w\<lparr>w_heap := m, w_rand := draws, w_json := h\<rparr>)"

lemma memory_reachable: "reachable_with_memory J w \<Longrightarrow> reachable J w"
proof (induction rule: reachable_with_memory.induct)
  case (start w)
  then show ?case by (rule reachable.start)
next
  case (connect w)
  then show ?case by (intro reachable.connect)
next
  case (message w msg w')
  then show ?case using reachable.message by blast
next
  case (refresh w last_time now_time t w')
  then show ?case using reachable.refresh by blast
next
  case (environment w m draws h)
  then show ?case by (intro reachable.environment)
qed

lemma reachable_registries_ok:
  assumes J: "c_texts J"
  shows "reachable_with_memory J w \<Longrightarrow> registries_ok w"
proof (induction rule: reachable_with_memory.induct)
  case (start w)
  then show ?case by (simp add: registries_ok_def components_ok_def resources_ok_def)
next
  case (connect w)
  then show ?case using connect_registries_ok by blast
next
  case (message w msg w')
  then show ?case
    using dispatch_registries_ok[OF J message.IH]
    by (auto simp: sanji_message_callback_def split: if_splits)
next
  case (refresh w last_time now_time t w')
  then show ?case
    using same_shape_ok[OF decref_ttl_shape]
    by (auto simp: sanji_refresh_session_def Let_def split: if_splits)
next
  case (environment w m draws h)
  then show ?case by (simp add: registries_ok_def)
qed

end
