(* ===== verification/Progress.thy ===== *)
theory Progress
  imports Registry_Invariant Request_Facts
begin

text \<open>
  Every message whose numbers fit their variables is handled: in a state that the controller
  reaches with memory, connected, with hooks that have no cycle and a random number left that
  gives a fresh tunnel, the message callback returns, on every path of every handler. So it
  reads no null pointer, no slot that is not terminated and no step outside a chain, and its
  loops end. A number that does not fit makes the callback undefined.
\<close>

section \<open>Parsing\<close>

text \<open>The method is cut to its own buffer before it is looked up in one that is longer.\<close>

lemma parse_method_returns: "\<exists>k. parse_method J h root method = Some k"
proof -
  have "\<not> 8 < min n (7 :: nat)" for n by simp
  then show ?thesis
    by (cases "typed_member J h root ''method'' (json_is_string J)")
      (simp_all add: parse_method_def resource_lookup_method_def)
qed

text \<open>The member, if it is a number, is within the bounds once it is truncated.\<close>

definition number_fits :: "('h, 'p) jansson \<Rightarrow> 'h \<Rightarrow> 'p option \<Rightarrow> string \<Rightarrow> int \<Rightarrow> int \<Rightarrow> bool" where
  "number_fits J h root key lo hi \<longleftrightarrow>
     (case typed_member J h root key (json_is_number J) of
        None \<Rightarrow> True | Some p \<Rightarrow> lo \<le> json_number_value J h p \<and> json_number_value J h p < hi)"

definition header_fits :: "('h, 'p) jansson \<Rightarrow> 'h \<Rightarrow> 'p option \<Rightarrow> bool" where
  "header_fits J h root \<longleftrightarrow>
     number_fits J h root ''id'' 0 (2 ^ 32) \<and> number_fits J h root ''code'' (- (2 ^ 31)) (2 ^ 31)"

lemma parse_number_None:
  "parse_number J h root key double_to_uint n = None \<longleftrightarrow> \<not> number_fits J h root key 0 (2 ^ 32)"
  "parse_number J h root key double_to_int n = None \<longleftrightarrow> \<not> number_fits J h root key (- (2 ^ 31)) (2 ^ 31)"
  by (auto simp: parse_number_def number_fits_def double_to_uint_def double_to_int_def split: option.split)

lemma register_ttl_None: "register_ttl J h data = None \<longleftrightarrow> \<not> number_fits J h data ''ttl'' (- (2 ^ 31)) (2 ^ 31)"
  by (auto simp: register_ttl_def number_fits_def typed_member_def double_to_int_def split: option.split)

text \<open>Parsing is undefined exactly for a text whose header has a number that does not fit.\<close>

lemma parse_context_None:
  "sanji_parse_context J payload x h = None \<longleftrightarrow>
   (\<exists>t r h1. payload = Some t \<and> json_loads J h t = (Some r, h1) \<and> \<not> header_fits J h1 (Some r))"
proof (cases payload)
  case None
  then show ?thesis by (simp add: sanji_parse_context_def)
next
  case (Some t)
  obtain root h1 where l: "json_loads J h t = (root, h1)" by force
  obtain k where "parse_method J h1 root (x_method x) = Some k"
    using parse_method_returns[of J h1 root "x_method x"] by blast
  moreover have "header_fits J h1 root \<longleftrightarrow>
      parse_number J h1 root ''id'' double_to_uint (x_id x) \<noteq> None \<and>
      parse_number J h1 root ''code'' double_to_int (word_of_int (x_code x)) \<noteq> None"
    by (simp add: header_fits_def parse_number_None del: not_None_eq)
  ultimately show ?thesis
    using Some l by (cases root) (auto simp: sanji_parse_context_def split: option.split)
qed

text \<open>
  The numbers of a message fit: its identifier and its code, and, when it is a registration, its
  time to live at the point where the handler reads it.
\<close>

definition ttl_fits :: "('h, 'p) jansson \<Rightarrow> 'p sanji_context \<Rightarrow> ('h, 'p) world \<Rightarrow> bool" where
  "ttl_fits J x w \<longleftrightarrow>
     (x_method x = RESOURCE_METHOD_CREATE \<longrightarrow>
        number_fits J (w_json (register_check_topic J (x_id x) (x_method x) (x_resource x) w)) (x_data x) ''ttl''
          (- (2 ^ 31)) (2 ^ 31))"

definition numbers_fit :: "('h, 'p) jansson \<Rightarrow> message \<Rightarrow> ('h, 'p) world \<Rightarrow> bool" where
  "numbers_fit J msg w \<longleftrightarrow>
     (case msg_payload msg of None \<Rightarrow> True | Some t \<Rightarrow>
        (case json_loads J (w_json w) t of
           (None, h1) \<Rightarrow> True
         | (Some r, h1) \<Rightarrow> header_fits J h1 (Some r))) \<and>
     (case sanji_parse_context J (msg_payload msg) empty_context (w_json w) of
        None \<Rightarrow> True
      | Some (ret, root, x, h1) \<Rightarrow>
          msg_topic msg = SANJI_REGISTER_RESOURCE \<longrightarrow> ttl_fits J x (w\<lparr>w_json := h1\<rparr>))"

lemma numbers_fit_parsed:
  "numbers_fit J msg w \<Longrightarrow> sanji_parse_context J (msg_payload msg) empty_context (w_json w) \<noteq> None"
  by (auto simp: parse_context_None numbers_fit_def)

section \<open>Registration\<close>

lemma locked_sum_returns: "rl \<noteq> None \<Longrightarrow> locked_sum rl ns \<noteq> None"
  by (induction ns) (auto simp: resource_is_locked_def)

lemma register_hook_returns: "\<exists>a. register_hook J h data [] = ([], Some a)"
  by (auto simp: register_hook_def Let_def split: option.split)

lemma register_resources_returns: "\<exists>a. register_resources J h data [] = ([], Some a)"
  by (auto simp: register_resources_def Let_def split: option.split)

lemma register_attributes_returns:
  assumes "number_fits J h data ''ttl'' (- (2 ^ 31)) (2 ^ 31)"
  shows "\<exists>a. register_attributes J h data [] = ([], Some a)"
  using register_hook_returns[of J h data] register_resources_returns[of J h data]
    register_ttl_None[of J h data] assms
  by (auto simp: register_attributes_def split: option.split sum.split)

lemma register_create_returns:
  assumes "w_resources w \<noteq> None" "pick_tunnel (w_components w) (w_rand w) \<noteq> None"
  shows "register_create n ds rl hk k ttl res c w \<noteq> None"
  using assms(2)
  by (simp add: register_create_def Let_def locked_sum_returns[OF assms(1)] del: not_None_eq
      split: option.split prod.split)

lemma register_delete_returns:
  assumes "w_resources w \<noteq> None" "w_components w \<noteq> None"
  shows "register_delete n w \<noteq> None"
  using assms
  by (auto simp: register_delete_def component_is_locked_def resource_is_any_locked_by_component_def
      Let_def split: option.split prod.split)

lemma register_create_request_returns:
  assumes "w_heap w = []" "w_resources w \<noteq> None" "pick_tunnel (w_components w) (w_rand w) \<noteq> None"
    and "number_fits J (w_json w) data ''ttl'' (- (2 ^ 31)) (2 ^ 31)"
  shows "register_create_request J sid me topic data n w \<noteq> None"
proof -
  obtain a where a: "register_attributes J (w_json w) data (w_heap w) = ([], Some a)"
    using register_attributes_returns[OF assms(4)] assms(1) by metis
  have c: "register_create n' ds rl hk k ttl res c (w\<lparr>w_heap := []\<rparr>) \<noteq> None"
    for n' ds rl hk k ttl res c
    using assms(2,3) by (intro register_create_returns) simp_all
  show ?thesis using a c
    by (cases a) (auto simp: register_create_request_def split: option.split)
qed

lemma register_procedure_returns:
  assumes "w_heap w0 = []" "w_resources w0 \<noteq> None" "w_components w0 \<noteq> None"
    and "pick_tunnel (w_components w0) (w_rand w0) \<noteq> None"
    and "me = RESOURCE_METHOD_CREATE \<Longrightarrow>
      number_fits J (w_json (register_check_topic J sid me topic w0)) data ''ttl'' (- (2 ^ 31)) (2 ^ 31)"
  shows "register_procedure J sid me topic data w0 \<noteq> None"
proof -
  obtain w where w: "w = register_check_topic J sid me topic w0" by simp
  have f: "w_resources (register_refuse J sid me topic e w0) = w_resources w0"
    "w_components (register_refuse J sid me topic e w0) = w_components w0"
    "w_rand (register_refuse J sid me topic e w0) = w_rand w0" for e
    by (cases e; simp add: register_refuse_def frame_simps)+
  have h: "w_heap w = []" "w_resources w \<noteq> None" "w_components w \<noteq> None"
    "pick_tunnel (w_components w) (w_rand w) \<noteq> None"
    using assms(1-4) by (simp_all add: w register_check_topic_def f register_refuse_heap)
  show ?thesis
    using assms(5)
    unfolding register_procedure_def register_other_method_def Let_def w[symmetric]
    by (simp add: register_create_request_returns[OF h(1,2,4)] register_delete_returns[OF h(2,3)]
        del: not_None_eq split: sum.split prod.split option.split)
qed

section \<open>Lookups and requests\<close>

lemma dependency_procedure_returns:
  assumes "w_components w0 = Some cs" "components_ok (Some cs)" "hooks_ranked rank cs"
  shows "lookup_resource_dependency_procedure J sid me topic w0 \<noteq> None"
proof -
  have "dependency_read_request J sid me topic w \<noteq> None" if "w_components w = Some cs" for me w
    using that
    by (simp add: dependency_read_request_def Let_def frame_simps dependency_read_returns[OF _ assms(2,3)]
        split: option.split)
  then show ?thesis
    using assms(1)
    by (simp add: lookup_resource_dependency_procedure_def Let_def frame_simps del: not_None_eq)
qed

lemma routing_procedure_returns:
  assumes "w_heap w = []" "w_resources w = Some rs" "resources_ok (Some rs)"
    and "w_components w = Some cs" "components_ok (Some cs)" "hooks_ranked rank cs"
  shows "routing_procedure J root sid me tp tn code data w \<noteq> None"
  using routing_req_returns[OF assms] session_step_update_defined
  by (auto simp: routing_procedure_def routing_res_def split: option.split)
    (metis option.distinct(1))+

section \<open>Messages\<close>

lemma dispatch_handler_returns:
  assumes "w_heap w = []" "w_resources w = Some rs" "resources_ok (Some rs)"
    and "w_components w = Some cs" "components_ok (Some cs)" "hooks_ranked rank cs"
    and "pick_tunnel (w_components w) (w_rand w) \<noteq> None"
    and "topic = SANJI_REGISTER_RESOURCE \<Longrightarrow> ttl_fits J x w"
  shows "dispatch_handler J topic root x w \<noteq> None"
  using assms(2,4,8)
  by (simp add: dispatch_handler_def ttl_fits_def routing_procedure_returns[OF assms(1-6)]
      dependency_procedure_returns[OF assms(4-6)] register_procedure_returns[OF assms(1) _ _ assms(7)]
      del: not_None_eq)

lemma message_returns:
  assumes "w_heap w = []" "w_resources w = Some rs" "resources_ok (Some rs)"
    and "w_components w = Some cs" "components_ok (Some cs)" "hooks_ranked rank cs"
    and "pick_tunnel (w_components w) (w_rand w) \<noteq> None" "numbers_fit J msg w"
  shows "\<exists>w'. sanji_message_callback J msg w = Some w'"
proof -
  obtain ret root x h1 where p: "sanji_parse_context J (msg_payload msg) empty_context (w_json w) = Some (ret, root, x, h1)"
    using numbers_fit_parsed[OF assms(8)] by auto
  then have t: "ttl_fits J x (w\<lparr>w_json := h1\<rparr>)" if "msg_topic msg = SANJI_REGISTER_RESOURCE"
    using assms(8) that by (simp add: numbers_fit_def)
  obtain v where "dispatch_handler J (msg_topic msg) root x (w\<lparr>w_json := h1\<rparr>) = Some v"
    using dispatch_handler_returns[of "w\<lparr>w_json := h1\<rparr>" rs cs rank "msg_topic msg" J x root] assms(1-7) t by auto
  then show ?thesis
    using p by (simp add: sanji_message_callback_def sanji_dispatch_context_def Let_def)
qed


text \<open>
  An identifier or a code that does not fit its variable is read all the same: the conversion
  is undefined, whatever the state.
\<close>

lemma unfit_number_undefined:
  assumes "\<not> msg_retain msg" "0 < msg_payloadlen msg" "msg_payloadlen msg < SANJI_MAX_CONTEXT_LEN"
    and "msg_payload msg = Some t" "json_loads J (w_json w) t = (Some r, h1)" "\<not> header_fits J h1 (Some r)"
  shows "sanji_message_callback J msg w = None"
proof -
  have "sanji_parse_context J (msg_payload msg) empty_context (w_json w) = None"
    using assms(4-6) by (simp add: parse_context_None)
  then show ?thesis
    using assms(1-4) by (simp add: sanji_message_callback_def sanji_dispatch_context_def)
qed

lemma negative_identifier_undefined:
  "sanji_message_callback (static_json [(''r'', JObject [(''id'', JNumber (-1))])])
     \<lparr> msg_topic = ''/controller'', msg_payload = Some ''r'', msg_payloadlen = 1, msg_retain = False \<rparr> w = None"
  by (rule unfit_number_undefined[where t = "''r''" and r = "JObject [(''id'', JNumber (-1))]"])
    (simp_all add: static_json_def header_fits_def number_fits_def typed_member_def member_of_def)

end
