(* ===== verification/Config_Facts.thy ===== *)
theory Config_Facts
  imports Config
begin

text \<open>
  Starting the controller: what the configuration file contributes, the bounds that hold of a
  configuration the controller starts with, and when the attempts to connect end.
\<close>

section \<open>The configuration file\<close>

text \<open>The value of a key in the global section of a configuration text.\<close>

definition global_value :: "ini_doc \<Rightarrow> string \<Rightarrow> string option" where
  "global_value doc key =
     (case map_of (rev (ini_entries doc)) (''global'' @ '':'' @ key) of
        Some (Some v) \<Rightarrow> Some v
      | _ \<Rightarrow> None)"

text \<open>A configuration with the values of a configuration text over those it has.\<close>

definition or_else :: "('a \<Rightarrow> 'b) \<Rightarrow> 'a option \<Rightarrow> 'b \<Rightarrow> 'b" where
  "or_else f v d = (case v of None \<Rightarrow> d | Some x \<Rightarrow> f x)"

definition nonempty_or :: "string option \<Rightarrow> string option \<Rightarrow> string option" where
  "nonempty_or v d = (case v of None \<Rightarrow> d | Some x \<Rightarrow> if x = [] then d else Some x)"

definition host_or :: "string option \<Rightarrow> string \<Rightarrow> string" where
  "host_or v d = (case v of None \<Rightarrow> d | Some x \<Rightarrow> if length x < 16 then x else d)"

definition configured :: "(string \<Rightarrow> string option) \<Rightarrow> sanji_config \<Rightarrow> sanji_config" where
  "configured g c =
     c\<lparr>c_host := host_or (g ''host'') (c_host c),
       c_port := or_else atoi (g ''port'') (c_port c),
       c_retry := or_else atoi (g ''retry'') (c_retry c),
       c_keepalive := or_else atoi (g ''keepalive'') (c_keepalive c),
       c_clean_session := or_else (\<lambda>v. v = ''true'') (g ''clean_session'') (c_clean_session c),
       c_sub_qos := or_else atoi (g ''sub_qos'') (c_sub_qos c),
       c_pub_qos := or_else atoi (g ''pub_qos'') (c_pub_qos c),
       c_client_id := nonempty_or (g ''client_id'') (c_client_id c),
       c_username := nonempty_or (g ''username'') (c_username c),
       c_password := nonempty_or (g ''password'') (c_password c),
       c_refresh_interval := or_else atoi (g ''refresh_interval'') (c_refresh_interval c),
       c_local_id := nonempty_or (g ''local_id'') (c_local_id c),
       c_mosq_debug := or_else (\<lambda>v. v = ''true'') (g ''mosq_debug'') (c_mosq_debug c)\<rparr>"

lemma entries_no_NUL:
  assumes "doc_ok doc" "(k, Some v) \<in> set (ini_entries doc)"
  shows "NUL \<notin> set v"
  using assms by (fastforce simp: doc_ok_def ini_entries_def section_entries_def list_all_iff pair_ok_def
      value_ok_def word_ok_def)

lemma global_value_no_NUL: "doc_ok doc \<Longrightarrow> global_value doc key = Some v \<Longrightarrow> NUL \<notin> set v"
  by (auto simp: global_value_def split: option.splits dest!: map_of_SomeD dest: entries_no_NUL)

lemma with_key_value:
  assumes "doc_ok doc" "ini_ok t" "ini_view t = map_of (rev (ini_entries doc))"
    and key: "word_ok key" "length key \<le> 100"
  shows "with_key t key f mc =
    (case global_value doc key of None \<Rightarrow> Some mc
     | Some v \<Rightarrow> if length v < 128 then f v mc else None)"
proof -
  have "word_ok ''global''" by code_simp
  then have k: "ini_findkey (Some t) (Some ''global'') (Some key) [] 128 =
      Some (case ini_view t (''global'' @ '':'' @ key) of
              Some (Some v) \<Rightarrow> (0, take 128 (v @ replicate 128 NUL)) | _ \<Rightarrow> (1, replicate 128 NUL))"
    using findkey_view[OF assms(2) _ key(1), of "''global''" "[]" 128] key(2)
    by (simp split: option.splits)
  show ?thesis
  proof (cases "global_value doc key")
    case None
    then show ?thesis using k assms(3) by (auto simp: with_key_def global_value_def split: option.splits)
  next
    case (Some v)
    have nul: "NUL \<notin> set v" by (rule global_value_no_NUL[OF assms(1) Some])
    have view: "ini_view t (''global'' @ '':'' @ key) = Some (Some v)"
      using Some assms(3) by (simp add: global_value_def split: option.splits)
    show ?thesis
    proof (cases "length v < 128")
      case True
      define n where "n = 127 - length v"
      have "take 128 (v @ replicate 128 NUL) = v @ NUL # replicate n NUL"
        using True by (simp add: n_def min_def Suc_diff_Suc flip: replicate_Suc)
      then show ?thesis using True Some view k nul by (simp add: with_key_def)
    next
      case False
      then have "take 128 (v @ replicate 128 NUL) = take 128 v" by simp
      moreover have "NUL \<notin> set (take 128 v)" using nul by (meson in_set_takeD)
      ultimately show ?thesis using False Some view k by (simp add: with_key_def)
    qed
  qed
qed

text \<open>A value that does not fit the buffer it is copied to.\<close>

definition overlong :: "ini_doc \<Rightarrow> string \<Rightarrow> bool" where
  "overlong doc key \<longleftrightarrow> (case global_value doc key of None \<Rightarrow> False | Some v \<Rightarrow> 128 \<le> length v)"

text \<open>What one block of the file does to the configuration.\<close>

definition key_step ::
    "string option \<Rightarrow> (string \<Rightarrow> heap \<times> sanji_config \<Rightarrow> (heap \<times> sanji_config) option) \<Rightarrow> sanji_config \<Rightarrow> sanji_config" where
  "key_step g f c = (case g of None \<Rightarrow> c | Some v \<Rightarrow> snd (the (f v ([], c))))"

definition apply_keys ::
    "ini_doc \<Rightarrow> (string \<times> (string \<Rightarrow> heap \<times> sanji_config \<Rightarrow> (heap \<times> sanji_config) option)) list \<Rightarrow>
     sanji_config \<Rightarrow> sanji_config" where
  "apply_keys doc ks c =
     foldl (\<lambda>c kf. key_step (global_value doc (fst kf)) (snd kf) c) c ks"

definition key_defined :: "string \<times> (string \<Rightarrow> heap \<times> sanji_config \<Rightarrow> (heap \<times> sanji_config) option) \<Rightarrow> bool" where
  "key_defined kf \<longleftrightarrow> word_ok (fst kf) \<and> length (fst kf) \<le> 100 \<and> (\<forall>v c. \<exists>c'. snd kf v ([], c) = Some ([], c'))"

lemma load_keys_values:
  assumes "doc_ok doc" "ini_ok t" "ini_view t = map_of (rev (ini_entries doc))"
  shows "list_all key_defined ks \<Longrightarrow>
    load_keys t ks ([], c) =
      (if list_ex (\<lambda>kf. overlong doc (fst kf)) ks then None else Some ([], apply_keys doc ks c))"
proof (induction ks arbitrary: c)
  case Nil
  then show ?case by (simp add: apply_keys_def)
next
  case (Cons kf ks)
  obtain key f where kf: "kf = (key, f)" by (cases kf)
  have k: "word_ok key" "length key \<le> 100" "\<And>v c. \<exists>c'. f v ([], c) = Some ([], c')"
    using Cons.prems kf by (auto simp: key_defined_def)
  note w = with_key_value[OF assms k(1,2), of f "([], c)"]
  show ?case
  proof (cases "global_value doc key")
    case None
    then show ?thesis using w Cons by (simp add: kf overlong_def apply_keys_def key_step_def)
  next
    case (Some v)
    obtain c' where "f v ([], c) = Some ([], c')" using k(3) by blast
    then show ?thesis using Some w Cons by (simp add: kf overlong_def apply_keys_def key_step_def)
  qed
qed

lemma config_keys_defined: "list_all key_defined config_keys"
proof -
  have "list_all (\<lambda>kf. word_ok (fst kf) \<and> length (fst kf) \<le> 100) config_keys"
    by (simp add: config_keys_def word_ok_def isspace_def)
  moreover have "list_all (\<lambda>kf. \<forall>v c. \<exists>c'. snd kf v ([], c) = Some ([], c')) config_keys"
    by (simp add: config_keys_def set_field_def copy_field_def copy_unchecked_def)
  ultimately show ?thesis by (auto simp: list_all_iff key_defined_def)
qed

lemma key_steps:
  "key_step g (set_field host_field) c =
     c\<lparr>c_host := host_or g (c_host c)\<rparr>"
  "key_step g (set_field (\<lambda>v. c_port_update (\<lambda>_. atoi v))) c = c\<lparr>c_port := or_else atoi g (c_port c)\<rparr>"
  "key_step g (set_field (\<lambda>v. c_retry_update (\<lambda>_. atoi v))) c = c\<lparr>c_retry := or_else atoi g (c_retry c)\<rparr>"
  "key_step g (set_field (\<lambda>v. c_keepalive_update (\<lambda>_. atoi v))) c = c\<lparr>c_keepalive := or_else atoi g (c_keepalive c)\<rparr>"
  "key_step g (set_field (\<lambda>v. c_clean_session_update (\<lambda>_. v = ''true''))) c = c\<lparr>c_clean_session := or_else (\<lambda>v. v = ''true'') g (c_clean_session c)\<rparr>"
  "key_step g (set_field (\<lambda>v. c_sub_qos_update (\<lambda>_. atoi v))) c = c\<lparr>c_sub_qos := or_else atoi g (c_sub_qos c)\<rparr>"
  "key_step g (set_field (\<lambda>v. c_pub_qos_update (\<lambda>_. atoi v))) c = c\<lparr>c_pub_qos := or_else atoi g (c_pub_qos c)\<rparr>"
  "key_step g (set_field (\<lambda>v. c_refresh_interval_update (\<lambda>_. atoi v))) c = c\<lparr>c_refresh_interval := or_else atoi g (c_refresh_interval c)\<rparr>"
  "key_step g (set_field (\<lambda>v. c_mosq_debug_update (\<lambda>_. v = ''true''))) c = c\<lparr>c_mosq_debug := or_else (\<lambda>v. v = ''true'') g (c_mosq_debug c)\<rparr>"
  "key_step g (copy_field (\<lambda>v. c_client_id_update (\<lambda>_. Some v))) c = c\<lparr>c_client_id := nonempty_or g (c_client_id c)\<rparr>"
  "key_step g (copy_field (\<lambda>v. c_username_update (\<lambda>_. Some v))) c = c\<lparr>c_username := nonempty_or g (c_username c)\<rparr>"
  "key_step g (copy_field (\<lambda>v. c_password_update (\<lambda>_. Some v))) c = c\<lparr>c_password := nonempty_or g (c_password c)\<rparr>"
  "key_step g (copy_field (\<lambda>v. c_local_id_update (\<lambda>_. Some v))) c = c\<lparr>c_local_id := nonempty_or g (c_local_id c)\<rparr>"
  by (cases g; simp add: key_step_def set_field_def copy_field_def copy_unchecked_def host_field_def
      or_else_def nonempty_or_def host_or_def)+

lemma apply_config_keys: "apply_keys doc config_keys c = configured (global_value doc) c"
  unfolding apply_keys_def config_keys_def foldl.simps fst_conv snd_conv key_steps
  by (cases c) (simp add: configured_def)

lemma load_config_text:
  assumes "doc_ok doc" "fopen (c_config_file c) = Some (ini_text doc)"
  shows "sanji_load_config_file fopen [] c =
    Some (if list_ex (\<lambda>kf. overlong doc (fst kf)) config_keys then None
          else Some ([], configured (global_value doc) c, 0))"
proof -
  obtain t where t: "ini_init fopen [] (Some (c_config_file c)) = Some (Some ([], Some t))" "ini_ok t"
    "ini_view t = map_of (rev (ini_entries doc))"
    using init_text[of doc fopen "c_config_file c"] assms by blast
  have "ini_release (Some t) = Some ()" using t(2) by (auto simp: ini_release_def elim: ini_okE)
  then show ?thesis
    using t load_keys_values[OF assms(1) t(2,3) config_keys_defined, of c]
    by (simp add: sanji_load_config_file_def apply_config_keys)
qed

section \<open>What holds of a configuration the controller starts with\<close>

abbreviation host_fits :: "sanji_config \<Rightarrow> bool" where
  "host_fits c \<equiv> length (c_host c) < 16"

lemma cmdline_option_host:
  "cmdline_option m c opt = Some (m', r) \<Longrightarrow> host_fits c \<Longrightarrow> case_sum host_fits host_fits r"
  by (cases opt) (auto simp: cmdline_option_def Let_def split: if_splits)

lemma cmdline_host:
  "sanji_get_cmdline_options m opts c = Some (m', c', ret) \<Longrightarrow> host_fits c \<Longrightarrow> host_fits c'"
proof (induction m opts c rule: sanji_get_cmdline_options.induct)
  case (2 m opt opts c)
  obtain m1 r where r: "cmdline_option m c opt = Some (m1, r)"
    using "2.prems"(1) by (auto simp: bind_eq_Some_conv)
  show ?case using 2 r cmdline_option_host[OF r] by (cases r) auto
qed simp

lemma keys_keep_host:
  "list_all (\<lambda>kf. \<forall>v mc mc'. snd kf v mc = Some mc' \<longrightarrow> host_fits (snd mc) \<longrightarrow> host_fits (snd mc')) config_keys"
  by (auto simp: config_keys_def set_field_def copy_field_def host_field_def split: if_splits)

lemma load_keys_host:
  "list_all (\<lambda>kf. \<forall>v mc mc'. snd kf v mc = Some mc' \<longrightarrow> host_fits (snd mc) \<longrightarrow> host_fits (snd mc')) ks \<Longrightarrow>
   load_keys t ks mc = Some mc' \<Longrightarrow> host_fits (snd mc) \<Longrightarrow> host_fits (snd mc')"
proof (induction ks arbitrary: mc)
  case (Cons kf ks)
  obtain key f where kf: "kf = (key, f)" by (cases kf)
  obtain mc1 where w: "with_key t key f mc = Some mc1" "load_keys t ks mc1 = Some mc'"
    using Cons.prems(2) kf by (auto simp: bind_eq_Some_conv)
  have "mc1 = mc \<or> (\<exists>v. f v mc = Some mc1)"
    using w(1) by (auto simp: with_key_def bind_eq_Some_conv split: if_splits)
  then have "host_fits (snd mc1)" using Cons.prems(1,3) kf
    by (cases mc; cases mc1; auto)
  then show ?case using Cons.IH[OF _ w(2)] Cons.prems(1) by simp
qed simp

lemma load_config_host:
  "sanji_load_config_file fopen m c = Some (Some (m', c', ret)) \<Longrightarrow> host_fits c \<Longrightarrow> host_fits c'"
  using load_keys_host[OF keys_keep_host]
  by (fastforce simp: sanji_load_config_file_def bind_eq_Some_conv split: option.splits)

lemma config_init_host: "sanji_config_init m = Some (m', Some c) \<Longrightarrow> host_fits c"
  by (auto simp: sanji_config_init_def copy_unchecked_def Let_def split: prod.splits if_splits)

lemma start_cases:
  assumes "sanji_start id_max fopen opts m = Some (Some (m', Inr (c, u)))"
  shows "\<exists>m3. host_fits c \<and> sanji_validate_configs id_max c = 0 \<and>
    sanji_userdata_init id_max m3 c = Some (m', Some u)"
proof -
  obtain m1 c0 where i: "sanji_config_init m = Some (m1, Some c0)"
    using assms by (auto simp: sanji_start_def split: option.splits prod.splits)
  obtain m2 c1 where o1: "sanji_get_cmdline_options m1 opts c0 = Some (m2, c1, 0)"
    using assms i by (auto simp: sanji_start_def split: option.splits prod.splits if_splits)
  obtain m3 ret where l: "sanji_load_config_file fopen m2 c1 = Some (Some (m3, c, ret))"
    and v: "sanji_validate_configs id_max c = 0" "sanji_userdata_init id_max m3 c = Some (m', Some u)"
    using assms i o1
    by (auto simp: sanji_start_def bind_eq_Some_conv split: option.splits prod.splits if_splits)
  show ?thesis
    using load_config_host[OF l] cmdline_host[OF o1] config_init_host[OF i] v by blast
qed

lemma validate_ok:
  "sanji_validate_configs id_max c = 0 \<Longrightarrow>
   1 \<le> c_port c \<and> c_port c \<le> 65535 \<and> c_retry c \<le> 65535 \<and> c_keepalive c \<le> 65535 \<and>
   c_sub_qos c \<in> {0..2} \<and> c_pub_qos c \<in> {0..2} \<and> 0 \<le> c_refresh_interval c \<and> c_refresh_interval c \<le> 65535 \<and>
   (\<forall>l. c_local_id c = Some l \<longrightarrow> length l \<le> id_max)"
  by (auto simp: sanji_validate_configs_def split: if_splits option.splits)

lemma push_topic_Some: "push_topic t mt = Some mt' \<Longrightarrow> snd mt' = snd mt @ [t]"
  by (auto simp: push_topic_def split: prod.splits if_splits)

lemma sprintf_Some: "sprintf_into n s = Some r \<longleftrightarrow> r = s \<and> length s < n"
  by (auto simp: sprintf_into_def)

definition client_name :: "sanji_config \<Rightarrow> string" where
  "client_name c =
     (case c_client_id c of Some i \<Rightarrow> i
      | None \<Rightarrow> (case c_local_id c of Some l \<Rightarrow> l | None \<Rightarrow> ''controller''))"

definition local_topic :: "string \<Rightarrow> string" where
  "local_topic l = ''/'' @ l @ ''/controller''"

lemma userdata_init_Some:
  assumes "sanji_userdata_init id_max m c = Some (m', Some u)"
  shows "ud_pub_qos u = c_pub_qos c \<and> ud_sub_qos u = c_sub_qos c \<and> ud_client_id u = client_name c \<and>
    length (ud_client_id u) \<le> id_max \<and>
    ud_local_id_topic u = (case c_local_id c of None \<Rightarrow> [] | Some l \<Rightarrow> local_topic l) \<and>
    length (ud_local_id_topic u) < 256 \<and>
    ud_topics u = ''/controller'' # (case c_local_id c of None \<Rightarrow> [] | Some l \<Rightarrow> [local_topic l]) @
      [''/controller/registration'', ''/controller/resource/dependency'']"
proof (cases "c_local_id c")
  case None
  then show ?thesis using assms
    by (auto simp: sanji_userdata_init_def client_name_def Let_def bind_eq_Some_conv sprintf_Some
        split: prod.splits if_splits option.splits dest!: push_topic_Some)
next
  case (Some l)
  then show ?thesis using assms
    by (auto simp: sanji_userdata_init_def client_name_def local_topic_def Let_def bind_eq_Some_conv sprintf_Some
        split: prod.splits if_splits option.splits dest!: push_topic_Some)
qed

section \<open>Connecting\<close>

lemma handle_quiet: "Sig_quit \<notin> set ss \<Longrightarrow> sanji_run (handle ss f) = sanji_run f"
proof (induction ss arbitrary: f)
  case Nil
  then show ?case by (simp add: handle_def)
next
  case (Cons s ss)
  have "handle (s # ss) f = handle ss (case s of Sig_quit \<Rightarrow> sanji_signal_quit f | Sig_dump \<Rightarrow> sanji_signal_dump f)"
    by (simp add: handle_def)
  then show ?case using Cons by (cases s) (simp_all add: sanji_signal_dump_def)
qed

text \<open>The attempts when the number of retries is not negative: at most one more than are left to do.\<close>

lemma connect_ends:
  "0 \<le> retry \<Longrightarrow> nat retry \<le> Suc k \<Longrightarrow>
   \<exists>rc n' fl' r. connect_loop err_inval answer signals n fl retry = Some (rc, n', fl', r) \<and>
     n < n' \<and> n' \<le> n + Suc k \<and> rc = fst (answer (n' - 1)) \<and>
     (\<forall>i. n \<le> i \<and> i < n' - 1 \<longrightarrow> fst (answer i) \<noteq> 0) \<and>
     (rc = 0 \<or> \<not> sanji_run fl' \<or> int (n' - n) = max 1 retry)"
proof (induction k arbitrary: n fl retry)
  case 0
  obtain rc e where a: "answer n = (rc, e)" by (metis surj_pair)
  have "retry = 0 \<or> retry = 1" using 0 by linarith
  then show ?case using a by (subst connect_loop.simps) (auto simp: Let_def)
next
  case (Suc k)
  obtain rc e where a: "answer n = (rc, e)" by (metis surj_pair)
  let ?fl1 = "handle (signals n) fl"
  let ?fl2 = "if rc = err_inval \<or> e then ?fl1\<lparr>sanji_run := False\<rparr> else ?fl1"
  let ?retry1 = "if retry > 0 then retry - 1 else retry"
  show ?case
  proof (cases "rc \<noteq> 0 \<and> sanji_run ?fl2 \<and> (?retry1 > 0 \<or> ?retry1 < 0)")
    case True
    then have st: "connect_loop err_inval answer signals n fl retry =
        connect_loop err_inval answer signals (n + 1) ?fl2 ?retry1"
      using a by (subst connect_loop.simps) (simp add: Let_def)
    have r: "?retry1 = retry - 1" "1 \<le> ?retry1" using True Suc.prems by (auto split: if_splits)
    have ih: "0 \<le> ?retry1" "nat ?retry1 \<le> Suc k" using r Suc.prems by linarith+
    obtain rc' n' fl' r' where IH: "connect_loop err_inval answer signals (n + 1) ?fl2 ?retry1 = Some (rc', n', fl', r')"
      "n + 1 < n'" "n' \<le> n + 1 + Suc k" "rc' = fst (answer (n' - 1))"
      "\<forall>i. n + 1 \<le> i \<and> i < n' - 1 \<longrightarrow> fst (answer i) \<noteq> 0"
      "rc' = 0 \<or> \<not> sanji_run fl' \<or> int (n' - (n + 1)) = max 1 ?retry1"
      using Suc.IH[OF ih, of "n + 1" ?fl2] by blast
    have "fst (answer i) \<noteq> 0" if "n \<le> i" "i < n' - 1" for i
      using that True IH(5) a by (cases "i = n") auto
    moreover have "int (n' - (n + 1)) = max 1 ?retry1 \<Longrightarrow> int (n' - n) = max 1 retry"
      using r IH(2) by (simp add: max_def)
    ultimately show ?thesis using st IH by auto
  next
    case False
    have "connect_loop err_inval answer signals n fl retry =
        Some (rc, n + 1, if rc \<noteq> 0 then ?fl2 else ?fl1, if rc \<noteq> 0 then ?retry1 else retry)"
      using a False by (subst connect_loop.simps) (auto simp: Let_def)
    moreover have "?retry1 = 0 \<Longrightarrow> max 1 retry = 1" using Suc.prems by (auto split: if_splits)
    ultimately show ?thesis using a False Suc.prems by auto
  qed
qed

text \<open>Answers and signals that never stop the attempts.\<close>

definition always_failing :: "int \<Rightarrow> (nat \<Rightarrow> int \<times> bool) \<Rightarrow> (nat \<Rightarrow> signal list) \<Rightarrow> bool" where
  "always_failing err_inval answer signals \<longleftrightarrow>
     (\<forall>i. fst (answer i) \<noteq> 0 \<and> fst (answer i) \<noteq> err_inval \<and> \<not> snd (answer i) \<and> Sig_quit \<notin> set (signals i))"

lemma connect_for_ever:
  assumes "connect_loop err_inval answer signals n fl retry = Some y"
  shows "\<not> (retry < 0 \<and> sanji_run fl \<and> always_failing err_inval answer signals)"
proof (rule connect_loop.raw_induct[OF _ assms, where P = "\<lambda>err_inval answer signals n fl retry y.
    \<not> (retry < 0 \<and> sanji_run fl \<and> always_failing err_inval answer signals)"], rule notI)
  fix loop err_inval answer signals n fl and retry :: int and y
  assume IH: "\<And>err_inval answer signals n fl retry y.
      loop err_inval answer signals n fl retry = Some y \<Longrightarrow>
      \<not> (retry < 0 \<and> sanji_run fl \<and> always_failing err_inval answer signals)"
    and st: "(let (rc, einval) = answer n; fl1 = handle (signals n) fl
      in if rc \<noteq> 0
         then let fl2 = (if rc = err_inval \<or> einval then fl1\<lparr>sanji_run := False\<rparr> else fl1);
                  retry1 = (if 0 < retry then retry - 1 else retry)
              in if sanji_run fl2 \<and> (0 < retry1 \<or> retry1 < 0)
                 then loop err_inval answer signals (n + 1) fl2 retry1
                 else Some (rc, n + 1, fl2, retry1)
         else Some (rc, n + 1, fl1, retry)) = Some y"
    and q: "retry < 0 \<and> sanji_run fl \<and> always_failing err_inval answer signals"
  obtain rc e where a: "answer n = (rc, e)" by (metis surj_pair)
  have h: "rc \<noteq> 0" "rc \<noteq> err_inval" "\<not> e" "sanji_run (handle (signals n) fl)"
    using q a handle_quiet[of "signals n" fl] unfolding always_failing_def
    by (metis fst_conv, metis fst_conv, metis snd_conv, metis)
  then have "loop err_inval answer signals (n + 1) (handle (signals n) fl) retry = Some y"
  proof -
    have "retry < 0" using q by simp
    moreover from this have "\<not> 0 < retry" by simp
    ultimately show ?thesis using st a h by (simp add: Let_def)
  qed
  then show False using IH h(4) q by blast
qed

lemma connect_bounded:
  assumes "0 \<le> retry"
  shows "\<exists>rc n fl' r. connect_loop err_inval answer signals 0 fl retry = Some (rc, n, fl', r) \<and>
    0 < n \<and> int n \<le> max 1 retry \<and> rc = fst (answer (n - 1)) \<and>
    (\<forall>i < n - 1. fst (answer i) \<noteq> 0) \<and> (rc = 0 \<or> \<not> sanji_run fl' \<or> int n = max 1 retry)"
proof -
  have "nat retry \<le> Suc (nat retry - 1)" by linarith
  from connect_ends[OF assms this, of err_inval answer signals 0 fl] show ?thesis
  proof (elim exE conjE)
    fix rc n fl' r
    assume r: "connect_loop err_inval answer signals 0 fl retry = Some (rc, n, fl', r)"
      "0 < n" "n \<le> 0 + Suc (nat retry - 1)" "rc = fst (answer (n - 1))"
      "\<forall>i. 0 \<le> i \<and> i < n - 1 \<longrightarrow> fst (answer i) \<noteq> 0"
      "rc = 0 \<or> \<not> sanji_run fl' \<or> int (n - 0) = max 1 retry"
    have "int n \<le> max 1 retry" using r(3) assms by (auto simp: max_def)
    moreover have "\<forall>i < n - 1. fst (answer i) \<noteq> 0" using r(5) by simp
    moreover have "rc = 0 \<or> \<not> sanji_run fl' \<or> int n = max 1 retry" using r(6) by simp
    ultimately have all: "connect_loop err_inval answer signals 0 fl retry = Some (rc, n, fl', r) \<and>
        0 < n \<and> int n \<le> max 1 retry \<and> rc = fst (answer (n - 1)) \<and>
        (\<forall>i < n - 1. fst (answer i) \<noteq> 0) \<and> (rc = 0 \<or> \<not> sanji_run fl' \<or> int n = max 1 retry)"
      using r(1,2,4) by simp
    show ?thesis by (rule exI[of _ rc], rule exI[of _ n], rule exI[of _ fl'], rule exI[of _ r], rule all)
  qed
qed

text \<open>A client id longer than an MQTT id is printed beyond its buffer; nothing bounds it before.\<close>

lemma long_client_id_undefined:
  assumes "c_client_id c = Some i" "id_max < length i"
  shows "sanji_userdata_init id_max [] c = None"
  using assms by (simp add: sanji_userdata_init_def sprintf_into_def)

section \<open>Properties\<close>

text \<open>
  C24. The configuration file is read over the configuration the command line left: from the
  text of a configuration every setting named in its global section takes the value given there
  last (numbers read as such, the switches true exactly for the word true, an empty or overlong
  value ignored where the code ignores it), whatever the command line said, and every other
  setting stays. A value of 128 or more characters is copied without a terminator, and reading
  it is undefined.
\<close>

theorem config_file_overrides:
  assumes "doc_ok doc" "fopen (c_config_file c) = Some (ini_text doc)"
  shows "sanji_load_config_file fopen [] c =
    Some (if list_ex (\<lambda>kf. overlong doc (fst kf)) config_keys then None
          else Some ([], configured (global_value doc) c, 0))"
  by (rule load_config_text[of doc fopen c]) (rule assms)+

definition sample_config :: sanji_config where
  "sample_config = snd (the (map_option (\<lambda>(m, c). (m, the c)) (sanji_config_init [])))"

theorem config_file_overrides_witness:
  "sanji_load_config_file (\<lambda>_. Some (ini_text sample_doc)) [] (sample_config\<lparr>c_port := 7\<rparr>) =
     Some (Some ([], sample_config\<lparr>c_host := ''10.0.0.1'', c_port := 1884\<rparr>, 0))"
proof -
  have d: "doc_ok sample_doc" by code_simp
  have o1: "\<not> list_ex (\<lambda>kf. overlong sample_doc (fst kf)) config_keys" by code_simp
  have c: "configured (global_value sample_doc) (sample_config\<lparr>c_port := 7\<rparr>) =
      sample_config\<lparr>c_host := ''10.0.0.1'', c_port := 1884\<rparr>" by code_simp
  show ?thesis
    using config_file_overrides[OF d, of "\<lambda>_. Some (ini_text sample_doc)" "sample_config\<lparr>c_port := 7\<rparr>"] o1 c
    by simp
qed

text \<open>
  C23. The controller only starts with settings in their ranges, whatever the command line and
  the configuration file hold: the host fits its buffer, the port is a port, the qualities of
  service are 0 to 2, the refresh interval and the upper bounds of retries and keep-alive fit
  16 bits, the local id fits an MQTT id; and the user data hold what the settings say: the
  client id (its own, else the local id, else the name of the controller) and the local topic
  fit their buffers, and the topics are the controller's, the local one if there is one, and
  those of the two built-in models.
\<close>

theorem started_configuration_valid:
  assumes "sanji_start id_max fopen opts m = Some (Some (m', Inr (c, u)))"
  shows "length (c_host c) < 16 \<and> 1 \<le> c_port c \<and> c_port c \<le> 65535 \<and> c_retry c \<le> 65535 \<and>
    c_keepalive c \<le> 65535 \<and> c_sub_qos c \<in> {0..2} \<and> c_pub_qos c \<in> {0..2} \<and>
    0 \<le> c_refresh_interval c \<and> c_refresh_interval c \<le> 65535 \<and>
    (\<forall>l. c_local_id c = Some l \<longrightarrow> length l \<le> id_max) \<and>
    ud_pub_qos u = c_pub_qos c \<and> ud_sub_qos u = c_sub_qos c \<and>
    ud_client_id u = client_name c \<and> length (ud_client_id u) \<le> id_max \<and>
    length (ud_local_id_topic u) < 256 \<and>
    ud_topics u = ''/controller'' # (case c_local_id c of None \<Rightarrow> [] | Some l \<Rightarrow> [local_topic l]) @
      [''/controller/registration'', ''/controller/resource/dependency'']"
proof -
  obtain m3 where s: "host_fits c" "sanji_validate_configs id_max c = 0"
    "sanji_userdata_init id_max m3 c = Some (m', Some u)"
    using start_cases[OF assms] by blast
  show ?thesis using s(1) validate_ok[OF s(2)] userdata_init_Some[OF s(3)] by auto
qed

definition sample_start :: "(heap \<times> (int + sanji_config \<times> main_userdata)) option option" where
  "sample_start = sanji_start 23 (\<lambda>_. None) [(CHR ''q'', ''1''), (CHR ''L'', ''cg-1'')] []"

theorem started_configuration_valid_witness:
  "\<exists>m c u. sample_start = Some (Some (m, Inr (c, u))) \<and> c_sub_qos c = 1 \<and> ud_sub_qos u = c_sub_qos c \<and>
     ud_topics u = [''/controller'', ''/cg-1/controller'', ''/controller/registration'', ''/controller/resource/dependency'']"
proof -
  have "(case sample_start of Some (Some (m, Inr (c, u))) \<Rightarrow> c_sub_qos c = 1 \<and> c_local_id c = Some ''cg-1'' | _ \<Rightarrow> False)"
    by code_simp
  then obtain m c u where s: "sample_start = Some (Some (m, Inr (c, u)))" "c_sub_qos c = 1" "c_local_id c = Some ''cg-1''"
    by (auto split: option.splits sum.splits) (metis sumE surj_pair)
  then show ?thesis
    using started_configuration_valid[of 23 "\<lambda>_. None" "[(CHR ''q'', ''1''), (CHR ''L'', ''cg-1'')]" "[]" m c u]
    by (auto simp: sample_start_def local_topic_def)
qed

text \<open>
  C25. The number of retries decides how long the controller tries to connect. When it is not
  negative the attempts come to an end, whatever the broker answers: there are at most as many
  as there are retries (one when there are none), every attempt before the last has failed, the
  result is the last answer, and the loop ends before the number is used up only when connected
  or stopped. When it is negative and the broker cannot be reached, the controller tries for
  ever, unless it is stopped.
\<close>

theorem connecting_ends_or_tries_for_ever:
  "(0 \<le> retry \<longrightarrow>
      (\<exists>rc n fl' r. connect_loop err_inval answer signals 0 fl retry = Some (rc, n, fl', r) \<and>
         0 < n \<and> int n \<le> max 1 retry \<and> rc = fst (answer (n - 1)) \<and>
         (\<forall>i < n - 1. fst (answer i) \<noteq> 0) \<and> (rc = 0 \<or> \<not> sanji_run fl' \<or> int n = max 1 retry))) \<and>
   (retry < 0 \<and> sanji_run fl \<and> always_failing err_inval answer signals \<longrightarrow>
      connect_loop err_inval answer signals 0 fl retry = None)"
proof (intro conjI impI)
  assume "0 \<le> retry"
  then show "\<exists>rc n fl' r. connect_loop err_inval answer signals 0 fl retry = Some (rc, n, fl', r) \<and>
      0 < n \<and> int n \<le> max 1 retry \<and> rc = fst (answer (n - 1)) \<and>
      (\<forall>i < n - 1. fst (answer i) \<noteq> 0) \<and> (rc = 0 \<or> \<not> sanji_run fl' \<or> int n = max 1 retry)"
    by (rule connect_bounded)
next
  assume "retry < 0 \<and> sanji_run fl \<and> always_failing err_inval answer signals"
  then show "connect_loop err_inval answer signals 0 fl retry = None"
    using connect_for_ever[of err_inval answer signals 0 fl retry]
    by (cases "connect_loop err_inval answer signals 0 fl retry") auto
qed

theorem connecting_ends_or_tries_for_ever_witness:
  "(\<exists>rc n fl' r. connect_loop 3 (\<lambda>n. (if n < 2 then 14 else 0, False)) (\<lambda>_. []) 0
     \<lparr>sanji_run = True, sanji_dump = False\<rparr> 5 = Some (rc, n, fl', r) \<and> int n \<le> 5) \<and>
   connect_loop 3 (\<lambda>_. (14, False)) (\<lambda>_. [Sig_dump]) 0 \<lparr>sanji_run = True, sanji_dump = False\<rparr> (-1) = None"
  using connecting_ends_or_tries_for_ever[of 5 3 "\<lambda>n. (if n < 2 then 14 else 0, False)" "\<lambda>_. []"
      "\<lparr>sanji_run = True, sanji_dump = False\<rparr>"]
    connecting_ends_or_tries_for_ever[of "-1" 3 "\<lambda>_. (14, False)" "\<lambda>_. [Sig_dump]"
      "\<lparr>sanji_run = True, sanji_dump = False\<rparr>"]
  by (simp add: always_failing_def) blast

end
