(* ===== verification/Main_Program.thy ===== *)
theory Main_Program
  imports Config_Facts Exclusion
begin

text \<open>
  \<open>main\<close> as a whole: the start of \<open>Config\<close>, the set-up of the process and of the client
  library, the loop that connects, and the event loop around \<open>mosquitto_loop\<close>, in which the
  library calls back into \<open>Dispatch\<close>.

  The client library and the process are parameters: the results of \<open>daemonize_process\<close>,
  \<open>mosquitto_new\<close>, \<open>mosquitto_username_pw_set\<close> and \<open>mosquitto_connect\<close>, and for each turn of
  the event loop the callbacks that \<open>mosquitto_loop\<close> makes, the time read afterwards and the
  signals taken. The loop is given the turns it makes, so its result is the state after them.
\<close>

section \<open>The event loop\<close>

datatype event = Connected | Message message

record turn =
  t_signals :: "signal list"
  t_events :: "event list"
  t_time :: int

record ('h, 'p) loop_state =
  ls_world :: "('h, 'p) world"
  ls_flags :: flags
  ls_last_time :: int

definition callback ::
    "('h, 'p) jansson \<Rightarrow> event \<Rightarrow> ('h, 'p) loop_state \<Rightarrow> ('h, 'p) loop_state option" where
  "callback J e st =
     (case e of
        Connected \<Rightarrow>
          let (ok, w) = sanji_connect_callback (ls_world st)
          in Some (st\<lparr>ls_world := w,
                      ls_flags := (if ok then ls_flags st else (ls_flags st)\<lparr>sanji_run := False\<rparr>)\<rparr>)
      | Message msg \<Rightarrow>
          map_option (\<lambda>w. st\<lparr>ls_world := w\<rparr>) (sanji_message_callback J msg (ls_world st)))"

fun callbacks ::
    "('h, 'p) jansson \<Rightarrow> event list \<Rightarrow> ('h, 'p) loop_state \<Rightarrow> ('h, 'p) loop_state option" where
  "callbacks J [] st = Some st"
| "callbacks J (e # es) st = Option.bind (callback J e st) (callbacks J es)"

text \<open>
  One turn: the callbacks, the refresh of the sessions, and the dump that a signal asked for.
  The dump changes nothing but its flag; what it prints, and when it is defined, is \<open>turn_dump\<close>
  in \<open>Display\<close>, where it is shown to be defined in the states reached with memory. After a failed
  append it reads outside an array, which is not a \<open>None\<close> of this definition. Reconnecting is left to
  the library.
\<close>

definition loop_turn ::
    "('h, 'p) jansson \<Rightarrow> turn \<Rightarrow> ('h, 'p) loop_state \<Rightarrow> ('h, 'p) loop_state option" where
  "loop_turn J t st =
     Option.bind (callbacks J (t_events t) (st\<lparr>ls_flags := handle (t_signals t) (ls_flags st)\<rparr>)) (\<lambda>st1.
     map_option (\<lambda>(last_time, w).
         st1\<lparr>ls_world := w, ls_last_time := last_time, ls_flags := (ls_flags st1)\<lparr>sanji_dump := False\<rparr>\<rparr>)
       (sanji_refresh_session J (ls_last_time st1) (t_time t) (ls_world st1)))"

fun main_loop ::
    "('h, 'p) jansson \<Rightarrow> turn list \<Rightarrow> ('h, 'p) loop_state \<Rightarrow> ('h, 'p) loop_state option" where
  "main_loop J [] st = Some st"
| "main_loop J (t # ts) st =
     (if sanji_run (ls_flags st) then Option.bind (loop_turn J t st) (main_loop J ts) else Some st)"

section \<open>The program\<close>

record library =
  lib_daemonize :: int
  lib_new :: bool
  lib_pw_set :: int
  lib_err_inval :: int
  lib_connect :: "nat \<Rightarrow> int \<times> bool"
  lib_signals :: "nat \<Rightarrow> signal list"
  lib_id_max :: nat

text \<open>The globals before the first callback: null lists, and the user data just made.\<close>

definition start_world :: "heap \<Rightarrow> int list \<Rightarrow> 'h \<Rightarrow> main_userdata \<Rightarrow> ('h, 'p) world" where
  "start_world m draws h u =
     \<lparr>w_heap = m, w_json = h, w_rand = draws, w_resources = None, w_components = None,
      w_sessions = None, w_ud = userdata.truncate u, w_sent = []\<rparr>"

text \<open>
  The outcome: an exit code, or the state after the given turns of the event loop (whose end,
  when \<open>sanji_run\<close> is false, is the exit with 0). The outer \<open>None\<close> is a start that does not
  end, the inner one undefined behaviour.
\<close>

definition sanji_main ::
    "('h, 'p) jansson \<Rightarrow> library \<Rightarrow> (string \<Rightarrow> string option) \<Rightarrow> (char \<times> string) list \<Rightarrow>
     heap \<Rightarrow> int list \<Rightarrow> 'h \<Rightarrow> turn list \<Rightarrow> (int + ('h, 'p) loop_state) option option" where
  "sanji_main J L fopen opts m draws h turns =
     Option.bind (sanji_start (lib_id_max L) fopen opts m) (\<lambda>r.
       case r of
         None \<Rightarrow> Some None
       | Some (m1, Inl code) \<Rightarrow> Some (Some (Inl code))
       | Some (m1, Inr (c, u)) \<Rightarrow>
           if \<not> c_foreground c \<and> lib_daemonize L \<noteq> 0 then Some (Some (Inl 1))
           else if \<not> lib_new L then Some (Some (Inl 1))
           else if c_username c \<noteq> None \<and> lib_pw_set L \<noteq> 0 then Some (Some (Inl 1))
           else map_option (\<lambda>(rc, n, fl, retry).
               if rc \<noteq> 0 then Some (Inl rc)
               else map_option Inr (main_loop J turns
                      \<lparr>ls_world = start_world m1 draws h u, ls_flags = fl, ls_last_time = 0\<rparr>))
             (connect_loop (lib_err_inval L) (lib_connect L) (lib_signals L) 0
                \<lparr>sanji_run = True, sanji_dump = False\<rparr> (c_retry c)))"

section \<open>The program refines the step relation\<close>

lemma callback_reachable:
  "callback J e st = Some st' \<Longrightarrow> reachable J (ls_world st) \<Longrightarrow> reachable J (ls_world st')"
proof (cases e)
  case Connected
  assume "callback J e st = Some st'" "reachable J (ls_world st)"
  then show ?thesis using Connected reachable.connect[of J "ls_world st"]
    by (auto simp: callback_def case_prod_beta)
next
  case (Message msg)
  assume "callback J e st = Some st'" "reachable J (ls_world st)"
  then show ?thesis using Message reachable.message[of J "ls_world st" msg] by (auto simp: callback_def)
qed

lemma callbacks_reachable:
  "callbacks J es st = Some st' \<Longrightarrow> reachable J (ls_world st) \<Longrightarrow> reachable J (ls_world st')"
  by (induction es arbitrary: st) (auto simp: bind_eq_Some_conv dest: callback_reachable)

lemma turn_reachable:
  assumes "loop_turn J t st = Some st'" "reachable J (ls_world st)"
  shows "reachable J (ls_world st')"
proof -
  obtain st1 last_time w where t: "callbacks J (t_events t) (st\<lparr>ls_flags := handle (t_signals t) (ls_flags st)\<rparr>) = Some st1"
    "sanji_refresh_session J (ls_last_time st1) (t_time t) (ls_world st1) = Some (last_time, w)" "ls_world st' = w"
    using assms(1) by (auto simp: loop_turn_def bind_eq_Some_conv)
  have "reachable J (ls_world st1)" using callbacks_reachable[OF t(1)] assms(2) by simp
  then show ?thesis using reachable.refresh[OF _ t(2)] t(3) by simp
qed

lemma main_loop_reachable:
  "main_loop J ts st = Some st' \<Longrightarrow> reachable J (ls_world st) \<Longrightarrow> reachable J (ls_world st')"
proof (induction ts arbitrary: st)
  case (Cons t ts)
  then show ?case by (cases "sanji_run (ls_flags st)") (auto simp: bind_eq_Some_conv dest: turn_reachable)
qed simp

lemma start_world_reachable: "reachable J (start_world m draws h u)"
  by (rule reachable.start) (simp_all add: start_world_def)

lemma main_running:
  assumes "sanji_main J L fopen opts m draws h turns = Some (Some (Inr st))"
  obtains m1 c u rc n fl retry where
    "sanji_start (lib_id_max L) fopen opts m = Some (Some (m1, Inr (c, u)))"
    "connect_loop (lib_err_inval L) (lib_connect L) (lib_signals L) 0
       \<lparr>sanji_run = True, sanji_dump = False\<rparr> (c_retry c) = Some (rc, n, fl, retry)"
    "rc = 0" "main_loop J turns \<lparr>ls_world = start_world m1 draws h u, ls_flags = fl, ls_last_time = 0\<rparr> = Some st"
proof -
  obtain r where r: "sanji_start (lib_id_max L) fopen opts m = Some r"
    using assms by (auto simp: sanji_main_def bind_eq_Some_conv)
  obtain m1 s where s: "r = Some (m1, s)" using assms r by (cases r) (auto simp: sanji_main_def)
  obtain c u where cu: "s = Inr (c, u)" using assms r s by (cases s) (auto simp: sanji_main_def)
  show ?thesis
    using assms r s cu that
    by (auto simp: sanji_main_def split: prod.splits if_splits)
qed

lemma main_reachable:
  assumes "sanji_main J L fopen opts m draws h turns = Some (Some (Inr st))"
  shows "reachable J (ls_world st)"
proof -
  obtain m1 u fl where
    "main_loop J turns \<lparr>ls_world = start_world m1 draws h u, ls_flags = fl, ls_last_time = 0\<rparr> = Some st"
    by (rule main_running[OF assms])
  then show ?thesis by (rule main_loop_reachable) (simp add: start_world_reachable)
qed

text \<open>The result of the attempts to connect is the broker's last answer.\<close>

lemma connect_result:
  assumes "connect_loop err_inval answer signals n fl retry = Some (rc, n', fl', r)"
  shows "rc = fst (answer (n' - 1))"
proof -
  have "case y of (rc, n', fl', r) \<Rightarrow> rc = fst (answer (n' - 1))"
    if "connect_loop err_inval answer signals n fl retry = Some y" for y
  proof (rule connect_loop.raw_induct[OF _ that, where P = "\<lambda>err_inval answer signals n fl retry y.
      case y of (rc, n', fl', r) \<Rightarrow> rc = fst (answer (n' - 1))"])
  qed (auto simp: Let_def split: prod.splits if_splits)
  then show ?thesis using assms by fastforce
qed

end
