(* ===== verification/Session_Clock.thy ===== *)
theory Session_Clock
  imports Main_Program State_Invariant
begin

text \<open>
  How long a session lives when nobody answers: the event loop of \<open>main\<close> goes on turning, and
  each turn counts the times to live of the current step down by the time since the last one.
  The lemmas add the countdowns of many turns up, so that the lifetime does not depend on how
  often the loop turns.
\<close>

section \<open>Counting down\<close>

abbreviation (input) current_ttls :: "'p session \<Rightarrow> 32 word list" where
  "current_ttls s \<equiv> mc_ttls (s_model_chain s ! (s_curr_step s - 1))"

text \<open>After \<open>d\<close> seconds each time to live of the current step has something left.\<close>

definition outlives :: "int \<Rightarrow> 'p session \<Rightarrow> bool" where
  "outlives d s \<longleftrightarrow> list_all (\<lambda>t. d < sint t) (current_ttls s)"

lemma outlives_mono: "outlives d s \<Longrightarrow> d' \<le> d \<Longrightarrow> outlives d' s"
  by (auto simp: outlives_def list_all_iff)

lemma expired_outlives:
  "0 \<le> sint p \<Longrightarrow> outlives 0 s \<Longrightarrow> ttl_expired p s \<longleftrightarrow> \<not> outlives (sint p) s"
  using ttl_expiry_without_wraparound[of p s]
  by (auto simp: outlives_def list_ex_iff list_all_iff not_less)

lemma aged_in_chain [simp]: "in_chain (aged p s) = in_chain s"
  by (simp add: in_chain_def aged_def Let_def)

lemma aged_step [simp]: "s_curr_step (aged p s) = s_curr_step s"
  by (simp add: aged_def Let_def)

lemma in_chain_index: "in_chain s \<Longrightarrow> s_curr_step s - Suc 0 < length (s_model_chain s)"
  by (auto simp: in_chain_def)

lemma current_ttls_aged:
  assumes "in_chain s" "0 \<le> sint p" "outlives (sint p) s" "outlives 0 s"
  shows "current_ttls (aged p s) = map (\<lambda>t. t - p) (current_ttls s)"
proof -
  have "\<not> ttl_expired p s" using expired_outlives assms by blast
  then have "fst (ttl_loop p (current_ttls s)) = map (\<lambda>t. t - p) (current_ttls s)"
    by (intro ttl_loop_alive) (simp add: ttl_loop_expired ttl_expired_def)
  then show ?thesis using assms(1) by (simp add: in_chain_index aged_def Let_def)
qed

lemma outlives_aged:
  assumes "in_chain s" "0 \<le> sint p" "outlives (sint p) s" "outlives 0 s"
  shows "outlives d (aged p s) \<longleftrightarrow> outlives (d + sint p) s"
proof -
  have "sint (t - p) = sint t - sint p" if "t \<in> set (current_ttls s)" for t
    using that assms(2,4) by (intro sint_count_down) (auto simp: outlives_def list_all_iff)
  then show ?thesis
    unfolding outlives_def current_ttls_aged[OF assms] list_all_iff by fastforce
qed

lemma aged_zero: "outlives 0 s \<Longrightarrow> aged 0 s = s"
proof -
  assume o: "outlives 0 s"
  then have "\<not> ttl_expired 0 s" by (subst expired_outlives) simp_all
  then have "fst (ttl_loop 0 (current_ttls s)) = current_ttls s"
    using ttl_loop_alive[of 0 "current_ttls s"] by (simp add: ttl_loop_expired ttl_expired_def)
  then show ?thesis by (simp add: aged_def Let_def)
qed

lemma aged_again:
  assumes c: "in_chain s" and p: "0 \<le> sint p" and q: "0 \<le> sint q"
    and o: "outlives (sint p + sint q) s" "outlives 0 s" and b: "sint (p + q) = sint p + sint q"
  shows "aged q (aged p s) = aged (p + q) s"
proof -
  have op: "outlives (sint p) s" using o(1) by (rule outlives_mono) (simp add: q)
  have oq: "outlives (sint q) (aged p s)"
    using outlives_aged[OF c p op o(2)] o(1) by (simp add: add.commute)
  have o0: "outlives 0 (aged p s)" using oq by (rule outlives_mono) (simp add: q)
  have a: "fst (ttl_loop r (current_ttls x)) = map (\<lambda>t. t - r) (current_ttls x)"
    if "0 \<le> sint r" "outlives (sint r) x" "outlives 0 x" for r and x :: "'a session"
    using ttl_loop_alive[of r "current_ttls x"] expired_outlives[of r x] that
    by (simp add: ttl_loop_expired ttl_expired_def)
  have opq: "outlives (sint (p + q)) s" "0 \<le> sint (p + q)" using o(1) p q by (simp_all add: b)
  have "fst (ttl_loop q (current_ttls (aged p s))) = fst (ttl_loop (p + q) (current_ttls s))"
    using a[OF q oq o0] a[OF opq(2,1) o(2)] current_ttls_aged[OF c p op o(2)]
    by (simp add: algebra_simps)
  then show ?thesis
    using c by (simp add: aged_def[of q] aged_def[of "p + q"]) (simp add: aged_def Let_def in_chain_index)
qed

section \<open>Quiet turns of the event loop\<close>

text \<open>A turn in which the library calls nothing back and no signal comes.\<close>

definition quiet :: "turn \<Rightarrow> bool" where
  "quiet t \<longleftrightarrow> t_events t = [] \<and> t_signals t = []"

text \<open>Sessions as the clock finds them: unique, inside their chain, with time left.\<close>

definition clocked :: "'p session list \<Rightarrow> bool" where
  "clocked ss \<longleftrightarrow> distinct (map s_id ss) \<and> list_all in_chain ss \<and> list_all (outlives 0) ss"

definition after_seconds :: "int \<Rightarrow> 'p session list \<Rightarrow> 'p session list" where
  "after_seconds d ss = map (aged (word_of_int d)) (filter (outlives d) ss)"

lemma sint_seconds: "0 \<le> d \<Longrightarrow> d < 2 ^ 31 \<Longrightarrow> sint (word_of_int d :: 32 word) = d"
  by (simp add: sint_sbintrunc' signed_take_bit_int_eq_self)

lemma after_no_seconds: "clocked ss \<Longrightarrow> after_seconds 0 ss = ss"
  by (simp add: clocked_def after_seconds_def list_all_iff map_idI aged_zero)

lemma after_seconds_clocked:
  assumes "clocked ss" "0 \<le> d" "d < 2 ^ 31"
  shows "clocked (after_seconds d ss)"
proof -
  have "outlives 0 (aged (word_of_int d) s)" if "s \<in> set ss" "outlives d s" for s
    using that assms outlives_aged[of s "word_of_int d" 0]
    by (simp add: sint_seconds clocked_def list_all_iff)
  then show ?thesis
    using assms(1) by (auto simp: clocked_def after_seconds_def list_all_iff distinct_map_filter comp_def)
qed

lemma after_seconds_add:
  assumes c: "clocked ss" and d: "0 \<le> d" "0 \<le> e" "d + e < 2 ^ 31"
  shows "after_seconds e (after_seconds d ss) = after_seconds (d + e) ss"
proof -
  have o: "outlives e (aged (word_of_int d) s) \<longleftrightarrow> outlives (d + e) s"
    if "s \<in> set ss" "outlives d s" for s
    using that c d outlives_aged[of s "word_of_int d" e]
    by (simp add: sint_seconds clocked_def list_all_iff add.commute)
  have f: "filter (\<lambda>s. outlives d s \<and> outlives e (aged (word_of_int d) s)) ss = filter (outlives (d + e)) ss"
    by (rule filter_cong) (use o outlives_mono[of "d + e" _ d] d in auto)
  have a: "aged (word_of_int e) (aged (word_of_int d) s) = aged (word_of_int (d + e)) s"
    if "s \<in> set ss" "outlives (d + e) s" for s
    using that c d aged_again[of s "word_of_int d" "word_of_int e"]
    by (simp add: clocked_def list_all_iff sint_seconds flip: of_int_add)
  show ?thesis
    using a by (simp add: after_seconds_def filter_map comp_def f)
qed

lemma quiet_turn:
  assumes J: "dumps_all J" and q: "quiet t" and st: "sanji_run (ls_flags st)" "ls_last_time st \<noteq> 0"
    and ss: "w_sessions (ls_world st) = Some ss" "clocked ss"
    and d: "d = t_time t - ls_last_time st" "0 \<le> d" "d < 2 ^ 31"
  shows "\<exists>st'. loop_turn J t st = Some st' \<and> sanji_run (ls_flags st') \<and>
    ls_last_time st' = t_time t \<and> w_sessions (ls_world st') = Some (after_seconds d ss)"
proof -
  have "\<exists>w. sanji_refresh_session J (ls_last_time st) (t_time t) (ls_world st) = Some (t_time t, w) \<and>
      w_sessions w = Some (after_seconds d ss)"
  proof (cases "d = 0")
    case True
    then show ?thesis
      using ss d(1) after_no_seconds[OF ss(2)] by (simp add: sanji_refresh_session_def)
  next
    case False
    then have "(word_of_int d :: 32 word) \<noteq> 0" using sint_seconds[OF d(2,3)] by force
    moreover obtain w where "session_decref_ttl J (word_of_int d) (ls_world st) = Some w"
      "w_sessions w = Some (map (aged (word_of_int d)) (filter (\<lambda>s. \<not> ttl_expired (word_of_int d) s) ss))"
      using session_decref_ttl_list[OF J ss(1)] ss(2) unfolding clocked_def by blast
    moreover have "filter (\<lambda>s. \<not> ttl_expired (word_of_int d) s) ss = filter (outlives d) ss"
      using ss(2) d(2,3)
      by (intro filter_cong) (simp_all add: clocked_def list_all_iff sint_seconds expired_outlives)
    ultimately show ?thesis
      using st(2) d(1) by (simp add: sanji_refresh_session_def after_seconds_def)
  qed
  then show ?thesis
    using q st(1) by (auto simp: loop_turn_def quiet_def handle_def)
qed

lemma quiet_turns:
  assumes J: "dumps_all J"
  shows "list_all quiet ts \<Longrightarrow> sorted (ls_last_time st # map t_time ts) \<Longrightarrow>
    sanji_run (ls_flags st) \<Longrightarrow> 0 < ls_last_time st \<Longrightarrow>
    w_sessions (ls_world st) = Some ss \<Longrightarrow> clocked ss \<Longrightarrow>
    d = last (ls_last_time st # map t_time ts) - ls_last_time st \<Longrightarrow> d < 2 ^ 31 \<Longrightarrow>
    \<exists>st'. main_loop J ts st = Some st' \<and> w_sessions (ls_world st') = Some (after_seconds d ss)"
proof (induction ts arbitrary: st ss d)
  case Nil
  then show ?case by (simp add: after_no_seconds)
next
  case (Cons t ts)
  define d1 where "d1 = t_time t - ls_last_time st"
  define d2 where "d2 = last (t_time t # map t_time ts) - t_time t"
  have "t_time t \<le> last (t_time t # map t_time ts)"
    using Cons.prems(2) by (cases "ts = []") (simp_all add: last_map)
  then have d: "d = d1 + d2" "0 \<le> d1" "0 \<le> d2" "d1 < 2 ^ 31" "d2 < 2 ^ 31"
    using Cons.prems(2,7,8) by (auto simp: d1_def d2_def)
  obtain st1 where st1: "loop_turn J t st = Some st1" "sanji_run (ls_flags st1)"
    "ls_last_time st1 = t_time t" "w_sessions (ls_world st1) = Some (after_seconds d1 ss)"
    using quiet_turn[OF J _ Cons.prems(3) _ Cons.prems(5,6) d1_def d(2,4)] Cons.prems(1,4) by auto
  have "\<exists>st'. main_loop J ts st1 = Some st' \<and>
      w_sessions (ls_world st') = Some (after_seconds d2 (after_seconds d1 ss))"
    using Cons.prems(1,2,4) st1 d after_seconds_clocked[OF Cons.prems(6) d(2,4)]
    by (intro Cons.IH) (simp_all add: d2_def)
  then show ?case
    using st1(1) Cons.prems(3,6,8) d after_seconds_add[of ss d1 d2] by simp
qed

end
