(* ===== verification/Lock_Balance.thy ===== *)
theory Lock_Balance
  imports Registry_Invariant Registration_Facts Request_Facts Session_Clock
begin

text \<open>
  No lock leaks: with enough memory, a model is locked only while a writing session that
  claims it is in flight, and a resource only while one has it among its dependencies. What
  makes the release of a session reach every name is a third condition: each dependency is
  subscribed by a model the session keeps locked, so nobody can unregister it meanwhile.
\<close>

section \<open>The balance of locks\<close>

definition dep_chain :: "'p session \<Rightarrow> string list" where
  "dep_chain s = (if is_writer s then s_dependency_chain s else [])"

text \<open>What a session keeps locked: its identifier, its models and its dependencies.\<close>

type_synonym lock_sig = "32 word \<times> string list \<times> string list"

definition lock_sig :: "'p session \<Rightarrow> lock_sig" where
  "lock_sig s = (s_id s, claimed s, dep_chain s)"

definition sigs :: "('h, 'p) world \<Rightarrow> lock_sig list" where
  "sigs w = (case w_sessions w of None \<Rightarrow> [] | Some ss \<Rightarrow> map lock_sig ss)"

definition subscribed_to :: "resources \<Rightarrow> string \<Rightarrow> string \<Rightarrow> bool" where
  "subscribed_to rl d m =
     (case rl of None \<Rightarrow> False
      | Some rs \<Rightarrow> list_ex (\<lambda>r. r_name r = d \<and> m \<in> set (r_subscribers r)) rs)"

definition accounted :: "lock_sig list \<Rightarrow> resources \<Rightarrow> components \<Rightarrow> bool" where
  "accounted vs rl cl \<longleftrightarrow>
     (\<forall>n. component_held cl n = Some True \<longrightarrow> (\<exists>v \<in> set vs. n \<in> set (fst (snd v)))) \<and>
     (\<forall>d. resource_held rl d = Some True \<longrightarrow> (\<exists>v \<in> set vs. d \<in> set (snd (snd v)))) \<and>
     (\<forall>v \<in> set vs. \<forall>d \<in> set (snd (snd v)). \<exists>m \<in> set (fst (snd v)). subscribed_to rl d m) \<and>
     (vs \<noteq> [] \<longrightarrow> rl \<noteq> None \<and> cl \<noteq> None)"

definition balanced :: "('h, 'p) world \<Rightarrow> bool" where
  "balanced w \<longleftrightarrow> accounted (sigs w) (w_resources w) (w_components w)"

lemma subscribed_dom: "subscribed_to rl d m \<Longrightarrow> d \<in> dom (resource_held rl)"
  by (cases rl) (auto simp: subscribed_to_def dom_resource_held list_ex_iff)

lemma subscribed_shape: "resource_shape rl' = resource_shape rl \<Longrightarrow> subscribed_to rl' = subscribed_to rl"
proof -
  have s: "subscribed_to (resource_shape rl) = subscribed_to rl" for rl
    by (cases rl) (simp_all add: subscribed_to_def resource_shape_def list_ex_iff fun_eq_iff)
  assume "resource_shape rl' = resource_shape rl"
  then show ?thesis using s[of rl'] s[of rl] by simp
qed

lemma shape_None: "resource_shape rl' = resource_shape rl \<Longrightarrow> rl' = None \<longleftrightarrow> rl = None"
  "component_shape cl' = component_shape cl \<Longrightarrow> cl' = None \<longleftrightarrow> cl = None"
  by (auto simp: resource_shape_def component_shape_def)

text \<open>A session leaves and releases what it kept.\<close>

lemma accounted_release:
  assumes a: "accounted vs rl cl" and d: "distinct (map fst vs)" and v: "(i, ms, ds) \<in> set vs"
    and c: "component_held cl' = (\<lambda>n. if n \<in> set ms then Some False else component_held cl n)"
    and r: "resource_held rl' = (\<lambda>n. if n \<in> set ds then Some False else resource_held rl n)"
    and sh: "resource_shape rl' = resource_shape rl" "component_shape cl' = component_shape cl"
  shows "accounted (filter (\<lambda>v. fst v \<noteq> i) vs) rl' cl'"
proof -
  have other: "fst x \<noteq> i" if "x \<in> set vs" "x \<noteq> (i, ms, ds)" for x
    using d v that by (auto simp: distinct_map dest: inj_onD[of fst "set vs" x "(i, ms, ds)"])
  have "\<exists>x \<in> set (filter (\<lambda>v. fst v \<noteq> i) vs). n \<in> set (fst (snd x))" if "component_held cl' n = Some True" for n
  proof -
    have n: "n \<notin> set ms" "component_held cl n = Some True" using that c by (auto split: if_splits)
    then obtain x where x: "x \<in> set vs" "n \<in> set (fst (snd x))" using a by (auto simp: accounted_def)
    then have "x \<noteq> (i, ms, ds)" using n(1) by auto
    then have "x \<in> set (filter (\<lambda>v. fst v \<noteq> i) vs)" using other[OF x(1)] x(1) by simp
    then show ?thesis using x(2) by blast
  qed
  moreover have "\<exists>x \<in> set (filter (\<lambda>v. fst v \<noteq> i) vs). n \<in> set (snd (snd x))" if "resource_held rl' n = Some True" for n
  proof -
    have n: "n \<notin> set ds" "resource_held rl n = Some True" using that r by (auto split: if_splits)
    then obtain x where x: "x \<in> set vs" "n \<in> set (snd (snd x))" using a by (auto simp: accounted_def)
    then have "x \<noteq> (i, ms, ds)" using n(1) by auto
    then have "x \<in> set (filter (\<lambda>v. fst v \<noteq> i) vs)" using other[OF x(1)] x(1) by simp
    then show ?thesis using x(2) by blast
  qed
  moreover have "rl' \<noteq> None \<and> cl' \<noteq> None" if "filter (\<lambda>v. fst v \<noteq> i) vs \<noteq> []"
  proof -
    have "vs \<noteq> []" using that by auto
    then show ?thesis using a shape_None(1)[OF sh(1)] shape_None(2)[OF sh(2)] by (simp add: accounted_def)
  qed
  ultimately show ?thesis
    using a subscribed_shape[OF sh(1)] by (simp add: accounted_def)
qed

text \<open>A session joins with names that are registered; it may have locked them or not.\<close>

lemma accounted_join:
  assumes a: "accounted vs rl cl"
    and c: "\<And>n. component_held cl' n = Some True \<Longrightarrow> n \<in> set ms \<or> component_held cl n = Some True"
    and r: "\<And>n. resource_held rl' n = Some True \<Longrightarrow> n \<in> set ds \<or> resource_held rl n = Some True"
    and sub: "\<forall>d \<in> set ds. \<exists>m \<in> set ms. subscribed_to rl d m"
    and sh: "resource_shape rl' = resource_shape rl" and ne: "rl' \<noteq> None" "cl' \<noteq> None"
  shows "accounted (vs @ [(i, ms, ds)]) rl' cl'"
proof -
  have "\<exists>x \<in> set (vs @ [(i, ms, ds)]). n \<in> set (fst (snd x))" if "component_held cl' n = Some True" for n
    using c[OF that] a by (auto simp: accounted_def)
  moreover have "\<exists>x \<in> set (vs @ [(i, ms, ds)]). n \<in> set (snd (snd x))" if "resource_held rl' n = Some True" for n
    using r[OF that] a by (auto simp: accounted_def)
  ultimately show ?thesis
    using a sub ne subscribed_shape[OF sh] by (auto simp: accounted_def)
qed

section \<open>The session engine keeps the balance\<close>

lemma lock_sig_fields [simp]:
  "lock_sig (s\<lparr>s_curr_step := k\<rparr>) = lock_sig s" "lock_sig (s\<lparr>s_curr_wait := c\<rparr>) = lock_sig s"
  "lock_sig (entered s) = lock_sig s"
  by (simp_all add: lock_sig_def claimed_def dep_chain_def is_writer_def chain_models_def entered_def)

lemma lock_sig_view: "lock_sig a = lock_sig b \<Longrightarrow> lock_view a = lock_view b \<and> s_id a = s_id b"
  by (simp add: lock_sig_def lock_view_def)

lemma fst_sig [simp]: "fst (lock_sig s) = s_id s"
  by (simp add: lock_sig_def)

lemma sigs_distinct: "models_exclusive w \<Longrightarrow> distinct (map fst (sigs w))"
  using ids_distinct_exclusive[of w] by (auto simp: sigs_def ids_distinct_def comp_def split: option.splits)

lemma sig_in_flight: "lock_sig s \<in> set (sigs w) \<Longrightarrow> in_flight s w"
proof -
  assume s: "lock_sig s \<in> set (sigs w)"
  then obtain ss where ss: "w_sessions w = Some ss" by (cases "w_sessions w") (simp_all add: sigs_def)
  then obtain y where "y \<in> set ss" "lock_sig s = lock_sig y" using s by (auto simp: sigs_def)
  then have "lock_view s \<in> set (map lock_view ss)" using lock_sig_view by force
  then show "in_flight s w" using ss by (simp add: in_flight_def views_def)
qed

lemma store_sigs:
  fixes w :: "('h, 'p) world" and s :: "'p session"
  assumes ex: "models_exclusive w" and s: "lock_sig s \<in> set (sigs w)" "lock_sig s' = lock_sig s"
  shows "sigs (session_store s' w) = sigs w \<and> same_locks w (session_store s' w)"
proof -
  obtain ss where ss: "w_sessions w = Some ss" using s(1) by (cases "w_sessions w") (simp_all add: sigs_def)
  have d: "distinct (map s_id ss)" using ids_distinct_exclusive[OF ex] ss by (simp add: ids_distinct_def)
  have "lock_sig x = lock_sig s'" if "find (\<lambda>x. s_id x = s_id s') ss = Some x" for x
  proof -
    have x: "x \<in> set ss" "s_id x = s_id s'" using that find_Some_mem by fast+
    obtain y where y: "y \<in> set ss" "lock_sig y = lock_sig s" using s(1) ss by (auto simp: sigs_def)
    have "s_id y = s_id x" using x(2) y(2) s(2) lock_sig_view by metis
    then have "y = x" using d x(1) y(1) by (metis distinct_map inj_onD)
    then show ?thesis using y(2) s(2) by simp
  qed
  then have "map lock_sig (update_first (\<lambda>x. s_id x = s_id s') (\<lambda>_. s') ss) = map lock_sig ss"
    by (intro update_first_view) (cases "find (\<lambda>x. s_id x = s_id s') ss"; simp)
  moreover have "same_locks w (session_store s' w)"
    using session_store_locks[OF in_flight_listed[OF ex sig_in_flight[OF s(1)]]] lock_sig_view[OF s(2)] by blast
  ultimately show ?thesis using ss by (simp add: session_store_def sigs_def)
qed

lemma balanced_same:
  "w_resources w' = w_resources w \<Longrightarrow> w_components w' = w_components w \<Longrightarrow> sigs w' = sigs w \<Longrightarrow>
   balanced w' = balanced w"
  by (simp add: balanced_def)

lemma stop_sigs:
  assumes "dumps_all J" "models_exclusive w"
  shows "sigs (snd (session_step_stop J s root w)) = filter (\<lambda>v. fst v \<noteq> s_id s) (sigs w)"
proof (cases "w_sessions w")
  case None
  then show ?thesis using stop_sessions[OF assms(1), of s root w] by (simp add: sigs_def)
next
  case (Some ss)
  then have "distinct (map s_id ss)" using ids_distinct_exclusive[OF assms(2)] by (simp add: ids_distinct_def)
  then have "delete_first (\<lambda>x. s_id x = s_id s) ss = filter (\<lambda>x. s_id x \<noteq> s_id s) ss"
    by (rule delete_first_filter)
  then show ?thesis
    using stop_sessions[OF assms(1), of s root w] Some by (simp add: sigs_def filter_map comp_def)
qed

lemma stop_balanced:
  assumes J: "dumps_all J" and ex: "models_exclusive w" and b: "balanced w" and s: "lock_sig s \<in> set (sigs w)"
  shows "balanced (snd (session_step_stop J s root w))"
proof -
  let ?w = "snd (session_step_stop J s root w)"
  obtain w' where w': "session_step_stop J s root w = (0, w')"
    using session_step_stop_ok[OF J] by (metis prod.collapse)
  then have rel: "released s w = (w_resources w', w_components w')" using session_step_stop_locks[OF w'] by simp
  have s3: "(s_id s, claimed s, dep_chain s) \<in> set (sigs w)" using s by (simp add: lock_sig_def)
  then have "sigs w \<noteq> []" by auto
  then obtain rs cs where reg: "w_resources w = Some rs" "w_components w = Some cs"
    using b by (auto simp: balanced_def accounted_def)
  have "component_held (w_components w') =
      (\<lambda>n. if n \<in> set (claimed s) then Some False else component_held (w_components w) n) \<and>
    resource_held (w_resources w') =
      (\<lambda>n. if n \<in> set (dep_chain s) then Some False else resource_held (w_resources w) n) \<and>
    resource_shape (w_resources w') = resource_shape (w_resources w) \<and>
    component_shape (w_components w') = component_shape (w_components w)"
  proof (cases "is_writer s")
    case False
    then show ?thesis using rel by (simp add: released_def claimed_def dep_chain_def)
  next
    case True
    have c: "claimed s = chain_models s" "dep_chain s = s_dependency_chain s"
      using True by (simp_all add: claimed_def dep_chain_def)
    have "set (dep_chain s) \<subseteq> dom (resource_held (Some rs))"
      using b s3 subscribed_dom reg unfolding balanced_def accounted_def by fastforce
    moreover have "set (claimed s) \<subseteq> dom (component_held (Some cs))"
      using ex sig_in_flight[OF s] reg
      by (fastforce simp: models_exclusive_def in_flight_def exclusive_def lock_view_def)
    ultimately obtain rl cl where u: "session_node_unlock_by_step (Some s) (Some rs) (Some cs) 0 = (0, rl, cl)"
      "resource_held rl = (\<lambda>n. if n \<in> set (s_dependency_chain s) then Some False else resource_held (Some rs) n)"
      "component_held cl = (\<lambda>n. if n \<in> set (chain_models s) then Some False else component_held (Some cs) n)"
      using unlock_step0_held[of s rs cs] c by auto
    have "w_resources w' = rl" "w_components w' = cl" using rel u(1) True reg by (simp_all add: released_def)
    then show ?thesis using u(2,3) unlock_step0_shape[OF u(1)] unfolding reg c by simp
  qed
  then have "accounted (filter (\<lambda>v. fst v \<noteq> s_id s) (sigs w)) (w_resources w') (w_components w')"
    using b sigs_distinct[OF ex] s3 by (intro accounted_release[of _ "w_resources w" "w_components w"]) (auto simp: balanced_def)
  then show ?thesis using stop_sigs[OF J ex, of s root] w' by (simp add: balanced_def)
qed


lemma step_balanced:
  assumes J: "dumps_all J" and ex: "models_exclusive w" and b: "balanced w" and s: "lock_sig s \<in> set (sigs w)"
    and st: "session_step J (Some s) root w = Some (ret, w')"
  shows "balanced w'"
proof (cases root)
  case None
  then show ?thesis using st b by (auto simp: session_step_def split: option.splits)
next
  case (Some r)
  have "sigs w \<noteq> []" using s by auto
  then have reg: "w_resources w \<noteq> None" "w_components w \<noteq> None" using b by (simp_all add: balanced_def accounted_def)
  show ?thesis
  proof (cases "s_curr_step s < length (s_model_chain s)")
    case True
    have "w_resources w' = w_resources w \<and> w_components w' = w_components w \<and>
        w_sessions w' = w_sessions (session_store (entered s) w)"
      using st Some by (auto simp: session_step_next[OF reg True] Let_def frame_simps split: option.splits)
    moreover have "sigs (session_store (entered s) w) = sigs w" using store_sigs[OF ex s] by simp
    ultimately show ?thesis using b by (simp add: balanced_def sigs_def)
  next
    case False
    let ?s1 = "s\<lparr>s_curr_step := Suc (s_curr_step s)\<rparr>"
    have e: "w' = snd (session_step_stop J ?s1 (Some r) (session_store ?s1 w))"
      using st Some False session_step_end[OF reg] by (simp add: Let_def)
    have sg: "sigs (session_store ?s1 w) = sigs w" "same_locks w (session_store ?s1 w)"
      using store_sigs[OF ex s, of ?s1] by simp_all
    have "balanced (session_store ?s1 w)" using b sg(1) by (simp add: balanced_def frame_simps)
    then show ?thesis
      unfolding e using s sg(1) by (intro stop_balanced[OF J models_exclusive_same[OF sg(2) ex]]) simp_all
  qed
qed

lemma balanced_json [simp]: "balanced (w\<lparr>w_json := h\<rparr>) = balanced w" "sigs (w\<lparr>w_json := h\<rparr>) = sigs w"
  "balanced (w\<lparr>w_heap := m\<rparr>) = balanced w" "sigs (w\<lparr>w_heap := m\<rparr>) = sigs w"
  by (simp_all add: balanced_def sigs_def)

lemma models_exclusive_json [simp]:
  "models_exclusive (w\<lparr>w_json := h\<rparr>) = models_exclusive w" "models_exclusive (w\<lparr>w_heap := m\<rparr>) = models_exclusive w"
  by (cases "w_sessions w"; simp add: models_exclusive_def views_def)+

lemma step_update_balanced:
  assumes J: "dumps_all J" and ex: "models_exclusive w" and b: "balanced w" and s: "lock_sig s \<in> set (sigs w)"
    and up: "session_step_update J s root code data w = Some w'"
  shows "balanced w'"
proof -
  have dec: "balanced v'"
    if "session_node_decref_wait J (Some s) root v = Some v'" "models_exclusive v" "balanced v"
      "lock_sig s \<in> set (sigs v)" for v v'
  proof -
    let ?s1 = "s\<lparr>s_curr_wait := s_curr_wait s - 1\<rparr>"
    have sg: "sigs (session_store ?s1 v) = sigs v" "same_locks v (session_store ?s1 v)"
      using store_sigs[OF that(2,4), of ?s1] by simp_all
    have b1: "balanced (session_store ?s1 v)" using that(3) sg(1) by (simp add: balanced_def frame_simps)
    have s1: "lock_sig ?s1 \<in> set (sigs (session_store ?s1 v))" using that(4) sg(1) by simp
    show ?thesis
      using that(1) b1 step_balanced[OF J models_exclusive_same[OF sg(2) that(2)] b1 s1]
      by (auto simp: session_node_decref_wait_def Let_def split: if_splits)
  qed
  show ?thesis
    using up dec ex b s stop_balanced[OF J, of "w\<lparr>w_json := h\<rparr>" s for h]
    by (auto simp: session_step_update_def Let_def split: prod.splits if_splits)
qed

lemma flush_balanced:
  assumes J: "dumps_all J"
  shows "models_exclusive w \<Longrightarrow> balanced w \<Longrightarrow> distinct (map s_id fs) \<Longrightarrow>
    \<forall>f \<in> set fs. lock_sig f \<in> set (sigs w) \<Longrightarrow> balanced (flush_sessions J fs w)"
proof (induction fs arbitrary: w)
  case Nil
  then show ?case by simp
next
  case (Cons f fs)
  let ?w = "snd (session_step_stop J f None w)"
  have f: "lock_sig f \<in> set (sigs w)" using Cons.prems(4) by simp
  have "models_exclusive ?w" by (rule stop_keeps_exclusive[OF Cons.prems(1) sig_in_flight[OF f]])
  moreover have "balanced ?w" by (rule stop_balanced[OF J Cons.prems(1,2) f])
  moreover have "\<forall>g \<in> set fs. lock_sig g \<in> set (sigs ?w)"
    using Cons.prems(3,4) by (auto simp: stop_sigs[OF J Cons.prems(1)]) (metis image_eqI)
  ultimately show ?case using Cons by simp
qed

lemma session_age_sig: "session_age pt s = Some (s1, b) \<Longrightarrow> lock_sig s1 = lock_sig s"
  by (auto simp: session_age_def current_chain_def lock_sig_def claimed_def dep_chain_def is_writer_def
      chain_models_def map_list_update_same Let_def split: if_splits prod.splits)

lemma age_sessions_sigs:
  "age_sessions pt ss = Some (ss1, fs) \<Longrightarrow> map lock_sig ss1 = map lock_sig ss \<and>
   set (map lock_sig fs) \<subseteq> set (map lock_sig ss)"
proof (induction ss arbitrary: ss1 fs)
  case Nil
  then show ?case by simp
next
  case (Cons s ss)
  then obtain s1 b ss2 fs2 where s1: "session_age pt s = Some (s1, b)"
    and r: "age_sessions pt ss = Some (ss2, fs2)" "ss1 = s1 # ss2" "fs = (if b then s1 # fs2 else fs2)"
    by (auto split: option.splits)
  show ?case using Cons.IH[OF r(1)] session_age_sig[OF s1] r by auto
qed

lemma decref_ttl_balanced:
  assumes J: "dumps_all J" and ex: "models_exclusive w" and b: "balanced w"
    and up: "session_decref_ttl J pt w = Some w'"
  shows "balanced w'"
proof (cases "w_sessions w")
  case None
  then show ?thesis using up b by (simp add: session_decref_ttl_def)
next
  case (Some ss)
  then obtain ss1 fs where a: "age_sessions pt ss = Some (ss1, fs)"
    and w': "w' = flush_sessions J fs (w\<lparr>w_sessions := Some ss1\<rparr>)"
    using up by (auto simp: session_decref_ttl_def split: option.splits)
  let ?w = "w\<lparr>w_sessions := Some ss1\<rparr>"
  have sg: "sigs ?w = sigs w" "sigs w = map lock_sig ss" using age_sessions_sigs[OF a] Some by (simp_all add: sigs_def)
  have "views ?w = views w" using age_sessions_views[OF a] Some by (simp add: views_def)
  then have ex1: "models_exclusive ?w" using models_exclusive_same[OF _ ex, of ?w] by (simp add: same_locks_def)
  have "distinct (map s_id fs)"
    using age_sessions_views[OF a] ids_distinct_exclusive[OF ex] Some by (simp add: ids_distinct_def)
  moreover have "balanced ?w" using b sg(1) by (simp add: balanced_def)
  moreover have "\<forall>f \<in> set fs. lock_sig f \<in> set (sigs ?w)" using age_sessions_sigs[OF a] sg by auto
  ultimately show ?thesis unfolding w' using ex1 by (intro flush_balanced[OF J])
qed


section \<open>The chain of a request\<close>

text \<open>Each dependency the search collects is subscribed by a model of the chain.\<close>

lemma merge_names_subset: "merge_names m acc ns = (m', Some acc') \<Longrightarrow> set acc' \<subseteq> set acc \<union> set ns"
proof (induction ns arbitrary: m acc)
  case Nil
  then show ?case by simp
next
  case (Cons n ns)
  then show ?case by (fastforce simp: Let_def split: if_splits prod.splits)
qed

lemma names_subscribed:
  assumes ok: "resources_ok rl" "length n < COMPONENT_NAME_LEN"
    and g: "resource_get_names_by_component m rl (Some n) = (m', names)"
  shows "\<forall>d \<in> set names. subscribed_to rl d n"
proof (cases rl)
  case None
  then show ?thesis using g by (simp add: resource_get_names_by_component_def)
next
  case (Some rs)
  then have "names = [] \<or> names = map r_name (filter (\<lambda>r. n \<in> set (r_subscribers r)) rs)"
    using names_by_component_loop_eq[of rs n m "[]"] ok g
    by (simp add: resource_get_names_by_component_def resources_ok_def)
  then show ?thesis using Some by (auto simp: subscribed_to_def list_ex_iff)
qed

definition deps_covered :: "resources \<Rightarrow> string set \<Rightarrow> chains \<Rightarrow> bool" where
  "deps_covered rl D ch \<longleftrightarrow>
     (\<forall>d \<in> set (ch_dependencies ch). d \<in> D \<or> (\<exists>n \<in> set (mc_models (ch_models ch)). subscribed_to rl d n))"

lemma visit_write_deps:
  assumes ok: "resources_ok rl" "length n < COMPONENT_NAME_LEN"
    and v: "visit_write cs rl n m ch = (m', Inr ch')"
  shows "\<forall>d \<in> set (ch_dependencies ch'). d \<in> set (ch_dependencies ch) \<or> subscribed_to rl d n"
proof -
  obtain m1 names where a: "resource_get_names_by_component m rl (Some n) = (m1, names)" by force
  obtain m2 acc where b: "merge_names m1 (ch_dependencies ch) names = (m2, acc)" by force
  have "acc = Some (ch_dependencies ch')"
    using v a b by (auto simp: visit_write_def Let_def split: option.splits prod.splits)
  then show ?thesis using merge_names_subset[of m1 "ch_dependencies ch" names m2] b names_subscribed[OF ok a] by blast
qed

lemma visit_model_deps:
  assumes ok: "resources_ok rl" "length (c_name c) < COMPONENT_NAME_LEN"
    and v: "visit_model cs rl me c m ch = (m', Inr ch')" and d: "deps_covered rl D ch"
  shows "deps_covered rl D ch'"
proof -
  let ?ch = "ch\<lparr>ch_models := \<lparr>mc_models = mc_models (ch_models ch) @ [c_name c],
    mc_ttls = mc_ttls (ch_models ch) @ [c_ttl c]\<rparr>\<rparr>"
  have "ch' = ?ch \<or> (\<exists>k. visit_write cs rl (c_name c) k ?ch = (m', Inr ch'))"
    using v by (auto simp: visit_model_def Let_def split: if_splits prod.splits)
  then have "\<forall>d \<in> set (ch_dependencies ch'). d \<in> set (ch_dependencies ch) \<or> subscribed_to rl d (c_name c)"
    using visit_write_deps[OF ok] by fastforce
  moreover have "mc_models (ch_models ch') = mc_models (ch_models ch) @ [c_name c]"
    using visit_model_models[OF v] by blast
  ultimately show ?thesis using d by (auto simp: deps_covered_def)
qed

lemma visit_view_deps: "visit_view c m ch = (m', Inr ch') \<Longrightarrow> deps_covered rl D ch' = deps_covered rl D ch"
  by (auto simp: visit_view_def deps_covered_def Let_def split: prod.splits if_splits)

lemma routing_visit_deps:
  assumes ok: "components_ok cl" "resources_ok rl"
    and v: "routing_visit cl rl me n m ch = (m', Inr ch')" and d: "deps_covered rl D ch"
  shows "deps_covered rl D ch'"
proof (cases "component_lookup_node_by_name cl n")
  case None
  then show ?thesis using v d by (simp add: routing_visit_def)
next
  case (Some c)
  then have "length (c_name c) < COMPONENT_NAME_LEN"
    using ok(1) lookup_ok[of _ n c] by (cases cl) (auto simp: component_lookup_node_by_name_def)
  then show ?thesis
    using v d Some visit_model_deps[OF ok(2), of c cl me] visit_view_deps
    by (auto simp: routing_visit_def split: prod.splits sum.splits if_splits)
qed

lemma routing_visits_deps:
  assumes ok: "components_ok cl" "resources_ok rl"
  shows "routing_visits cl rl me ns m ch = (m', Inr ch') \<Longrightarrow> deps_covered rl D ch \<Longrightarrow> deps_covered rl D ch'"
proof (induction ns arbitrary: m ch)
  case Nil
  then show ?case by simp
next
  case (Cons n ns)
  then obtain m1 ch1 where "routing_visit cl rl me n m ch = (m1, Inr ch1)"
    and "routing_visits cl rl me ns m1 ch1 = (m', Inr ch')"
    by (auto split: prod.splits sum.splits)
  then show ?case using Cons routing_visit_deps[OF ok] by blast
qed

definition chain_covers :: "resources \<Rightarrow> model_chain list \<Rightarrow> string list \<Rightarrow> bool" where
  "chain_covers rl mcs deps \<longleftrightarrow>
     (\<forall>d \<in> set deps. \<exists>n \<in> set (concat (map mc_models mcs)). subscribed_to rl d n)"

lemma routing_round_deps:
  assumes ok: "components_ok cl" "resources_ok rl" and c: "chain_covers rl mcs deps"
    and r: "routing_round cl rl me fs (m, mcs, deps, vs) = Inr (gs, m', mcs', deps', vs')"
  shows "chain_covers rl mcs' deps'"
proof -
  obtain k l ch where v: "routing_visits cl rl me fs k
      \<lparr>ch_models = \<lparr>mc_models = [], mc_ttls = []\<rparr>, ch_dependencies = deps, ch_views = vs, ch_hooks = []\<rparr> =
      (l, Inr ch)" "mcs' = mcs @ [ch_models ch]" "deps' = ch_dependencies ch"
    using r by (auto simp: routing_round_def Let_def split: prod.splits sum.splits if_splits)
  have "deps_covered rl (set deps) ch"
    by (rule routing_visits_deps[OF ok v(1)]) (simp add: deps_covered_def)
  then show ?thesis using c v(2,3) by (fastforce simp: deps_covered_def chain_covers_def)
qed

lemma routing_rounds_deps:
  assumes ok: "components_ok cl" "resources_ok rl"
    and r: "do_rounds (routing_round cl rl me) fs (m, [], [], []) = Some (Inr (m', mcs, deps, vs))"
  shows "chain_covers rl mcs deps"
proof -
  have "chain_covers rl (fst (snd s1)) (fst (snd (snd s1)))"
    if "chain_covers rl (fst (snd s)) (fst (snd (snd s)))" "routing_round cl rl me fs s = Inr (gs, s1)" for fs s gs s1
    using that routing_round_deps[OF ok] by (metis prod.collapse)
  from do_rounds_invariant[where I = "\<lambda>s. chain_covers rl (fst (snd s)) (fst (snd (snd s)))", OF r _ this]
  show ?thesis by (simp add: chain_covers_def)
qed


section \<open>Requests keep the balance\<close>

text \<open>Locking, whatever its outcome, touches only the names of the chain.\<close>

lemma lock_step0_only:
  assumes "session_node_lock_by_step (Some s) rl cl 0 = (ret, rl', cl')"
  shows "(n \<notin> set (chain_models s) \<longrightarrow> component_held cl' n = component_held cl n) \<and>
    (d \<notin> set (s_dependency_chain s) \<longrightarrow> resource_held rl' d = resource_held rl d)"
proof (cases "rl = None \<or> cl = None")
  case True
  then show ?thesis using assms by (auto simp: session_node_lock_by_step_def split: option.splits)
next
  case False
  then show ?thesis
    using assms comp_locks.lock_all_mono[of cl "chain_models s" n] res_locks.lock_all_mono[of rl "s_dependency_chain s" d]
    by (auto simp: lock_step0 Let_def case_prod_beta split: if_splits)
qed

text \<open>The names of a chain that may be locked: its models are free, its dependencies covered.\<close>

definition lockable :: "'p session \<Rightarrow> ('h, 'p) world \<Rightarrow> bool" where
  "lockable s w \<longleftrightarrow>
     (\<forall>n \<in> set (chain_models s). component_held (w_components w) n = Some False) \<and>
     (\<forall>d \<in> set (s_dependency_chain s). \<exists>n \<in> set (chain_models s). subscribed_to (w_resources w) d n)"

lemma failed_start_accounted:
  assumes a: "accounted vs rl cl" and reg: "rl \<noteq> None" "cl \<noteq> None"
    and free: "\<forall>n \<in> set (chain_models s). component_held cl n = Some False"
    and sub: "\<forall>d \<in> set (s_dependency_chain s). \<exists>n \<in> set (chain_models s). subscribed_to rl d n"
    and lk: "session_node_lock_by_step (Some s) rl cl 0 = (ret, rl1, cl1)"
    and un: "session_node_unlock_by_step (Some s) rl1 cl1 0 = (ret', rl2, cl2)"
  shows "accounted vs rl2 cl2"
proof -
  have sh: "resource_shape rl1 = resource_shape rl" "component_shape cl1 = component_shape cl"
    using lock_step0_shape[OF lk] by simp_all
  obtain rs1 cs1 where reg1: "rl1 = Some rs1" "cl1 = Some cs1"
    using reg shape_None(1)[OF sh(1)] shape_None(2)[OF sh(2)] by auto
  obtain rs cs where reg0: "rl = Some rs" "cl = Some cs" using reg by auto
  have "set (s_dependency_chain s) \<subseteq> dom (resource_held (Some rs1))"
    using sub subscribed_dom[of "Some rs1"] subscribed_shape[OF sh(1)] unfolding reg1 by auto
  moreover have "set (chain_models s) \<subseteq> dom (component_held (Some cs1))"
    using free sh(2) dom_held_shape(2)[of cs1 cs] unfolding reg1 reg0 by auto
  ultimately obtain rs2 cs2 where u: "session_node_unlock_by_step (Some s) (Some rs1) (Some cs1) 0 = (0, rs2, cs2)"
    and h: "resource_held rs2 = (\<lambda>n. if n \<in> set (s_dependency_chain s) then Some False else resource_held (Some rs1) n)"
      "component_held cs2 = (\<lambda>n. if n \<in> set (chain_models s) then Some False else component_held (Some cs1) n)"
    using unlock_step0_held[of s rs1 cs1] by blast
  have e: "rl2 = rs2" "cl2 = cs2" using u un reg1 by simp_all
  have "component_held cl n = Some True" if "component_held cl2 n = Some True" for n
    using that lock_step0_only[OF lk, of n] unfolding e h(2) reg1 by (auto split: if_splits)
  moreover have "resource_held rl d = Some True" if "resource_held rl2 d = Some True" for d
    using that lock_step0_only[OF lk, of _ d] unfolding e h(1) reg1 by (auto split: if_splits)
  moreover have sh2: "resource_shape rl2 = resource_shape rl" "component_shape cl2 = component_shape cl"
    using unlock_step0_shape[OF un] sh by simp_all
  moreover have "rl2 \<noteq> None" "cl2 \<noteq> None" using shape_None(1)[OF sh2(1)] shape_None(2)[OF sh2(2)] reg by simp_all
  ultimately show ?thesis
    using a subscribed_shape[OF sh2(1)] by (simp add: accounted_def)
qed

lemma joined_accounted:
  assumes a: "accounted vs rl cl" and reg: "rl \<noteq> None" "cl \<noteq> None"
    and sub: "\<forall>d \<in> set (s_dependency_chain s). \<exists>n \<in> set (chain_models s). subscribed_to rl d n"
    and lk: "(if resource_is_write_like_method (s_method s)
      then session_node_lock_by_step (Some s) rl cl 0 else (0, rl, cl)) = (0, rl1, cl1)"
  shows "accounted (vs @ [lock_sig s]) rl1 cl1"
proof -
  have sh: "resource_shape rl1 = resource_shape rl" "component_shape cl1 = component_shape cl"
    using lock_if_shape[OF lk] by simp_all
  have ne: "rl1 \<noteq> None" "cl1 \<noteq> None" using shape_None(1)[OF sh(1)] shape_None(2)[OF sh(2)] reg by simp_all
  have "n \<in> set (claimed s) \<or> component_held cl n = Some True" if "component_held cl1 n = Some True" for n
    using that lk lock_step0_only[of s rl cl 0 rl1 cl1 n]
    by (auto simp: claimed_def is_writer_def split: if_splits)
  moreover have "d \<in> set (dep_chain s) \<or> resource_held rl d = Some True" if "resource_held rl1 d = Some True" for d
    using that lk lock_step0_only[of s rl cl 0 rl1 cl1 _ d]
    by (auto simp: dep_chain_def is_writer_def split: if_splits)
  moreover have "\<forall>d \<in> set (dep_chain s). \<exists>m \<in> set (claimed s). subscribed_to rl d m"
    using sub by (simp add: dep_chain_def claimed_def)
  ultimately show ?thesis
    unfolding lock_sig_def using accounted_join[OF a _ _ _ sh(1) ne] by blast
qed

lemma routing_start_balanced:
  assumes J: "dumps_all J" and ex: "models_exclusive w" and b: "balanced w"
    and ss: "w_sessions w = Some ss" "s_id s \<notin> s_id ` set ss"
    and l: "lockable s w" and reg: "w_resources w \<noteq> None" "w_components w \<noteq> None"
    and st: "routing_start J root rl s sid me tp tn w = Some (r, w')"
  shows "balanced w'"
proof -
  obtain ret rs1 cs1 where lk: "(if resource_is_write_like_method (s_method s)
      then session_node_lock_by_step (Some s) (w_resources w) (w_components w) 0
      else (0, w_resources w, w_components w)) = (ret, rs1, cs1)"
    by (metis prod_cases3)
  have a: "accounted (sigs w) (w_resources w) (w_components w)" using b by (simp add: balanced_def)
  have free: "\<forall>n \<in> set (chain_models s). component_held (w_components w) n = Some False"
    and sub: "\<forall>d \<in> set (s_dependency_chain s). \<exists>n \<in> set (chain_models s). subscribed_to (w_resources w) d n"
    using l by (simp_all add: lockable_def)
  show ?thesis
  proof (cases "ret = 0")
    case True
    let ?w2 = "w\<lparr>w_resources := rs1, w_components := cs1, w_sessions := Some (ss @ [s])\<rparr>"
    have ex2: "models_exclusive ?w2"
      using joined_exclusive[OF ex ss _ lk[unfolded True]] free by blast
    have sg: "sigs ?w2 = sigs w @ [lock_sig s]" using ss by (simp add: sigs_def)
    have "balanced ?w2"
      using joined_accounted[OF a reg sub lk[unfolded True]] sg by (simp add: balanced_def)
    moreover obtain q where "session_step J (Some s) root ?w2 = Some q" "w' = snd q"
      using st lk True ss(1) by (auto simp: routing_start_def session_add_def)
    ultimately show ?thesis
      using step_balanced[OF J ex2, of s root "fst q" w'] sg by simp
  next
    case False
    let ?w1 = "w\<lparr>w_resources := rs1, w_components := cs1\<rparr>"
    have lk': "session_node_lock_by_step (Some s) (w_resources w) (w_components w) 0 = (ret, rs1, cs1)"
      using lk False by (simp split: if_splits)
    obtain q where q: "routing_error_response_all J tn (Some rl) (length rl) sid me tp
        SESSION_CODE_SERVICE_UNAVAILABLE (Some ''service unavailable'')
        (Some ''failed to lock resource'') ?w1 = Some q"
      and e: "(w_resources w', w_components w') =
        snd (session_node_unlock_by_step (Some s) (w_resources (snd q)) (w_components (snd q)) 0)"
        "w_sessions w' = w_sessions (snd q)"
      using st lk False by (auto simp: routing_start_def Let_def case_prod_beta)
    have t: "w_resources (snd q) = rs1" "w_components (snd q) = cs1" "w_sessions (snd q) = w_sessions w"
      using routing_error_response_all_tables[of J tn "Some rl" "length rl" sid me tp _ _ _ ?w1 "fst q" "snd q"] q
      by (simp_all add: same_tables_def)
    obtain x where "session_node_unlock_by_step (Some s) rs1 cs1 0 = (x, w_resources w', w_components w')"
      using e t by (metis prod.collapse)
    from failed_start_accounted[OF a reg free sub lk' this] show ?thesis
      using e(2) t(3) by (simp add: balanced_def sigs_def)
  qed
qed


lemma refuse_balanced:
  assumes "routing_refuse J tn rl n sid me tp st msg lg w = Some (r, w')" "balanced w"
  shows "balanced w'"
  using assms routing_refuse_tables by (fastforce simp: same_tables_def balanced_def sigs_def)

lemma routing_session_balanced:
  assumes J: "dumps_all J" and ex: "models_exclusive w" and b: "balanced w"
    and ss: "w_sessions w = Some ss" "sid \<notin> s_id ` set ss" and rs: "w_resources w \<noteq> None"
    and mcs: "models_free (w_components w) mcs" "mcs \<noteq> []" "chain_covers (w_resources w) mcs deps"
    and st: "routing_session J root rl sid me tp tn mcs deps vs w = Some (r, w')"
  shows "balanced w'"
proof -
  obtain rc h1 where rc: "json_new_array J (w_json w) = (rc, h1)" by force
  obtain m2 so where cr: "session_create_node (w_heap w) sid me (Some tp) (Some tn) deps rc mcs vs = (m2, so)"
    by force
  have rf: "balanced v'" if "routing_refuse J tn (Some rl) (length rl) sid me tp code msg lg v = Some (c, v')" "balanced v"
    for code msg lg v v' c
    using refuse_balanced that by blast
  show ?thesis
  proof (cases "mc_models (hd mcs) = [] \<or> rc = None \<or> so = None")
    case True
    then consider "mc_models (hd mcs) = []" | "mc_models (hd mcs) \<noteq> []" "rc = None"
      | "mc_models (hd mcs) \<noteq> []" "rc \<noteq> None" "so = None" by blast
    then show ?thesis
      by cases (use st rc cr b in \<open>auto simp: routing_session_def Let_def dest!: rf\<close>)
  next
    case False
    then obtain s where s: "so = Some s" by blast
    let ?w = "w\<lparr>w_json := h1, w_heap := m2\<rparr>"
    have s': "s_id s = sid" "chain_models s = concat (map mc_models mcs)" "s_dependency_chain s = deps"
      using cr s by (auto simp: session_create_node_def chain_models_def split: prod.splits if_splits)
    have "routing_start J root rl s sid me tp tn ?w = Some (r, w')"
      using st False rc s cr by (auto simp: routing_session_def)
    moreover have "lockable s ?w"
      using mcs s' by (auto simp: lockable_def models_free_def chain_covers_def)
    moreover have "w_components w \<noteq> None"
      using models_free_registered[OF mcs(1,2)] False by blast
    ultimately show ?thesis
      using routing_start_balanced[OF J, of ?w ss s] ex b ss rs s'(1) by simp
  qed
qed

lemma routing_req_balanced:
  assumes J: "dumps_all J" and ex: "models_exclusive w" and b: "balanced w" and ok: "registries_ok w"
    and st: "routing_req J root sid me tp tn w = Some (r, w')"
  shows "balanced w'"
proof -
  have rf: "balanced w'"
    if "routing_refuse J tn rl n sid me tp code msg lg (w\<lparr>w_heap := m\<rparr>) = Some (r, w')" for m rl n code msg lg
    using refuse_balanced[OF that] b by simp
  obtain m1 rlo n where ml: "sanji_match_resource_list (w_heap w) (w_resources w) tp = (m1, rlo, n)"
    by (metis prod_cases3)
  show ?thesis
  proof (cases rlo)
    case None
    then show ?thesis using st ml rf by (auto simp: routing_req_def)
  next
    case (Some rl)
    then have rs: "w_resources w \<noteq> None"
      using ml by (cases "w_resources w") (simp_all add: sanji_match_resource_list_def
          resource_lookup_wildcard_nodes_by_name_def sanji_match_resource_def
          resource_lookup_node_by_name_def)
    obtain m2 sub where sub: "sanji_get_subscribed_component m1 [] rl = (m2, sub)" by force
    show ?thesis
    proof (cases "w_sessions w = None \<or> (\<exists>ss. w_sessions w = Some ss \<and> sid \<in> s_id ` set ss)")
      case True
      then have "session_is_inflight (w_sessions w) sid \<noteq> 0"
        by (auto simp: session_is_inflight_def find_None_iff_all split: option.splits)
      then show ?thesis using st ml Some rf by (auto simp: routing_req_def Let_def split: if_splits)
    next
      case False
      then obtain ss where ss: "w_sessions w = Some ss" "sid \<notin> s_id ` set ss" by auto
      have "balanced w'"
        if "do_rounds (routing_round (w_components w) (w_resources w) me) sub (m2, [], [], []) =
            Some (Inr (m3, mcs, deps, vs))"
          "routing_session J root rl sid me tp tn mcs deps vs (w\<lparr>w_heap := m3\<rparr>) = Some (r, w')"
        for m3 mcs deps vs
        using routing_session_balanced[OF J _ _ _ _ _ _ _ _ that(2), of ss] ss rs ex b ok
          routing_rounds_models[OF that(1)] routing_rounds_deps[OF _ _ that(1)]
          routing_rounds_nonempty[OF that(1)]
        by (simp add: registries_ok_def)
      then show ?thesis
        using st ml Some sub rf
        by (auto simp: routing_req_def Let_def split: if_splits option.splits sum.splits prod.splits)
    qed
  qed
qed

lemma same_tables_balanced: "same_tables w w' \<Longrightarrow> balanced w \<Longrightarrow> balanced w'"
  by (simp add: same_tables_def balanced_def sigs_def)

lemma routing_procedure_balanced:
  assumes J: "dumps_all J" and ex: "models_exclusive w" and b: "balanced w" and ok: "registries_ok w"
    and st: "routing_procedure J root sid me tp tn code data w = Some (r, w')"
  shows "balanced w'"
proof -
  have res: "balanced v" if "routing_res J root sid code data w = Some (x, v)" for x v
  proof (cases "session_lookup_node_by_id (w_sessions w) sid")
    case None
    then show ?thesis using that b by (simp add: routing_res_def)
  next
    case (Some s)
    then have "lock_sig s \<in> set (sigs w)"
      by (auto simp: session_lookup_node_by_id_def sigs_def dest!: find_Some_mem split: option.splits)
    then show ?thesis
      using that Some step_update_balanced[OF J ex b] by (auto simp: routing_res_def)
  qed
  show ?thesis
    using st res b routing_req_balanced[OF J ex b ok] same_tables_balanced[OF routing_event_tables b]
    by (auto simp: routing_procedure_def split: option.splits if_splits)
qed


section \<open>Registrations keep the balance\<close>

text \<open>
  What a handler besides the routing may do to the registries: no lock is taken or released,
  and the subscriptions of a given set of components stay.
\<close>

definition tame_views :: "string set \<Rightarrow> resource_views \<Rightarrow> resource_views \<Rightarrow> bool" where
  "tame_views P vs vs' \<longleftrightarrow>
     (\<forall>v' \<in> set vs'. snd (snd v') \<noteq> 0 \<longrightarrow> (\<exists>v \<in> set vs. fst v = fst v' \<and> snd (snd v) \<noteq> 0)) \<and>
     (\<forall>v \<in> set vs. \<forall>m \<in> P. m \<in> set (fst (snd v)) \<longrightarrow>
        (\<exists>v' \<in> set vs'. fst v' = fst v \<and> m \<in> set (fst (snd v'))))"

definition tame_resources :: "string set \<Rightarrow> resources \<Rightarrow> resources \<Rightarrow> bool" where
  "tame_resources P rl rl' \<longleftrightarrow>
     (\<forall>d. resource_held rl' d = Some True \<longrightarrow> resource_held rl d = Some True) \<and>
     (\<forall>d. \<forall>m \<in> P. subscribed_to rl d m \<longrightarrow> subscribed_to rl' d m) \<and> (rl \<noteq> None \<longrightarrow> rl' \<noteq> None)"

definition tame_components :: "components \<Rightarrow> components \<Rightarrow> bool" where
  "tame_components cl cl' \<longleftrightarrow>
     (\<forall>n. component_held cl' n = Some True \<longleftrightarrow> component_held cl n = Some True) \<and>
     (cl \<noteq> None \<longrightarrow> cl' \<noteq> None)"

definition held_models :: "components \<Rightarrow> string set" where
  "held_models cl = {n. component_held cl n = Some True}"

definition tame :: "('h, 'p) world \<Rightarrow> ('h, 'p) world \<Rightarrow> bool" where
  "tame w w' \<longleftrightarrow> w_sessions w' = w_sessions w \<and> tame_components (w_components w) (w_components w') \<and>
     tame_resources (held_models (w_components w)) (w_resources w) (w_resources w')"

lemma tame_resources_refl [simp]: "tame_resources P rl rl"
  by (simp add: tame_resources_def)

lemma tame_components_refl [simp]: "tame_components cl cl"
  by (simp add: tame_components_def)

lemma tame_refl [simp]: "tame w w"
  by (simp add: tame_def)

lemma tame_resources_trans: "tame_resources P a b \<Longrightarrow> tame_resources P b c \<Longrightarrow> tame_resources P a c"
  by (auto simp: tame_resources_def)

lemma tame_trans: "tame a b \<Longrightarrow> tame b c \<Longrightarrow> tame a c"
proof -
  assume a: "tame a b" and b: "tame b c"
  have "held_models (w_components b) = held_models (w_components a)"
    using a by (simp add: tame_def tame_components_def held_models_def)
  then show "tame a c"
    using a b tame_resources_trans by (auto simp: tame_def tame_components_def)
qed

lemma same_tables_tame: "same_tables w w' \<Longrightarrow> tame w w'"
  by (simp add: same_tables_def tame_def)

lemma tame_balanced:
  assumes t: "tame w w'" and ex: "models_exclusive w" and b: "balanced w"
  shows "balanced w'"
proof -
  have sg: "sigs w' = sigs w" using t by (simp add: tame_def sigs_def)
  have "m \<in> held_models (w_components w)" if v: "v \<in> set (sigs w)" "m \<in> set (fst (snd v))" for v m
  proof -
    obtain ss s where "w_sessions w = Some ss" "s \<in> set ss" "v = lock_sig s"
      using v(1) by (cases "w_sessions w") (auto simp: sigs_def)
    then show ?thesis
      using models_exclusive_sessions[OF ex] v(2) by (auto simp: lock_sig_def held_models_def list_all_iff)
  qed
  then show ?thesis
    using b t unfolding balanced_def sg accounted_def tame_def tame_components_def tame_resources_def
    by (metis (no_types, lifting))
qed

text \<open>Reading the relation off the views.\<close>

lemma subscribed_view:
  "subscribed_to (Some rs) d m \<longleftrightarrow> (\<exists>v \<in> set (map r_view rs). fst v = d \<and> m \<in> set (fst (snd v)))"
  by (auto simp: subscribed_to_def list_ex_iff r_view_def)

lemma held_some_view:
  "resource_held (Some rs) d = Some True \<Longrightarrow> \<exists>v \<in> set (map r_view rs). fst v = d \<and> snd (snd v) \<noteq> 0"
  unfolding held_view map_option_eq_Some by (meson find_Some_mem)

lemma held_of_view:
  assumes "resources_ok (Some rs)" "v \<in> set (map r_view rs)" "snd (snd v) \<noteq> 0"
  shows "resource_held (Some rs) (fst v) = Some True"
proof -
  have "distinct (map fst (map r_view rs))" using assms(1) by (simp add: resources_ok_def r_view_def comp_def)
  then have "find (\<lambda>x. fst x = fst v) (map r_view rs) = Some v" using assms(2) find_key_mem by metis
  then show ?thesis using assms(3) unfolding held_view by simp
qed

lemma tame_by_views:
  assumes "resources_ok (Some rs)" "tame_views P (map r_view rs) (map r_view rs')"
  shows "tame_resources P (Some rs) (Some rs')"
proof -
  have "resource_held (Some rs) d = Some True" if h: "resource_held (Some rs') d = Some True" for d
  proof -
    obtain v' where v': "v' \<in> set (map r_view rs')" "fst v' = d" "snd (snd v') \<noteq> 0" using held_some_view[OF h] by blast
    then obtain v where "v \<in> set (map r_view rs)" "fst v = d" "snd (snd v) \<noteq> 0"
      using assms(2) unfolding tame_views_def by blast
    then show ?thesis using held_of_view[OF assms(1)] by blast
  qed
  moreover have "subscribed_to (Some rs') d m" if "m \<in> P" "subscribed_to (Some rs) d m" for d m
    using assms(2) that unfolding tame_views_def subscribed_view by blast
  ultimately show ?thesis by (simp add: tame_resources_def)
qed

lemma subscribe_tame: "tame_views P vs (subscribe s n vs)"
  by (force simp: tame_views_def subscribe_def)

lemma remove_tame: "s \<notin> P \<Longrightarrow> tame_views P vs (remove_subscriber s vs)"
proof -
  assume s: "s \<notin> P"
  have "\<exists>v' \<in> set (remove_subscriber s vs). fst v' = fst v \<and> m \<in> set (fst (snd v'))"
    if "v \<in> set vs" "m \<in> P" "m \<in> set (fst (snd v))" for v m
  proof -
    have "m \<noteq> s" using s that(2) by blast
    obtain d subs l where v: "v = (d, subs, l)" by (metis prod_cases3)
    have "subs \<noteq> [s]" "m \<in> set (remove1 s subs)" using that(3) v \<open>m \<noteq> s\<close> by auto
    then have "(d, remove1 s subs, l) \<in> set (remove_subscriber s vs)"
      using that(1) v by (force simp: remove_subscriber_def)
    then show ?thesis using v \<open>m \<in> set (remove1 s subs)\<close> by force
  qed
  moreover have "\<exists>v \<in> set vs. fst v = fst v' \<and> snd (snd v) \<noteq> 0"
    if "v' \<in> set (remove_subscriber s vs)" "snd (snd v') \<noteq> 0" for v'
    using that by (force simp: remove_subscriber_def)
  ultimately show ?thesis by (simp add: tame_views_def)
qed


text \<open>The operations of the two registries.\<close>

lemma append_tame:
  assumes ok: "resources_ok rl" and s: "NUL \<notin> set s" "length s < COMPONENT_NAME_LEN"
    and n: "length n < RESOURCE_NAME_LEN"
  shows "tame_resources P rl (snd (snd (resource_append_component_by_name [] rl (Some n) (Some s))))"
proof (cases "\<exists>rs. rl = Some rs \<and> (\<forall>r. find (\<lambda>r. r_name r = n) rs = Some r \<longrightarrow> r_lock r = 0)")
  case True
  then obtain rs where rs: "rl = Some rs" "\<And>r. find (\<lambda>r. r_name r = n) rs = Some r \<Longrightarrow> r_lock r = 0" by blast
  have "\<exists>rs'. resource_append_component_by_name [] (Some rs) (Some n) (Some s) = (SANJI_SUCCESS, [], Some rs') \<and>
      map r_view rs' = subscribe s n (map r_view rs)"
    using resource_append_view[OF ok[unfolded rs(1)] s n rs(2)] unfolding subscribe_def fst_r_view by blast
  then show ?thesis
    using tame_by_views[OF ok[unfolded rs(1)]] subscribe_tame unfolding rs(1) by (metis snd_conv)
next
  case False
  have "snd (snd (resource_append_component_by_name [] rl (Some n) (Some s))) = rl"
  proof (cases rl)
    case None
    then show ?thesis by (simp add: resource_append_component_by_name_def)
  next
    case (Some rs)
    then obtain r where "find (\<lambda>r. r_name r = n) rs = Some r" "r_lock r \<noteq> 0" using False by blast
    then show ?thesis using Some by (auto simp: resource_append_component_by_name_def Let_def dest: find_Some_mem)
  qed
  then show ?thesis by simp
qed

lemma append_resources_tame:
  "resources_ok rl \<Longrightarrow> NUL \<notin> set s \<Longrightarrow> length s < COMPONENT_NAME_LEN \<Longrightarrow>
   \<forall>n \<in> set ns. length n < RESOURCE_NAME_LEN \<Longrightarrow>
   tame_resources P rl (snd (append_resources [] rl ns s))"
proof (induction ns arbitrary: rl)
  case (Cons n ns)
  obtain x m1 rl1 where a: "resource_append_component_by_name [] rl (Some n) (Some s) = (x, m1, rl1)"
    by (metis prod_cases3)
  have ok: "resources_ok rl1" "m1 = []" using append_plenty[OF Cons.prems(1-3), of n] a Cons.prems(4) by auto
  have "tame_resources P rl rl1" using append_tame[OF Cons.prems(1-3), of n P] a Cons.prems(4) by simp
  moreover have "tame_resources P rl1 (snd (append_resources [] rl1 ns s))"
    using Cons ok(1) by simp
  ultimately show ?case using a ok(2) tame_resources_trans by simp
qed simp

lemma add_node_tame: "tame_components cl (snd (snd (component_add_node m cl n d t r hk k ttl 0)))"
  by (auto simp: tame_components_def component_add_node_def component_held_def find_append Let_def
      split: option.splits prod.splits)

lemma register_create_tame:
  assumes ok: "registries_ok w" and m: "w_heap w = []" and n: "NUL \<notin> set n" "length n < COMPONENT_NAME_LEN"
    and rs: "\<And>buf. res = Some buf \<Longrightarrow> slots_ok RESOURCE_NAME_LEN c buf"
    and st: "register_create (Some n) ds rl hk k ttl res c w = Some (status, msg, tn, w')"
  shows "tame w w'"
proof (cases "w' = w")
  case True
  then show ?thesis by simp
next
  case False
  obtain t draws where t: "pick_tunnel (w_components w) (w_rand w) = Some (t, draws)"
    using st False by (auto simp: register_create_def split: option.splits if_splits)
  obtain ret m1 cs where a: "component_add_node [] (w_components w) (Some n) ds (Some t) rl hk k ttl 0 =
      (ret, m1, cs)" by (metis prod_cases3)
  obtain buf where buf: "res = Some buf" and reg: "component_is_registered (w_components w) (Some n) = 0"
    using st False by (auto simp: register_create_def split: option.splits if_splits)
  have m1: "m1 = []" using add_node_heap[of "w_components w" "Some n" ds "Some t" rl hk k ttl 0] a by simp
  obtain m2 rs2 where r: "append_resources [] (w_resources w) (slots RESOURCE_NAME_LEN c buf) n = (m2, rs2)"
    by force
  have "\<forall>x \<in> set (slots RESOURCE_NAME_LEN c buf). length x < RESOURCE_NAME_LEN"
    using slots_bounded rs[OF buf] by blast
  then have "tame_resources P (w_resources w) rs2" for P
    using append_resources_tame[OF _ n, of "w_resources w" "slots RESOURCE_NAME_LEN c buf" P] ok r
    by (simp add: registries_ok_def)
  moreover have "tame_components (w_components w) cs"
    using add_node_tame[of "w_components w" "[]" "Some n" ds "Some t" rl hk k ttl] a by simp
  moreover have "w_components w' = cs \<and> (w_resources w' = w_resources w \<or> w_resources w' = rs2) \<and>
      w_sessions w' = w_sessions w"
    using st False t a buf reg m r m1
    by (auto simp: register_create_def Let_def split: option.splits if_splits)
  ultimately show ?thesis by (auto simp: tame_def)
qed

lemma register_delete_tame:
  assumes ok: "registries_ok w" and m: "w_heap w = []" and n: "length n < COMPONENT_NAME_LEN"
    and st: "register_delete (Some n) w = Some (status, msg, w')"
  shows "tame w w'"
proof (cases "component_held (w_components w) n = Some False \<and>
    resource_is_any_locked_by_component (w_resources w) n = Some 0")
  case True
  then obtain rs cs where reg: "w_resources w = Some rs" "w_components w = Some cs"
    by (cases "w_resources w"; cases "w_components w")
      (simp_all add: component_held_def resource_is_any_locked_by_component_def)
  obtain rs' where w': "w' = w\<lparr>w_components := Some (filter (\<lambda>c. c_name c \<noteq> n) cs), w_resources := Some rs'\<rparr>"
    "map r_view rs' = remove_subscriber n (map r_view rs)"
    using register_delete_view[OF m reg, of n] ok True st n reg by (auto simp: registries_ok_def)
  have h: "n \<notin> held_models (w_components w)" using True by (simp add: held_models_def)
  have "tame_resources (held_models (w_components w)) (Some rs) (Some rs')"
    using tame_by_views[of rs _ rs'] remove_tame[OF h] ok reg w'(2) by (simp add: registries_ok_def)
  moreover have "find (\<lambda>c. c_name c = x) (filter (\<lambda>c. c_name c \<noteq> n) cs) =
      (if x = n then None else find (\<lambda>c. c_name c = x) cs)" for x
    by (induction cs) auto
  then have "tame_components (Some cs) (Some (filter (\<lambda>c. c_name c \<noteq> n) cs))"
    using True reg by (auto simp: tame_components_def component_held_def)
  ultimately show ?thesis using w'(1) reg by (simp add: tame_def)
next
  case False
  have "w_components w' = w_components w \<and> w_resources w' = w_resources w \<and> w_sessions w' = w_sessions w"
    using st False
    by (auto simp: register_delete_def Let_def component_is_registered_def component_delete_first_name_def
        component_is_locked_def component_held_def split: option.splits if_splits prod.splits)
  then show ?thesis by (simp add: tame_def)
qed


section \<open>The registration procedure\<close>

lemma register_create_request_tame:
  assumes ok: "registries_ok w" "w_heap w = []" and n: "NUL \<notin> set n" "length n < COMPONENT_NAME_LEN"
    and st: "register_create_request J sid method topic data n w = Some (r, w')"
  shows "tame w w'"
proof -
  obtain m1 q where a: "register_attributes J (w_json w) data [] = (m1, q)" by force
  have m: "m1 = []" using register_attributes_ok[OF a] by blast
  have id: "w\<lparr>w_heap := []\<rparr> = w" using ok(2) by (cases w) simp
  show ?thesis
  proof (cases "\<exists>p. q = Some (Inr p)")
    case False
    then obtain e where "q = Some (Inl e)"
      using st a ok(2) by (auto simp: register_create_request_def split: option.splits sum.splits)
    then have "w' = register_refuse J sid method topic e w"
      using st a ok(2) m by (simp add: register_create_request_def id)
    then show ?thesis using same_tables_tame[OF register_refuse_tables] by simp
  next
    case True
    then obtain p where p: "q = Some (Inr p)" ..
    obtain status msg tn w1 where c: "register_create (Some n) (Some (q_description p))
        (Some (q_role p)) (fst (q_hook p)) (snd (q_hook p)) (q_ttl p) (fst (q_resources p))
        (snd (q_resources p)) w = Some (status, msg, tn, w1)"
      and e: "w' = snd (register_response J sid method (Some topic) status tn w1) \<or>
        w' = register_error_response J sid method (Some topic) status (Some msg) (Some []) w1"
      using st a p m ok(2) by (auto simp: register_create_request_def id split: option.splits if_splits)
    have "tame w w1"
      using register_create_tame[OF ok n _ c] register_attributes_ok[OF a] p by blast
    then show ?thesis
      using e tame_trans same_tables_tame[OF register_response_tables] same_tables_tame[OF register_error_tables]
      by blast
  qed
qed

lemma register_procedure_tame:
  assumes J: "c_texts J" and ok: "registries_ok w0" "w_heap w0 = []" and tp: "NUL \<notin> set topic"
    and st: "register_procedure J sid method topic data w0 = Some (r, w')"
  shows "tame w0 w'"
proof -
  obtain w where w: "w = (if length topic < SANJI_REGISTER_RESOURCE_LEN \<or>
      \<not> strncmp_eq SANJI_REGISTER_RESOURCE_LEN topic SANJI_REGISTER_RESOURCE
    then register_refuse J sid method topic
      (wrong_register_context (quoted ''resource'' @ '' didn'' @ apostrophe # ''t match'')) w0
    else w0)" by simp
  have h: "registries_ok w" "w_heap w = []"
    using ok by (simp_all add: w same_tables_ok[OF register_refuse_tables] register_refuse_heap)
  have t0: "tame w0 w" by (simp add: w same_tables_tame[OF register_refuse_tables])
  have rf: "tame w (register_refuse J sid method topic e w)"
    "tame w (register_error_response J sid method tp' s ms lg w)" for e tp' s ms lg
    using same_tables_tame[OF register_refuse_tables] same_tables_tame[OF register_error_tables] by blast+
  have del: "tame w (register_error_response J sid method tp' s ms lg v)"
    if "register_delete (Some n) w = Some (s', m', v)" "length n < COMPONENT_NAME_LEN" for n tp' s ms lg v s' m'
    using tame_trans[OF register_delete_tame[OF h that(2,1)] same_tables_tame[OF register_error_tables]] .
  have cr: "tame w v"
    if "register_create_request J sid me topic d n w = Some (r', v)" "register_name J (w_json w) me topic d = Inr n"
    for me d n r' v
    using register_create_request_tame[OF h _ _ that(1)] register_name_ok[OF J tp that(2)] by blast
  have "tame w w'"
    using st rf del cr register_name_ok[OF J tp]
    unfolding register_procedure_def register_check_topic_def register_other_method_def Let_def w[symmetric]
    by (auto split: if_splits sum.splits option.splits prod.splits)
  then show ?thesis using t0 tame_trans by blast
qed

section \<open>The event loop keeps the balance\<close>

lemma dispatch_balanced:
  assumes J: "dumps_all J" "c_texts J" and ex: "models_exclusive w" and b: "balanced w"
    and ok: "registries_ok w" "w_heap w = []"
    and st: "sanji_dispatch_context J tp pl n w = Some (r, w')"
  shows "balanced w'"
proof -
  have j: "registries_ok (v\<lparr>w_json := h\<rparr>) = registries_ok v" for v :: "('a, 'b) world" and h
    by (simp add: registries_ok_def)
  have hd: "balanced v'"
    if "dispatch_handler J tp root x v = Some v'" "registries_ok v" "w_heap v = []" "NUL \<notin> set (x_resource x)"
      "balanced v" "models_exclusive v"
    for root x and v v' :: "('a, 'b) world"
    using that tame_balanced[OF register_procedure_tame[OF J(2)]] routing_procedure_balanced[OF J(1)]
      same_tables_balanced[OF dependency_procedure_tables, of J _ _ _ v]
    unfolding dispatch_handler_def
    by (auto split: if_splits)
  show ?thesis
    using st ok hd b ex parsed_resource_text[OF J(2)]
    by (auto simp: sanji_dispatch_context_def Let_def j split: if_splits option.splits)
qed

lemma register_builtin_tame:
  assumes ok: "registries_ok w" "w_heap w = []" and n: "NUL \<notin> set nm" "length nm < COMPONENT_NAME_LEN"
    and t: "length tp < RESOURCE_NAME_LEN" "length wc < RESOURCE_NAME_LEN"
  shows "tame w (register_builtin nm ds tp wc w)"
proof (cases "component_is_registered (w_components w) (Some nm) = 0")
  case False
  then show ?thesis by (simp add: register_builtin_def)
next
  case True
  obtain x1 m1 cs where a: "component_add_node [] (w_components w) (Some nm) (Some ds) (Some tp)
      (Some ''model'') None 0 10 0 = (x1, m1, cs)" by (metis prod_cases3)
  have m1: "m1 = []" using add_node_heap a by (metis fst_conv snd_conv)
  have cs: "tame_components (w_components w) cs"
    using add_node_tame[of "w_components w" "[]" "Some nm" "Some ds" "Some tp" "Some ''model''" None 0 10] a by simp
  obtain x2 m2 rs1 where b: "resource_append_component_by_name [] (w_resources w) (Some tp) (Some nm) = (x2, m2, rs1)"
    by (metis prod_cases3)
  have b': "resources_ok rs1" "m2 = []"
    using append_plenty[OF _ n t(1), of "w_resources w"] ok(1) b by (simp_all add: registries_ok_def)
  obtain x3 m3 rs2 where c: "resource_append_component_by_name [] rs1 (Some wc) (Some nm) = (x3, m3, rs2)"
    by (metis prod_cases3)
  have "tame_resources P (w_resources w) rs1" "tame_resources P rs1 rs2" for P
    using append_tame[OF _ n t(1), of "w_resources w" P] append_tame[OF b'(1) n t(2), of P] ok(1) b c
    by (simp_all add: registries_ok_def)
  then show ?thesis
    using True ok(2) a m1 b b' c cs tame_resources_trans by (simp add: register_builtin_def tame_def) blast
qed


lemma connect_balanced:
  assumes ok: "registries_ok w" "w_heap w = []" and ex: "models_exclusive w" and b: "balanced w"
  shows "balanced (snd (sanji_connect_callback w))"
proof -
  obtain rs where 1: "(case w_resources w of None \<Rightarrow> resource_init (w_heap w)
      | Some _ \<Rightarrow> (w_heap w, w_resources w)) = ([], rs)" "resources_ok rs"
      "tame_resources P (w_resources w) rs" for P
    using ok by (cases "w_resources w")
      (auto simp: resource_init_def registries_ok_def resources_ok_def tame_resources_def resource_held_def
        subscribed_to_def)
  obtain cs where 2: "(case w_components w of None \<Rightarrow> component_init []
      | Some _ \<Rightarrow> ([], w_components w)) = ([], cs)" "components_ok cs" "tame_components (w_components w) cs"
    using ok by (cases "w_components w")
      (auto simp: component_init_def registries_ok_def components_ok_def tame_components_def component_held_def)
  obtain ss where 3: "(case w_sessions w of None \<Rightarrow> session_init []
      | Some _ \<Rightarrow> ([], w_sessions w)) = ([], ss)" "ss = w_sessions w \<or> (w_sessions w = None \<and> ss = Some [])"
    by (cases "w_sessions w") (auto simp: session_init_def)
  define u where "u = w\<lparr>w_heap := [], w_resources := rs, w_components := cs\<rparr>"
  define v where "v = w\<lparr>w_heap := [], w_resources := rs, w_components := cs, w_sessions := ss\<rparr>"
  have t: "tame w u" using 1(3) 2(3) by (simp add: tame_def u_def)
  have "harmless w u" using t by (auto simp: harmless_def tame_def tame_components_def keeps_locks_def)
  then have "models_exclusive u" "balanced u" using harmless_exclusive ex tame_balanced[OF t ex b] by blast+
  moreover have "sigs v = sigs u" using 3(2) by (auto simp: u_def v_def sigs_def)
  moreover have "models_exclusive v" if "models_exclusive u"
    using that 3(2) by (cases "w_sessions w") (auto simp: models_exclusive_def views_def u_def v_def)
  ultimately have bv: "balanced v" "models_exclusive v" by (simp_all add: balanced_def u_def v_def)
  have okv: "registries_ok v" "w_heap v = []" using 1(2) 2(2) by (simp_all add: v_def registries_ok_def)
  have "balanced (register_builtin ''dependency'' ds t2 wc2 (register_builtin ''registration'' ds1 t1 wc1 v))"
    if "length t1 < RESOURCE_NAME_LEN" "length wc1 < RESOURCE_NAME_LEN" "length t2 < RESOURCE_NAME_LEN"
      "length wc2 < RESOURCE_NAME_LEN" for ds t2 wc2 ds1 t1 wc1
  proof -
    let ?v1 = "register_builtin ''registration'' ds1 t1 wc1 v"
    have o1: "registries_ok ?v1" "w_heap ?v1 = []"
      using register_builtin_ok[OF okv, of "''registration''" t1 wc1] that by simp_all
    have "tame v ?v1" using register_builtin_tame[OF okv, of "''registration''" t1 wc1] that by simp
    moreover have "tame ?v1 (register_builtin ''dependency'' ds t2 wc2 ?v1)"
      using register_builtin_tame[OF o1, of "''dependency''" t2 wc2] that by simp
    ultimately show ?thesis using tame_balanced[OF tame_trans bv(2,1)] by blast
  qed
  then show ?thesis by (simp add: sanji_connect_callback_def 1(1) 2(1) 3(1) flip: v_def)
qed

lemma reachable_balanced:
  assumes J: "dumps_all J" "c_texts J"
  shows "reachable_with_memory J w \<Longrightarrow> balanced w"
proof (induction rule: reachable_with_memory.induct)
  case (start w)
  then show ?case
    by (simp add: balanced_def accounted_def sigs_def component_held_def resource_held_def)
next
  case (connect w)
  then show ?case
    using connect_balanced[OF reachable_registries_ok[OF J(2)]] reachable_models_exclusive memory_reachable by blast
next
  case (message w msg w')
  have "models_exclusive w" using message.hyps(1) reachable_models_exclusive memory_reachable by blast
  then show ?case
    using dispatch_balanced[OF J _ message.IH reachable_registries_ok[OF J(2) message.hyps(1)]] message.hyps message.IH
    by (auto simp: sanji_message_callback_def split: if_splits)
next
  case (refresh w last_time now_time t w')
  have "models_exclusive w" using refresh.hyps(1) reachable_models_exclusive memory_reachable by blast
  then show ?case
    using decref_ttl_balanced[OF J(1) _ refresh.IH] refresh.hyps(2) refresh.IH
    by (auto simp: sanji_refresh_session_def Let_def split: if_splits)
next
  case (environment w m draws h)
  then show ?case by (simp add: balanced_def sigs_def)
qed


text \<open>In such a state the locks are exactly those of the sessions.\<close>

lemma balanced_locks:
  assumes ex: "models_exclusive w" and b: "balanced w" and ss: "w_sessions w = Some ss"
  shows "{n. component_held (w_components w) n = Some True} = set (concat (map claimed ss)) \<and>
    {d. resource_held (w_resources w) d = Some True} \<subseteq> set (concat (map dep_chain ss))"
proof -
  have "set (concat (map claimed ss)) \<subseteq> {n. component_held (w_components w) n = Some True}"
    using models_exclusive_sessions[OF ex ss] by (auto simp: list_all_iff)
  moreover have "{n. component_held (w_components w) n = Some True} \<subseteq> set (concat (map claimed ss))"
    "{d. resource_held (w_resources w) d = Some True} \<subseteq> set (concat (map dep_chain ss))"
    using b ss by (auto simp: balanced_def accounted_def sigs_def lock_sig_def)
  ultimately show ?thesis by blast
qed


section \<open>Quiet turns\<close>

text \<open>A turn without callbacks asks for no memory.\<close>

lemma quiet_turn_memory:
  "quiet t \<Longrightarrow> loop_turn J t st = Some st' \<Longrightarrow> reachable_with_memory J (ls_world st) \<Longrightarrow>
   reachable_with_memory J (ls_world st')"
  by (auto simp: loop_turn_def quiet_def handle_def intro: reachable_with_memory.refresh)

lemma quiet_loop_memory:
  "list_all quiet ts \<Longrightarrow> main_loop J ts st = Some st' \<Longrightarrow> reachable_with_memory J (ls_world st) \<Longrightarrow>
   reachable_with_memory J (ls_world st')"
proof (induction ts arbitrary: st)
  case Nil
  then show ?case by simp
next
  case (Cons t ts)
  then show ?case
    by (cases "sanji_run (ls_flags st)") (auto simp: bind_eq_Some_conv dest: quiet_turn_memory)
qed

end
