(* ===== verification/Display.thy ===== *)
theory Display
  imports Registry_Invariant Main_Program
begin

text \<open>
  What the program prints of its state: the dump of the registries and sessions that a signal
  asks for (\<open>component_display\<close>, \<open>resource_display\<close>, \<open>session_display\<close>, \<open>sanji_dump_info\<close>), the
  configuration (\<open>sanji_config_dump\<close>, \<open>ini_print\<close>), the usage text, and the callbacks that only
  print. Output is the list of its lines, each without the newline that ends it. A result
  \<open>None\<close> is the read of a name outside its buffer, or of a null string.
\<close>

section \<open>Formats\<close>

abbreviation TAB :: char where "TAB \<equiv> CHR 0x09"

text \<open>\<open>name(value)\<close> behind a tab.\<close>

definition shown_as :: "string \<Rightarrow> string \<Rightarrow> string" where
  "shown_as name v = TAB # name @ ''('' @ v @ '')''"

text \<open>The conversion \<open>%d\<close> of an unsigned value, and of the counts, which are unsigned too.\<close>

definition print_d :: "32 word \<Rightarrow> string" where
  "print_d w = sprintf_d (sint w)"

definition print_count :: "nat \<Rightarrow> string" where
  "print_count n = print_d (word_of_nat n)"

text \<open>The C string at an offset of a buffer, where it ends inside the buffer.\<close>

definition c_string_at :: "char list \<Rightarrow> nat \<Rightarrow> string option" where
  "c_string_at buf off = (if NUL \<in> set (drop off buf) then Some (cstr (drop off buf)) else None)"

text \<open>\<open>%s\<close> of a name that a loop finds in slot after slot.\<close>

definition show_slots :: "string \<Rightarrow> nat \<Rightarrow> char list option \<Rightarrow> string list option" where
  "show_slots name n buf =
     those (map (\<lambda>j. map_option (shown_as name) (c_string_at (bytes_of buf) (j * COMPONENT_NAME_LEN))) [0..<n])"

section \<open>The registries\<close>

definition component_lines :: "nat \<Rightarrow> component \<Rightarrow> string list option" where
  "component_lines i c =
     map_option (\<lambda>hooks.
       [''component node('' @ print_count i @ ''):'',
        shown_as ''name'' (c_name c),
        shown_as ''description'' (c_description c),
        shown_as ''tunnel'' (c_tunnel c),
        shown_as ''role'' (c_role c)] @ hooks @
       [shown_as ''hook_count'' (print_count (c_hook_count c)),
        shown_as ''ttl'' (print_d (c_ttl c)),
        shown_as ''lock'' (print_d (c_lock c))])
     (show_slots ''hook'' (c_hook_count c) (c_hook c))"

definition component_display :: "components \<Rightarrow> string list option" where
  "component_display head =
     (case head of
        None \<Rightarrow> Some []
      | Some cs \<Rightarrow> map_option concat (those (map (\<lambda>(i, c). component_lines i c) (enumerate 1 cs))))"

definition resource_lines :: "nat \<Rightarrow> resource \<Rightarrow> string list option" where
  "resource_lines i r =
     map_option (\<lambda>subscribed.
       [''resource node('' @ print_count i @ ''):'',
        shown_as ''name'' (r_name r)] @ subscribed @
       [shown_as ''subscribed_count'' (print_count (r_subscribed_count r)),
        shown_as ''lock'' (print_d (r_lock r))])
     (show_slots ''subscribed_component'' (r_subscribed_count r) (r_subscribed_component r))"

definition resource_display :: "resources \<Rightarrow> string list option" where
  "resource_display head =
     (case head of
        None \<Rightarrow> Some []
      | Some rs \<Rightarrow> map_option concat (those (map (\<lambda>(i, r). resource_lines i r) (enumerate 1 rs))))"

section \<open>The sessions\<close>

text \<open>
  A null chain has no names; a null model chain, which has no steps, does not print its title. The
  times to live of a step are as many as its models (\<open>State_Invariant\<close>).
\<close>

definition numbered :: "string \<Rightarrow> nat \<Rightarrow> string" where
  "numbered name i = shown_as name (print_count i)"

definition session_display_dependency_chain :: "string list \<Rightarrow> string list" where
  "session_display_dependency_chain chain =
     map (\<lambda>(i, d). numbered ''dependency_chain'' i @ ''('' @ d @ '')'') (enumerate 1 chain)"

definition session_display_view_chain :: "string list \<Rightarrow> string list" where
  "session_display_view_chain chain =
     map (\<lambda>(i, v). numbered ''view_chain'' i @ ''('' @ v @ '')'') (enumerate 1 chain)"

definition model_chain_lines :: "nat \<Rightarrow> model_chain \<Rightarrow> string list" where
  "model_chain_lines i mc =
     [numbered ''model_chain'' i] @
     concat (map (\<lambda>(m, t). [TAB # shown_as ''models'' m, TAB # shown_as ''ttls'' (print_d t)])
       (zip (mc_models mc) (mc_ttls mc))) @
     [TAB # shown_as ''count'' (print_count (length (mc_models mc)))]"

definition session_display_model_chain :: "model_chain list \<Rightarrow> string list" where
  "session_display_model_chain chain =
     (if chain = [] then []
      else (TAB # ''model_chain:'') # concat (map (\<lambda>(i, mc). model_chain_lines i mc) (enumerate 1 chain)))"

text \<open>The answers collected so far are printed by the JSON library, when it can.\<close>

definition session_lines :: "('h, 'p) jansson \<Rightarrow> 'h \<Rightarrow> nat \<Rightarrow> 'p session \<Rightarrow> string list" where
  "session_lines J h i s =
     [''session node('' @ print_count i @ ''):'',
      shown_as ''id'' (sprintf_d (uint (s_id s))),
      shown_as ''method'' (sprintf_d (s_method s)),
      shown_as ''resource'' (s_resource s),
      shown_as ''tunnel'' (s_tunnel s)] @
     session_display_dependency_chain (s_dependency_chain s) @
     [shown_as ''dependency_chain_count'' (print_count (length (s_dependency_chain s))),
      TAB # ''result_chain:''] @
     (case s_result_chain s of
        None \<Rightarrow> []
      | Some r \<Rightarrow> (case json_dumps J h (Some r) of None \<Rightarrow> [] | Some dump_result \<Rightarrow> [dump_result])) @
     session_display_model_chain (s_model_chain s) @
     [shown_as ''model_chain_count'' (print_count (length (s_model_chain s)))] @
     session_display_view_chain (s_view_chain s) @
     [shown_as ''view_chain_count'' (print_count (length (s_view_chain s))),
      shown_as ''curr_step'' (print_count (s_curr_step s)),
      shown_as ''curr_wait'' (print_d (s_curr_wait s))]"

definition session_display :: "('h, 'p) jansson \<Rightarrow> 'h \<Rightarrow> 'p session list option \<Rightarrow> string list" where
  "session_display J h head =
     (case head of
        None \<Rightarrow> []
      | Some ss \<Rightarrow> concat (map (\<lambda>(i, s). session_lines J h i s) (enumerate 1 ss)))"

definition sanji_dump_info :: "('h, 'p) jansson \<Rightarrow> ('h, 'p) world \<Rightarrow> string list option" where
  "sanji_dump_info J w =
     Option.bind (component_display (w_components w)) (\<lambda>cs.
     map_option (\<lambda>rs.
         [''SANJI: dump component:''] @ cs @ [''SANJI: dump resource:''] @ rs @
         [''SANJI: dump session:''] @ session_display J (w_json w) (w_sessions w))
       (resource_display (w_resources w)))"

text \<open>The end of a turn of the event loop: what is dumped when a signal asked for it.\<close>

definition turn_dump :: "('h, 'p) jansson \<Rightarrow> ('h, 'p) loop_state \<Rightarrow> string list option" where
  "turn_dump J st = (if sanji_dump (ls_flags st) then sanji_dump_info J (ls_world st) else Some [])"

section \<open>The configuration\<close>

definition text_or :: "string \<Rightarrow> string option \<Rightarrow> string" where
  "text_or d s = (case s of Some v \<Rightarrow> v | None \<Rightarrow> d)"

definition truth :: "bool \<Rightarrow> string" where
  "truth b = (if b then ''true'' else ''false'')"

abbreviation QUOTE :: char where "QUOTE \<equiv> CHR 0x27"

definition sanji_config_dump :: "sanji_config \<Rightarrow> string list" where
  "sanji_config_dump c =
     ''SANJI: dump config:'' #
     map (\<lambda>(name, v). TAB # name @ '' = '' @ v)
       [(''host'', QUOTE # sanji_config.c_host c @ [QUOTE]),
        (''port'', sprintf_d (c_port c)),
        (''retry'', sprintf_d (c_retry c)),
        (''keepalive'', sprintf_d (c_keepalive c)),
        (''clean_session'', truth (c_clean_session c)),
        (''sub_qos'', sprintf_d (c_sub_qos c)),
        (''pub_qos'', sprintf_d (c_pub_qos c)),
        (''client_id'', text_or ''controller'' (c_client_id c)),
        (''username'', text_or [] (c_username c)),
        (''password'', text_or [] (c_password c)),
        (''refresh_interval'', sprintf_d (c_refresh_interval c)),
        (''local_id'', text_or [] (c_local_id c)),
        (''config_file'', QUOTE # c_config_file c @ [QUOTE]),
        (''foreground'', truth (c_foreground c)),
        (''mosq_debug'', truth (c_mosq_debug c))]"

text \<open>
  The entries of the key store, up to the count of its entries. A key that has a colon in it
  is that of a value.
\<close>

fun ini_print_loop :: "int \<Rightarrow> (string option \<times> string option) list \<Rightarrow> string list" where
  "ini_print_loop num [] = []"
| "ini_print_loop num ((key, v) # rest) =
     (if num > 0 then
        (case key of
           None \<Rightarrow> []
         | Some k \<Rightarrow>
             if CHR '':'' \<in> set k then [CHR 0x22 # k @ [CHR 0x22] @ '' = '' @ [CHR 0x22] @ text_or [] v @ [CHR 0x22]]
             else [''['' @ k @ '']'']) @ ini_print_loop (num - 1) rest
      else [])"

definition ini_print :: "ini_t \<Rightarrow> string list option" where
  "ini_print this =
     (let title = ''num: '' @ sprintf_d (ini_num this) in
      case (ini_key this, ini_val this) of
        (Some keys, Some vals) \<Rightarrow>
          Some (title # ini_print_loop (ini_num this) (take (nat (ini_size this)) (zip keys vals)))
      | _ \<Rightarrow> if ini_size this > 0 \<and> ini_num this > 0 then None else Some [title])"

text \<open>The usage text; the defaults it states are the macros that \<open>sanji_config_init\<close> uses.\<close>

definition sanji_print_usage :: "string list" where
  "sanji_print_usage =
     [''sanji_controller version '' @ ''1.6.2'' @ ''.'',
      ''Usage: sanji_controller [-H host] [-p port] [-r retry] ...'',
      ''                        [-k keepalive] [-C] [-q sub_qos] [-Q pub_qos]'',
      ''                        [-I client id]'',
      ''                        [-u username] [-P password]'',
      ''                        [-i refresh_interval]'',
      ''                        [-L local id]'',
      ''                        [-c config_file] [-f] [-d]'',
      ''       sanji_controller [-h]'',
      [],
      '' -H : mqtt host to connect to. Defaults to '' @ [QUOTE] @ ''127.0.0.1'' @ [QUOTE] @ ''.'',
      '' -p : network port to connect to. Defaults to '' @ sprintf_d (1883) @ ''.'',
      '' -r : retry times to mqtt broker. Negative number for try-forever. Defaults to '' @ sprintf_d (-1) @ ''.'',
      '' -k : keep alive in seconds to mqtt broker. Defaults to '' @ sprintf_d (600) @ ''.'',
      '' -C : disable '' @ [QUOTE] @ ''clean session'' @ [QUOTE] @ ''.'',
      '' -q : quality of service level to use for the subscription. Defaults to '' @ sprintf_d (2) @ ''.'',
      '' -Q : quality of service level to use for the publication. Defaults to '' @ sprintf_d (1) @ ''.'',
      '' -I : provide the client id (requires MQTT 3.1 broker). Default to '' @ ''controller'',
      '' -u : provide a username (requires MQTT 3.1 broker)'',
      '' -P : provide a password (requires MQTT 3.1 broker)'',
      '' -i : sanji session refresh interval in ms. Defualts to '' @ sprintf_d (1000) @ ''.'',
      '' -L : provide a local id.'',
      '' -c : specify the sanji controller config file. Defaults to '' @ [QUOTE] @ ''/etc/sanji_controller.conf'' @ [QUOTE],
      '' -f : run in foreground.'',
      '' -d : enable mosquitto debug messages.'',
      '' -h : display this message.'']"

section \<open>The callbacks of the client library\<close>

text \<open>
  What the connect callback subscribes: every topic, with the quality of service asked for,
  when the connection succeeded. The library stores the identifier of each request (\<open>mids\<close>),
  by which the subscribe callback finds the topic it prints; it prints a null string for an
  identifier it does not know.
\<close>

definition sanji_connect_subscribe :: "main_userdata \<Rightarrow> int \<Rightarrow> (string \<times> int) list" where
  "sanji_connect_subscribe ud result =
     (if result = 0 then map (\<lambda>t. (t, ud_sub_qos ud)) (ud_topics ud) else [])"

definition sanji_subscribe_callback :: "string list \<Rightarrow> int list \<Rightarrow> int \<Rightarrow> int list \<Rightarrow> string option" where
  "sanji_subscribe_callback topics mids mid granted_qos =
     Option.bind (find (\<lambda>i. mids ! i = mid) [0..<length topics]) (\<lambda>i.
       case granted_qos of
         [] \<Rightarrow> None
       | q # qs \<Rightarrow>
           Some (''SANJI: Subscribed mid('' @ sprintf_d mid @ ''), topic('' @ [QUOTE] @ topics ! i @ [QUOTE] @
                 ''), qos('' @ sprintf_d q @ concat (map (\<lambda>q. '', '' @ sprintf_d q) qs) @ '')''))"

definition sanji_log_callback :: "string \<Rightarrow> string" where
  "sanji_log_callback str = ''SANJI: log_callback: '' @ str"

section \<open>What a dump shows\<close>

lemma c_string_slot:
  assumes "slots_ok COMPONENT_NAME_LEN n buf" "j < n"
  shows "c_string_at buf (j * COMPONENT_NAME_LEN) = Some (slot_at COMPONENT_NAME_LEN buf j)"
  using assms in_set_takeD[of NUL COMPONENT_NAME_LEN "drop (j * COMPONENT_NAME_LEN) buf"]
  by (auto simp: c_string_at_def slot_at_def slots_ok_def)

lemma those_Some: "(\<And>x. x \<in> set xs \<Longrightarrow> f x = Some (g x)) \<Longrightarrow> those (map f xs) = Some (map g xs)"
  by (induction xs) simp_all

lemma show_slots_ok:
  "slots_ok COMPONENT_NAME_LEN n (bytes_of buf) \<Longrightarrow>
     show_slots name n buf = Some (map (shown_as name) (slots COMPONENT_NAME_LEN n (bytes_of buf)))"
  unfolding show_slots_def slots_def map_map
  by (rule those_Some) (simp add: c_string_slot)

text \<open>The listing of a node, by the names its slots hold.\<close>

definition component_listing :: "nat \<Rightarrow> component \<Rightarrow> string list" where
  "component_listing i c =
     [''component node('' @ print_count i @ ''):'', shown_as ''name'' (c_name c),
      shown_as ''description'' (c_description c), shown_as ''tunnel'' (c_tunnel c),
      shown_as ''role'' (c_role c)] @ map (shown_as ''hook'') (c_hooks c) @
     [shown_as ''hook_count'' (print_count (length (c_hooks c))), shown_as ''ttl'' (print_d (c_ttl c)),
      shown_as ''lock'' (print_d (c_lock c))]"

definition resource_listing :: "nat \<Rightarrow> resource \<Rightarrow> string list" where
  "resource_listing i r =
     [''resource node('' @ print_count i @ ''):'', shown_as ''name'' (r_name r)] @
     map (shown_as ''subscribed_component'') (r_subscribers r) @
     [shown_as ''subscribed_count'' (print_count (length (r_subscribers r))), shown_as ''lock'' (print_d (r_lock r))]"

definition listing :: "(nat \<Rightarrow> 'a \<Rightarrow> string list) \<Rightarrow> 'a list option \<Rightarrow> string list" where
  "listing node head =
     (case head of None \<Rightarrow> [] | Some xs \<Rightarrow> concat (map (\<lambda>(i, x). node i x) (enumerate 1 xs)))"

lemma component_lines_ok: "component_ok c \<Longrightarrow> component_lines i c = Some (component_listing i c)"
  by (simp add: component_lines_def component_listing_def component_ok_def show_slots_ok c_hooks_def)

lemma resource_lines_ok: "resource_ok r \<Longrightarrow> resource_lines i r = Some (resource_listing i r)"
  by (simp add: resource_lines_def resource_listing_def resource_ok_def show_slots_ok r_subscribers_def)

lemma enumerate_mem: "(i, x) \<in> set (enumerate n xs) \<Longrightarrow> x \<in> set xs"
  by (auto simp: in_set_enumerate_eq)

lemma component_display_ok:
  assumes "components_ok head"
  shows "component_display head = Some (listing component_listing head)"
proof (cases head)
  case (Some cs)
  have "those (map (\<lambda>(i, c). component_lines i c) (enumerate 1 cs)) =
      Some (map (\<lambda>(i, c). component_listing i c) (enumerate 1 cs))"
    using assms Some
    by (intro those_Some) (auto simp: components_ok_def list_all_iff intro!: component_lines_ok dest!: enumerate_mem)
  then show ?thesis by (simp add: component_display_def listing_def Some)
qed (simp add: component_display_def listing_def)

lemma resource_display_ok:
  assumes "resources_ok head"
  shows "resource_display head = Some (listing resource_listing head)"
proof (cases head)
  case (Some rs)
  have "those (map (\<lambda>(i, r). resource_lines i r) (enumerate 1 rs)) =
      Some (map (\<lambda>(i, r). resource_listing i r) (enumerate 1 rs))"
    using assms Some
    by (intro those_Some) (auto simp: resources_ok_def list_all_iff intro!: resource_lines_ok dest!: enumerate_mem)
  then show ?thesis by (simp add: resource_display_def listing_def Some)
qed (simp add: resource_display_def listing_def)

text \<open>
  The dump of a controller that did not run out of memory reads inside the buffers.
\<close>

lemma dump_shows_registries:
  assumes "c_texts J" "reachable_with_memory J w"
  shows "sanji_dump_info J w =
    Some (''SANJI: dump component:'' # listing component_listing (w_components w) @
          ''SANJI: dump resource:'' # listing resource_listing (w_resources w) @
          ''SANJI: dump session:'' # listing (session_lines J (w_json w)) (w_sessions w))"
  using reachable_registries_ok[OF assms]
  by (simp add: sanji_dump_info_def registries_ok_def component_display_ok resource_display_ok
      session_display_def listing_def)

text \<open>
  It does not after a failed allocation: a hook that could not be stored is counted, and the dump
  reads it from a null buffer.
\<close>

lemma dump_after_failed_append:
  assumes "component_append_hook_by_name [False] (Some [c]) (Some (c_name c)) (Some hook) = (ret, m, cs)"
    "c_hook c = None" "c_hook_count c = 0" "c_lock c = 0"
  shows "component_display cs = None"
  using assms
  by (auto simp: component_append_hook_by_name_def component_node_append_hook_def malloc_def
      component_display_def component_lines_def show_slots_def c_string_at_def bytes_of_def)

text \<open>The options the usage text names are those the program takes.\<close>

lemma usage_names_options:
  "map (\<lambda>l. l ! 2) (filter (\<lambda>l. take 2 l = '' -'') sanji_print_usage) = ''HprkCqQIuPiLcfdh''"
  by code_simp

lemma usage_options_taken:
  assumes "o1 \<in> set ''HprkCqQIuPiLcfd''" "length arg < SANJI_IP_LEN"
  shows "\<exists>m c1. cmdline_option [] c (o1, arg) = Some (m, Inr c1)"
  using assms by (auto simp: cmdline_option_def copy_unchecked_def malloc_def)

text \<open>The subscribe callback names the topic that was subscribed under the identifier.\<close>

lemma subscribe_callback_topic:
  assumes "distinct mids" "length mids = length topics" "i < length topics" "granted \<noteq> []"
  shows "sanji_subscribe_callback topics mids (mids ! i) granted =
    Some (''SANJI: Subscribed mid('' @ sprintf_d (mids ! i) @ ''), topic('' @ [QUOTE] @ topics ! i @ [QUOTE] @
          ''), qos('' @ sprintf_d (hd granted) @ concat (map (\<lambda>q. '', '' @ sprintf_d q) (tl granted)) @ '')'')"
proof -
  have "find (\<lambda>j. mids ! j = mids ! i) [0..<length topics] = Some i"
    using assms by (auto simp: find_Some_iff nth_eq_iff_index_eq intro!: exI[of _ i])
  then show ?thesis using assms(4) by (cases granted) (simp_all add: sanji_subscribe_callback_def)
qed

end
