(* ===== verification/Http.thy ===== *)
theory Http
  imports Routing Dependency
begin

text \<open>
  The status codes of \<open>http.h\<close> with its tests, and the codes the controller answers with: every
  one of them is listed there, and only the answer to a success is not an error.
\<close>

section \<open>The codes\<close>

text \<open>The names without their prefix \<open>HTTP_\<close>.\<close>

definition http_codes :: "(string \<times> int) list" where
  "http_codes =
     [(''CONTINUE'', 100), (''SWITCHING_PROTOCOLS'', 101), (''PROCESSING'', 102), (''OK'', 200),
      (''CREATED'', 201), (''ACCEPTED'', 202), (''NON_AUTHORITATIVE'', 203),
      (''NO_CONTENT'', 204), (''RESET_CONTENT'', 205), (''PARTIAL_CONTENT'', 206),
      (''MULTI_STATUS'', 207), (''ALREADY_REPORTED'', 208), (''IM_USED'', 226),
      (''MULTIPLE_CHOICES'', 300), (''MOVED_PERMANENTLY'', 301), (''MOVED_TEMPORARILY'', 302),
      (''SEE_OTHER'', 303), (''NOT_MODIFIED'', 304), (''USE_PROXY'', 305),
      (''TEMPORARY_REDIRECT'', 307), (''PERMANENT_REDIRECT'', 308), (''BAD_REQUEST'', 400),
      (''UNAUTHORIZED'', 401), (''PAYMENT_REQUIRED'', 402), (''FORBIDDEN'', 403),
      (''NOT_FOUND'', 404), (''METHOD_NOT_ALLOWED'', 405), (''NOT_ACCEPTABLE'', 406),
      (''PROXY_AUTHENTICATION_REQUIRED'', 407), (''REQUEST_TIME_OUT'', 408), (''CONFLICT'', 409),
      (''GONE'', 410), (''LENGTH_REQUIRED'', 411), (''PRECONDITION_FAILED'', 412),
      (''REQUEST_ENTITY_TOO_LARGE'', 413), (''REQUEST_URI_TOO_LARGE'', 414),
      (''UNSUPPORTED_MEDIA_TYPE'', 415), (''RANGE_NOT_SATISFIABLE'', 416),
      (''EXPECTATION_FAILED'', 417), (''UNPROCESSABLE_ENTITY'', 422), (''LOCKED'', 423),
      (''FAILED_DEPENDENCY'', 424), (''UPGRADE_REQUIRED'', 426),
      (''PRECONDITION_REQUIRED'', 428), (''TOO_MANY_REQUESTS'', 429),
      (''REQUEST_HEADER_FIELDS_TOO_LARGE'', 431), (''INTERNAL_SERVER_ERROR'', 500),
      (''NOT_IMPLEMENTED'', 501), (''BAD_GATEWAY'', 502), (''SERVICE_UNAVAILABLE'', 503),
      (''GATEWAY_TIME_OUT'', 504), (''VERSION_NOT_SUPPORTED'', 505),
      (''VARIANT_ALSO_VARIES'', 506), (''INSUFFICIENT_STORAGE'', 507), (''LOOP_DETECTED'', 508),
      (''NOT_EXTENDED'', 510), (''NETWORK_AUTHENTICATION_REQUIRED'', 511)]"

definition is_HTTP_INFO :: "int \<Rightarrow> bool" where
  "is_HTTP_INFO x \<longleftrightarrow> x \<ge> 100 \<and> x < 200"

definition is_HTTP_SUCCESS :: "int \<Rightarrow> bool" where
  "is_HTTP_SUCCESS x \<longleftrightarrow> x \<ge> 200 \<and> x < 300"

definition is_HTTP_REDIRECT :: "int \<Rightarrow> bool" where
  "is_HTTP_REDIRECT x \<longleftrightarrow> x \<ge> 300 \<and> x < 400"

definition is_HTTP_ERROR :: "int \<Rightarrow> bool" where
  "is_HTTP_ERROR x \<longleftrightarrow> x \<ge> 400 \<and> x < 600"

definition is_HTTP_CLIENT_ERROR :: "int \<Rightarrow> bool" where
  "is_HTTP_CLIENT_ERROR x \<longleftrightarrow> x \<ge> 400 \<and> x < 500"

definition is_HTTP_SERVER_ERROR :: "int \<Rightarrow> bool" where
  "is_HTTP_SERVER_ERROR x \<longleftrightarrow> x \<ge> 500 \<and> x < 600"

definition is_HTTP_VALID_RESPONSE :: "int \<Rightarrow> bool" where
  "is_HTTP_VALID_RESPONSE x \<longleftrightarrow> x \<ge> 100 \<and> x < 600"

definition status_drops_connection :: "int \<Rightarrow> bool" where
  "status_drops_connection x \<longleftrightarrow>
     x = 400 \<or> x = 408 \<or> x = 411 \<or> x = 413 \<or> x = 414 \<or> x = 500 \<or> x = 503 \<or> x = 501"

text \<open>The codes of \<open>session.h\<close>, by the names of \<open>http.h\<close> they stand for.\<close>

definition session_codes :: "(int \<times> string) list" where
  "session_codes =
     [(SESSION_CODE_OK, ''OK''), (SESSION_CODE_BAD_REQUEST, ''BAD_REQUEST''),
      (SESSION_CODE_FORBIDDEN, ''FORBIDDEN''), (SESSION_CODE_NOT_FOUND, ''NOT_FOUND''),
      (SESSION_CODE_METHOD_NOT_ALLOWED, ''METHOD_NOT_ALLOWED''), (408, ''REQUEST_TIME_OUT''),
      (SESSION_CODE_LOCKED, ''LOCKED''), (SESSION_CODE_INTERNAL_SERVER_ERROR, ''INTERNAL_SERVER_ERROR''),
      (SESSION_CODE_NOT_IMPLEMENTED, ''NOT_IMPLEMENTED''),
      (SESSION_CODE_SERVICE_UNAVAILABLE, ''SERVICE_UNAVAILABLE'')]"

section \<open>What holds of them\<close>

text \<open>The classes divide the valid codes, and the errors are those of the client and of the server.\<close>

lemma http_classes:
  "is_HTTP_VALID_RESPONSE x \<longleftrightarrow>
     is_HTTP_INFO x \<or> is_HTTP_SUCCESS x \<or> is_HTTP_REDIRECT x \<or> is_HTTP_ERROR x"
  "is_HTTP_ERROR x \<longleftrightarrow> is_HTTP_CLIENT_ERROR x \<or> is_HTTP_SERVER_ERROR x"
  "status_drops_connection x \<Longrightarrow> is_HTTP_ERROR x"
  by (auto simp: is_HTTP_VALID_RESPONSE_def is_HTTP_INFO_def is_HTTP_SUCCESS_def is_HTTP_REDIRECT_def
      is_HTTP_ERROR_def is_HTTP_CLIENT_ERROR_def is_HTTP_SERVER_ERROR_def status_drops_connection_def)

lemma http_classes_disjoint:
  "length (filter (\<lambda>P. P x) [is_HTTP_INFO, is_HTTP_SUCCESS, is_HTTP_REDIRECT, is_HTTP_CLIENT_ERROR,
     is_HTTP_SERVER_ERROR]) \<le> 1"
  by (simp add: is_HTTP_INFO_def is_HTTP_SUCCESS_def is_HTTP_REDIRECT_def
      is_HTTP_CLIENT_ERROR_def is_HTTP_SERVER_ERROR_def)

text \<open>Each code is listed once and is valid; there are 57, not the 83 of \<open>RESPONSE_CODES\<close>.\<close>

lemma http_codes_listed:
  "sorted (map snd http_codes)" "distinct (map fst http_codes)" "distinct (map snd http_codes)"
  "length http_codes = 57" "list_all (\<lambda>(_, x). is_HTTP_VALID_RESPONSE x) http_codes"
  by code_simp+

lemma session_codes_named: "list_all (\<lambda>(x, n). map_of http_codes n = Some x) session_codes"
  by code_simp

text \<open>An answer has one of the codes of \<open>session.h\<close>.\<close>

lemma register_create_code:
  "register_create name description role hook n ttl resources k w = Some (code, message, tunnel, w') \<Longrightarrow>
     code \<in> fst ` set session_codes \<and> (code = SESSION_CODE_OK \<or> is_HTTP_ERROR code)"
  by (auto simp: register_create_def session_codes_def is_HTTP_ERROR_def Let_def
      split: option.splits if_splits prod.splits)

lemma register_delete_code:
  "register_delete name w = Some (code, message, w') \<Longrightarrow>
     code \<in> fst ` set session_codes \<and> (code = SESSION_CODE_OK \<or> is_HTTP_ERROR code)"
  by (auto simp: register_delete_def session_codes_def is_HTTP_ERROR_def Let_def
      split: option.splits if_splits prod.splits)

lemma dependency_read_code:
  "dependency_read topic w = Some (code, message, found, w') \<Longrightarrow>
     code \<in> fst ` set session_codes \<and> (code = SESSION_CODE_OK \<or> is_HTTP_ERROR code)"
  by (auto simp: dependency_read_def session_codes_def is_HTTP_ERROR_def Let_def
      split: option.splits if_splits prod.splits sum.splits)

end
