(* ===== verification/Byte_Order.thy ===== *)
theory Byte_Order
  imports Sanji_Prelude "HOL-Library.Word"
begin

text \<open>
  The byte swaps of \<open>lib/bswap.h\<close>, on a little-endian machine: a machine word as it is read from
  its bytes in the other order.
\<close>

unbundle bit_operations_syntax

section \<open>The macros\<close>

definition BSWAP16 :: "16 word \<Rightarrow> 16 word" where
  "BSWAP16 c = push_bit 8 (c AND 0xff) OR (drop_bit 8 c AND 0xff)"

definition BSWAP32 :: "32 word \<Rightarrow> 32 word" where
  "BSWAP32 c =
     (drop_bit 24 c AND 0xff) OR (drop_bit 8 c AND 0xff00) OR (push_bit 8 c AND 0xff0000) OR push_bit 24 c"

text \<open>On a big-endian machine they are empty.\<close>

definition bswap_big_endian :: "'a::len word \<Rightarrow> 'a word" where
  "bswap_big_endian c = c"

section \<open>The order of the bytes\<close>

text \<open>The bytes of a word, the least significant one first.\<close>

definition byte_at :: "nat \<Rightarrow> 'a::len word \<Rightarrow> 8 word" where
  "byte_at k c = ucast (drop_bit (8 * k) c)"

definition bytes16 :: "16 word \<Rightarrow> 8 word list" where
  "bytes16 c = [byte_at 0 c, byte_at 1 c]"

definition bytes32 :: "32 word \<Rightarrow> 8 word list" where
  "bytes32 c = [byte_at 0 c, byte_at 1 c, byte_at 2 c, byte_at 3 c]"

text \<open>Swapping reverses the bytes, so swapping twice is the identity.\<close>

lemma masks: "(0xff :: 'a::len word) = mask 8" "(0xff00 :: 'a::len word) = push_bit 8 (mask 8)"
  "(0xff0000 :: 'a::len word) = push_bit 16 (mask 8)"
  by (simp_all add: mask_eq_exp_minus_1 push_bit_eq_mult)

lemma bswap16_reverses: "bytes16 (BSWAP16 c) = rev (bytes16 c)"
  by (auto simp: bytes16_def byte_at_def BSWAP16_def masks bit_simps intro!: bit_word_eqI)

lemma bswap32_reverses: "bytes32 (BSWAP32 c) = rev (bytes32 c)"
  by (auto simp: bytes32_def byte_at_def BSWAP32_def masks bit_simps intro!: bit_word_eqI)

text \<open>The bytes determine the word.\<close>

lemma bytes32_inject: "bytes32 c = bytes32 d \<Longrightarrow> c = d"
proof (rule bit_word_eqI)
  fix n
  assume b: "bytes32 c = bytes32 d" and "n < LENGTH(32)"
  then have n: "n div 8 \<in> {0, 1, 2, 3}" by auto
  then have "byte_at (n div 8) c = byte_at (n div 8) d" using b by (auto simp: bytes32_def)
  then have "bit (byte_at (n div 8) c) (n mod 8) = bit (byte_at (n div 8) d) (n mod 8)" by simp
  then show "bit c n = bit d n" by (simp add: byte_at_def bit_simps)
qed

lemma bswap16_twice: "BSWAP16 (BSWAP16 c) = c"
  by (rule bit_word_eqI) (auto simp: BSWAP16_def masks bit_simps)

lemma bswap32_twice: "BSWAP32 (BSWAP32 c) = c"
  by (rule bytes32_inject) (simp add: bswap32_reverses)

lemma bswap_runs: "BSWAP16 0x1234 = 0x3412" "BSWAP32 0x12345678 = 0x78563412"
  by (simp_all add: BSWAP16_def BSWAP32_def)

end
