(* ===== verification/Unit_Tests.thy ===== *)
theory Unit_Tests
  imports Display Topics
begin

text \<open>
  The programs of \<open>src/unit_test\<close>. Each is a list of calls to the module it tests, in the order
  of its \<open>main\<close>, and the lines it prints are those of its own print statements and of the
  display functions (\<open>Display\<close>); the messages of failing operations are not shown. A literal
  handed to an operation that copies a whole slot is shorter than the slot, and is taken to be
  followed by zeros. The tests state no expected output; what they print is computed here on
  the model of the modules.
\<close>

section \<open>Scripts\<close>

text \<open>A call prints some lines and changes the state; \<open>None\<close> is undefined behaviour.\<close>

fun run_script :: "('c \<Rightarrow> 's \<Rightarrow> (string list \<times> 's) option) \<Rightarrow> 'c list \<Rightarrow> 's \<Rightarrow> (string list \<times> 's) option" where
  "run_script call [] s = Some ([], s)"
| "run_script call (c # cs) s =
     Option.bind (call c s) (\<lambda>(out, s1).
       map_option (\<lambda>(rest, s2). (out @ rest, s2)) (run_script call cs s1))"

text \<open>\<open>DEBUG_PRINT\<close> of a test compiled with \<open>DEBUG\<close>, as its \<open>Makefile\<close> does.\<close>

definition debug_print :: "string \<Rightarrow> nat \<Rightarrow> string \<Rightarrow> string" where
  "debug_print file line text =
     ''[SANJI] '' @ file @ '': main: '' @ sprintf_d (int line) @ '': '' @ text"

definition with_code :: "string \<Rightarrow> int \<Rightarrow> string" where
  "with_code question code = question @ ''('' @ sprintf_d code @ '')''"

text \<open>The loop that prints an array of names; a null array has no names.\<close>

definition print_names :: "string \<Rightarrow> nat \<Rightarrow> string \<Rightarrow> string \<Rightarrow> string list \<Rightarrow> string list" where
  "print_names file line key name names =
     map (\<lambda>n. debug_print file line (''get names('' @ n @ '') by '' @ key @ ''('' @ name @ '')'')) names"

definition slots_or_null :: "string list \<Rightarrow> char list option" where
  "slots_or_null names = (if names = [] then None else Some (concat (map (slot COMPONENT_NAME_LEN) names)))"

section \<open>Components\<close>

datatype component_call =
    CAdd string "string option" string string "string list" "32 word"
  | CDelete string
  | CDisplay
  | CSay nat string
  | CRegistered string
  | CUnique string
  | CAppend string string
  | CRemove string string
  | CFind nat string string
  | CLock nat string
  | CUnlock nat string
  | CNames nat string string

text \<open>Line numbers are those of the print statements.\<close>

definition component_call :: "component_call \<Rightarrow> heap \<times> components \<Rightarrow> (string list \<times> heap \<times> components) option" where
  "component_call call s =
     (let (m, cs) = s; debug = debug_print ''component_unit_test.c'' in
      case call of
        CAdd name description tunnel role hook ttl \<Rightarrow>
          Some ([], snd (component_add_node m cs (Some name) description (Some tunnel) (Some role)
                           (slots_or_null hook) (length hook) ttl 0))
      | CDelete name \<Rightarrow> Some ([], m, snd (component_delete_first_name cs (Some name)))
      | CDisplay \<Rightarrow> map_option (\<lambda>out. (out, s)) (component_display cs)
      | CSay line text \<Rightarrow> Some ([debug line text], s)
      | CRegistered name \<Rightarrow>
          Some ([with_code (name @ '' is registerd? '') (component_is_registered cs (Some name))], s)
      | CUnique tunnel \<Rightarrow>
          Some ([with_code (tunnel @ '' is unique? '') (component_is_unique_tunnel cs (Some tunnel))], s)
      | CAppend name hook \<Rightarrow> Some ([], snd (component_append_hook_by_name m cs (Some name) (Some hook)))
      | CRemove name hook \<Rightarrow> Some ([], snd (component_remove_hook_by_name m cs (Some name) (Some hook)))
      | CFind line key name \<Rightarrow>
          Some (case component_lookup_node_by_name cs name of
                  None \<Rightarrow> []
                | Some c \<Rightarrow> [debug line (''find node '' @ key @ ''('' @ c_name c @ '')'')], s)
      | CLock line name \<Rightarrow>
          (let (ret, cs1) = component_lock_by_name cs (Some name)
           in Some ([debug line (with_code ''lock by name return code'' ret)], m, cs1))
      | CUnlock line name \<Rightarrow>
          (let (ret, cs1) = component_unlock_by_name cs (Some name)
           in Some ([debug line (with_code ''unlock by name return code'' ret)], m, cs1))
      | CNames line name shown \<Rightarrow>
          (let (m1, names) = component_get_names_by_hook m cs (Some name)
           in Some (print_names ''component_unit_test.c'' line ''hook'' shown names, m1, cs)))"

definition component_test_calls :: "component_call list" where
  "component_test_calls =
     [CDisplay, CAdd ''n_aaa'' (Some ''d_aaa'') ''t_aaa'' ''r_aaa'' [''h_aaa''] 111,
      CAdd ''n_bbb'' None ''t_bbb'' ''r_bbb'' [''h_bbb''] 222,
      CAdd ''n_ccc'' None ''t_ccc'' ''r_ccc'' [] 333, CSay 21 [], CDisplay, CDelete ''n_aaa'',
      CSay 25 [], CDisplay, CDelete ''n_aaa'', CSay 29 [], CDisplay,
      CAdd ''n_ddd'' (Some ''d_ddd'') ''t_ddd'' ''r_ddd'' [''h_ddd''] 444, CSay 33 [], CDisplay,
      CAdd ''n_eee'' (Some ''d_eee'') ''t_eee'' ''r_eee'' [''h_eee_1'', ''h_eee_2'', [], ''h_eee_4''] 555,
      CSay 43 [], CDisplay, CRegistered ''n_aaa'', CRegistered ''n_bbb'', CUnique ''t_aaa'',
      CUnique ''t_bbb'', CUnique ''t_ccc'', CUnique ''t_ddd'',
      CAppend ''n_ccc'' ''h_ccc_append1'', CAppend ''n_ccc'' ''h_ccc_append2'',
      CAppend ''n_eee'' ''h_eee_append1'', CDisplay, CSay 63 [], CRemove ''n_ccc'' ''h_ccc'',
      CRemove ''n_ddd'' ''h_ddd'', CRemove ''n_eee'' ''h_eee_2'', CRemove ''n_eee'' ''h_eee_3'',
      CRemove ''n_fff'' ''h_fff'', CDisplay, CFind 73 ''name'' ''n_aaa'',
      CFind 75 ''name'' ''n_bbb'', CFind 77 ''name'' ''n_ccc'', CFind 79 ''name'' ''n_ddd'',
      CFind 81 ''name'' ''n_eee'', CFind 83 ''id'' ''n_fff'']"

definition component_test_locks :: "component_call list" where
  "component_test_locks =
     [CLock 88 ''n_aaa'', CLock 90 ''n_bbb'', CLock 92 ''n_ccc'', CLock 94 ''n_ddd'',
      CLock 96 ''n_eee'', CLock 98 ''n_fff'', CLock 100 ''n_aaa'', CLock 102 ''n_bbb'',
      CLock 104 ''n_ccc'', CLock 106 ''n_ddd'', CLock 108 ''n_eee'', CLock 110 ''n_fff'',
      CDisplay, CUnlock 115 ''n_aaa'', CUnlock 117 ''n_bbb'', CUnlock 119 ''n_ccc'',
      CUnlock 121 ''n_ddd'', CUnlock 123 ''n_eee'', CUnlock 125 ''n_fff'', CUnlock 127 ''n_aaa'',
      CUnlock 129 ''n_bbb'', CUnlock 131 ''n_ccc'', CUnlock 133 ''n_ddd'', CUnlock 135 ''n_eee'',
      CUnlock 137 ''n_fff'', CDisplay]"

definition component_test_names :: "component_call list" where
  "component_test_names =
     [CAdd ''n_aaa'' (Some ''d_aaa'') ''t_aaa'' ''r_aaa'' [] 111,
      CAdd ''n_bbb'' None ''t_bbb'' ''r_bbb'' [''n_aaa''] 222,
      CAdd ''n_ccc'' None ''t_ccc'' ''r_ccc'' [''n_aaa''] 333, CDisplay,
      CNames 157 ''n_aaa'' ''n_aaa'', CNames 162 ''n_bbb'' ''n_bbb'',
      CNames 167 ''n_ccc'' ''n_ccc'']"

text \<open>The list is taken apart between the two parts of the test.\<close>

definition component_unit_test :: "heap \<Rightarrow> string list option" where
  "component_unit_test m =
     Option.bind (run_script component_call (component_test_calls @ component_test_locks) (component_init m))
       (\<lambda>(out1, m1, _).
     map_option (\<lambda>(out2, _). out1 @ [debug_print ''component_unit_test.c'' 146 []] @ out2)
       (run_script component_call component_test_names (component_init m1)))"

section \<open>Resources\<close>

datatype resource_call =
    RAdd string "string list"
  | RDelete string
  | RDisplay
  | RSay nat string
  | RMethod string string
  | RRegistered string
  | RAppend string string
  | RRemove string string
  | RFind nat string string
  | RLock nat string
  | RUnlock nat string
  | RNames nat string string
  | RWildcard nat string

text \<open>The loop that prints the nodes a wildcard lookup found; a null array prints nothing.\<close>

definition print_nodes :: "nat \<Rightarrow> resource list \<Rightarrow> string list" where
  "print_nodes line nodes =
     (if nodes = [] then []
      else debug_print ''resource_unit_test.c'' line ''========='' #
        map (\<lambda>r. debug_print ''resource_unit_test.c'' (line + 2)
               (''-----> find nodes('' @ print_count (length nodes) @ '': '' @ r_name r @ '')'')) nodes)"

definition resource_call :: "resource_call \<Rightarrow> heap \<times> resources \<Rightarrow> (string list \<times> heap \<times> resources) option" where
  "resource_call call s =
     (let (m, rs) = s; debug = debug_print ''resource_unit_test.c'' in
      case call of
        RAdd name subscribed \<Rightarrow>
          Some ([], snd (resource_add_node m rs (Some name) (slots_or_null subscribed) (length subscribed) 0))
      | RDelete name \<Rightarrow> Some ([], m, snd (resource_delete_first_name rs (Some name)))
      | RDisplay \<Rightarrow> map_option (\<lambda>out. (out, s)) (resource_display rs)
      | RSay line text \<Rightarrow> Some ([debug line text], s)
      | RMethod title method \<Rightarrow> map_option (\<lambda>k. ([with_code title k], s)) (resource_lookup_method (Some method))
      | RRegistered name \<Rightarrow>
          Some ([with_code (name @ '' is registerd? '') (resource_is_registered rs (Some name))], s)
      | RAppend name component \<Rightarrow> Some ([], snd (resource_append_component_by_name m rs (Some name) (Some component)))
      | RRemove name component \<Rightarrow> Some ([], snd (resource_remove_component_by_name m rs (Some name) (Some component)))
      | RFind line key name \<Rightarrow>
          Some (case resource_lookup_node_by_name rs name of
                  None \<Rightarrow> []
                | Some r \<Rightarrow> [debug line (''find node '' @ key @ ''('' @ r_name r @ '')'')], s)
      | RLock line name \<Rightarrow>
          (let (ret, rs1) = resource_lock_by_name rs (Some name)
           in Some ([debug line (with_code ''lock by name return code'' ret)], m, rs1))
      | RUnlock line name \<Rightarrow>
          (let (ret, rs1) = resource_unlock_by_name rs (Some name)
           in Some ([debug line (with_code ''unlock by name return code'' ret)], m, rs1))
      | RNames line name shown \<Rightarrow>
          (let (m1, names) = resource_get_names_by_component m rs (Some name)
           in Some (print_names ''resource_unit_test.c'' line ''component'' shown names, m1, rs))
      | RWildcard line topic \<Rightarrow>
          Some (print_nodes line (resource_lookup_wildcard_nodes_by_name rs topic), s))"

definition resource_test_calls :: "resource_call list" where
  "resource_test_calls =
     [RAdd ''n_aaa'' [''s_aaa''], RAdd ''n_bbb'' [], RSay 16 [], RDisplay, RDelete ''n_aaa'',
      RSay 20 [], RDisplay, RDelete ''n_aaa'', RSay 24 [], RDisplay, RAdd ''n_ccc'' [''s_ccc''],
      RSay 28 [], RDisplay,
      RAdd ''n_ddd'' [''s_ddd_1'', ''s_ddd_2'', [], ''s_ddd_4'', ''s_ddd_5''], RSay 39 [],
      RDisplay, RMethod ''POST'' ''POST'', RMethod ''GET'' ''GET'', RMethod ''UPDATE'' ''PUT'',
      RMethod ''DELETE'' ''DELETE'', RMethod ''POS'' ''POS'', RMethod ''PO'' ''PO'',
      RMethod ''PPOST'' ''PPOST'', RMethod ''PPPOST'' ''PPPOST'', RMethod ''POSTT'' ''POSTT'',
      RMethod ''POSTTT'' ''POSTTT'', RRegistered ''n_ddd'', RRegistered ''n_nnn'',
      RAppend ''n_ddd'' ''s_ddd_append1'', RAppend ''n_ddd'' ''s_ddd_append2'',
      RAppend ''n_eee'' ''s_eee_append1'', RDisplay, RRemove ''n_ccc'' ''s_ccc'',
      RRemove ''n_ddd'' ''s_ddd_4'', RRemove ''n_ddd'' ''s_ddd_6'', RRemove ''n_fff'' ''s_fff'',
      RDisplay, RFind 84 ''name'' ''n_aaa'', RFind 86 ''name'' ''n_bbb'',
      RFind 88 ''name'' ''n_ccc'', RFind 90 ''name'' ''n_ddd'', RFind 92 ''name'' ''n_eee'',
      RFind 94 ''id'' ''n_fff'']"

definition resource_test_locks :: "resource_call list" where
  "resource_test_locks =
     [RLock 99 ''n_aaa'', RLock 101 ''n_bbb'', RLock 103 ''n_ccc'', RLock 105 ''n_ddd'',
      RLock 107 ''n_eee'', RLock 109 ''n_fff'', RLock 111 ''n_aaa'', RLock 113 ''n_bbb'',
      RLock 115 ''n_ccc'', RLock 117 ''n_ddd'', RLock 119 ''n_eee'', RLock 121 ''n_fff'',
      RDisplay, RUnlock 126 ''n_aaa'', RUnlock 128 ''n_bbb'', RUnlock 130 ''n_ccc'',
      RUnlock 132 ''n_ddd'', RUnlock 134 ''n_eee'', RUnlock 136 ''n_fff'', RUnlock 138 ''n_aaa'',
      RUnlock 140 ''n_bbb'', RUnlock 142 ''n_ccc'', RUnlock 144 ''n_ddd'', RUnlock 146 ''n_eee'',
      RUnlock 148 ''n_fff'', RDisplay]"

definition resource_test_names :: "resource_call list" where
  "resource_test_names =
     [RAdd ''n_aaa'' [''s_aaa''], RAdd ''n_bbb'' [''s_aaa''], RAdd ''n_ccc'' [''s_ccc''],
      RAdd ''n_ddd'' [], RDisplay, RNames 171 ''s_aaa'' ''s_aaa'',
      RNames 176 ''s_bbb'' ''s_bbb'', RNames 181 ''s_ccc'' ''s_ccc'',
      RNames 186 ''s_ddd'' ''s_ccc'']"

definition resource_test_wildcards :: "resource_call list" where
  "resource_test_wildcards =
     [RAdd ''/xxx/aaa'' [''s_aaa''], RAdd ''/xxx/bbb'' [''s_bbb''], RAdd ''/xxx/#'' [''s_ccc''],
      RAdd ''/xxx/aaa/#'' [], RAdd ''/#'' [], RAdd ''#'' [], RAdd ''/xxx#'' [],
      RAdd ''/xxx#yyy'' [], RDisplay, RWildcard 214 [], RWildcard 223 ''/'',
      RWildcard 232 ''/xxx'', RWildcard 241 ''/yyy'', RWildcard 250 ''/xxx/'',
      RWildcard 259 ''/xxxxxx'', RWildcard 268 ''/xxx/aaa'', RWildcard 277 ''/xxx/bbb'',
      RWildcard 286 ''/xxx/aaa/'', RWildcard 295 ''/xxx/bbb/'', RWildcard 304 ''/xxx/aaa/111'',
      RWildcard 313 ''/xxx/aaa/111/222'']"

definition resource_unit_test :: "heap \<Rightarrow> string list option" where
  "resource_unit_test m =
     Option.bind (run_script resource_call (resource_test_calls @ resource_test_locks) (resource_init m))
       (\<lambda>(out1, m1, _).
     Option.bind (run_script resource_call resource_test_names (resource_init m1))
       (\<lambda>(out2, m2, _).
     map_option (\<lambda>(out3, _). out1 @ [debug_print ''resource_unit_test.c'' 158 []] @ out2 @
         [debug_print ''resource_unit_test.c'' 200 []] @ out3)
       (run_script resource_call resource_test_wildcards (resource_init m2))))"

section \<open>Sessions\<close>

datatype 'p session_call =
    SAdd "32 word" int string string "string list" "'p option" "model_chain list" "string list"
  | SDelete_resource string
  | SDelete_id "32 word"
  | SDisplay
  | SSay nat string
  | SFind_id nat "32 word"

definition session_call ::
    "('h, 'p) jansson \<Rightarrow> 'p session_call \<Rightarrow> heap \<times> 'h \<times> 'p session list option \<Rightarrow>
     (string list \<times> heap \<times> 'h \<times> 'p session list option) option" where
  "session_call J call s =
     (let (m, h, ss) = s; debug = debug_print ''session_unit_test.c'' in
      case call of
        SAdd i method resource tunnel deps result models vs \<Rightarrow>
          (let (_, m1, ss1) = session_add_node m ss i method (Some resource) (Some tunnel) deps result models vs
           in Some ([], m1, h, ss1))
      | SDelete_resource resource \<Rightarrow>
          (let (_, h1, ss1) = session_delete_first_resource J h ss (Some resource) in Some ([], m, h1, ss1))
      | SDelete_id i \<Rightarrow> (let (_, h1, ss1) = session_delete_first_id J h ss i in Some ([], m, h1, ss1))
      | SDisplay \<Rightarrow> Some (session_display J h ss, s)
      | SSay line text \<Rightarrow> Some ([debug line text], s)
      | SFind_id line i \<Rightarrow>
          Some (case session_lookup_node_by_id ss i of
                  None \<Rightarrow> []
                | Some x \<Rightarrow> [debug line (with_code ''find node id'' (sint (s_id x)))], s))"

text \<open>The chains of the third session.\<close>

definition test_dependency_chain :: "string list" where
  "test_dependency_chain = replicate 3 ''dependency name''"

definition test_model_chain :: "model_chain list" where
  "test_model_chain =
     map (\<lambda>i. \<lparr>mc_models = replicate i ''model name'', mc_ttls = map (\<lambda>j. word_of_nat (i * 10 + j)) [0..<i]\<rparr>) [0..<3]"

definition test_view_chain :: "string list" where
  "test_view_chain = replicate 4 ''view name''"

definition session_test_calls :: "'p option \<Rightarrow> 'p option \<Rightarrow> 'p session_call list" where
  "session_test_calls result2 result3 =
     [SAdd 1 (-1) ''r_aaa'' ''t_aaa'' [] None [] [], SAdd 2 0 ''r_bbb'' ''t_bbb'' [] result2 [] [],
      SAdd 3 1 ''r_ccc'' ''t_ccc'' test_dependency_chain result3 test_model_chain test_view_chain,
      SSay 100 [], SDisplay, SDelete_resource ''r_aaa'', SSay 104 [], SDisplay,
      SDelete_resource ''r_aaa'', SSay 108 [], SDisplay, SDelete_id 1, SSay 112 [], SDisplay,
      SDelete_id 2, SSay 116 [], SDisplay, SDelete_id 2, SSay 120 [], SDisplay,
      SAdd 4 2 ''r_ddd'' ''t_ddd'' [] None [] [], SSay 124 [], SDisplay, SFind_id 129 1, SFind_id 131 2,
      SFind_id 133 3, SFind_id 135 4, SFind_id 137 5]"

text \<open>
  What \<open>json_load_file\<close> makes of the file is an argument, with the position and the text of its
  error. The list of sessions is taken apart at the end.
\<close>

definition session_unit_test ::
    "('h, 'p) jansson \<Rightarrow> 'p option \<Rightarrow> int \<times> string \<Rightarrow> heap \<Rightarrow> 'h \<Rightarrow> (int \<times> string list \<times> 'h) option" where
  "session_unit_test J loaded error m h =
     (case loaded of
        None \<Rightarrow> Some (1, [''error: on line '' @ sprintf_d (fst error) @ '': '' @ snd error], h)
      | Some p \<Rightarrow>
          (let (copy, h1) = json_deep_copy J h (Some p); (m1, ss) = session_init m
           in map_option (\<lambda>(out, _, h2, ss2). (0, out, session_free J ss2 h2))
                (run_script (session_call J) (session_test_calls (Some p) copy) (m1, h1, ss))))"

section \<open>What the tests print\<close>

definition is_debug :: "string \<Rightarrow> bool" where
  "is_debug line \<longleftrightarrow> take 7 line = ''[SANJI]''"

definition debug_lines :: "string \<Rightarrow> (nat \<times> string) list \<Rightarrow> string list" where
  "debug_lines file = map (\<lambda>(line, text). debug_print file line text)"

text \<open>The lines of the locks: the numbers of the print statements with the codes returned.\<close>

definition code_lines :: "string \<Rightarrow> nat list \<Rightarrow> int list \<Rightarrow> (nat \<times> string) list" where
  "code_lines what lines codes = map (\<lambda>(line, code). (line, with_code (what @ '' by name return code'') code)) (zip lines codes)"

text \<open>
  With memory the tests run through, every display is defined, and the codes are those of
  registered and missing names: a component lost with its only hook is missing, a second lock
  is refused, and a second unlock is not.
\<close>

lemma component_test_prints:
  "map_option (filter is_debug) (component_unit_test []) =
   Some (debug_lines ''component_unit_test.c''
     ([(21, []), (25, []), (29, []), (33, []), (43, []), (63, []),
       (75, ''find node name(n_bbb)''), (77, ''find node name(n_ccc)''), (81, ''find node name(n_eee)'')] @
      code_lines ''lock'' [88, 90, 92, 94, 96, 98, 100, 102, 104, 106, 108, 110] [2, 0, 0, 2, 0, 2, 2, 1, 1, 2, 1, 2] @
      code_lines ''unlock'' [115, 117, 119, 121, 123, 125, 127, 129, 131, 133, 135, 137] [2, 0, 0, 2, 0, 2, 2, 0, 0, 2, 0, 2] @
      [(146, []), (157, ''get names(n_bbb) by hook(n_aaa)''), (157, ''get names(n_ccc) by hook(n_aaa)'')]))"
  by code_simp

lemma resource_test_prints:
  "map_option (filter is_debug) (Option.bind (run_script resource_call (resource_test_calls @ resource_test_locks)
       (resource_init [])) (\<lambda>(out, _). Some out)) =
   Some (debug_lines ''resource_unit_test.c''
     ([(16, []), (20, []), (24, []), (28, []), (39, []),
       (86, ''find node name(n_bbb)''), (90, ''find node name(n_ddd)''), (92, ''find node name(n_eee)'')] @
      code_lines ''lock'' [99, 101, 103, 105, 107, 109, 111, 113, 115, 117, 119, 121] [2, 0, 2, 0, 0, 2, 2, 1, 2, 1, 1, 2] @
      code_lines ''unlock'' [126, 128, 130, 132, 134, 136, 138, 140, 142, 144, 146, 148] [2, 0, 2, 0, 0, 2, 2, 0, 2, 0, 0, 2]))"
  by code_simp

text \<open>
  The eight names of the last part are read as patterns: a \<open>#\<close> matches any rest that is not
  empty, also without a slash before it, and what follows it in the pattern is ignored.
\<close>

lemma resource_test_matches:
  "map_option (\<lambda>(_, _, rs). map (\<lambda>topic. map r_name (resource_lookup_wildcard_nodes_by_name rs topic))
       [[], ''/'', ''/xxx'', ''/xxx/'', ''/xxx/aaa'', ''/xxx/aaa/111''])
     (run_script resource_call (take 8 resource_test_wildcards) (resource_init [])) =
   Some [[], [''#''], [''/#'', ''#''], [''/#'', ''#'', ''/xxx#'', ''/xxx#yyy''],
     [''/xxx/aaa'', ''/xxx/#'', ''/#'', ''#'', ''/xxx#'', ''/xxx#yyy''],
     [''/xxx/#'', ''/xxx/aaa/#'', ''/#'', ''#'', ''/xxx#'', ''/xxx#yyy'']]"
  by code_simp

lemma session_test_prints:
  "(case session_unit_test (static_json []) (Some (JArray [])) (0, []) [] () of
      Some (ret, out, _) \<Rightarrow> ret = 0 \<and> filter is_debug out = debug_lines ''session_unit_test.c''
        [(100, []), (104, []), (108, []), (112, []), (116, []), (120, []), (124, []),
         (133, ''find node id(3)''), (135, ''find node id(4)'')]
    | None \<Rightarrow> False)"
  by code_simp

end
