(* ===== verification/Lib_Examples.thy ===== *)
theory Lib_Examples
  imports C_Text Crc16 Byte_Order Process_Util
begin

text \<open>
  The programs of \<open>src/lib/example\<close>, as the lines they print. What the system answers them (the
  clock, random numbers, whether a file can be locked) is an argument. A result \<open>None\<close> is
  undefined behaviour.
\<close>

section \<open>Printing numbers\<close>

fun hex_of :: "string \<Rightarrow> nat \<Rightarrow> string" where
  "hex_of digits n = (if n < 16 then [digits ! n] else hex_of digits (n div 16) @ [digits ! (n mod 16)])"

declare hex_of.simps [simp del]

abbreviation print_X :: "nat \<Rightarrow> string" where "print_X \<equiv> hex_of ''0123456789ABCDEF''"
abbreviation print_x :: "nat \<Rightarrow> string" where "print_x \<equiv> hex_of ''0123456789abcdef''"

definition labelled :: "string \<Rightarrow> string \<Rightarrow> string" where
  "labelled name v = name @ ''='' @ v"

section \<open>Byte order\<close>

definition bswap_example :: "string list" where
  "bswap_example =
     (let num_16 = 0x00ff :: 16 word; num_32 = 0x00ff00ff :: 32 word in
      [print_X (unat num_16) @ '' -> '' @ print_X (unat (BSWAP16 num_16)),
       print_X (unat num_32) @ '' -> '' @ print_X (unat (BSWAP32 num_32))])"

lemma bswap_example_prints: "bswap_example = [''FF -> FF00'', ''FF00FF -> FF00FF00'']"
  by (simp add: bswap_example_def BSWAP16_def BSWAP32_def hex_of.simps)

section \<open>Checksum\<close>

text \<open>\<open>memcpy\<close> from an integer, on a little-endian machine.\<close>

definition low_bytes :: "16 word \<Rightarrow> 8 word list" where
  "low_bytes w = [ucast w, ucast (drop_bit 8 w)]"

definition text_bytes :: "string \<Rightarrow> 8 word list" where
  "text_bytes s = map of_char s"

definition two_bytes :: "8 word list \<Rightarrow> string" where
  "two_bytes bs = ''0x'' @ print_X (unat (bs ! 1)) @ print_X (unat (bs ! 0))"

text \<open>\<open>random_num\<close> is the remainder by 65536. The checksum is printed as an \<open>int\<close>.\<close>

definition crc16_example :: "bool \<Rightarrow> int \<Rightarrow> string list option" where
  "crc16_example char_signed random_num =
     (let data = text_bytes ''12345678901'' @ [0];
          random = low_bytes (word_of_int random_num);
          shown = (\<lambda>crc :: 16 word. labelled ''crc'' (sprintf_d (uint crc) @ '',0x'' @ print_X (unat crc)))
      in Option.bind (get_crc16 char_signed (data @ random) 14) (\<lambda>crc1.
         map_option (\<lambda>crc2.
             [shown crc1, shown crc2, labelled ''data'' ''12345678901'',
              labelled ''random'' (two_bytes random), labelled ''crc'' (two_bytes (low_bytes crc2))])
           (do_crc16 char_signed 0xFFFF (data @ random) 14)))"

text \<open>Both calls give the same checksum, and random bytes from 128 on fail where \<open>char\<close> is signed.\<close>

lemma crc16_example_same:
  "crc16_example cs r = Some out \<Longrightarrow> out ! 1 = out ! 0"
  by (auto simp: crc16_example_def get_crc16_def Let_def bind_eq_Some_conv)

lemma crc16_example_undefined:
  "crc16_example cs r = None \<longleftrightarrow> cs \<and> list_ex (\<lambda>b. 128 \<le> b) (low_bytes (word_of_int r))"
proof -
  have base: "\<not> list_ex (\<lambda>b. 128 \<le> b) (text_bytes ''12345678901'' @ [0])"
    "length (text_bytes ''12345678901'' @ [0]) = 12"
    by code_simp+
  define d where "d = text_bytes ''12345678901'' @ [0]"
  define b where "b = low_bytes (word_of_int r)"
  have l: "length b = 2" "length d = 12" "\<not> list_ex (\<lambda>b. 128 \<le> b) d"
    using base by (simp_all add: b_def d_def low_bytes_def)
  have "do_crc16 cs 0xFFFF (d @ b) 14 =
      (if cs \<and> list_ex (\<lambda>b. 128 \<le> b) b then None else Some (foldl crc_byte 0xFFFF (d @ b)))"
    using do_crc16_eq[of 14 "d @ b" cs "0xFFFF"] l by simp
  then show ?thesis
    unfolding crc16_example_def Let_def d_def[symmetric] b_def[symmetric] get_crc16_def
    by (auto simp: bind_eq_None_conv)
qed

section \<open>Date and time\<close>

definition tm_lines :: "tm \<Rightarrow> string list" where
  "tm_lines t =
     [''Struct tm format:'', labelled ''yr'' (sprintf_d (tm_year t)), labelled ''mon'' (sprintf_d (tm_mon t)),
      labelled ''mday'' (sprintf_d (tm_mday t)), labelled ''hr'' (sprintf_d (tm_hour t)),
      labelled ''min'' (sprintf_d (tm_min t)), labelled ''sec'' (sprintf_d (tm_sec t))]"

definition dt_lines :: "DATETIME \<Rightarrow> string list" where
  "dt_lines dt =
     [''DATEIME format:'', labelled ''yr'' (print_x (unat (dt_yr dt))), labelled ''mon'' (print_x (unat (dt_mon dt))),
      labelled ''mday'' (print_x (unat (dt_mday dt))), labelled ''hr'' (print_x (unat (dt_hr dt))),
      labelled ''min'' (print_x (unat (dt_min dt))), labelled ''sec'' (print_x (unat (dt_sec dt)))]"

text \<open>The argument is the local time.\<close>

definition dt_example :: "tm \<Rightarrow> string list" where
  "dt_example tm1 =
     (let dt = tm2dt tm1; tm2 = dt2tm dt
      in tm_lines tm1 @ dt_lines dt @ tm_lines tm2 @ [tm2str tm1, dt2str dt])"

text \<open>In this century both ways of printing agree, and the structure is got back.\<close>

lemma dt_example_agrees:
  assumes "100 \<le> tm_year t" "tm_year t < 200" "list_all (\<lambda>i. 0 \<le> i \<and> i < 100) (tm_fields t)"
  shows "dt_example t = tm_lines t @ dt_lines (tm2dt t) @ tm_lines t @ [tm2str t, tm2str t]"
proof -
  have "tm_year t + 1900 = tm_year t - 100 + 20 * 100" by simp
  then have "(tm_year t + 1900) mod 100 = (tm_year t - 100) mod 100" by (metis mod_mult_self1)
  moreover have "(tm_year t - 100) mod 100 = tm_year t - 100"
    using assms(1,2) by (intro mod_pos_pos_trivial) linarith+
  ultimately have "(tm_year t + 1900) mod 100 + 100 = tm_year t" by linarith
  moreover have "0 \<le> tm_year t + 1900" using assms(1) by simp
  ultimately have "dt2tm (tm2dt t) = t" using dt2tm_tm2dt[OF _ assms(3)] by (simp only: tm.surjective) simp
  then show ?thesis by (simp add: dt_example_def Let_def dt2str_dt2tm)
qed

section \<open>Strings\<close>

definition memset_zero :: "char list \<Rightarrow> char list" where
  "memset_zero buf = replicate (length buf) NUL"

text \<open>\<open>sprintf\<close> and the initialisation of an array write the string and its terminator.\<close>

definition into_buffer :: "string \<Rightarrow> char list \<Rightarrow> char list" where
  "into_buffer s buf = s @ NUL # drop (length s + 1) buf"

text \<open>\<open>pointer_size\<close> is the size of a pointer. The buffers of \<open>calloc\<close> are taken to be there.\<close>

definition strext_example :: "nat \<Rightarrow> string list" where
  "strext_example pointer_size =
     (let text = ''012345678911111'';
          empty = replicate 16 NUL;
          shown = (\<lambda>buf. case buf of Some b \<Rightarrow> cstr b | None \<Rightarrow> []);
          str1 = text @ [NUL];
          str2 = into_buffer text empty;
          str3 = Some (into_buffer text empty);
          a = strrtrim str3 (Some ''19'');
          b = strrtrim a (Some ''45'');
          c = strltrim b (Some ''210'');
          d = strltrim c (Some ''98'');
          e = strtrim (map_option (\<lambda>buf. into_buffer text (memset_zero buf)) d) (Some ''0129'')
      in [sprintf_d (int (length str1)), sprintf_d 16, sprintf_d (int pointer_size),
          shown a, shown b, shown c, shown d, shown e,
          shown (strtrim (Some str1) (Some ''0129'')), shown (strtrim (Some str2) (Some ''0129'')),
          shown (strlwr (Some (into_buffer ''aBcDeFgHiJ12'' empty))),
          shown (strupr (Some (into_buffer ''aBcDeFgHiJ12'' empty)))])"

lemma strext_example_prints:
  "strext_example 8 =
     [''16'', ''16'', ''8'', ''012345678'', ''012345678'', ''345678'', ''345678'', ''345678'', ''345678'', ''345678'',
      ''abcdefghij12'', ''ABCDEFGHIJ12'']"
  by code_simp

text \<open>
  \<open>bin2hex\<close> writes no terminator, and the array it writes to is not initialised: \<open>rest\<close> are the 14
  bytes behind the digits. The example prints them up to the first zero, and then converts
  18 pairs of digits, although there are 9.
\<close>

definition text_util_hex :: "char list \<Rightarrow> (string \<times> 8 word list option) option" where
  "text_util_hex rest =
     Option.bind (bin2hex (text_bytes ''123456789'') 9) (\<lambda>digits.
       let hex_string = digits @ rest
       in if NUL \<in> set hex_string then Some (cstr hex_string, hex2bin hex_string 18) else None)"

text \<open>So, whatever is in the array, it reads behind its end.\<close>

lemma hex2bin_short: "length s < 2 * n \<Longrightarrow> hex2bin s n = None"
  by (induction s n rule: hex2bin.induct) auto

lemma text_util_example_undefined:
  assumes "length rest = 14" "text_util_hex rest = Some (shown, bin)"
  shows "bin = None"
proof -
  have "map_option length (bin2hex (text_bytes ''123456789'') 9) = Some 18" by code_simp
  then obtain digits where d: "bin2hex (text_bytes ''123456789'') 9 = Some digits" "length digits = 18" by auto
  have "hex2bin (digits @ rest) 18 = None" using d(2) assms(1) by (intro hex2bin_short) simp
  then show ?thesis using assms(2) d(1) by (auto simp: text_util_hex_def Let_def split: if_splits)
qed

lemma text_util_example_undefined_witness:
  "text_util_hex (replicate 14 NUL) = Some (''313233343536373839'', None)"
  by code_simp

text \<open>The rest of the example works on its own arrays.\<close>

definition in_quotes :: "char list \<Rightarrow> string" where
  "in_quotes buf = CHR 0x27 # cstr buf @ [CHR 0x27]"

definition text_util_strings :: "string list" where
  "text_util_strings =
     (let trailing_string = ''hello   '' @ [NUL];
          trimmed = remove_trailing_spaces (Some trailing_string);
          new_string = '' hello '' @ [CHR 0x22] @ ''simon'' @ [CHR 0x22] @ ''.   '' @ [CHR 0x0A] @
            ''may I help you?  '' @ [NUL];
          a = remove_chars new_string (CHR ''h'');
          b = remove_spaces a;
          c = remove_quotations b;
          d = remove_newlines c
      in [in_quotes trailing_string, (case trimmed of Some s \<Rightarrow> in_quotes s | None \<Rightarrow> []),
          in_quotes new_string, in_quotes a, in_quotes b, in_quotes c, in_quotes d])"

lemma text_util_strings_prints:
  "text_util_strings ! 1 = in_quotes (''hello'' @ [NUL]) \<and>
   text_util_strings ! 6 = in_quotes (''ellosimon.mayIelpyou?'' @ [NUL])"
  by code_simp

section \<open>Random numbers\<close>

text \<open>
  Ten numbers in sequence and ten random ones; \<open>draws\<close> is, for each of the latter, what is read
  from \<open>/dev/urandom\<close>, and the time.
\<close>

definition random_util_example ::
    "int \<Rightarrow> (32 word \<Rightarrow> int) \<Rightarrow> (32 word option \<times> 32 word) list \<Rightarrow> string list option" where
  "random_util_example rand_max rand_of draws =
     Option.bind (sequence rand_max 10 0) (\<lambda>in_sequence.
       let random = map (\<lambda>(urandom, now).
             generate_random rand_max rand_of urandom now RAND_MODE_RANDOM (last in_sequence)) (take 10 draws)
       in Some (map sprintf_d in_sequence @ map (\<lambda>r. sprintf_d (fst (the r))) random))"

lemma random_util_example_prints:
  assumes "10 \<le> rand_max" "rand_max \<le> INT_MAX" "length draws = 10"
  shows "random_util_example rand_max rand_of draws =
    Some (map (\<lambda>i. sprintf_d (int i + 1)) [0..<10] @
          map (\<lambda>(urandom, now). sprintf_d (rand_of (case urandom of Some b \<Rightarrow> b | None \<Rightarrow> now))) draws)"
proof -
  have "sequence rand_max 10 0 = Some (map (\<lambda>i. 0 + 1 + int i) [0..<10])"
    using assms(1,2) by (intro sequence_counts) simp_all
  then show ?thesis
    using assms(3)
    by (auto simp: random_util_example_def generate_random_def Let_def add.commute split: option.splits)
qed

section \<open>Clocks\<close>

text \<open>\<open>old\<close> is what the buffer of the timestamps holds before. The second member is the exit code.\<close>

definition time_util_example :: "clock \<Rightarrow> string \<Rightarrow> string list \<times> int" where
  "time_util_example k old =
     (let (r, today) = get_today k in
      if r \<noteq> 0 then ([], 1)
      else let stamp = (\<lambda>mode buf. get_timestamp k mode buf TIMESTAMP_LEN);
               a = stamp TIMESTAMP_MODE_MONOTONIC (Some old);
               b = stamp TIMESTAMP_MODE_UNIXTIME a;
               c = stamp TIMESTAMP_MODE_DATETIME b;
               shown = (\<lambda>buf. case buf of Some s \<Rightarrow> ''timestamp is '' @ in_quotes s | None \<Rightarrow> [])
           in ([''today is '' @ in_quotes (case today of Some s \<Rightarrow> s @ [NUL] | None \<Rightarrow> []), shown a, shown b, shown c], 0))"

lemma time_util_example_prints:
  assumes "0 \<le> k_monotonic k" "k_monotonic k < 2 ^ 63" "0 \<le> k_time k" "k_time k < 2 ^ 63"
  shows "(\<exists>date. time_util_example k old =
    ([''today is '' @ in_quotes (the (snd (get_today k)) @ [NUL]),
      ''timestamp is '' @ in_quotes (sprintf_d (k_monotonic k) @ [NUL]),
      ''timestamp is '' @ in_quotes (sprintf_d (k_time k) @ [NUL]), date], 0))"
proof -
  have fits: "cstr (snprintf_zeroed 32 (sprintf_d i)) = sprintf_d i" if "0 \<le> i" "i < 2 ^ 63" for i
  proof -
    have "nat i < 10 ^ Suc 18" using that by (simp add: nat_less_iff)
    then have "length (sprintf_d i) \<le> 19" using length_decimal[of "nat i" 18] that(1) by (simp add: sprintf_d_def)
    then show ?thesis by (simp add: cstr_snprintf no_NUL_sprintf_d)
  qed
  have "cstr (sprintf_d i @ [NUL]) = sprintf_d i" for i using no_NUL_sprintf_d by simp
  then show ?thesis
    using assms fits[of "k_monotonic k"] fits[of "k_time k"]
    by (simp add: time_util_example_def get_today_def get_timestamp_def in_quotes_def Let_def)
qed

section \<open>The file with the process identifier\<close>

abbreviation PID_FILE :: string where "PID_FILE \<equiv> ''/tmp/pid_file''"

definition pid_example :: "file_system \<Rightarrow> string list \<times> int \<times> file_system" where
  "pid_example fs =
     (let (r, fs') = create_pid (Some PID_FILE) fs
      in if r \<noteq> 0 then ([], -1, fs') else ([''program start!''], 0, fs'))"

lemma pid_example_starts:
  assumes "0 < fs_pid fs" "fs_pid fs < 2 ^ 31" "pid_example fs = (out, ret, fs')"
  shows "(ret = 0 \<longleftrightarrow> out = [''program start!'']) \<and>
    (ret = 0 \<longrightarrow> (\<exists>line. fs_files fs' PID_FILE = Some line \<and> atoi line = fs_pid fs))"
proof -
  obtain r fs1 where c: "create_pid (Some PID_FILE) fs = (r, fs1)" by fastforce
  show ?thesis
    using create_pid_result[OF c assms(1,2)] assms(3) c
    by (auto simp: pid_example_def split: if_splits)
qed

section \<open>A lock that is waited for\<close>

text \<open>
  \<open>systems\<close> is what \<open>fcntl\<close> does in each turn; \<open>old_pid\<close> is the member that \<open>lock_test\<close> does not
  initialise. \<open>None\<close>: the program still waits after these turns. The calls that set and release
  the lock do not look at their results.
\<close>

fun lock_turns :: "int list \<Rightarrow> string list option" where
  "lock_turns [] = None"
| "lock_turns (pid # pids) =
     (if pid = 0 then Some []
      else map_option (Cons (''File is locked by pid('' @ sprintf_d pid @ '')'')) (lock_turns pids))"

definition lock_example ::
    "int \<Rightarrow> int \<Rightarrow> int \<Rightarrow> int \<Rightarrow> int \<Rightarrow> int \<Rightarrow> (int \<Rightarrow> int \<Rightarrow> flock \<Rightarrow> int \<times> flock) list \<Rightarrow> string list option" where
  "lock_example getlk unlck wrlck seek_set old_pid fd systems =
     map_option (\<lambda>lines. lines @ [''Lock!'', ''Unlock!''])
       (lock_turns (map (\<lambda>fcntl. lock_test fcntl getlk unlck old_pid fd wrlck 0 seek_set 0) systems))"

lemma lock_turns_eq:
  "lock_turns pids =
    (if 0 \<in> set pids
     then Some (map (\<lambda>pid. ''File is locked by pid('' @ sprintf_d pid @ '')'') (takeWhile (\<lambda>pid. pid \<noteq> 0) pids))
     else None)"
  by (induction pids) auto

text \<open>
  A file that cannot be opened, or a query that fails, is reported as a lock of process -1 for
  ever: \<open>lock_test\<close> answers -1, which the loop takes for an owner.
\<close>

lemma lock_example_never_ends:
  assumes "\<And>fcntl lk. fcntl \<in> set systems \<Longrightarrow> fst (fcntl fd getlk lk) = -1"
  shows "lock_example getlk unlck wrlck seek_set old_pid fd systems = None"
proof -
  have "lock_test fcntl getlk unlck old_pid fd wrlck 0 seek_set 0 = -1" if "fcntl \<in> set systems" for fcntl
    using assms[OF that] by (simp add: lock_test_def case_prod_beta)
  then show ?thesis by (auto simp: lock_example_def lock_turns_eq)
qed

section \<open>A daemon\<close>

text \<open>
  \<open>turns\<close> is the number of turns before a signal ends the loop, \<open>opened\<close> whether the file could be
  opened. The result: the exit code of the process, the lines it prints to the standard output
  and what it wrote to the file, which it removes at its end.
\<close>

definition daemonize_example ::
    "fork \<Rightarrow> fork \<Rightarrow> bool \<Rightarrow> bool \<Rightarrow> bool \<Rightarrow> nat \<Rightarrow> process \<Rightarrow> int \<times> string list \<times> string" where
  "daemonize_example fork1 fork2 chdir_ok null_ok opened turns p =
     (let before = ''Before daemonization: pid('' @ sprintf_d (ps_pid p) @ '')'' in
      case daemonize_process [] False fork1 fork2 chdir_ok null_ok p of
        Inl _ \<Rightarrow> (0, [before], [])
      | Inr (r, p') \<Rightarrow>
          if r \<noteq> 0 then (1, [before, ''Daemon start error!''], [])
          else let first = ''Finish daemonization: pid('' @ sprintf_d (ps_pid p') @ '')'' @ [CHR 0x0A];
                   alive = ''I('' @ sprintf_d (ps_pid p') @ '') still alive.'' @ [CHR 0x0A]
               in (0, [before], if opened then first @ concat (replicate turns alive) else []))"

lemma daemonize_example_daemon:
  assumes "pid1 \<noteq> -1" "pid1 \<noteq> ps_pgid p"
  shows "daemonize_example (Fork_child pid1) (Fork_child pid2) chdir_ok null_ok True turns p =
    (0, [''Before daemonization: pid('' @ sprintf_d (ps_pid p) @ '')''],
     ''Finish daemonization: pid('' @ sprintf_d pid2 @ '')'' @ [CHR 0x0A] @
     concat (replicate turns (''I('' @ sprintf_d pid2 @ '') still alive.'' @ [CHR 0x0A])))"
  using daemonize_children[OF assms, of "[]" False pid2 chdir_ok null_ok]
  by (auto simp: daemonize_example_def Let_def)

end
