(* ===== verification/Spec2Isabelle.thy ===== *)
theory Spec2Isabelle
  imports Registration_Facts Request_Facts List_Loops Crc16 Pub_Facts Client_Output Progress Session_Clock
    Lock_Balance Display Http Byte_Order Unit_Tests Lib_Examples
begin

text \<open>
  Verification of the Sanji controller (\<open>src/src/\<close>).

  \<^bold>\<open>The program.\<close> The controller sits on an MQTT broker between \<^emph>\<open>models\<close>, which provide
  resources, and \<^emph>\<open>views\<close>, which watch them. Both register with it; it keeps a registry of
  components (\<open>component.c\<close>) and one of resources (\<open>resource.c\<close>). A request for a resource
  that changes it is routed through a \<^emph>\<open>session\<close> (\<open>session.c\<close>): \<open>routing_req\<close> builds the chain
  of models to ask (the subscribers of the matched resources, then the components that hook
  them, and so on), locks all of them, and the session asks one step of the chain after the
  other, waits for the answers, answers the requester and unlocks. \<open>sanji_controller.c\<close> holds
  the handlers, the MQTT callbacks, the configuration and \<open>main\<close>, whose loop calls the client
  library and ages the sessions. All three registries are rings of \<open>list.h\<close>; the
  configuration file is read by \<open>ini.c\<close> with the string helpers of \<open>lib/\<close>. Beside the controller
  the sources hold clients that publish and subscribe over the same broker (\<open>tool/\<close>).

  \<^bold>\<open>Theories and code.\<close>
  \<^item> \<open>Sanji_Prelude\<close>: C strings, bounded copies and the \<open>ctype.h\<close> tests, the list of answers
    of the allocator, return codes, and the first-match loops of \<open>list_for_each_entry\<close>.
  \<^item> \<open>Slots\<close>, \<open>Components\<close>: \<open>component.c\<close>. The flat array \<open>hook\<close> is a byte buffer in \<open>Slots\<close> and a
    list of names in \<open>Components\<close>; the slot operations are shown to refine the list operations.
  \<^item> \<open>Resources\<close>, \<open>Topics\<close>: \<open>resource.c\<close> (registry, methods, wildcard scan) and the match
    functions of \<open>sanji_controller.c\<close> over the scan.
  \<^item> \<open>Lock_Table\<close>: the contract of the lock operations of the two registries.
  \<^item> \<open>World\<close>, \<open>Static_Json\<close>: the state of the running controller (\<open>struct sanji_userdata\<close>, the
    session list, the log of publications), the interface of the JSON library, and a concrete
    JSON library for runs.
  \<^item> \<open>Sessions\<close>, \<open>Session_Facts\<close>: \<open>session.c\<close>.
  \<^item> \<open>Responses\<close>, \<open>Register\<close>, \<open>Rounds\<close>, \<open>Dependency\<close>, \<open>Routing\<close>, \<open>Dispatch\<close>: the answers and
    handlers of \<open>sanji_controller.c\<close>, down to \<open>sanji_message_callback\<close> and the other callbacks.
    \<open>Registration_Facts\<close>, \<open>Chain_Facts\<close>, \<open>Request_Facts\<close> and \<open>Exclusion\<close> hold their lemmas.
  \<^item> \<open>State_Invariant\<close>, \<open>Registry_Invariant\<close>, \<open>Lock_Balance\<close>, \<open>Progress\<close>, \<open>Session_Clock\<close>: lemmas
    on all of these together: the shape of sessions and registries, that only sessions in flight
    hold locks, that every message is handled, and how long a session lives.
  \<^item> \<open>Config\<close>, \<open>Config_Facts\<close>, \<open>Main_Program\<close>: defaults, command line, configuration file,
    validation, user data, the loop that connects, and \<open>main\<close> with its event loop.
  \<^item> \<open>Ini\<close>, \<open>Ini_Facts\<close>, \<open>Ini_Reading\<close>: \<open>ini.c\<close>. \<open>C_Text\<close>: \<open>lib/strext.c\<close>, \<open>lib/text_util.c\<close>.
    \<open>Crc16\<close>: \<open>lib/crc16.c\<close>. \<open>Datetime\<close>: \<open>lib/dt.c\<close>.
    \<open>Process_Util\<close>: \<open>lib/random_util.c\<close>, \<open>lib/time_util.c\<close>, \<open>lib/pid.c\<close>, \<open>lib/lock.c\<close>,
    \<open>lib/daemonize.c\<close>.
  \<^item> \<open>Client_Options\<close>, \<open>Pub_Client\<close>, \<open>Pub_Facts\<close>, \<open>Sub_Client\<close>: the clients
    \<open>tool/pub_example/pub_example.c\<close>, \<open>tool/sub_example/sub_example.c\<close> and
    \<open>sub_example_simple.c\<close>; \<open>Thread_Client\<close>: \<open>sub_example_thread.c\<close>, which has its own copies of
    the functions of \<open>sub_example.c\<close>, shown to agree with them where they do.
    \<open>Client_Options\<close> is what they share.
  \<^item> \<open>Kernel_List\<close>, \<open>Hash_List\<close>, \<open>List_Loops\<close>: the rings, the hash chains and the remaining loops
    of \<open>list.h\<close> on an explicit store of pointers, assignment by assignment.
  \<^item> \<open>Display\<close>, \<open>Client_Output\<close>: what the controller and the clients print (dumps of the registries
    and sessions, of the configuration and of the key store, usage texts, log lines) and the
    subscriptions they make. A function that prints is a function to the lines it prints, or
    to \<open>None\<close> where it would read through a null pointer.
  \<^item> \<open>Http\<close>: the codes of \<open>http.h\<close> and the classes it tests. \<open>Byte_Order\<close>: \<open>lib/bswap.h\<close>.
  \<^item> \<open>Unit_Tests\<close>, \<open>Lib_Examples\<close>: the programs of \<open>unit_test\<close> and \<open>lib/example\<close> on the models of
    the modules they call, with what they print.

  \<^bold>\<open>How the code is represented.\<close> A node of a registry is a record with the members of its
  \<open>struct\<close>; a registry is the list of its nodes, \<open>None\<close> for a null head. \<open>Kernel_List\<close> justifies
  this reading of the pointers. A pointer to a node is the contents of the node, and writing
  through it stores them in the node of the same name or identifier, which are shown to be
  unique. A handler takes the state (\<open>world\<close>) and returns it with its result code. Identifiers,
  times to live and waiting counters are 32-bit words with their wrap-around; enumerations and
  result codes are integers with the values of the headers. Each \<open>malloc\<close>, \<open>calloc\<close> and
  \<open>realloc\<close> whose failure the code tests takes one answer from a list of booleans in the state
  (an empty list answers yes), so that every error path is a branch; random numbers come from a
  list likewise. A result \<open>None\<close> is undefined behaviour (a null pointer read, a copy past a
  buffer, a JSON number that does not fit the integer it is converted to) where the theory says
  so; \<open>reachable\<close> follows the defined steps.

  \<^bold>\<open>Loops.\<close> There is no fuel. The two searches along the hooks (\<open>Rounds\<close>), the scan over a file
  (\<open>Ini\<close>) and the loop that connects (\<open>Config\<close>) are partial functions into \<open>option\<close>, in which
  \<open>None\<close> is a loop that never ends, and whether they end is proved: the searches when no hook
  cycle is reachable, and not otherwise; the file always; the connecting loop exactly when an
  attempt succeeds, a signal comes or the retries are bounded. In the clients, reading a file up
  to its announced size (\<open>load_file_loop\<close>) ends when the file is long enough, and not otherwise,
  and the loop of the threaded client (\<open>sub_thread_loop\<close>) ends with its first failure only. The
  event loops of \<open>main\<close> and of the subscribing client are given the list of their turns; the
  publishing client, whose callbacks run in a thread of their own, is the step relation
  \<open>pub_reachable\<close>, in which turns and callbacks come in any order.

  \<^bold>\<open>Interfaces.\<close> \<open>lock_table\<close> and \<open>framed_lock_table\<close> (locking by name; the loops over a chain
  of names are studied once and hold for both registries, \<open>comp_locks\<close> and \<open>res_locks\<close>);
  \<open>unlinkable_list\<close> and \<open>intrusive_list\<close> (lists of linked nodes, \<open>ring_list\<close> and
  \<open>hash_chain\<close>); \<open>key_store\<close> (stores of keys and values, \<open>ini_store\<close>).

  \<^bold>\<open>What is shown.\<close>
  \<^item> Mutual exclusion (\<open>Exclusion\<close>, and the first two properties below): \<open>reachable\<close> is the step
    relation of the callbacks and the clock. In each of its states no model belongs to two
    writing sessions and each model of one is registered and locked; and every state of the
    event loop of \<open>main\<close> is one of these states.
  \<^item> No lock leaks (\<open>Lock_Balance\<close>): with enough memory the locked models are exactly those of the
    writing sessions in flight, and locked resources are among their dependencies; with
    \<open>Session_Clock\<close>, every lock is released in time when nobody answers.
  \<^item> The whole controller: in the states reached with enough memory the registries and sessions are
    well formed (\<open>State_Invariant\<close>, \<open>Registry_Invariant\<close>), and every message is handled
    (\<open>Progress\<close>) unless the hooks have a cycle, no fresh tunnel is drawn, or a number in it does not
    fit its variable, where it is undefined; a session nobody
    answers lives as long as the smallest time to live of its step (\<open>Session_Clock\<close>).
  \<^item> Sessions: entering a step asks each of its models once; the step ends with the last answer;
    stopping, expiring and failing release exactly the locks of the chain; locking a chain
    succeeds exactly when its names are distinct, registered and free.
  \<^item> Requests: what is built, locked and sent for an accepted one, that one refused
    before its chain is built changes nothing, when the search for the chain ends, and who gets an event.
  \<^item> Registration: create and delete on both registries, their round trip, and that neither
    disturbs a session.
  \<^item> Data: registry invariants, refinement of the byte buffers and of the pointers, the wildcard
    scan against a declarative reading, the method table, bounds of the parsed header.
  \<^item> Start: what the configuration file contributes, the bounds of the settings, when connecting
    ends; the key store as a map under allocation failures, a round trip of configuration texts.
  \<^item> Helpers: the CRC table against the polynomial, trimming, date and time; timestamps and the PID file are read
    back as what was written; a daemon is the second child, leads no session, has its
    descriptors as asked, and ignores no signal where \<open>signal.h\<close> is not included.
  \<^item> Output: in every state reached with enough memory the dump of the controller is defined and
    shows each component, resource and session; the usage texts name exactly the options taken.
  \<^item> Clients: every option keeps the settings in their ranges; lines are published in order, once
    each, under every interleaving with the callbacks; a single message is sent once; a client
    whose reports all come before the end of its input waits until its connection is lost; the subscriber shows every
    message and subscribes anew with each connection.

  \<^bold>\<open>Parameters.\<close> The JSON library (\<open>jansson\<close>, a record of functions over an opaque heap) and the
  MQTT client (a log of publications, and the results of its calls in \<open>library\<close>) are not part
  of the sources; nothing is assumed of them except where a property says so. \<open>getopt\<close> is the
  list of options it returns, \<open>fopen\<close> a map from names to contents. The clock, the random source,
  the answers of \<open>fork\<close> and \<open>setsid\<close>, and of the calls to the client library, are arguments. \<open>atoi\<close> is \<open>strtol\<close> saturated
  at 64 bits and cut to 32, and \<open>char\<close> is sign-extended in the hash of \<open>ini.c\<close>, as on the platforms
  the program is built for.

  \<^bold>\<open>Not modelled.\<close> Functions that only free (\<open>sanji_config_free\<close>, \<open>sanji_userdata_free\<close> and the like;
  the loop by which the lists are taken apart is \<open>free_all\<close> in \<open>Kernel_List\<close>); debug and error
  messages printed on the way; the branches for Windows. Allocations that the code does not test
  (\<open>resource_lookup_wildcard_nodes_by_name\<close>, \<open>resource_remove_all_component_by_name\<close>,
  \<open>session_decref_ttl\<close>) are taken to succeed. Two writes and reads outside a buffer that no caller
  brings about are left out, where the definitions say so (\<open>component_add_node\<close> and
  \<open>resource_add_node\<close> with an array of no slots, the match functions of \<open>Topics\<close> with names as
  long as their buffers), and so is the read of a dump after a failed append (\<open>loop_turn\<close>). What a subscription has as its effect, and the reconnection of
  the client, are left to the client library.
\<close>

section \<open>A run of the controller\<close>

text \<open>The controller after its first connection, and a request to its own registration model.\<close>

definition connected_world :: "(unit, json) world" where
  "connected_world = snd (sanji_connect_callback (initial_world [7]))"

definition sample_docs :: "(string \<times> json) list" where
  "sample_docs =
     [(''r'', JObject [(''id'', JNumber 7), (''method'', JString ''post''),
                     (''resource'', JString ''/controller/registration''), (''data'', JObject [])]),
      (''c'', JObject [(''id'', JNumber 8), (''method'', JString ''post''),
                     (''resource'', JString ''/controller/registration''),
                     (''data'', JObject [(''name'', JString ''m''), (''description'', JString ''d''),
                        (''role'', JString ''model''), (''ttl'', JNumber 3),
                        (''resources'', JArray [JString ''/a''])])])]"

definition sample_message :: message where
  "sample_message = \<lparr> msg_topic = ''/controller'', msg_payload = Some ''r'', msg_payloadlen = 1,
                      msg_retain = False \<rparr>"

lemma connected_world_names:
  "map_option (map c_name) (w_components connected_world) = Some [''registration'', ''dependency'']"
  "w_sessions connected_world = Some []" "w_heap connected_world = []"
  by code_simp+

lemma connected_world_not_null:
  "w_resources connected_world \<noteq> None" "w_components connected_world \<noteq> None"
  "w_sessions connected_world \<noteq> None"
  by code_simp+

lemma connected_world_memory: "reachable_with_memory J connected_world"
  unfolding connected_world_def
  by (intro reachable_with_memory.connect reachable_with_memory.start) (simp_all add: initial_world_def)

lemma sample_run:
  "map_option (\<lambda>w. map_option (map claimed) (w_sessions w))
     (sanji_message_callback (static_json sample_docs) sample_message connected_world) =
   Some (Some [[''registration'']])"
  by code_simp

section \<open>Properties\<close>

text \<open>
  C1. Writers exclude each other: in every reachable state of the controller, whatever messages
  came in, however the clock ran, whatever the JSON library answered and whichever allocations
  failed, the sessions in flight have distinct identifiers, no model belongs to two writing
  sessions nor twice to one, and every model of a writing session is registered and locked.
\<close>

theorem writers_exclude_each_other:
  assumes "reachable J w" "w_sessions w = Some ss"
  shows "distinct (map s_id ss) \<and> distinct (concat (map claimed ss)) \<and>
    list_all (\<lambda>n. component_held (w_components w) n = Some True) (concat (map claimed ss))"
  by (rule models_exclusive_sessions[OF reachable_models_exclusive[OF assms(1)] assms(2)])

theorem writers_exclude_each_other_witness:
  "\<exists>w ss. reachable (static_json sample_docs) w \<and> w_sessions w = Some ss \<and>
     map claimed ss = [[''registration'']] \<and>
     component_held (w_components w) ''registration'' = Some True"
proof -
  obtain w ss where w: "sanji_message_callback (static_json sample_docs) sample_message connected_world = Some w"
    "w_sessions w = Some ss" "map claimed ss = [[''registration'']]"
    using sample_run by auto
  have "reachable (static_json sample_docs) (initial_world [7])"
    by (rule reachable.start) (simp_all add: initial_world_def)
  then have "reachable (static_json sample_docs) connected_world"
    unfolding connected_world_def by (rule reachable.connect)
  then have r: "reachable (static_json sample_docs) w" using w(1) by (rule reachable.message)
  show ?thesis using writers_exclude_each_other[OF r w(2)] r w by auto
qed

text \<open>
  C2. The program as a whole keeps writers apart: however it is started (options, configuration
  file, answers of the broker and of the client library) and whatever the callbacks, the clock
  and the signals of the turns of its event loop are, the state it runs in is one the step
  relation reaches from the empty controller, and in it the sessions have distinct
  identifiers, no model belongs to two writing sessions nor twice to one, and every model of a
  writing session is registered and locked; and it only runs after a start with valid settings
  and a connection.
\<close>

theorem program_keeps_writers_apart:
  assumes "sanji_main J L fopen opts m draws h turns = Some (Some (Inr st))"
    and "w_sessions (ls_world st) = Some ss"
  shows "reachable J (ls_world st) \<and> distinct (map s_id ss) \<and> distinct (concat (map claimed ss)) \<and>
    list_all (\<lambda>n. component_held (w_components (ls_world st)) n = Some True) (concat (map claimed ss)) \<and>
    (\<exists>c u m1. sanji_start (lib_id_max L) fopen opts m = Some (Some (m1, Inr (c, u))) \<and>
       sanji_validate_configs (lib_id_max L) c = 0 \<and> (\<exists>n. fst (lib_connect L n) = 0))"
proof -
  obtain m1 c u rc n fl retry where s: "sanji_start (lib_id_max L) fopen opts m = Some (Some (m1, Inr (c, u)))"
    "connect_loop (lib_err_inval L) (lib_connect L) (lib_signals L) 0
       \<lparr>sanji_run = True, sanji_dump = False\<rparr> (c_retry c) = Some (rc, n, fl, retry)" "rc = 0"
    by (rule main_running[OF assms(1)])
  have r: "reachable J (ls_world st)" using assms(1) by (rule main_reachable)
  have "\<exists>n. fst (lib_connect L n) = 0" using connect_result[OF s(2)] s(3) by auto
  moreover have "sanji_validate_configs (lib_id_max L) c = 0" using start_cases[OF s(1)] by blast
  ultimately show ?thesis
    using r models_exclusive_sessions[OF reachable_models_exclusive[OF r] assms(2)] s(1) by blast
qed

definition sample_library :: library where
  "sample_library = \<lparr>lib_daemonize = 0, lib_new = True, lib_pw_set = 0, lib_err_inval = 3,
     lib_connect = (\<lambda>n. (if n = 0 then 14 else 0, False)), lib_signals = (\<lambda>_. []), lib_id_max = 23\<rparr>"

definition sample_outcome :: "(int + (unit, json) loop_state) option option" where
  "sample_outcome =
     sanji_main (static_json sample_docs) sample_library (\<lambda>_. None) [(CHR ''f'', [])] [] [7] ()
       [\<lparr>t_signals = [], t_events = [Connected], t_time = 5\<rparr>,
        \<lparr>t_signals = [Sig_dump], t_events = [Message sample_message], t_time = 6\<rparr>]"

theorem program_keeps_writers_apart_witness:
  "\<exists>st ss. sample_outcome = Some (Some (Inr st)) \<and> w_sessions (ls_world st) = Some ss \<and>
     map claimed ss = [[''registration'']] \<and>
     component_held (w_components (ls_world st)) ''registration'' = Some True"
proof -
  have "(case sample_outcome of Some (Some (Inr st)) \<Rightarrow>
      map_option (map claimed) (w_sessions (ls_world st)) = Some [[''registration'']] | _ \<Rightarrow> False)"
    by code_simp
  then obtain st ss where st: "sample_outcome = Some (Some (Inr st))" "w_sessions (ls_world st) = Some ss"
    "map claimed ss = [[''registration'']]"
    by (auto split: option.splits sum.splits)
  show ?thesis
    using program_keeps_writers_apart[of "static_json sample_docs" sample_library "\<lambda>_. None"
        "[(CHR ''f'', [])]" "[]" "[7]" "()" _ st ss] st
    by (auto simp: sample_outcome_def)
qed

text \<open>
  C6. A session that nobody answers lives exactly as long as the smallest time to live of its
  step, whatever the turns of the event loop that the time is divided into: when all answers
  can be dumped and only the clock goes on, from a reachable state with its clock running and
  time left for every session, the loop runs on without fault, and the sessions left after
  d seconds are those with more than d seconds left
  in every time to live of their step, in their order and counted down by d. The state reached
  is reachable again. (A step without models has no time to live, and never ends this way.)
\<close>

theorem session_lives_its_time:
  assumes "dumps_all J" "reachable J (ls_world st)" "sanji_run (ls_flags st)" "0 < ls_last_time st"
    and "w_sessions (ls_world st) = Some ss" "list_all (outlives 0) ss"
    and "list_all quiet ts" "sorted (ls_last_time st # map t_time ts)"
    and "d = last (ls_last_time st # map t_time ts) - ls_last_time st" "d < 2 ^ 31"
  shows "\<exists>st'. main_loop J ts st = Some st' \<and> reachable J (ls_world st') \<and>
    w_sessions (ls_world st') = Some (map (aged (word_of_int d)) (filter (outlives d) ss))"
proof -
  have "clocked ss"
    using reachable_sessions_ok[OF assms(1,2)] ids_distinct_exclusive[OF reachable_models_exclusive[OF assms(2)]]
      assms(5,6)
    by (simp add: clocked_def sessions_ok_def session_ok_def ids_distinct_def list_all_iff)
  then show ?thesis
    using quiet_turns[OF assms(1,7,8,3,4,5) _ assms(9,10)] main_loop_reachable assms(2)
    by (fastforce simp: after_seconds_def)
qed

abbreviation (input) quiet_at :: "int \<Rightarrow> turn" where
  "quiet_at n \<equiv> \<lparr>t_signals = [], t_events = [], t_time = n\<rparr>"

theorem session_lives_its_time_witness:
  "\<exists>st st1 st2. sample_outcome = Some (Some (Inr st)) \<and>
     main_loop (static_json sample_docs) [quiet_at 9, quiet_at 14] st = Some st1 \<and>
     map_option (map s_id) (w_sessions (ls_world st1)) = Some [7] \<and>
     main_loop (static_json sample_docs) [quiet_at 9, quiet_at 15] st = Some st2 \<and>
     w_sessions (ls_world st2) = Some []"
proof -
  have "(case sample_outcome of Some (Some (Inr st)) \<Rightarrow>
      sanji_run (ls_flags st) \<and> ls_last_time st = 6 \<and>
      map_option (map s_id) (w_sessions (ls_world st)) = Some [7] \<and>
      map_option (list_all (outlives 8)) (w_sessions (ls_world st)) = Some True \<and>
      map_option (list_ex (outlives 9)) (w_sessions (ls_world st)) = Some False | _ \<Rightarrow> False)"
    by code_simp
  then obtain st ss where st: "sample_outcome = Some (Some (Inr st))" "sanji_run (ls_flags st)"
    "ls_last_time st = 6" "w_sessions (ls_world st) = Some ss" "map s_id ss = [7]"
    "list_all (outlives 8) ss" "\<not> list_ex (outlives 9) ss"
    by (auto split: option.splits sum.splits)
  have r: "reachable (static_json sample_docs) (ls_world st)"
    using st(1) unfolding sample_outcome_def by (rule main_reachable)
  have o: "list_all (outlives 0) ss" "filter (outlives 8) ss = ss" "filter (outlives 9) ss = []"
    using st(6,7) outlives_mono[of 8 _ 0] by (auto simp: list_all_iff list_ex_iff filter_empty_conv)
  show ?thesis
    using session_lives_its_time[OF static_json_dumps r st(2) _ st(4) o(1), of "[quiet_at 9, quiet_at 14]" 8]
      session_lives_its_time[OF static_json_dumps r st(2) _ st(4) o(1), of "[quiet_at 9, quiet_at 15]" 9]
      st(1,3,5) o(2,3)
    by (auto simp: quiet_def comp_def)
qed

text \<open>
  C8. The data of the controller are well formed in every state it reaches with enough memory,
  when the JSON library gives C strings and can dump every answer: both registries have unique
  names, every field of a component and every name of a resource ends inside its buffer, every
  array of hooks or subscribers has as many terminated slots as its count says; the sessions
  have distinct identifiers, each stands on a step of its chain, and each step has as many times
  to live as models. So a tick of the clock never reads outside a chain.
\<close>

theorem controller_state_well_formed:
  assumes "dumps_all J" "c_texts J" "reachable_with_memory J w"
  shows "components_ok (w_components w) \<and> resources_ok (w_resources w) \<and>
    (\<forall>ss. w_sessions w = Some ss \<longrightarrow> distinct (map s_id ss) \<and> list_all session_ok ss) \<and>
    (\<exists>w'. sanji_refresh_session J last_time now_time w = Some (now_time, w'))"
proof -
  have r: "reachable J w" using memory_reachable[OF assms(3)] .
  have d: "ids_distinct w" using ids_distinct_exclusive[OF reachable_models_exclusive[OF r]] .
  have s: "sessions_ok w" using reachable_sessions_ok[OF assms(1) r] .
  show ?thesis
    using reachable_registries_ok[OF assms(2,3)] s d refresh_sessions_ok[OF assms(1) s d]
    by (auto simp: registries_ok_def sessions_ok_def ids_distinct_def)
qed

theorem controller_state_well_formed_witness:
  "\<exists>w. sanji_message_callback (static_json sample_docs) sample_message connected_world = Some w \<and>
     components_ok (w_components w) \<and> resources_ok (w_resources w) \<and>
     map_option (list_all session_ok) (w_sessions w) = Some True"
proof -
  obtain w ss where w: "sanji_message_callback (static_json sample_docs) sample_message connected_world = Some w"
    "w_sessions w = Some ss"
    using sample_run by auto
  have "reachable_with_memory (static_json sample_docs) w"
    by (rule reachable_with_memory.message[OF connected_world_memory connected_world_names(3) w(1)])
  from controller_state_well_formed[OF static_json_dumps static_json_texts this] show ?thesis
    using w by auto
qed

text \<open>
  C3. No lock leaks: in every state the controller reaches with enough memory, when the JSON
  library gives C strings and can dump every answer, the locked models are exactly the models
  of the writing sessions in flight, and a locked resource is a dependency of one of them. So
  whatever happened before (refused requests, failed locks, errors, expired sessions,
  registrations in between), nothing is locked when no session is in flight. (A resource of a
  session may be free, for a failed lock releases the locks of others.)
\<close>

theorem no_lock_leaks:
  assumes "dumps_all J" "c_texts J" "reachable_with_memory J w" "w_sessions w = Some ss"
  shows "{n. component_held (w_components w) n = Some True} = set (concat (map claimed ss)) \<and>
    {d. resource_held (w_resources w) d = Some True} \<subseteq> set (concat (map dep_chain ss))"
  by (rule balanced_locks[OF reachable_models_exclusive[OF memory_reachable[OF assms(3)]]
        reachable_balanced[OF assms(1-3)] assms(4)])

theorem no_lock_leaks_witness:
  "\<exists>w. sanji_message_callback (static_json sample_docs) sample_message connected_world = Some w \<and>
     {n. component_held (w_components w) n = Some True} = {''registration''} \<and>
     resource_held (w_resources w) ''/controller/registration'' = Some True \<and>
     {d. resource_held (w_resources w) d = Some True} \<subseteq>
       {''/controller/registration'', ''/controller/registration/+''}"
proof -
  have "map_option (\<lambda>w. (map_option (map claimed) (w_sessions w), map_option (map dep_chain) (w_sessions w),
        resource_held (w_resources w) ''/controller/registration''))
      (sanji_message_callback (static_json sample_docs) sample_message connected_world) =
    Some (Some [[''registration'']], Some [[''/controller/registration'', ''/controller/registration/+'']], Some True)"
    by code_simp
  then obtain w ss where w: "sanji_message_callback (static_json sample_docs) sample_message connected_world = Some w"
    "w_sessions w = Some ss" "map claimed ss = [[''registration'']]"
    "map dep_chain ss = [[''/controller/registration'', ''/controller/registration/+'']]"
    "resource_held (w_resources w) ''/controller/registration'' = Some True"
    by auto
  have "reachable_with_memory (static_json sample_docs) w"
    by (rule reachable_with_memory.message[OF connected_world_memory connected_world_names(3) w(1)])
  from no_lock_leaks[OF static_json_dumps static_json_texts this w(2)] show ?thesis using w by auto
qed

text \<open>
  C7. What a client locked becomes free in time even if no model ever answers: from a state
  reached with enough memory, with time left for every session, the event loop left to itself
  for as long as the smallest time to live of the step of each session runs on without fault to
  a state in which no session is in flight and no model and no resource is locked.
\<close>

theorem locks_expire:
  assumes "dumps_all J" "c_texts J" "reachable_with_memory J (ls_world st)"
    and "sanji_run (ls_flags st)" "0 < ls_last_time st"
    and "w_sessions (ls_world st) = Some ss" "list_all (outlives 0) ss"
    and "list_all quiet ts" "sorted (ls_last_time st # map t_time ts)"
    and "d = last (ls_last_time st # map t_time ts) - ls_last_time st" "d < 2 ^ 31"
    and "list_all (\<lambda>s. \<not> outlives d s) ss"
  shows "\<exists>st'. main_loop J ts st = Some st' \<and> w_sessions (ls_world st') = Some [] \<and>
    {n. component_held (w_components (ls_world st')) n = Some True} = {} \<and>
    {r. resource_held (w_resources (ls_world st')) r = Some True} = {}"
proof -
  have c: "clocked ss"
    using reachable_sessions_ok[OF assms(1) memory_reachable[OF assms(3)]]
      ids_distinct_exclusive[OF reachable_models_exclusive[OF memory_reachable[OF assms(3)]]] assms(6,7)
    by (simp add: clocked_def sessions_ok_def session_ok_def ids_distinct_def list_all_iff)
  have "after_seconds d ss = []" using assms(12) by (simp add: after_seconds_def list_all_iff)
  then obtain st' where st': "main_loop J ts st = Some st'" "w_sessions (ls_world st') = Some []"
    using quiet_turns[OF assms(1,8,9,4,5,6) c assms(10,11)] by auto
  have r: "reachable_with_memory J (ls_world st')" using quiet_loop_memory assms(3,8) st'(1) by blast
  show ?thesis
    using balanced_locks[OF reachable_models_exclusive[OF memory_reachable[OF r]]
        reachable_balanced[OF assms(1,2) r] st'(2)] st'
    by simp
qed

theorem locks_expire_witness:
  "\<exists>w st'. sanji_message_callback (static_json sample_docs) sample_message connected_world = Some w \<and>
     component_held (w_components w) ''registration'' = Some True \<and>
     main_loop (static_json sample_docs) [quiet_at 9, quiet_at 16]
       \<lparr>ls_world = w, ls_flags = \<lparr>sanji_run = True, sanji_dump = False\<rparr>, ls_last_time = 6\<rparr> = Some st' \<and>
     {n. component_held (w_components (ls_world st')) n = Some True} = {} \<and>
     {r. resource_held (w_resources (ls_world st')) r = Some True} = {}"
proof -
  have "map_option (\<lambda>w. (component_held (w_components w) ''registration'',
        map_option (list_all (outlives 0)) (w_sessions w), map_option (list_ex (outlives 10)) (w_sessions w)))
      (sanji_message_callback (static_json sample_docs) sample_message connected_world) =
    Some (Some True, Some True, Some False)"
    by code_simp
  then obtain w ss where w: "sanji_message_callback (static_json sample_docs) sample_message connected_world = Some w"
    "w_sessions w = Some ss" "component_held (w_components w) ''registration'' = Some True"
    "list_all (outlives 0) ss" "\<not> list_ex (outlives 10) ss"
    by auto
  have r: "reachable_with_memory (static_json sample_docs) w"
    by (rule reachable_with_memory.message[OF connected_world_memory connected_world_names(3) w(1)])
  let ?st = "\<lparr>ls_world = w, ls_flags = \<lparr>sanji_run = True, sanji_dump = False\<rparr>, ls_last_time = 6\<rparr>"
  have "list_all (\<lambda>s. \<not> outlives 10 s) ss" using w(5) by (simp add: list_ex_iff list_all_iff)
  then show ?thesis
    using locks_expire[OF static_json_dumps static_json_texts, of sample_docs ?st ss "[quiet_at 9, quiet_at 16]" 10]
      r w by (auto simp: quiet_def)
qed

text \<open>The numbers of the sample documents fit, whatever the message asks for.\<close>

lemma sample_loads: "json_loads (static_json sample_docs) h t = (map_of sample_docs t, h)"
  by (simp add: static_json_def)

abbreviation (input) sample_data :: "json \<Rightarrow> json option" where
  "sample_data r \<equiv>
     typed_member (static_json sample_docs) () (Some r) ''data'' (json_is_object (static_json sample_docs))"

lemma sample_docs_fit:
  assumes "map_of sample_docs t = Some r"
  shows "header_fits (static_json sample_docs) () (Some r)"
    "number_fits (static_json sample_docs) () (sample_data r) ''ttl'' (- (2 ^ 31)) (2 ^ 31)"
proof -
  have "list_all (\<lambda>(t, r). header_fits (static_json sample_docs) () (Some r)) sample_docs"
    "list_all (\<lambda>(t, r). number_fits (static_json sample_docs) () (sample_data r) ''ttl'' (- (2 ^ 31)) (2 ^ 31))
       sample_docs"
    by code_simp+
  then show "header_fits (static_json sample_docs) () (Some r)"
    "number_fits (static_json sample_docs) () (sample_data r) ''ttl'' (- (2 ^ 31)) (2 ^ 31)"
    using map_of_SomeD[OF assms] by (auto simp: list_all_iff)
qed

lemma sample_numbers_fit: "numbers_fit (static_json sample_docs) msg w"
proof -
  have n: "number_fits (static_json sample_docs) () None ''ttl'' (- (2 ^ 31)) (2 ^ 31)" by code_simp
  have "number_fits (static_json sample_docs) () (x_data x) ''ttl'' (- (2 ^ 31)) (2 ^ 31)"
    if "sanji_parse_context (static_json sample_docs) (msg_payload msg) empty_context (w_json w) = Some (ret, root, x, h1)"
    for ret root x h1
  proof -
    have "x_data x = None \<or> (\<exists>t r. map_of sample_docs t = Some r \<and> x_data x = sample_data r)"
      using that by (auto simp: sanji_parse_context_def sample_loads split: option.splits) metis+
    then show ?thesis using n sample_docs_fit(2) by auto
  qed
  then show ?thesis
    using sample_docs_fit(1)
    by (auto simp: numbers_fit_def ttl_fits_def sample_loads split: option.split)
qed

text \<open>
  C9. Every message whose numbers fit is handled: once the controller is connected, with memory,
  hooks without a cycle and a random number left that gives a fresh tunnel, the message callback
  returns in every state it reaches, whatever the message and whatever the JSON library makes
  of it, as long as its strings are C strings, its identifier fits an unsigned 32-bit integer
  and its code a signed one, and so does the time to live of a registration. (For other numbers
  the conversion of the double is undefined.) So no handler reads a null pointer, an unterminated
  slot or a step outside a chain, and every loop ends; and the registries stay well formed.
\<close>

theorem every_message_is_handled:
  assumes "c_texts J" "reachable_with_memory J w" "w_heap w = []"
    and "w_resources w = Some rs" "w_components w = Some cs" "hooks_ranked rank cs"
    and "pick_tunnel (Some cs) (w_rand w) \<noteq> None" "numbers_fit J msg w"
  shows "\<exists>w'. sanji_message_callback J msg w = Some w' \<and>
    components_ok (w_components w') \<and> resources_ok (w_resources w')"
proof -
  have ok: "resources_ok (Some rs)" "components_ok (Some cs)"
    using reachable_registries_ok[OF assms(1,2)] assms(4,5) by (simp_all add: registries_ok_def)
  obtain w' where w': "sanji_message_callback J msg w = Some w'"
    using message_returns[OF assms(3,4) ok(1) assms(5) ok(2) assms(6) _ assms(8)] assms(5,7) by force
  from reachable_registries_ok[OF assms(1) reachable_with_memory.message[OF assms(2,3) this]]
  show ?thesis using w' by (simp add: registries_ok_def)
qed

theorem every_message_is_handled_witness:
  "\<forall>msg. \<exists>w'. sanji_message_callback (static_json sample_docs) msg connected_world = Some w' \<and>
     components_ok (w_components w') \<and> resources_ok (w_resources w')"
proof -
  have "map_option (hooks_ranked (\<lambda>_. 0)) (w_components connected_world) = Some True \<and>
      pick_tunnel (w_components connected_world) (w_rand connected_world) = Some (''7'', [])"
    by code_simp
  then obtain cs where cs: "w_components connected_world = Some cs" "hooks_ranked (\<lambda>_. 0) cs"
    "pick_tunnel (Some cs) (w_rand connected_world) \<noteq> None" by force
  obtain rs where "w_resources connected_world = Some rs" using connected_world_not_null(1) by blast
  from every_message_is_handled[OF static_json_texts connected_world_memory connected_world_names(3) this cs
      sample_numbers_fit]
  show ?thesis by blast
qed

text \<open>
  C20. Registering and unregistering never disturbs sessions in flight: whatever the request to
  the registration procedure and whatever it answers, the list of sessions stays as it is and
  no held model lock is lost, so no model of a running session can be removed.
\<close>

theorem registration_keeps_sessions_and_locks:
  assumes "register_procedure J sid me tp data w = Some (ret, w')"
    and "component_held (w_components w) n = Some True"
  shows "w_sessions w' = w_sessions w \<and> component_held (w_components w') n = Some True"
  using register_procedure_harmless[OF assms(1)] assms(2)
  by (simp add: harmless_def keeps_locks_def)

theorem registration_keeps_sessions_and_locks_witness:
  "\<exists>ret w'. register_procedure (static_json []) 5 RESOURCE_METHOD_DELETE
      ''/controller/registration/b'' None
      (sample_world\<lparr>w_components := Some [sample_component\<lparr>c_lock := 1\<rparr>]\<rparr>) = Some (ret, w') \<and>
    component_held (w_components w') ''b'' = Some True"
proof -
  obtain w where w: "w = sample_world\<lparr>w_components := Some [sample_component\<lparr>c_lock := 1\<rparr>]\<rparr>" by simp
  have h: "component_held (w_components w) ''b'' = Some True" unfolding w by code_simp
  have "register_procedure (static_json []) 5 RESOURCE_METHOD_DELETE
      ''/controller/registration/b'' None w \<noteq> None" unfolding w by code_simp
  then obtain ret w' where e: "register_procedure (static_json []) 5 RESOURCE_METHOD_DELETE
      ''/controller/registration/b'' None w = Some (ret, w')" by force
  show ?thesis using registration_keeps_sessions_and_locks[OF e h] e by (auto simp: w)
qed

text \<open>
  Connecting again changes nothing: with the three lists allocated and both built-in models
  registered, the callback reports success and leaves the state exactly as it is, sessions in
  flight and locks included.
\<close>

lemma reconnect_keeps_state:
  assumes "w_resources w \<noteq> None" "w_components w \<noteq> None" "w_sessions w \<noteq> None"
    and "component_is_registered (w_components w) (Some ''registration'') = 1"
    and "component_is_registered (w_components w) (Some ''dependency'') = 1"
  shows "sanji_connect_callback w = (True, w)"
  using assms by (auto simp: sanji_connect_callback_def register_builtin_def)

lemma reconnect_keeps_state_witness:
  "sanji_connect_callback connected_world = (True, connected_world) \<and>
   map_option (map c_name) (w_components connected_world) = Some [''registration'', ''dependency'']"
proof -
  have "component_is_registered (w_components connected_world) (Some ''registration'') = 1"
    "component_is_registered (w_components connected_world) (Some ''dependency'') = 1"
    by code_simp+
  then show ?thesis
    using reconnect_keeps_state[OF connected_world_not_null] connected_world_names(1) by blast
qed


text \<open>
  C32. Parsing never overruns a buffer: whatever the payload and the JSON values in it, parsing
  a context is defined exactly when the identifier and the code of the context, where they are
  numbers, fit their variables; and then the resource and tunnel of a parsed context end inside
  their buffers, and a payload that does not parse leaves the header as it was.
\<close>

theorem parsed_header_in_bounds:
  assumes "length (x_resource x) < RESOURCE_NAME_LEN" "length (x_tunnel x) < COMPONENT_TUNNEL_LEN"
  shows "((\<exists>ret root x' h'. sanji_parse_context J payload x h = Some (ret, root, x', h')) \<longleftrightarrow>
      (\<forall>t r h'. payload = Some t \<and> json_loads J h t = (Some r, h') \<longrightarrow>
        number_fits J h' (Some r) ''id'' 0 (2 ^ 32) \<and> number_fits J h' (Some r) ''code'' (- (2 ^ 31)) (2 ^ 31))) \<and>
    (\<forall>ret root x' h'. sanji_parse_context J payload x h = Some (ret, root, x', h') \<longrightarrow>
      length (x_resource x') < RESOURCE_NAME_LEN \<and> length (x_tunnel x') < COMPONENT_TUNNEL_LEN \<and>
      (ret = SANJI_SUCCESS \<or> x' = x))"
proof -
  have str: "length (parse_string J h' r key n) < n" if "0 < n" for h' r key n
    using that by (auto simp: parse_string_def min_less_iff_disj split: option.split)
  have "(\<exists>ret root x' h'. sanji_parse_context J payload x h = Some (ret, root, x', h')) \<longleftrightarrow>
      sanji_parse_context J payload x h \<noteq> None"
    by (auto simp del: not_None_eq simp: not_None_eq)
  moreover have "length (x_resource x') < RESOURCE_NAME_LEN \<and> length (x_tunnel x') < COMPONENT_TUNNEL_LEN \<and>
      (ret = SANJI_SUCCESS \<or> x' = x)"
    if "sanji_parse_context J payload x h = Some (ret, root, x', h')" for ret root x' h'
    using that assms str by (auto simp: sanji_parse_context_def split: option.splits prod.splits)
  ultimately show ?thesis by (auto simp: parse_context_None header_fits_def)
qed

theorem parsed_header_in_bounds_witness:
  "\<exists>ret root x' h'. sanji_parse_context (static_json sample_docs) (Some ''r'') empty_context () =
      Some (ret, root, x', h') \<and> length (x_resource x') < RESOURCE_NAME_LEN"
proof -
  have "header_fits (static_json sample_docs) () (snd (hd (map (\<lambda>(t, r). (t, Some r)) sample_docs)))" by code_simp
  then have "\<forall>t r h'. Some ''r'' = Some t \<and> json_loads (static_json sample_docs) () t = (Some r, h') \<longrightarrow>
      number_fits (static_json sample_docs) h' (Some r) ''id'' 0 (2 ^ 32) \<and>
      number_fits (static_json sample_docs) h' (Some r) ''code'' (- (2 ^ 31)) (2 ^ 31)"
    by (auto simp: static_json_def sample_docs_def header_fits_def)
  then show ?thesis
    using parsed_header_in_bounds[of "empty_context" "static_json sample_docs" "Some ''r''" "()"] by fastforce
qed

end
